(* ===== verification/Prelude.thy ===== *)
theory Prelude
  imports Main "HOL-Library.Sublist" "HOL-Library.Word"
begin

section \<open>Shared types, automation and generic lemmas\<close>

text \<open>
  What every component theory uses: the result type of fallible Rust code, Rust's string
  operations on strings of bytes (a Rust \<^verbatim>\<open>str\<close> is its UTF-8 bytes, and a HOL \<open>char\<close> is
  one byte), the integer operations whose width matters, and facts on maps and lists that
  several components share.
\<close>

named_theorems path_simps \<open>rewrite rules on slash-separated paths\<close>
named_theorems cache_simps \<open>rewrite rules on the caches of a mounted provider\<close>
named_theorems store_simps \<open>rewrite rules on the automation store\<close>
named_theorems run_intros \<open>introduction rules for reachable states\<close>

subsection \<open>Results\<close>

text \<open>A Rust \<^verbatim>\<open>Result<A, E>\<close>: \<open>Inl\<close> is \<^verbatim>\<open>Err\<close>, \<open>Inr\<close> is \<^verbatim>\<open>Ok\<close>.\<close>

type_synonym ('e, 'a) res = "'e + 'a"

abbreviation Err :: "'e \<Rightarrow> ('e, 'a) res" where "Err \<equiv> Inl"
abbreviation Ok :: "'a \<Rightarrow> ('e, 'a) res" where "Ok \<equiv> Inr"

fun is_ok :: "('e, 'a) res \<Rightarrow> bool" where
  "is_ok (Inr _) = True"
| "is_ok (Inl _) = False"

fun ok_opt :: "('e, 'a) res \<Rightarrow> 'a option" where
  "ok_opt (Inr a) = Some a"
| "ok_opt (Inl _) = None"

fun map_err :: "('e \<Rightarrow> 'f) \<Rightarrow> ('e, 'a) res \<Rightarrow> ('f, 'a) res" where
  "map_err f (Inl e) = Inl (f e)"
| "map_err f (Inr a) = Inr a"

fun map_ok :: "('a \<Rightarrow> 'b) \<Rightarrow> ('e, 'a) res \<Rightarrow> ('e, 'b) res" where
  "map_ok f (Inl e) = Inl e"
| "map_ok f (Inr a) = Inr (f a)"

text \<open>\<^verbatim>\<open>Option::unwrap_or\<close>.\<close>

fun the_default :: "'a \<Rightarrow> 'a option \<Rightarrow> 'a" where
  "the_default d None = d"
| "the_default d (Some a) = a"

text \<open>The \<^verbatim>\<open>?\<close> operator, and \<^verbatim>\<open>iter().map(f).collect::<Result<Vec<_>, _>>()\<close>.\<close>

fun and_then :: "('e, 'a) res \<Rightarrow> ('a \<Rightarrow> ('e, 'b) res) \<Rightarrow> ('e, 'b) res" where
  "and_then (Inl e) f = Inl e"
| "and_then (Inr a) f = f a"

fun traverse :: "('a \<Rightarrow> ('e, 'b) res) \<Rightarrow> 'a list \<Rightarrow> ('e, 'b list) res" where
  "traverse f [] = Inr []"
| "traverse f (x # xs) =
     (case f x of Inl e \<Rightarrow> Inl e | Inr y \<Rightarrow> map_ok (\<lambda>ys. y # ys) (traverse f xs))"

lemma and_then_Inr: "and_then r f = Inr b \<longleftrightarrow> (\<exists>a. r = Inr a \<and> f a = Inr b)"
  by (cases r) auto

lemma is_ok_iff: "is_ok r \<longleftrightarrow> (\<exists>a. r = Inr a)"
  by (cases r) auto

lemma is_ok_map_err [simp]: "is_ok (map_err f r) = is_ok r"
  by (cases r) auto

lemma map_err_Inr [simp]: "map_err f r = Inr a \<longleftrightarrow> r = Inr a"
  by (cases r) auto

lemma map_err_Inl: "map_err f r = Inl e \<longleftrightarrow> (\<exists>e'. r = Inl e' \<and> e = f e')"
  by (cases r) auto

lemma map_ok_Inr: "map_ok f r = Inr b \<longleftrightarrow> (\<exists>a. r = Inr a \<and> b = f a)"
  by (cases r) auto

lemma traverse_Ok:
  "(\<And>x. x \<in> set xs \<Longrightarrow> f x = Inr (g x)) \<Longrightarrow> traverse f xs = Inr (map g xs)"
  by (induction xs) auto

subsection \<open>Bytes and machine integers\<close>

type_synonym byte = "8 word"
type_synonym bytes = "byte list"

definition str_bytes :: "string \<Rightarrow> bytes" where
  "str_bytes s = map of_char s"

definition bytes_str :: "bytes \<Rightarrow> string" where
  "bytes_str bs = map (\<lambda>b. char_of (unat b)) bs"

lemma bytes_str_str_bytes [simp]: "bytes_str (str_bytes s) = s"
proof -
  have "char_of (unat (of_char c :: 8 word)) = c" for c :: char
  proof -
    have "(of_char c :: nat) < 256" by (rule nat_of_char_less_256)
    moreover have "(of_char c :: 8 word) = word_of_nat (of_char c)" by (simp add: of_nat_of_char)
    ultimately have "unat (of_char c :: 8 word) = of_char c" by (simp only: unat_of_nat) simp
    then show ?thesis by simp
  qed
  then show ?thesis by (simp add: str_bytes_def bytes_str_def comp_def map_idI)
qed

lemma of_char_of_byte: "of_char (char_of (unat b)) = (b :: byte)"
proof -
  have "unat b < 256" using unsigned_less [of b] by simp
  then have n: "(of_char (char_of (unat b)) :: nat) = unat b" by simp
  have "(of_char (char_of (unat b)) :: byte) = of_nat (of_char (char_of (unat b)))"
    by (simp only: of_nat_of_char)
  then show ?thesis by (simp only: n) simp
qed

definition u64_max :: nat where "u64_max = 2 ^ 64 - 1"

text \<open>\<^verbatim>\<open>u64::saturating_add\<close>.\<close>

definition sat_add64 :: "nat \<Rightarrow> nat \<Rightarrow> nat" where
  "sat_add64 a b = min (a + b) u64_max"

lemma sat_add64_le: "sat_add64 a b \<le> a + b"
  by (simp add: sat_add64_def)

lemma sat_add64_exact: "a + b \<le> u64_max \<Longrightarrow> sat_add64 a b = a + b"
  by (simp add: sat_add64_def)

text \<open>\<^verbatim>\<open>x as i64\<close> for an unsigned 64-bit value: two's complement.\<close>

definition as_i64 :: "nat \<Rightarrow> int" where
  "as_i64 n = (if n < 2 ^ 63 then int n else int n - 2 ^ 64)"

subsection \<open>Rust string operations\<close>

definition starts_with :: "string \<Rightarrow> string \<Rightarrow> bool" where
  "starts_with s p = prefix p s"

definition ends_with :: "string \<Rightarrow> string \<Rightarrow> bool" where
  "ends_with s p = suffix p s"

definition strip_prefix :: "string \<Rightarrow> string \<Rightarrow> string option" where
  "strip_prefix s p = (if prefix p s then Some (drop (length p) s) else None)"

definition trim_start_matches :: "string \<Rightarrow> char \<Rightarrow> string" where
  "trim_start_matches s c = dropWhile (\<lambda>x. x = c) s"

definition trim_end_matches :: "string \<Rightarrow> char \<Rightarrow> string" where
  "trim_end_matches s c = rev (dropWhile (\<lambda>x. x = c) (rev s))"

definition trim_matches :: "string \<Rightarrow> char \<Rightarrow> string" where
  "trim_matches s c = trim_end_matches (trim_start_matches s c) c"

text \<open>\<^verbatim>\<open>str::rsplit_once\<close> on a character: split at its last occurrence.\<close>

definition rsplit_once :: "string \<Rightarrow> char \<Rightarrow> (string \<times> string) option" where
  "rsplit_once s c =
     (if c \<in> set s
      then Some (rev (tl (dropWhile (\<lambda>x. x \<noteq> c) (rev s))), rev (takeWhile (\<lambda>x. x \<noteq> c) (rev s)))
      else None)"

fun split_on :: "char \<Rightarrow> string \<Rightarrow> string list" where
  "split_on c [] = [[]]"
| "split_on c (x # xs) =
     (if x = c then [] # split_on c xs
      else (case split_on c xs of [] \<Rightarrow> [[x]] | w # ws \<Rightarrow> (x # w) # ws))"

lemma strip_prefix_Some: "strip_prefix s p = Some r \<longleftrightarrow> s = p @ r"
  by (auto simp: strip_prefix_def prefix_def)

lemma strip_prefix_None: "strip_prefix s p = None \<longleftrightarrow> \<not> prefix p s"
  by (simp add: strip_prefix_def)

lemma strip_prefix_append [simp]: "strip_prefix (p @ r) p = Some r"
  by (simp add: strip_prefix_Some)

lemma trim_end_decomp: "\<exists>n. s = trim_end_matches s c @ replicate n c"
proof -
  have "rev s = takeWhile (\<lambda>x. x = c) (rev s) @ dropWhile (\<lambda>x. x = c) (rev s)" by simp
  then have "s = rev (dropWhile (\<lambda>x. x = c) (rev s)) @ rev (takeWhile (\<lambda>x. x = c) (rev s))"
    by (metis rev_append rev_rev_ident)
  moreover have "rev (takeWhile (\<lambda>x. x = c) (rev s)) = replicate (length (takeWhile (\<lambda>x. x = c) (rev s))) c"
    by (rule replicate_eqI) (auto dest: set_takeWhileD)
  ultimately show ?thesis unfolding trim_end_matches_def by metis
qed

lemma trim_end_last: "trim_end_matches s c \<noteq> [] \<Longrightarrow> last (trim_end_matches s c) \<noteq> c"
  by (metis (mono_tags, lifting) hd_dropWhile last_rev rev.simps(1) rev_rev_ident trim_end_matches_def)

lemma trim_end_id: "s = [] \<or> last s \<noteq> c \<Longrightarrow> trim_end_matches s c = s"
  by (cases s rule: rev_cases) (auto simp: trim_end_matches_def)

lemma trim_end_idem [simp]: "trim_end_matches (trim_end_matches s c) c = trim_end_matches s c"
  using trim_end_id trim_end_last by blast

lemma trim_end_Nil [simp]: "trim_end_matches [] c = []"
  by (simp add: trim_end_matches_def)

lemma trim_end_snoc [simp]:
  "trim_end_matches (s @ [x]) c = (if x = c then trim_end_matches s c else s @ [x])"
  by (simp add: trim_end_matches_def)

lemma trim_end_eq_Nil: "trim_end_matches s c = [] \<longleftrightarrow> (\<forall>x \<in> set s. x = c)"
  by (auto simp: trim_end_matches_def)

lemma trim_end_append:
  "trim_end_matches (s @ t) c =
     (if \<forall>x \<in> set t. x = c then trim_end_matches s c else s @ trim_end_matches t c)"
  by (simp add: trim_end_matches_def dropWhile_append)

lemma rsplit_once_Some:
  "rsplit_once s c = Some (a, b) \<longleftrightarrow> s = a @ c # b \<and> c \<notin> set b"
proof
  assume "rsplit_once s c = Some (a, b)"
  then have c: "c \<in> set s" and a: "a = rev (tl (dropWhile (\<lambda>x. x \<noteq> c) (rev s)))"
    and b: "b = rev (takeWhile (\<lambda>x. x \<noteq> c) (rev s))"
    by (auto simp: rsplit_once_def split: if_splits)
  from c have ne: "dropWhile (\<lambda>x. x \<noteq> c) (rev s) \<noteq> []" by (auto simp: dropWhile_eq_Nil_conv)
  then have hd: "hd (dropWhile (\<lambda>x. x \<noteq> c) (rev s)) = c"
    by (metis (mono_tags, lifting) hd_dropWhile)
  from ne hd have "dropWhile (\<lambda>x. x \<noteq> c) (rev s) = c # rev a" by (metis a list.collapse rev_rev_ident)
  then have "rev s = rev b @ c # rev a"
    by (metis b rev_rev_ident takeWhile_dropWhile_id)
  then have "s = a @ c # b" by (metis rev_append rev.simps(2) rev_rev_ident append.assoc append_Cons append_Nil)
  moreover have "c \<notin> set b" by (auto simp: b dest: set_takeWhileD)
  ultimately show "s = a @ c # b \<and> c \<notin> set b" by blast
next
  assume "s = a @ c # b \<and> c \<notin> set b"
  then show "rsplit_once s c = Some (a, b)"
    by (simp add: rsplit_once_def takeWhile_append2 dropWhile_append2 takeWhile_append dropWhile_append)
qed

lemma rsplit_once_None: "rsplit_once s c = None \<longleftrightarrow> c \<notin> set s"
  by (simp add: rsplit_once_def)

subsection \<open>Facts on maps\<close>

lemma map_of_distinct_eq:
  "distinct (map fst xs) \<Longrightarrow> (k, v) \<in> set xs \<Longrightarrow> map_of xs k = Some v"
  by simp

lemma map_filter_map:
  "(\<And>x. x \<in> set xs \<Longrightarrow> f (g x) = Some (h x)) \<Longrightarrow> List.map_filter f (map g xs) = map h xs"
  by (induction xs) (auto simp: map_filter_simps)

lemma in_map_filter: "y \<in> set (List.map_filter f xs) \<longleftrightarrow> (\<exists>x \<in> set xs. f x = Some y)"
  by (force simp: List.map_filter_def)

lemma restrict_map_Some: "(m |` A) k = Some v \<longleftrightarrow> k \<in> A \<and> m k = Some v"
  by (auto simp: restrict_map_def)

subsection \<open>The first free name\<close>

text \<open>
  The loop \<^verbatim>\<open>while used.contains(name)\<close> over numbered candidates. One more step than there are names
  in use is enough, since the candidates differ.
\<close>

fun first_free :: "(nat \<Rightarrow> 'a) \<Rightarrow> 'a list \<Rightarrow> nat \<Rightarrow> nat \<Rightarrow> 'a option" where
  "first_free cand used 0 n = None"
| "first_free cand used (Suc fuel) n =
     (if cand n \<notin> set used then Some (cand n) else first_free cand used fuel (n + 1))"

lemma first_free_Some:
  "first_free cand used fuel n = Some a \<Longrightarrow>
    \<exists>m \<ge> n. a = cand m \<and> a \<notin> set used \<and> (\<forall>j. n \<le> j \<and> j < m \<longrightarrow> cand j \<in> set used)"
proof (induction fuel arbitrary: n)
  case (Suc fuel)
  show ?case
  proof (cases "cand n \<in> set used")
    case True
    with Suc obtain m where m: "n + 1 \<le> m" "a = cand m" "a \<notin> set used"
        "\<forall>j. n + 1 \<le> j \<and> j < m \<longrightarrow> cand j \<in> set used" by fastforce
    have "\<forall>j. n \<le> j \<and> j < m \<longrightarrow> cand j \<in> set used"
      using True m(4) by (metis Suc_eq_plus1 Suc_leI le_neq_implies_less)
    with m show ?thesis by (intro exI [of _ m]) auto
  qed (use Suc.prems in auto)
qed simp

lemma first_free_None: "first_free cand used fuel n = None \<Longrightarrow> \<forall>k < fuel. cand (n + k) \<in> set used"
proof (induction fuel arbitrary: n)
  case (Suc fuel)
  then have n: "cand n \<in> set used" and "first_free cand used fuel (n + 1) = None"
    by (auto split: if_splits)
  from Suc.IH [OF this(2)] have rest: "\<forall>k < fuel. cand (Suc (n + k)) \<in> set used" by simp
  show ?case
  proof (intro allI impI)
    fix k assume "k < Suc fuel"
    with n rest show "cand (n + k) \<in> set used" by (cases k) auto
  qed
qed simp

lemma first_free_shift: "first_free (\<lambda>k. cand (Suc k)) used fuel n = first_free cand used fuel (Suc n)"
  by (induction fuel arbitrary: n) auto

locale fresh_names =
  fixes cand :: "'p \<Rightarrow> nat \<Rightarrow> 'a"
  assumes cand_inj: "cand p m = cand p n \<Longrightarrow> m = n"
begin

lemma first_free_total: "\<exists>a. first_free (cand p) used (Suc (length used)) n = Some a"
proof (rule ccontr)
  assume "\<not> ?thesis"
  then have none: "\<forall>k < Suc (length used). cand p (n + k) \<in> set used"
    by (intro first_free_None) (meson not_Some_eq)
  then have "(\<lambda>k. cand p (n + k)) ` {..length used} \<subseteq> set used" by auto
  moreover have "inj_on (\<lambda>k. cand p (n + k)) {..length used}"
    by (rule inj_onI) (auto dest: cand_inj)
  ultimately have "card {..length used} \<le> card (set used)"
    by (metis List.finite_set card_inj_on_le)
  then show False using card_length [of used] by simp
qed

lemma first_free_fresh:
  "\<exists>m \<ge> n. first_free (cand p) used (Suc (length used)) n = Some (cand p m) \<and> cand p m \<notin> set used \<and>
    (\<forall>j. n \<le> j \<and> j < m \<longrightarrow> cand p j \<in> set used)"
proof -
  obtain a where a: "first_free (cand p) used (Suc (length used)) n = Some a"
    using first_free_total by blast
  from first_free_Some [OF a] a show ?thesis by auto
qed

end

end
