(* ===== verification/Mount_Path.thy ===== *)
theory Mount_Path
  imports Prelude
begin

section \<open>Mount-relative paths\<close>

text \<open>
  \<^verbatim>\<open>MountPath\<close> of \<^verbatim>\<open>workspace/src/vfs/path.rs\<close> and the two path functions of
  \<^verbatim>\<open>workspace/src/vfs/cache.rs\<close> that take its strings apart (\<^verbatim>\<open>parent_of\<close>, \<^verbatim>\<open>basename\<close>).
  The lemmas show that every constructed path is absolute and carries no trailing slash, that
  construction is idempotent, and that \<open>parent_of\<close> and \<open>basename\<close> invert \<open>child\<close>.
\<close>

abbreviation slash :: char where "slash \<equiv> CHR ''/''"

datatype mount_path = MountPath (as_str: string)

definition mp_new :: "string \<Rightarrow> mount_path" where
  "mp_new s =
     (let trimmed = trim_end_matches s slash in
      if trimmed = [] then MountPath ''/''
      else (case strip_prefix trimmed ''/'' of
              Some stripped \<Rightarrow> MountPath (''/'' @ stripped)
            | None \<Rightarrow> MountPath (''/'' @ trimmed)))"

definition mp_root :: mount_path where
  "mp_root = MountPath ''/''"

definition mp_is_root :: "mount_path \<Rightarrow> bool" where
  "mp_is_root p \<longleftrightarrow> as_str p = ''/''"

definition mp_child :: "mount_path \<Rightarrow> string \<Rightarrow> mount_path" where
  "mp_child p name =
     (if mp_is_root p then mp_new (''/'' @ name)
      else mp_new (as_str p @ ''/'' @ name))"

text \<open>\<^verbatim>\<open>path.rsplit_once('/')\<close>: \<^verbatim>\<open>Some(("", _)) | None\<close> is the root, else the parent.\<close>

definition parent_of :: "string \<Rightarrow> string" where
  "parent_of path =
     (case rsplit_once path slash of
        None \<Rightarrow> ''/''
      | Some (parent, _) \<Rightarrow> if parent = [] then ''/'' else parent)"

text \<open>\<^verbatim>\<open>path.rsplit('/').next()\<close>: what follows the last slash, or the whole string.\<close>

definition basename :: "string \<Rightarrow> string" where
  "basename path = (case rsplit_once path slash of None \<Rightarrow> path | Some (_, name) \<Rightarrow> name)"

subsection \<open>Well-formed paths\<close>

definition path_ok :: "string \<Rightarrow> bool" where
  "path_ok s \<longleftrightarrow> s = ''/'' \<or> (\<exists>r. s = slash # r \<and> r \<noteq> [] \<and> last r \<noteq> slash)"

definition name_ok :: "string \<Rightarrow> bool" where
  "name_ok n \<longleftrightarrow> n \<noteq> [] \<and> slash \<notin> set n"

text \<open>The string a listing gives a child: \<^verbatim>\<open>format!("{prefix}{name}")\<close>.\<close>

definition child_key :: "string \<Rightarrow> string \<Rightarrow> string" where
  "child_key d n = (if d = ''/'' then ''/'' else d @ ''/'') @ n"

lemma as_str_root [path_simps, simp]: "as_str mp_root = ''/''"
  by (simp add: mp_root_def)

lemma mp_new_ok: "path_ok (as_str (mp_new s))"
proof (cases "trim_end_matches s slash = []")
  case True
  then show ?thesis by (simp add: mp_new_def path_ok_def)
next
  case False
  let ?t = "trim_end_matches s slash"
  have last: "last ?t \<noteq> slash" using False by (rule trim_end_last)
  show ?thesis
  proof (cases "strip_prefix ?t ''/''")
    case None
    with False last show ?thesis by (simp add: mp_new_def path_ok_def Let_def)
  next
    case (Some r)
    then have t: "?t = slash # r" by (simp add: strip_prefix_Some)
    with last have "r \<noteq> []" "last r \<noteq> slash" by (auto split: if_splits)
    with Some False show ?thesis by (simp add: mp_new_def path_ok_def Let_def)
  qed
qed

lemma mp_new_id:
  assumes "path_ok s"
  shows "as_str (mp_new s) = s"
proof (cases "s = ''/''")
  case True
  then show ?thesis by (simp add: mp_new_def trim_end_matches_def)
next
  case False
  with assms obtain r where r: "s = slash # r" "r \<noteq> []" "last r \<noteq> slash"
    by (auto simp: path_ok_def)
  then have "trim_end_matches s slash = s" by (intro trim_end_id) simp
  moreover have "strip_prefix s ''/'' = Some r" using r by (simp add: strip_prefix_Some)
  ultimately show ?thesis using r(1) by (simp add: mp_new_def)
qed

lemma mp_new_idem: "mp_new (as_str (mp_new s)) = mp_new s"
  by (metis mp_new_id mp_new_ok mount_path.expand)

lemma path_ok_nonempty: "path_ok s \<Longrightarrow> s \<noteq> []"
  by (auto simp: path_ok_def)

lemma path_ok_absolute: "path_ok s \<Longrightarrow> hd s = slash"
  by (auto simp: path_ok_def)

lemma name_ok_last: "name_ok n \<Longrightarrow> last n \<noteq> slash"
  using last_in_set by (force simp: name_ok_def)

lemma child_key_ok:
  assumes "path_ok d" and n: "name_ok n"
  shows "path_ok (child_key d n)"
proof (cases "d = ''/''")
  case True
  then show ?thesis using n name_ok_last [OF n] by (auto simp: path_ok_def child_key_def name_ok_def)
next
  case False
  with assms obtain r where "d = slash # r" by (auto simp: path_ok_def)
  then show ?thesis using False n name_ok_last [OF n]
    by (auto simp: path_ok_def child_key_def name_ok_def)
qed

lemma child_as_str:
  assumes "path_ok (as_str p)" "name_ok n"
  shows "as_str (mp_child p n) = child_key (as_str p) n"
proof -
  have "as_str (mp_child p n) = as_str (mp_new (child_key (as_str p) n))"
    by (simp add: mp_child_def child_key_def mp_is_root_def)
  also have "\<dots> = child_key (as_str p) n"
    by (rule mp_new_id) (rule child_key_ok [OF assms])
  finally show ?thesis .
qed

lemma rsplit_child_key:
  assumes "name_ok n"
  shows "rsplit_once (child_key d n) slash = Some (if d = ''/'' then [] else d, n)"
  using assms by (simp add: rsplit_once_Some child_key_def name_ok_def)

lemma parent_of_child_key [path_simps]:
  "d \<noteq> [] \<Longrightarrow> name_ok n \<Longrightarrow> parent_of (child_key d n) = d"
  by (simp add: parent_of_def rsplit_child_key)

lemma basename_child_key [path_simps]: "name_ok n \<Longrightarrow> basename (child_key d n) = n"
  by (simp add: basename_def rsplit_child_key)

lemma child_key_inject:
  assumes "d \<noteq> []" "d' \<noteq> []" "name_ok n" "name_ok n'"
  shows "child_key d n = child_key d' n' \<longleftrightarrow> d = d' \<and> n = n'"
  using assms parent_of_child_key basename_child_key by metis

lemma child_key_not_root: "name_ok n \<Longrightarrow> child_key d n \<noteq> ''/''"
  by (auto simp: child_key_def name_ok_def append_eq_Cons_conv)

lemma child_key_neq_self: "name_ok n \<Longrightarrow> child_key d n \<noteq> d"
  by (auto simp: child_key_def name_ok_def)

lemma parent_of_nonempty: "parent_of p \<noteq> []"
  by (auto simp: parent_of_def split: option.splits prod.splits)

subsection \<open>The subtree of a path\<close>

text \<open>
  The keys \<^verbatim>\<open>purge_prefix\<close> calls stale: the path itself and everything under it.
\<close>

definition below :: "string \<Rightarrow> string \<Rightarrow> bool" where
  "below p k \<longleftrightarrow> k = p \<or> prefix (if p = ''/'' then ''/'' else p @ ''/'') k"

lemma below_refl [simp]: "below p p"
  by (simp add: below_def)

lemma below_trans:
  assumes "below a b" "below b c"
  shows "below a c"
proof (cases "a = b \<or> b = c")
  case False
  let ?f = "\<lambda>p. if p = ''/'' then ''/'' else p @ ''/''"
  from False assms have ab: "prefix (?f a) b" and bc: "prefix (?f b) c"
    by (auto simp: below_def)
  have "prefix b (?f b)" by simp
  with ab bc have "prefix (?f a) c" using prefix_order.trans by blast
  then show ?thesis by (simp add: below_def)
qed (use assms in auto)

lemma below_root: "k \<noteq> [] \<Longrightarrow> hd k = slash \<Longrightarrow> below ''/'' k"
  by (cases k) (auto simp: below_def)

lemma below_child_key: "name_ok n \<Longrightarrow> below d (child_key d n)"
  by (auto simp: below_def child_key_def)

lemma below_child_iff:
  assumes "d \<noteq> []" "name_ok n"
  shows "below p (child_key d n) \<longleftrightarrow> p = child_key d n \<or> below p d"
proof
  assume u: "below p (child_key d n)"
  show "p = child_key d n \<or> below p d"
  proof (cases "child_key d n = p")
    case False
    define q where "q = (if p = ''/'' then ''/'' else p @ ''/'')"
    define D where "D = (if d = ''/'' then ''/'' else d @ ''/'')"
    from u False have pre: "prefix q (child_key d n)" by (simp add: below_def q_def)
    have D: "child_key d n = D @ n" by (simp add: child_key_def D_def)
    have q: "last q = slash" by (simp add: q_def)
    have qD: "prefix q D"
    proof (rule ccontr)
      assume nq: "\<not> prefix q D"
      from pre obtain z where z: "D @ n = q @ z" by (auto simp: D prefix_def)
      with nq obtain w where w: "q = D @ w" "n = w @ z" "w \<noteq> []"
        by (auto simp: append_eq_append_conv2 prefix_def)
      then have "slash \<in> set n" using q by (metis last_appendR last_in_set Un_iff set_append)
      then show False using assms(2) by (simp add: name_ok_def)
    qed
    show ?thesis
    proof (cases "q = D")
      case True
      then have "p = d \<or> p = [] \<and> d = ''/''" using assms(1) by (auto simp: q_def D_def split: if_splits)
      then show ?thesis by (auto simp: below_def)
    next
      case False
      then have "prefix q (butlast D)" using qD
        by (metis append_butlast_last_id prefix_snoc D_def snoc_eq_iff_butlast not_Cons_self2)
      moreover have "prefix (butlast D) d" by (simp add: D_def)
      ultimately have "prefix q d" using prefix_order.trans by blast
      then show ?thesis by (simp add: below_def q_def)
    qed
  qed simp
next
  assume "p = child_key d n \<or> below p d"
  then show "below p (child_key d n)"
    using assms below_child_key below_trans by auto
qed

lemma not_below_own_child: "d \<noteq> [] \<Longrightarrow> name_ok n \<Longrightarrow> \<not> below (child_key d n) d"
proof -
  assume "d \<noteq> []" "name_ok n"
  then have "length d < length (child_key d n)" by (auto simp: child_key_def name_ok_def)
  moreover have "below (child_key d n) d \<Longrightarrow> length (child_key d n) \<le> length d"
    by (auto simp: below_def dest: prefix_length_le split: if_splits)
  ultimately show ?thesis by force
qed

end
