(* ===== verification/Resource_Api.thy ===== *)
theory Resource_Api
  imports Mount_Path
begin

section \<open>The provider interface\<close>

text \<open>
  \<^verbatim>\<open>workspace/src/vfs/resource/base.rs\<close> and \<^verbatim>\<open>vfs/error.rs\<close>: the metadata types, the typed
  error and the \<^verbatim>\<open>Resource\<close> trait. A trait object is a record of its methods over a provider
  state \<open>'s\<close>; each method takes the state and returns its result with the state after the call,
  so that every provider call (a network round trip, or a change to the local disk) is visible.
  Sizes are \<^verbatim>\<open>u64\<close> values, as \<open>nat\<close>; \<^verbatim>\<open>SystemTime\<close> is nanoseconds since the epoch, as \<open>int\<close>
  (a time before the epoch is negative).
\<close>

type_synonym systime = int
type_synonym range = "nat \<times> nat"

datatype file_kind = FileKind_File | FileKind_Dir

record dir_entry =
  de_name :: string
  de_kind :: file_kind
  de_size :: nat
  de_mtime :: "systime option"
  de_atime :: "systime option"
  de_ctime :: "systime option"
  de_created :: "systime option"
  de_etag :: "string option"
  de_content_type :: "string option"
  de_size_is_estimate :: bool
  de_serves_whole :: bool

record file_stat =
  fs_kind :: file_kind
  fs_size :: nat
  fs_mtime :: "systime option"
  fs_atime :: "systime option"
  fs_ctime :: "systime option"
  fs_created :: "systime option"
  fs_etag :: "string option"
  fs_version :: "string option"
  fs_content_type :: "string option"
  fs_size_is_estimate :: bool
  fs_serves_whole :: bool

text \<open>\<^verbatim>\<open>FileStat::default()\<close>.\<close>

definition default_stat :: file_stat where
  "default_stat =
     \<lparr>fs_kind = FileKind_File, fs_size = 0, fs_mtime = None, fs_atime = None, fs_ctime = None,
      fs_created = None, fs_etag = None, fs_version = None, fs_content_type = None,
      fs_size_is_estimate = False, fs_serves_whole = False\<rparr>"

datatype resource_error = RNotFound | RUnsupported | RBackend string

type_synonym 'a rres = "(resource_error, 'a) res"

record 's resource =
  r_read_bytes :: "'s \<Rightarrow> mount_path \<Rightarrow> range option \<Rightarrow> bytes rres \<times> 's"
  r_read_bytes_pinned :: "'s \<Rightarrow> mount_path \<Rightarrow> range option \<Rightarrow> file_stat \<Rightarrow> bytes rres \<times> 's"
  r_write_bytes :: "'s \<Rightarrow> mount_path \<Rightarrow> bytes \<Rightarrow> unit rres \<times> 's"
  r_readdir :: "'s \<Rightarrow> mount_path \<Rightarrow> dir_entry list rres \<times> 's"
  r_stat :: "'s \<Rightarrow> mount_path \<Rightarrow> file_stat rres \<times> 's"
  r_unlink :: "'s \<Rightarrow> mount_path \<Rightarrow> unit rres \<times> 's"
  r_mkdir :: "'s \<Rightarrow> mount_path \<Rightarrow> unit rres \<times> 's"
  r_rmdir :: "'s \<Rightarrow> mount_path \<Rightarrow> unit rres \<times> 's"
  r_rename :: "'s \<Rightarrow> mount_path \<Rightarrow> mount_path \<Rightarrow> unit rres \<times> 's"
  r_command :: "'s \<Rightarrow> string \<Rightarrow> bytes \<Rightarrow> bytes rres \<times> 's"
  r_prompt :: string
  r_listings_complete :: bool
  r_resolve_size_on_stat :: bool
  r_reports_content_type :: bool

text \<open>The trait's default methods over the four required ones.\<close>

definition resource_defaults ::
  "('s \<Rightarrow> mount_path \<Rightarrow> range option \<Rightarrow> bytes rres \<times> 's) \<Rightarrow>
   ('s \<Rightarrow> mount_path \<Rightarrow> bytes \<Rightarrow> unit rres \<times> 's) \<Rightarrow>
   ('s \<Rightarrow> mount_path \<Rightarrow> dir_entry list rres \<times> 's) \<Rightarrow>
   ('s \<Rightarrow> mount_path \<Rightarrow> file_stat rres \<times> 's) \<Rightarrow> 's resource" where
  "resource_defaults read_bytes write_bytes readdir stat =
     \<lparr>r_read_bytes = read_bytes,
      r_read_bytes_pinned = (\<lambda>s path range _. read_bytes s path range),
      r_write_bytes = write_bytes,
      r_readdir = readdir,
      r_stat = stat,
      r_unlink = (\<lambda>s _. (Err RUnsupported, s)),
      r_mkdir = (\<lambda>s _. (Err RUnsupported, s)),
      r_rmdir = (\<lambda>s _. (Err RUnsupported, s)),
      r_rename = (\<lambda>s _ _. (Err RUnsupported, s)),
      r_command = (\<lambda>s _ _. (Err RUnsupported, s)),
      r_prompt = '''',
      r_listings_complete = True,
      r_resolve_size_on_stat = True,
      r_reports_content_type = False\<rparr>"

text \<open>\<^verbatim>\<open>Display for ResourceError\<close>.\<close>

fun resource_error_display :: "resource_error \<Rightarrow> string" where
  "resource_error_display RNotFound = ''not found''"
| "resource_error_display RUnsupported = ''operation not supported''"
| "resource_error_display (RBackend e) = e"

text \<open>
  \<^verbatim>\<open>slice\<close> of \<^verbatim>\<open>vfs/cache.rs\<close>: a byte range of \<open>data\<close>, clamped to its bounds. (The cast of the
  bounds to \<^verbatim>\<open>usize\<close> is the identity on a 64-bit host.)
\<close>

definition slice :: "bytes \<Rightarrow> range option \<Rightarrow> bytes" where
  "slice data r =
     (case r of
        Some (rstart, rend) \<Rightarrow>
          let start = min rstart (length data);
              stop = max (min rend (length data)) start
          in drop start (take stop data)
      | None \<Rightarrow> data)"

lemma slice_None [simp]: "slice data None = data"
  by (simp add: slice_def)

lemma slice_take_drop: "slice data (Some (a, b)) = take (b - a) (drop a data)"
proof -
  have "slice data (Some (a, b)) =
      take (max (min b (length data)) (min a (length data)) - min a (length data))
        (drop (min a (length data)) data)"
    by (simp add: slice_def drop_take Let_def)
  also have "\<dots> = take (b - a) (drop a data)"
  proof (cases "a \<le> length data")
    case True
    then show ?thesis
      by (cases "b \<le> length data") (auto simp: max_def min_def)
  next
    case False
    then show ?thesis by simp
  qed
  finally show ?thesis .
qed

lemma length_slice: "length (slice data (Some (a, b))) = min (b - a) (length data - a)"
  by (simp add: slice_take_drop)

lemma slice_past_end: "length data \<le> a \<Longrightarrow> slice data (Some (a, b)) = []"
  by (simp add: slice_take_drop)

subsection \<open>The contract of a provider of plain files\<close>

text \<open>
  A range whose start a file cursor can hold (\<^verbatim>\<open>lseek\<close> takes a signed 64-bit offset).
\<close>

definition range_ok :: "range option \<Rightarrow> bool" where
  "range_ok r = (case r of Some (start, _) \<Rightarrow> start < 2 ^ 63 | None \<Rightarrow> True)"

text \<open>
  What the workspace relies on when a mount holds plain files: \<open>node\<close> says which file a path
  names, \<open>file_at\<close> what it contains. Reads return the range of the content and change nothing,
  a whole-object write that succeeds replaces the content of that file and no other.
\<close>

locale file_store =
  fixes R :: "'s resource"
    and good :: "'s \<Rightarrow> bool"
    and node :: "mount_path \<Rightarrow> 'n option"
    and file_at :: "'s \<Rightarrow> 'n \<Rightarrow> bytes option"
  assumes read_at: "\<lbrakk>good s; node p = Some n; file_at s n = Some b; range_ok r\<rbrakk> \<Longrightarrow>
      r_read_bytes R s p r = (Inr (slice b r), s)"
    and pinned_at: "\<lbrakk>good s; node p = Some n; file_at s n = Some b; range_ok r\<rbrakk> \<Longrightarrow>
      r_read_bytes_pinned R s p r st = (Inr (slice b r), s)"
    and stat_at: "\<lbrakk>good s; node p = Some n; file_at s n = Some b\<rbrakk> \<Longrightarrow>
      \<exists>st. r_stat R s p = (Inr st, s) \<and> fs_kind st = FileKind_File \<and> fs_size st = length b"
    and stat_pure: "good s \<Longrightarrow> snd (r_stat R s p) = s"
    and write_at: "\<lbrakk>good s; r_write_bytes R s p data = (Inr (), s')\<rbrakk> \<Longrightarrow>
      good s' \<and> (\<exists>n. node p = Some n \<and> file_at s' = (file_at s)(n \<mapsto> data))"
    and unlink_at: "\<lbrakk>good s; r_unlink R s p = (Inr (), s')\<rbrakk> \<Longrightarrow>
      good s' \<and> (\<exists>n. node p = Some n \<and> file_at s' = (file_at s)(n := None))"
begin

lemma read_after_write:
  assumes "good s" "r_write_bytes R s p data = (Inr (), s')" "range_ok r"
  shows "r_read_bytes R s' p r = (Inr (slice data r), s')"
  using write_at [OF assms(1,2)] read_at assms(3) by fastforce

lemma write_frame:
  assumes "good s" "r_write_bytes R s p data = (Inr (), s')" "node q = Some n" "node q \<noteq> node p"
  shows "file_at s' n = file_at s n"
  using write_at [OF assms(1,2)] assms(3,4) by auto

end

end
