(* ===== verification/Index_Cache.thy ===== *)
theory Index_Cache
  imports Resource_Api
begin

section \<open>The metadata index of a mounted provider\<close>

text \<open>
  \<^verbatim>\<open>IndexCache\<close> of \<^verbatim>\<open>workspace/src/vfs/cache.rs\<close>: path to entry metadata, directory to its
  children, directory to the expiry of its listing. The three \<^verbatim>\<open>HashMap\<close>s are maps. Reading the
  clock (\<^verbatim>\<open>Instant::now()\<close>) is the argument \<open>now\<close>, in nanoseconds. The lemmas give each operation
  as a function of the key, and the laws a listing cache owes its client.
\<close>

record entry =
  e_is_dir :: bool
  e_size :: nat
  e_mtime :: "systime option"
  e_atime :: "systime option"
  e_ctime :: "systime option"
  e_etag :: "string option"
  e_content_type :: "string option"
  e_size_is_estimate :: bool
  e_serves_whole :: bool

record index_cache =
  ic_entries :: "string \<rightharpoonup> entry"
  ic_children :: "string \<rightharpoonup> string list"
  ic_expiry :: "string \<rightharpoonup> nat"
  ic_ttl :: nat

text \<open>\<^verbatim>\<open>LISTING_TTL\<close>: 300 seconds.\<close>

definition listing_ttl :: nat where
  "listing_ttl = 300 * 10 ^ 9"

definition ic_new :: "nat \<Rightarrow> index_cache" where
  "ic_new ttl = \<lparr>ic_entries = Map.empty, ic_children = Map.empty, ic_expiry = Map.empty, ic_ttl = ttl\<rparr>"

definition ic_fresh :: "nat \<Rightarrow> index_cache \<Rightarrow> string \<Rightarrow> bool" where
  "ic_fresh now ic d = (case ic_expiry ic d of Some exp \<Rightarrow> now < exp | None \<Rightarrow> False)"

definition ic_get :: "nat \<Rightarrow> string \<Rightarrow> index_cache \<Rightarrow> entry option \<times> index_cache" where
  "ic_get now path ic =
     (if \<not> ic_fresh now ic (parent_of path)
      then (None, ic\<lparr>ic_entries := (ic_entries ic)(path := None)\<rparr>)
      else (ic_entries ic path, ic))"

definition ic_is_listed :: "nat \<Rightarrow> string \<Rightarrow> index_cache \<Rightarrow> bool" where
  "ic_is_listed now path ic = ic_fresh now ic path"

definition dir_entry_of :: "string \<Rightarrow> entry \<Rightarrow> dir_entry" where
  "dir_entry_of full e =
     \<lparr>de_name = basename full,
      de_kind = (if e_is_dir e then FileKind_Dir else FileKind_File),
      de_size = e_size e, de_mtime = e_mtime e, de_atime = e_atime e, de_ctime = e_ctime e,
      de_created = None, de_etag = e_etag e, de_content_type = e_content_type e,
      de_size_is_estimate = e_size_is_estimate e, de_serves_whole = e_serves_whole e\<rparr>"

definition ic_list_dir_entries :: "nat \<Rightarrow> string \<Rightarrow> index_cache \<Rightarrow> dir_entry list option" where
  "ic_list_dir_entries now path ic =
     (if \<not> ic_fresh now ic path then None
      else (case ic_children ic path of
              None \<Rightarrow> None
            | Some children \<Rightarrow>
                Some (List.map_filter
                  (\<lambda>full. map_option (dir_entry_of full) (ic_entries ic full)) children)))"

text \<open>\<^verbatim>\<open>purge_prefix\<close>: drop a path and everything below it from the three maps.\<close>

definition stale_key :: "string \<Rightarrow> string \<Rightarrow> bool" where
  "stale_key p k =
     (let sub = (if p = ''/'' then ''/'' else p @ ''/'') in k = p \<or> starts_with k sub)"

definition retain :: "('k \<Rightarrow> bool) \<Rightarrow> ('k \<rightharpoonup> 'v) \<Rightarrow> ('k \<rightharpoonup> 'v)" where
  "retain P m = (\<lambda>k. if P k then m k else None)"

definition purge_prefix :: "string \<Rightarrow> index_cache \<Rightarrow> index_cache" where
  "purge_prefix p ic =
     ic\<lparr>ic_entries := retain (\<lambda>k. \<not> stale_key p k) (ic_entries ic),
        ic_children := retain (\<lambda>k. \<not> stale_key p k) (ic_children ic),
        ic_expiry := retain (\<lambda>k. \<not> stale_key p k) (ic_expiry ic)\<rparr>"

definition entry_of :: "dir_entry \<Rightarrow> entry" where
  "entry_of e =
     \<lparr>e_is_dir = (de_kind e = FileKind_Dir), e_size = de_size e, e_mtime = de_mtime e,
      e_atime = de_atime e, e_ctime = de_ctime e, e_etag = de_etag e,
      e_content_type = de_content_type e, e_size_is_estimate = de_size_is_estimate e,
      e_serves_whole = de_serves_whole e\<rparr>"

text \<open>
  \<^verbatim>\<open>set_dir\<close>, in the order of the code: the children that vanished since the previous listing
  are purged with their subtrees, then each child's metadata, the child list and the expiry are
  stored.
\<close>

fun insert_entries :: "(dir_entry \<times> string) list \<Rightarrow> (string \<rightharpoonup> entry) \<Rightarrow> (string \<rightharpoonup> entry)" where
  "insert_entries [] m = m"
| "insert_entries ((e, full) # rest) m = insert_entries rest (m(full \<mapsto> entry_of e))"

definition ic_set_dir :: "nat \<Rightarrow> string \<Rightarrow> dir_entry list \<Rightarrow> index_cache \<Rightarrow> index_cache" where
  "ic_set_dir now path entries ic =
     (let pre = (if path = ''/'' then ''/'' else path @ ''/'');
          child_keys = map (\<lambda>e. pre @ de_name e) entries;
          vanished = (case ic_children ic path of
                        Some old \<Rightarrow> filter (\<lambda>c. c \<notin> set child_keys) old
                      | None \<Rightarrow> []);
          ic1 = fold purge_prefix vanished ic
      in ic1\<lparr>ic_entries := insert_entries (zip entries child_keys) (ic_entries ic1),
             ic_children := (ic_children ic1)(path \<mapsto> child_keys),
             ic_expiry := (ic_expiry ic1)(path \<mapsto> now + ic_ttl ic1)\<rparr>)"

definition ic_invalidate_dir :: "string \<Rightarrow> index_cache \<Rightarrow> index_cache" where
  "ic_invalidate_dir path ic = purge_prefix path ic"

definition ic_invalidate_parent :: "string \<Rightarrow> index_cache \<Rightarrow> index_cache" where
  "ic_invalidate_parent path ic = ic_invalidate_dir (parent_of path) ic"

definition ic_clear :: "index_cache \<Rightarrow> index_cache" where
  "ic_clear ic = ic\<lparr>ic_entries := Map.empty, ic_children := Map.empty, ic_expiry := Map.empty\<rparr>"

subsection \<open>The operations as functions of the key\<close>

lemma stale_key_below: "stale_key p k \<longleftrightarrow> below p k"
  by (simp add: stale_key_def below_def starts_with_def Let_def)

lemma retain_apply [simp]: "retain P m k = (if P k then m k else None)"
  by (simp add: retain_def)

lemma purge_prefix_sel [cache_simps]:
  "ic_entries (purge_prefix p ic) k = (if below p k then None else ic_entries ic k)"
  "ic_children (purge_prefix p ic) k = (if below p k then None else ic_children ic k)"
  "ic_expiry (purge_prefix p ic) k = (if below p k then None else ic_expiry ic k)"
  "ic_ttl (purge_prefix p ic) = ic_ttl ic"
  by (simp_all add: purge_prefix_def stale_key_below)

lemma fold_purge_sel [cache_simps]:
  "ic_entries (fold purge_prefix vs ic) k = (if \<exists>v\<in>set vs. below v k then None else ic_entries ic k)"
  "ic_children (fold purge_prefix vs ic) k = (if \<exists>v\<in>set vs. below v k then None else ic_children ic k)"
  "ic_expiry (fold purge_prefix vs ic) k = (if \<exists>v\<in>set vs. below v k then None else ic_expiry ic k)"
  "ic_ttl (fold purge_prefix vs ic) = ic_ttl ic"
  by (induction vs arbitrary: ic) (simp_all add: cache_simps)

lemma insert_entries_other:
  "k \<notin> snd ` set ps \<Longrightarrow> insert_entries ps m k = m k"
  by (induction ps m rule: insert_entries.induct) auto

lemma insert_entries_in:
  "distinct (map snd ps) \<Longrightarrow> (e, k) \<in> set ps \<Longrightarrow> insert_entries ps m k = Some (entry_of e)"
proof (induction ps arbitrary: m)
  case (Cons p rest)
  obtain e' full where p: "p = (e', full)" by (cases p)
  show ?case
  proof (cases "(e, k) = (e', full)")
    case True
    with Cons.prems p show ?thesis by (auto simp: insert_entries_other image_iff)
  next
    case False
    with Cons.prems p have "(e, k) \<in> set rest" "distinct (map snd rest)" by auto
    from Cons.IH [OF this(2,1)] show ?thesis by (simp only: p insert_entries.simps)
  qed
qed simp

text \<open>The children a listing vanishes, and the keys it writes.\<close>

definition listing_keys :: "string \<Rightarrow> dir_entry list \<Rightarrow> string list" where
  "listing_keys d es = map (\<lambda>e. child_key d (de_name e)) es"

definition gone :: "string \<Rightarrow> dir_entry list \<Rightarrow> index_cache \<Rightarrow> string set" where
  "gone d es ic =
     (case ic_children ic d of Some old \<Rightarrow> set old - set (listing_keys d es) | None \<Rightarrow> {})"

lemma ic_set_dir_alt:
  "ic_set_dir now d es ic =
     (let vanished = (case ic_children ic d of
                        Some old \<Rightarrow> filter (\<lambda>c. c \<notin> set (listing_keys d es)) old
                      | None \<Rightarrow> []);
          ic1 = fold purge_prefix vanished ic
      in ic1\<lparr>ic_entries := insert_entries (zip es (listing_keys d es)) (ic_entries ic1),
             ic_children := (ic_children ic1)(d \<mapsto> listing_keys d es),
             ic_expiry := (ic_expiry ic1)(d \<mapsto> now + ic_ttl ic1)\<rparr>)"
  by (simp only: ic_set_dir_def Let_def listing_keys_def child_key_def)

lemma set_dir_children [cache_simps]:
  "ic_children (ic_set_dir now d es ic) k =
     (if k = d then Some (listing_keys d es)
      else if \<exists>v\<in>gone d es ic. below v k then None else ic_children ic k)"
  by (auto simp: ic_set_dir_alt Let_def cache_simps gone_def split: option.splits)

lemma set_dir_expiry [cache_simps]:
  "ic_expiry (ic_set_dir now d es ic) k =
     (if k = d then Some (now + ic_ttl ic)
      else if \<exists>v\<in>gone d es ic. below v k then None else ic_expiry ic k)"
  by (auto simp: ic_set_dir_alt Let_def cache_simps gone_def split: option.splits)

lemma set_dir_ttl [cache_simps]: "ic_ttl (ic_set_dir now d es ic) = ic_ttl ic"
  by (simp add: ic_set_dir_alt Let_def cache_simps)

lemma set_dir_entries:
  "ic_entries (ic_set_dir now d es ic) k =
     insert_entries (zip es (listing_keys d es))
       (\<lambda>k. if \<exists>v\<in>gone d es ic. below v k then None else ic_entries ic k) k"
proof -
  let ?vs = "case ic_children ic d of
      Some old \<Rightarrow> filter (\<lambda>c. c \<notin> set (listing_keys d es)) old | None \<Rightarrow> []"
  have "ic_entries (fold purge_prefix ?vs ic) =
      (\<lambda>k. if \<exists>v\<in>gone d es ic. below v k then None else ic_entries ic k)"
    by (rule ext) (auto simp: cache_simps gone_def split: option.splits)
  then show ?thesis by (simp add: ic_set_dir_alt Let_def)
qed

subsection \<open>The invariant of the index\<close>

text \<open>
  Every entry belongs to a recorded listing, every recorded child is a child of its directory,
  and a directory has a child list exactly when it has an expiry.
\<close>

definition listing_ok :: "dir_entry list \<Rightarrow> bool" where
  "listing_ok es \<longleftrightarrow> distinct (map de_name es) \<and> (\<forall>e\<in>set es. name_ok (de_name e))"

definition ic_ok :: "index_cache \<Rightarrow> bool" where
  "ic_ok ic \<longleftrightarrow>
     (\<forall>d cs. ic_children ic d = Some cs \<longrightarrow>
        d \<noteq> [] \<and> (\<forall>c\<in>set cs. \<exists>n. name_ok n \<and> c = child_key d n)) \<and>
     (\<forall>k e. ic_entries ic k = Some e \<longrightarrow>
        (\<exists>d cs. ic_children ic d = Some cs \<and> k \<in> set cs)) \<and>
     dom (ic_children ic) = dom (ic_expiry ic)"

lemma ic_okI:
  assumes "\<And>d cs c. ic_children ic d = Some cs \<Longrightarrow> d \<noteq> []"
    and "\<And>d cs c. ic_children ic d = Some cs \<Longrightarrow> c \<in> set cs \<Longrightarrow> \<exists>n. name_ok n \<and> c = child_key d n"
    and "\<And>k e. ic_entries ic k = Some e \<Longrightarrow> \<exists>d cs. ic_children ic d = Some cs \<and> k \<in> set cs"
    and "\<And>d. ic_children ic d = None \<longleftrightarrow> ic_expiry ic d = None"
  shows "ic_ok ic"
  unfolding ic_ok_def using assms by (auto simp: dom_def)

lemma ic_ok_child:
  "ic_ok ic \<Longrightarrow> ic_children ic d = Some cs \<Longrightarrow> c \<in> set cs \<Longrightarrow>
     d \<noteq> [] \<and> (\<exists>n. name_ok n \<and> c = child_key d n)"
  by (auto simp: ic_ok_def)

lemma ic_ok_entry:
  "ic_ok ic \<Longrightarrow> ic_entries ic k = Some e \<Longrightarrow> \<exists>d cs. ic_children ic d = Some cs \<and> k \<in> set cs"
  by (auto simp: ic_ok_def)

lemma ic_ok_expiry: "ic_ok ic \<Longrightarrow> ic_children ic d = None \<longleftrightarrow> ic_expiry ic d = None"
  by (metis ic_ok_def domIff)

lemma ic_ok_entry_parent:
  assumes "ic_ok ic" "ic_entries ic (child_key d n) = Some e" "d \<noteq> []" "name_ok n"
  shows "\<exists>cs. ic_children ic d = Some cs \<and> child_key d n \<in> set cs"
proof -
  from ic_ok_entry [OF assms(1,2)] obtain d' cs
    where cs: "ic_children ic d' = Some cs" "child_key d n \<in> set cs" by blast
  from ic_ok_child [OF assms(1) cs] obtain n' where "d' \<noteq> []" "name_ok n'" "child_key d n = child_key d' n'"
    by blast
  with assms child_key_inject have "d' = d" by blast
  with cs show ?thesis by blast
qed

lemma ic_ok_new [simp]: "ic_ok (ic_new ttl)"
  by (simp add: ic_ok_def ic_new_def)

lemma ic_ok_clear [simp]: "ic_ok (ic_clear ic)"
  by (simp add: ic_ok_def ic_clear_def)

lemma ic_ok_get:
  assumes "ic_ok ic"
  shows "ic_ok (snd (ic_get now path ic))"
  using assms by (auto simp: ic_ok_def ic_get_def split: if_splits)

lemma ic_ok_purge:
  assumes ok: "ic_ok ic"
  shows "ic_ok (purge_prefix p ic)"
proof (rule ic_okI)
  fix k e assume "ic_entries (purge_prefix p ic) k = Some e"
  then have k: "\<not> below p k" "ic_entries ic k = Some e" by (auto simp: cache_simps split: if_splits)
  from ic_ok_entry [OF ok k(2)] obtain d cs where cs: "ic_children ic d = Some cs" "k \<in> set cs" by blast
  from ic_ok_child [OF ok cs] obtain n where n: "name_ok n" "k = child_key d n" by blast
  with k(1) have "\<not> below p d" using below_trans below_child_key by blast
  with cs show "\<exists>d cs. ic_children (purge_prefix p ic) d = Some cs \<and> k \<in> set cs"
    by (auto simp: cache_simps)
next
  fix d show "ic_children (purge_prefix p ic) d = None \<longleftrightarrow> ic_expiry (purge_prefix p ic) d = None"
    using ic_ok_expiry [OF ok] by (simp add: cache_simps)
qed (use ok in \<open>auto simp: cache_simps ic_ok_def split: if_splits\<close>)

lemma listing_keys_set: "set (listing_keys d es) = (\<lambda>e. child_key d (de_name e)) ` set es"
  by (simp add: listing_keys_def)

lemma listing_keys_distinct:
  "d \<noteq> [] \<Longrightarrow> listing_ok es \<Longrightarrow> distinct (listing_keys d es)"
  by (auto simp: listing_keys_def listing_ok_def distinct_map inj_on_def child_key_inject)

lemma zip_keys_snd: "map snd (zip es (listing_keys d es)) = listing_keys d es"
  by (simp add: listing_keys_def)

lemma set_dir_entry_hit [cache_simps]:
  assumes "d \<noteq> []" "listing_ok es" "e \<in> set es"
  shows "ic_entries (ic_set_dir now d es ic) (child_key d (de_name e)) = Some (entry_of e)"
proof -
  have "(e, child_key d (de_name e)) \<in> set (zip es (listing_keys d es))"
    using assms(3) by (auto simp: listing_keys_def zip_map2 in_set_conv_nth set_zip)
  with listing_keys_distinct [OF assms(1,2)] show ?thesis
    unfolding set_dir_entries by (intro insert_entries_in) (simp_all add: zip_keys_snd)
qed

lemma set_dir_entry_other:
  assumes "k \<notin> set (listing_keys d es)"
  shows "ic_entries (ic_set_dir now d es ic) k =
    (if \<exists>v\<in>gone d es ic. below v k then None else ic_entries ic k)"
proof -
  have "snd ` set (zip es (listing_keys d es)) = set (listing_keys d es)"
    by (metis set_map zip_keys_snd)
  with assms show ?thesis unfolding set_dir_entries by (subst insert_entries_other) auto
qed

lemma ic_ok_set_dir:
  assumes ok: "ic_ok ic" and d: "d \<noteq> []" and es: "listing_ok es"
  shows "ic_ok (ic_set_dir now d es ic)"
proof (rule ic_okI)
  fix k e assume e: "ic_entries (ic_set_dir now d es ic) k = Some e"
  show "\<exists>d' cs. ic_children (ic_set_dir now d es ic) d' = Some cs \<and> k \<in> set cs"
  proof (cases "k \<in> set (listing_keys d es)")
    case True
    then show ?thesis by (intro exI [of _ d]) (simp add: cache_simps)
  next
    case False
    with e have g: "\<not> (\<exists>v\<in>gone d es ic. below v k)" "ic_entries ic k = Some e"
      by (auto simp: set_dir_entry_other split: if_splits)
    from ic_ok_entry [OF ok g(2)] obtain d' cs where cs: "ic_children ic d' = Some cs" "k \<in> set cs" by blast
    from ic_ok_child [OF ok cs] obtain n where n: "name_ok n" "k = child_key d' n" by blast
    have "d' \<noteq> d"
    proof
      assume "d' = d"
      with cs False have "k \<in> gone d es ic" by (auto simp: gone_def)
      with g(1) show False by auto
    qed
    moreover have "\<not> (\<exists>v\<in>gone d es ic. below v d')"
      using g(1) n below_trans below_child_key by blast
    ultimately show ?thesis using cs by (auto simp: cache_simps)
  qed
next
  fix d' cs c assume "ic_children (ic_set_dir now d es ic) d' = Some cs"
  then show "d' \<noteq> []" using ok d by (auto simp: cache_simps ic_ok_def split: if_splits)
next
  fix d' cs c assume "ic_children (ic_set_dir now d es ic) d' = Some cs" "c \<in> set cs"
  then show "\<exists>n. name_ok n \<and> c = child_key d' n" using ic_ok_child [OF ok] es
    by (fastforce simp: cache_simps listing_keys_set listing_ok_def split: if_splits)
next
  fix d' show "ic_children (ic_set_dir now d es ic) d' = None \<longleftrightarrow> ic_expiry (ic_set_dir now d es ic) d' = None"
    using ic_ok_expiry [OF ok] by (simp add: cache_simps)
qed

subsection \<open>The contract of a listing index\<close>

text \<open>
  What \<^verbatim>\<open>CachedResource\<close> relies on. \<open>listed\<close> is \<^verbatim>\<open>is_listed\<close>, \<open>lookup\<close> the answer of \<^verbatim>\<open>get\<close>,
  \<open>store\<close> is \<^verbatim>\<open>set_dir\<close>, \<open>discard\<close> is \<^verbatim>\<open>invalidate_dir\<close>.
\<close>

locale listing_index =
  fixes good :: "'c \<Rightarrow> bool"
    and life :: "'c \<Rightarrow> nat"
    and listed :: "nat \<Rightarrow> string \<Rightarrow> 'c \<Rightarrow> bool"
    and lookup :: "nat \<Rightarrow> string \<Rightarrow> 'c \<Rightarrow> entry option"
    and store :: "nat \<Rightarrow> string \<Rightarrow> dir_entry list \<Rightarrow> 'c \<Rightarrow> 'c"
    and discard :: "string \<Rightarrow> 'c \<Rightarrow> 'c"
  assumes good_store: "\<lbrakk>good c; d \<noteq> []; listing_ok es\<rbrakk> \<Longrightarrow> good (store now d es c)"
    and good_discard: "good c \<Longrightarrow> good (discard p c)"
    and lookup_listed: "lookup t k c = Some m \<Longrightarrow> listed t (parent_of k) c"
    and listed_store: "listed t d (store now d es c) \<longleftrightarrow> t < now + life c"
    and lookup_hit: "\<lbrakk>d \<noteq> []; listing_ok es; e \<in> set es; t < now + life c\<rbrakk> \<Longrightarrow>
      lookup t (child_key d (de_name e)) (store now d es c) = Some (entry_of e)"
    and lookup_miss: "\<lbrakk>good c; d \<noteq> []; listing_ok es; name_ok n; n \<notin> de_name ` set es\<rbrakk> \<Longrightarrow>
      lookup t (child_key d n) (store now d es c) = None"
    and listed_discard: "below p d \<Longrightarrow> \<not> listed t d (discard p c)"
    and listed_discard_other: "\<not> below p d \<Longrightarrow> listed t d (discard p c) = listed t d c"
begin

lemma lookup_store_iff:
  assumes "good c" "d \<noteq> []" "listing_ok es" "name_ok n" "t < now + life c"
  shows "lookup t (child_key d n) (store now d es c) \<noteq> None \<longleftrightarrow> n \<in> de_name ` set es"
  using assms lookup_hit lookup_miss by fastforce

lemma expired_not_served:
  assumes "d \<noteq> []" "name_ok n" "now + life c \<le> t"
  shows "lookup t (child_key d n) (store now d es c) = None"
proof (rule ccontr)
  assume "lookup t (child_key d n) (store now d es c) \<noteq> None"
  then have "listed t (parent_of (child_key d n)) (store now d es c)" using lookup_listed by blast
  with assms show False by (simp add: parent_of_child_key listed_store)
qed

lemma discard_forgets:
  assumes "below p (parent_of k)"
  shows "lookup t k (discard p c) = None"
  using assms lookup_listed listed_discard by (meson not_None_eq)

text \<open>A change below a directory, followed by discarding it, leaves no stale answer about its children.\<close>

lemma mutation_forgets:
  assumes "d \<noteq> []" "name_ok n"
  shows "lookup t (child_key d n) (discard d c) = None \<and> \<not> listed t d (discard d c)"
  using assms by (simp add: discard_forgets parent_of_child_key listed_discard)

end

lemma ic_fresh_set_dir [cache_simps]:
  "ic_fresh t (ic_set_dir now d es ic) d \<longleftrightarrow> t < now + ic_ttl ic"
  by (simp add: ic_fresh_def cache_simps)

lemma ic_lookup_hit:
  assumes "d \<noteq> []" "listing_ok es" "e \<in> set es" "t < now + ic_ttl ic"
  shows "fst (ic_get t (child_key d (de_name e)) (ic_set_dir now d es ic)) = Some (entry_of e)"
proof -
  have "name_ok (de_name e)" using assms by (auto simp: listing_ok_def)
  with assms show ?thesis by (simp add: ic_get_def path_simps cache_simps)
qed

lemma ic_lookup_miss:
  assumes ok: "ic_ok ic" and d: "d \<noteq> []" and es: "listing_ok es" and n: "name_ok n" "n \<notin> de_name ` set es"
  shows "fst (ic_get t (child_key d n) (ic_set_dir now d es ic)) = None"
proof -
  let ?k = "child_key d n"
  have nk: "?k \<notin> set (listing_keys d es)"
    using d es n child_key_inject by (auto simp: listing_keys_set listing_ok_def)
  have "ic_entries (ic_set_dir now d es ic) ?k = None"
  proof (rule ccontr)
    assume "ic_entries (ic_set_dir now d es ic) ?k \<noteq> None"
    then obtain e where "ic_entries (ic_set_dir now d es ic) ?k = Some e" by blast
    from ic_ok_entry_parent [OF ic_ok_set_dir [OF ok d es] this d n(1)] nk show False
      by (simp add: cache_simps)
  qed
  then show ?thesis by (simp add: ic_get_def)
qed

interpretation ic: listing_index ic_ok ic_ttl ic_is_listed "\<lambda>t k ic. fst (ic_get t k ic)" ic_set_dir ic_invalidate_dir
proof
  show "ic_ok c \<Longrightarrow> ic_ok (ic_invalidate_dir p c)" for c p
    by (simp add: ic_invalidate_dir_def ic_ok_purge)
  show "fst (ic_get t k c) = Some e \<Longrightarrow> ic_is_listed t (parent_of k) c" for t k c e
    by (auto simp: ic_get_def ic_is_listed_def split: if_splits)
  show "ic_is_listed t d (ic_set_dir now d es c) \<longleftrightarrow> t < now + ic_ttl c" for t d now es c
    by (simp add: ic_is_listed_def cache_simps)
  show "below p d \<Longrightarrow> \<not> ic_is_listed t d (ic_invalidate_dir p c)" for p d t c
    by (simp add: ic_is_listed_def ic_fresh_def ic_invalidate_dir_def cache_simps)
  show "\<not> below p d \<Longrightarrow> ic_is_listed t d (ic_invalidate_dir p c) = ic_is_listed t d c" for p d t c
    by (simp add: ic_is_listed_def ic_fresh_def ic_invalidate_dir_def cache_simps)
qed (simp_all add: ic_ok_set_dir ic_lookup_hit ic_lookup_miss)

subsection \<open>What a stored listing answers\<close>

definition stored_entry :: "dir_entry \<Rightarrow> dir_entry" where
  "stored_entry e = e\<lparr>de_created := None\<rparr>"

lemma dir_entry_of_entry_of:
  "name_ok (de_name e) \<Longrightarrow> dir_entry_of (child_key d (de_name e)) (entry_of e) = stored_entry e"
  by (cases e; cases "de_kind e") (auto simp: dir_entry_of_def entry_of_def stored_entry_def path_simps)

text \<open>
  A listing that was stored is served back, entry for entry and in order (all but the
  creation time, which the index does not keep), until its time to live is over; from then on
  the provider is asked again.
\<close>

lemma index_list_roundtrip:
  assumes d: "d \<noteq> []" and es: "listing_ok es"
  shows "ic_list_dir_entries t d (ic_set_dir now d es ic) =
    (if t < now + ic_ttl ic then Some (map stored_entry es) else None)"
proof -
  have "List.map_filter (\<lambda>full. map_option (dir_entry_of full) (ic_entries (ic_set_dir now d es ic) full))
      (listing_keys d es) = map stored_entry es"
    unfolding listing_keys_def
    by (rule map_filter_map)
      (use es in \<open>simp add: set_dir_entry_hit [OF d es] dir_entry_of_entry_of listing_ok_def\<close>)
  then show ?thesis by (simp add: ic_list_dir_entries_def cache_simps)
qed

definition two_files :: "dir_entry list" where
  "two_files =
     [\<lparr>de_name = ''a'', de_kind = FileKind_File, de_size = 3, de_mtime = Some 7, de_atime = None,
       de_ctime = None, de_created = Some 9, de_etag = Some ''t'', de_content_type = None,
       de_size_is_estimate = False, de_serves_whole = False\<rparr>,
      \<lparr>de_name = ''b'', de_kind = FileKind_Dir, de_size = 0, de_mtime = None, de_atime = None,
       de_ctime = None, de_created = None, de_etag = None, de_content_type = None,
       de_size_is_estimate = False, de_serves_whole = False\<rparr>]"

lemma two_files_ok: "listing_ok two_files"
  by (simp add: two_files_def listing_ok_def name_ok_def)

lemma index_list_roundtrip_witness:
  "ic_list_dir_entries 10 ''/d'' (ic_set_dir 4 ''/d'' two_files (ic_new listing_ttl)) =
     Some (map stored_entry two_files)"
  using index_list_roundtrip [of "''/d''" two_files 10 4 "ic_new listing_ttl"] two_files_ok
  by (simp add: ic_new_def listing_ttl_def)

end
