(* ===== verification/Content_Cache.thy ===== *)
theory Content_Cache
  imports Resource_Api
begin

section \<open>The validated content cache\<close>

text \<open>
  \<^verbatim>\<open>Version\<close>, \<^verbatim>\<open>CacheEntry\<close> and \<^verbatim>\<open>ContentCache\<close> of \<^verbatim>\<open>workspace/src/vfs/cache.rs\<close>: whole objects
  by path with the version they were fetched at, and \<open>cc_order\<close>, the \<^verbatim>\<open>BTreeMap\<close> from LRU tick to
  path, kept as the list of its pairs in key order. The eviction loop is a partial function, so
  that its termination is proved and not assumed. The lemmas show the representation invariant
  (both maps in bijection, the byte total exact), that eviction returns, drops exactly a least
  recently used prefix, and keeps what was just inserted.
\<close>

text \<open>\<^verbatim>\<open>MAX_CONTENT_BYTES\<close>, \<^verbatim>\<open>CONTENT_CACHE_BUDGET\<close>, \<^verbatim>\<open>CONTENT_TTL\<close>.\<close>

definition max_content_bytes :: nat where
  "max_content_bytes = 8 * 2 ^ 20"

definition content_cache_budget :: nat where
  "content_cache_budget = 128 * 2 ^ 20"

definition content_ttl :: nat where
  "content_ttl = 300 * 10 ^ 9"

datatype version = Tag string | Time systime | Unknown

definition version_of :: "file_stat \<Rightarrow> version" where
  "version_of s =
     (case fs_etag s of
        Some e \<Rightarrow> Tag e
      | None \<Rightarrow>
          (case fs_version s of
             Some v \<Rightarrow> Tag v
           | None \<Rightarrow> (case fs_mtime s of Some t \<Rightarrow> Time t | None \<Rightarrow> Unknown)))"

fun version_known :: "version \<Rightarrow> bool" where
  "version_known Unknown = False"
| "version_known _ = True"

fun is_time :: "version \<Rightarrow> bool" where
  "is_time (Time _) = True"
| "is_time _ = False"

record cache_entry =
  ce_version :: version
  ce_bytes :: bytes
  ce_seq :: nat
  ce_fetched :: nat

record content_cache =
  cc_by_path :: "string \<rightharpoonup> cache_entry"
  cc_order :: "(nat \<times> string) list"
  cc_total :: nat
  cc_tick :: nat

definition cc_empty :: content_cache where
  "cc_empty = \<lparr>cc_by_path = Map.empty, cc_order = [], cc_total = 0, cc_tick = 0\<rparr>"

text \<open>\<^verbatim>\<open>BTreeMap::insert\<close> and \<^verbatim>\<open>remove\<close> on the key-ordered list of pairs.\<close>

fun bt_insert :: "nat \<Rightarrow> 'v \<Rightarrow> (nat \<times> 'v) list \<Rightarrow> (nat \<times> 'v) list" where
  "bt_insert k v [] = [(k, v)]"
| "bt_insert k v ((k', v') # rest) =
     (if k < k' then (k, v) # (k', v') # rest
      else if k = k' then (k, v) # rest
      else (k', v') # bt_insert k v rest)"

definition bt_remove :: "nat \<Rightarrow> (nat \<times> 'v) list \<Rightarrow> (nat \<times> 'v) list" where
  "bt_remove k m = filter (\<lambda>p. fst p \<noteq> k) m"

text \<open>\<^verbatim>\<open>bump\<close>; \<open>None\<close> is the panic of its \<^verbatim>\<open>expect\<close> on an absent key.\<close>

definition cc_bump :: "string \<Rightarrow> content_cache \<Rightarrow> (bytes \<times> content_cache) option" where
  "cc_bump key c =
     (let seq = cc_tick c + 1 in
      case cc_by_path c key of
        None \<Rightarrow> None
      | Some e \<Rightarrow>
          Some (ce_bytes e,
            c\<lparr>cc_tick := seq,
              cc_by_path := (cc_by_path c)(key \<mapsto> e\<lparr>ce_seq := seq\<rparr>),
              cc_order := bt_insert seq key (bt_remove (ce_seq e) (cc_order c))\<rparr>))"

definition cc_hit :: "nat \<Rightarrow> string \<Rightarrow> version \<Rightarrow> content_cache \<Rightarrow> bool" where
  "cc_hit now key v c =
     (case cc_by_path c key of
        Some e \<Rightarrow> ce_version e = v \<and> (\<not> is_time v \<or> now - ce_fetched e < content_ttl)
      | None \<Rightarrow> False)"

definition cc_get :: "nat \<Rightarrow> string \<Rightarrow> version \<Rightarrow> content_cache \<Rightarrow> bytes option \<times> content_cache" where
  "cc_get now key v c =
     (if cc_hit now key v c
      then (case cc_bump key c of Some (b, c') \<Rightarrow> (Some b, c') | None \<Rightarrow> (None, c))
      else (None, c))"

definition cc_remove :: "string \<Rightarrow> content_cache \<Rightarrow> content_cache" where
  "cc_remove key c =
     (case cc_by_path c key of
        Some e \<Rightarrow>
          c\<lparr>cc_by_path := (cc_by_path c)(key := None),
            cc_order := bt_remove (ce_seq e) (cc_order c),
            cc_total := cc_total c - length (ce_bytes e)\<rparr>
      | None \<Rightarrow> c)"

text \<open>The \<^verbatim>\<open>while\<close> loop of \<^verbatim>\<open>put\<close>; \<open>None\<close> is a loop that never ends.\<close>

partial_function (option) cc_evict :: "string \<Rightarrow> nat \<Rightarrow> content_cache \<Rightarrow> content_cache option" where
  "cc_evict key budget c =
     (if cc_total c > budget
      then (case cc_order c of
              [] \<Rightarrow> Some c
            | (_, victim) # _ \<Rightarrow>
                if victim = key then Some c else cc_evict key budget (cc_remove victim c))
      else Some c)"

definition cc_insert :: "nat \<Rightarrow> string \<Rightarrow> version \<Rightarrow> bytes \<Rightarrow> content_cache \<Rightarrow> content_cache" where
  "cc_insert now key v data c =
     (let c1 = cc_remove key c;
          seq = cc_tick c1 + 1
      in c1\<lparr>cc_tick := seq,
            cc_total := cc_total c1 + length data,
            cc_order := bt_insert seq key (cc_order c1),
            cc_by_path := (cc_by_path c1)(key \<mapsto>
              \<lparr>ce_version = v, ce_bytes = data, ce_seq = seq, ce_fetched = now\<rparr>)\<rparr>)"

definition cc_put :: "nat \<Rightarrow> string \<Rightarrow> version \<Rightarrow> bytes \<Rightarrow> nat \<Rightarrow> content_cache \<Rightarrow> content_cache option" where
  "cc_put now key v data budget c = cc_evict key budget (cc_insert now key v data c)"

subsection \<open>The representation invariant\<close>

definition weight :: "content_cache \<Rightarrow> string \<Rightarrow> nat" where
  "weight c k = (case cc_by_path c k of Some e \<Rightarrow> length (ce_bytes e) | None \<Rightarrow> 0)"

definition cc_ok :: "content_cache \<Rightarrow> bool" where
  "cc_ok c \<longleftrightarrow>
     sorted_wrt (<) (map fst (cc_order c)) \<and>
     (\<forall>s k. (s, k) \<in> set (cc_order c) \<longleftrightarrow> (\<exists>e. cc_by_path c k = Some e \<and> ce_seq e = s)) \<and>
     (\<forall>s\<in>set (map fst (cc_order c)). s \<le> cc_tick c) \<and>
     cc_total c = (\<Sum>p\<in>set (cc_order c). weight c (snd p))"

lemma bt_insert_snoc: "\<forall>p\<in>set m. fst p < k \<Longrightarrow> bt_insert k v m = m @ [(k, v)]"
  by (induction k v m rule: bt_insert.induct) auto

lemma bt_remove_set [simp]: "set (bt_remove k m) = {p \<in> set m. fst p \<noteq> k}"
  by (auto simp: bt_remove_def)

lemma bt_remove_sorted: "sorted_wrt (<) (map fst m) \<Longrightarrow> sorted_wrt (<) (map fst (bt_remove k m))"
  by (induction m) (auto simp: bt_remove_def)

lemma bt_remove_hd:
  "sorted_wrt (<) (map fst ((k, v) # m)) \<Longrightarrow> bt_remove k ((k, v) # m) = m"
  by (auto simp: bt_remove_def filter_id_conv)

lemma cc_ok_order:
  "cc_ok c \<Longrightarrow> (s, k) \<in> set (cc_order c) \<longleftrightarrow> (\<exists>e. cc_by_path c k = Some e \<and> ce_seq e = s)"
  by (simp add: cc_ok_def)

lemma cc_ok_tick: "cc_ok c \<Longrightarrow> p \<in> set (cc_order c) \<Longrightarrow> fst p \<le> cc_tick c"
  by (auto simp: cc_ok_def)

lemma cc_ok_sorted: "cc_ok c \<Longrightarrow> sorted_wrt (<) (map fst (cc_order c))"
  by (simp add: cc_ok_def)

lemma cc_ok_total: "cc_ok c \<Longrightarrow> cc_total c = (\<Sum>p\<in>set (cc_order c). weight c (snd p))"
  by (simp add: cc_ok_def)

lemma sorted_fst_inj:
  "sorted_wrt (<) (map fst m) \<Longrightarrow> (s, k) \<in> set m \<Longrightarrow> (s, k') \<in> set m \<Longrightarrow> k = k'" for s :: nat
  by (metis distinct_map eq_key_imp_eq_value strict_sorted_iff)

lemma cc_ok_seq_inj:
  assumes "cc_ok c" "cc_by_path c k = Some e" "cc_by_path c k' = Some e'" "ce_seq e = ce_seq e'"
  shows "k = k'"
  using assms cc_ok_order sorted_fst_inj [OF cc_ok_sorted [OF assms(1)]] by metis

lemma cc_ok_empty [simp]: "cc_ok cc_empty"
  by (simp add: cc_ok_def cc_empty_def)

lemma cc_remove_None: "cc_by_path c k = None \<Longrightarrow> cc_remove k c = c"
  by (simp add: cc_remove_def)

lemma cc_remove_by_path [cache_simps, simp]:
  "cc_by_path (cc_remove k c) = (cc_by_path c)(k := None)"
  by (auto simp: cc_remove_def fun_upd_idem split: option.splits)

lemma cc_remove_tick [simp]: "cc_tick (cc_remove k c) = cc_tick c"
  by (simp add: cc_remove_def split: option.splits)

lemma cc_remove_order_set:
  assumes "cc_ok c"
  shows "set (cc_order (cc_remove k c)) = {p \<in> set (cc_order c). snd p \<noteq> k}"
proof (cases "cc_by_path c k")
  case None
  with cc_ok_order [OF assms] show ?thesis by (auto simp: cc_remove_None)
next
  case (Some e)
  then have "(ce_seq e, k) \<in> set (cc_order c)" using cc_ok_order [OF assms] by auto
  then have "fst p \<noteq> ce_seq e \<longleftrightarrow> snd p \<noteq> k" if "p \<in> set (cc_order c)" for p
    using that cc_ok_order [OF assms] Some sorted_fst_inj [OF cc_ok_sorted [OF assms]]
    by (cases p) auto
  with Some show ?thesis by (auto simp: cc_remove_def)
qed

lemma weight_remove: "k' \<noteq> k \<Longrightarrow> weight (cc_remove k c) k' = weight c k'"
  by (simp add: weight_def)

lemma cc_remove_total:
  assumes ok: "cc_ok c"
  shows "cc_total c = cc_total (cc_remove k c) + weight c k"
proof (cases "cc_by_path c k")
  case None
  then show ?thesis by (simp add: cc_remove_None weight_def)
next
  case (Some e)
  then have "(ce_seq e, k) \<in> set (cc_order c)" using cc_ok_order [OF ok] by auto
  then have "weight c (snd (ce_seq e, k)) \<le> (\<Sum>p\<in>set (cc_order c). weight c (snd p))"
    by (intro member_le_sum) auto
  with ok Some show ?thesis by (simp add: cc_remove_def weight_def cc_ok_total)
qed

lemma cc_ok_remove:
  assumes ok: "cc_ok c"
  shows "cc_ok (cc_remove k c)"
proof -
  have sorted: "sorted_wrt (<) (map fst (cc_order (cc_remove k c)))"
    using cc_ok_sorted [OF ok] by (auto simp: cc_remove_def bt_remove_sorted split: option.splits)
  have order: "(s, k') \<in> set (cc_order (cc_remove k c)) \<longleftrightarrow>
      (\<exists>e. cc_by_path (cc_remove k c) k' = Some e \<and> ce_seq e = s)" for s k'
    using cc_ok_order [OF ok] by (auto simp: cc_remove_order_set [OF ok])
  have total: "cc_total (cc_remove k c) = (\<Sum>p\<in>set (cc_order (cc_remove k c)). weight (cc_remove k c) (snd p))"
  proof -
    have part: "(\<Sum>p\<in>{p \<in> set (cc_order c). snd p = k}. weight c (snd p)) = weight c k"
    proof (cases "cc_by_path c k")
      case None
      then have "{p \<in> set (cc_order c). snd p = k} = {}" using cc_ok_order [OF ok] by auto
      with None show ?thesis by (simp add: weight_def)
    next
      case (Some e)
      then have "{p \<in> set (cc_order c). snd p = k} = {(ce_seq e, k)}" using cc_ok_order [OF ok] by auto
      then show ?thesis by simp
    qed
    have "cc_total c = (\<Sum>p\<in>{p \<in> set (cc_order c). snd p \<noteq> k}. weight c (snd p)) +
        (\<Sum>p\<in>{p \<in> set (cc_order c). snd p = k}. weight c (snd p))"
      unfolding cc_ok_total [OF ok] by (subst sum.union_disjoint [symmetric]) (auto intro!: sum.cong)
    with part cc_remove_total [OF ok, of k]
    have "cc_total (cc_remove k c) = (\<Sum>p\<in>{p \<in> set (cc_order c). snd p \<noteq> k}. weight c (snd p))" by linarith
    also have "\<dots> = (\<Sum>p\<in>set (cc_order (cc_remove k c)). weight (cc_remove k c) (snd p))"
      by (rule sum.cong) (auto simp: cc_remove_order_set [OF ok] weight_remove)
    finally show ?thesis .
  qed
  have tick: "\<forall>s\<in>set (map fst (cc_order (cc_remove k c))). s \<le> cc_tick (cc_remove k c)"
    using cc_ok_tick [OF ok] by (auto simp: cc_remove_order_set [OF ok])
  show ?thesis unfolding cc_ok_def using sorted order total tick by blast
qed

text \<open>
  \<^verbatim>\<open>put\<close> and \<^verbatim>\<open>bump\<close> both end by recording an entry for an absent key at a new tick.
\<close>

definition cc_add :: "string \<Rightarrow> version \<Rightarrow> bytes \<Rightarrow> nat \<Rightarrow> content_cache \<Rightarrow> content_cache" where
  "cc_add key v data fetched c =
     c\<lparr>cc_tick := cc_tick c + 1,
       cc_total := cc_total c + length data,
       cc_order := cc_order c @ [(cc_tick c + 1, key)],
       cc_by_path := (cc_by_path c)(key \<mapsto>
         \<lparr>ce_version = v, ce_bytes = data, ce_seq = cc_tick c + 1, ce_fetched = fetched\<rparr>)\<rparr>"

lemma cc_add_sel [simp]:
  "cc_by_path (cc_add key v data f c) = (cc_by_path c)(key \<mapsto>
     \<lparr>ce_version = v, ce_bytes = data, ce_seq = cc_tick c + 1, ce_fetched = f\<rparr>)"
  "cc_order (cc_add key v data f c) = cc_order c @ [(cc_tick c + 1, key)]"
  "cc_total (cc_add key v data f c) = cc_total c + length data"
  "cc_tick (cc_add key v data f c) = cc_tick c + 1"
  by (simp_all add: cc_add_def)

lemma bt_insert_tick:
  "cc_ok c \<Longrightarrow> bt_insert (cc_tick c + 1) k (cc_order c) = cc_order c @ [(cc_tick c + 1, k)]"
  using cc_ok_tick by (intro bt_insert_snoc) fastforce

lemma cc_insert_alt:
  "cc_ok c \<Longrightarrow> cc_insert now key v data c = cc_add key v data now (cc_remove key c)"
  using bt_insert_tick [OF cc_ok_remove [of c key]] by (simp add: cc_insert_def cc_add_def Let_def)

lemma cc_bump_alt:
  assumes ok: "cc_ok c" and e: "cc_by_path c key = Some e"
  shows "cc_bump key c =
    Some (ce_bytes e, cc_add key (ce_version e) (ce_bytes e) (ce_fetched e) (cc_remove key c))"
proof -
  have o: "cc_order (cc_remove key c) = bt_remove (ce_seq e) (cc_order c)"
    using e by (simp add: cc_remove_def)
  have t: "cc_total (cc_remove key c) + length (ce_bytes e) = cc_total c"
    using cc_remove_total [OF ok, of key] e by (simp add: weight_def)
  have s: "e\<lparr>ce_seq := Suc (cc_tick c)\<rparr> =
      \<lparr>ce_version = ce_version e, ce_bytes = ce_bytes e, ce_seq = Suc (cc_tick c), ce_fetched = ce_fetched e\<rparr>"
    by simp
  have b: "bt_insert (Suc (cc_tick c)) key (bt_remove (ce_seq e) (cc_order c)) =
      bt_remove (ce_seq e) (cc_order c) @ [(Suc (cc_tick c), key)]"
    using bt_insert_tick [OF cc_ok_remove [OF ok, of key], of key] by (simp add: o)
  show ?thesis
    by (rule option.expand) (simp_all add: cc_bump_def e cc_add_def o t b s Let_def)
qed

lemma cc_ok_add:
  assumes ok: "cc_ok c" and key: "cc_by_path c key = None"
  shows "cc_ok (cc_add key v data f c)"
proof -
  have lt: "fst p < cc_tick c + 1" if "p \<in> set (cc_order c)" for p
    using cc_ok_tick [OF ok that] by simp
  have nk: "snd p \<noteq> key" if "p \<in> set (cc_order c)" for p
    using that key cc_ok_order [OF ok, of "fst p" "snd p"] by auto
  have w: "weight (cc_add key v data f c) (snd p) = weight c (snd p)" if "p \<in> set (cc_order c)" for p
    using nk [OF that] by (simp add: weight_def)
  let ?c = "cc_add key v data f c"
  have fresh: "(cc_tick c + 1, key) \<notin> set (cc_order c)" using lt by fastforce
  have "(\<Sum>p\<in>set (cc_order ?c). weight ?c (snd p)) =
      weight ?c key + (\<Sum>p\<in>set (cc_order c). weight ?c (snd p))"
    using fresh by simp
  also have "(\<Sum>p\<in>set (cc_order c). weight ?c (snd p)) = (\<Sum>p\<in>set (cc_order c). weight c (snd p))"
    by (rule sum.cong [OF refl w])
  also have "weight ?c key = length data" by (simp add: weight_def)
  finally have "(\<Sum>p\<in>set (cc_order ?c). weight ?c (snd p)) =
      (\<Sum>p\<in>set (cc_order c). weight c (snd p)) + length data" by simp
  with cc_ok_total [OF ok] have tot: "cc_total (cc_add key v data f c) =
      (\<Sum>p\<in>set (cc_order (cc_add key v data f c)). weight (cc_add key v data f c) (snd p))"
    by simp
  have ord: "(s, k) \<in> set (cc_order (cc_add key v data f c)) \<longleftrightarrow>
      (\<exists>e. cc_by_path (cc_add key v data f c) k = Some e \<and> ce_seq e = s)" for s k
    using nk [of "(s, k)"] cc_ok_order [OF ok, of s k] by auto
  have sorted: "sorted_wrt (<) (map fst (cc_order (cc_add key v data f c)))"
    using cc_ok_sorted [OF ok] lt by (auto simp: sorted_wrt_append)
  have tick: "\<forall>s\<in>set (map fst (cc_order ?c)). s \<le> cc_tick ?c" using lt by fastforce
  show ?thesis unfolding cc_ok_def using tot ord sorted tick by blast
qed

lemma cc_ok_insert: "cc_ok c \<Longrightarrow> cc_ok (cc_insert now key v data c)"
  by (simp add: cc_insert_alt cc_ok_add cc_ok_remove)

subsection \<open>Eviction\<close>

lemma cc_ok_not_last:
  assumes ok: "cc_ok c" and o: "cc_order c = (s1, v) # xs @ [(s, key)]"
  shows "v \<noteq> key"
proof
  assume "v = key"
  then have "s1 = s" using cc_ok_order [OF ok, of s1 key] cc_ok_order [OF ok, of s key] o by auto
  with cc_ok_sorted [OF ok] o show False by auto
qed

lemma cc_remove_hd_order:
  assumes ok: "cc_ok c" and o: "cc_order c = (s1, v) # xs"
  shows "cc_order (cc_remove v c) = xs"
proof -
  from o cc_ok_order [OF ok, of s1 v] obtain e where e: "cc_by_path c v = Some e" "ce_seq e = s1" by auto
  with o bt_remove_hd [of s1 v xs] cc_ok_sorted [OF ok] show ?thesis by (simp add: cc_remove_def)
qed

definition order_weight :: "content_cache \<Rightarrow> (nat \<times> string) list \<Rightarrow> nat" where
  "order_weight c ps = sum_list (map (\<lambda>p. weight c (snd p)) ps)"

lemma cc_total_order_weight: "cc_ok c \<Longrightarrow> cc_total c = order_weight c (cc_order c)"
  unfolding order_weight_def
  by (metis cc_ok_sorted cc_ok_total distinct_map strict_sorted_iff sum_list_distinct_conv_sum_set)

lemma order_weight_remove:
  "v \<notin> snd ` set ps \<Longrightarrow> order_weight (cc_remove v c) ps = order_weight c ps"
  unfolding order_weight_def by (rule arg_cong [where f = sum_list]) (auto intro!: map_cong weight_remove)

lemma cc_order_paths_distinct: "cc_ok c \<Longrightarrow> distinct (map snd (cc_order c))"
proof -
  assume ok: "cc_ok c"
  have "distinct (cc_order c)"
    using cc_ok_sorted [OF ok] by (metis distinct_map strict_sorted_iff)
  moreover have "inj_on snd (set (cc_order c))"
    by (rule inj_onI) (use cc_ok_order [OF ok] in auto)
  ultimately show ?thesis by (simp add: distinct_map)
qed

text \<open>What the loop leaves: the shortest suffix of the LRU order that fits, never without \<open>key\<close>.\<close>

definition evicted_to :: "string \<Rightarrow> nat \<Rightarrow> content_cache \<Rightarrow> nat \<Rightarrow> content_cache \<Rightarrow> bool" where
  "evicted_to key budget c n c' \<longleftrightarrow>
     cc_ok c' \<and> cc_order c' = drop n (cc_order c) \<and> n < length (cc_order c) \<and>
     cc_by_path c' = cc_by_path c |` (snd ` set (drop n (cc_order c))) \<and>
     (\<forall>m<n. budget < order_weight c (drop m (cc_order c))) \<and>
     (cc_total c' \<le> budget \<or> n = length (cc_order c) - 1)"

lemma cc_by_path_dom: "cc_ok c \<Longrightarrow> dom (cc_by_path c) = snd ` set (cc_order c)"
proof -
  assume ok: "cc_ok c"
  show ?thesis using cc_ok_order [OF ok] by (force simp: image_iff domIff)
qed

lemma evicted_to_0: "cc_ok c \<Longrightarrow> cc_order c \<noteq> [] \<Longrightarrow>
    cc_total c \<le> budget \<or> length (cc_order c) = 1 \<Longrightarrow> evicted_to key budget c 0 c"
  by (auto simp: evicted_to_def cc_by_path_dom [symmetric] restrict_map_def fun_eq_iff domIff)

lemma cc_evict_returns:
  assumes "cc_ok c" "cc_order c = xs @ [(s, key)]"
  shows "\<exists>n c'. cc_evict key budget c = Some c' \<and> evicted_to key budget c n c'"
  using assms
proof (induction xs arbitrary: c)
  case Nil
  then have "cc_evict key budget c = Some c" by (subst cc_evict.simps) auto
  with Nil evicted_to_0 [of c budget key] show ?case by auto
next
  case (Cons p xs)
  obtain s1 v where p: "p = (s1, v)" by (cases p)
  let ?r = "cc_remove v c"
  show ?case
  proof (cases "cc_total c \<le> budget")
    case True
    then have "cc_evict key budget c = Some c" by (subst cc_evict.simps) simp
    with Cons.prems True evicted_to_0 [of c budget key] show ?thesis by auto
  next
    case False
    have vk: "v \<noteq> key" using cc_ok_not_last [OF Cons.prems(1)] Cons.prems(2) p by simp
    have o: "cc_order c = (s1, v) # xs @ [(s, key)]" using Cons.prems(2) p by simp
    have ro: "cc_order ?r = xs @ [(s, key)]" by (rule cc_remove_hd_order [OF Cons.prems(1) o])
    from Cons.IH [OF cc_ok_remove [OF Cons.prems(1)] ro] obtain n c'
      where ev: "cc_evict key budget ?r = Some c'" and to: "evicted_to key budget ?r n c'" by blast
    have step: "cc_evict key budget c = Some c'"
      using False o vk ev by (subst cc_evict.simps) simp
    have vnot: "v \<notin> snd ` set (cc_order ?r)"
      using cc_order_paths_distinct [OF Cons.prems(1)] o ro by auto
    have dropn: "set (drop m (cc_order ?r)) \<subseteq> set (cc_order ?r)" for m by (rule set_drop_subset)
    have restr: "cc_by_path c' = cc_by_path c |` (snd ` set (drop n (cc_order ?r)))"
      using to vnot dropn [of n] by (auto simp: evicted_to_def restrict_map_def fun_eq_iff)
    have w: "order_weight ?r (drop m (cc_order ?r)) = order_weight c (drop m (cc_order ?r))" for m
      using vnot dropn [of m] by (intro order_weight_remove) blast
    have big0: "\<forall>m<n. budget < order_weight ?r (drop m (cc_order ?r))"
      using to unfolding evicted_to_def by blast
    have big: "budget < order_weight c (drop m (cc_order c))" if "m < Suc n" for m
    proof (cases m)
      case 0
      with False cc_total_order_weight [OF Cons.prems(1)] show ?thesis by simp
    next
      case (Suc m')
      have "drop m (cc_order c) = drop m' (cc_order ?r)" by (simp add: Suc o ro)
      moreover have "m' < n" using that Suc by simp
      with big0 have "budget < order_weight ?r (drop m' (cc_order ?r))" by blast
      ultimately show ?thesis by (simp only: w)
    qed
    have "evicted_to key budget c (Suc n) c'"
      using to big restr unfolding evicted_to_def by (auto simp: o ro)
    with step show ?thesis by blast
  qed
qed

lemma cc_insert_order:
  "cc_ok c \<Longrightarrow> cc_order (cc_insert now key v data c) =
     cc_order (cc_remove key c) @ [(cc_tick c + 1, key)]"
  by (simp add: cc_insert_alt)

lemma cc_insert_by_path:
  "cc_ok c \<Longrightarrow> cc_by_path (cc_insert now key v data c) = (cc_by_path c)(key \<mapsto>
     \<lparr>ce_version = v, ce_bytes = data, ce_seq = cc_tick c + 1, ce_fetched = now\<rparr>)"
  by (simp add: cc_insert_alt)

lemma cc_put_evicted:
  assumes ok: "cc_ok c"
  shows "\<exists>n c'. cc_put now key v data budget c = Some c' \<and>
    evicted_to key budget (cc_insert now key v data c) n c'"
  unfolding cc_put_def by (rule cc_evict_returns [OF cc_ok_insert [OF ok] cc_insert_order [OF ok]])

lemma evicted_keeps_last:
  assumes "evicted_to key budget c n c'" "cc_order c = xs @ [(s, key)]"
  shows "cc_by_path c' key = cc_by_path c key"
  using assms by (auto simp: evicted_to_def restrict_map_def)

lemma evicted_total:
  assumes to: "evicted_to key budget c n c'" and o: "cc_order c = xs @ [(s, key)]"
  shows "cc_total c' \<le> max budget (weight c key)"
proof (cases "cc_total c' \<le> budget")
  case False
  with to o have "cc_order c' = [(s, key)]" by (simp add: evicted_to_def)
  moreover from to have "cc_ok c'" by (simp add: evicted_to_def)
  ultimately have "cc_total c' = weight c' key" by (simp add: cc_ok_total)
  also have "\<dots> = weight c key" using evicted_keeps_last [OF to o] by (simp add: weight_def)
  finally show ?thesis by simp
qed simp

lemma evicted_subset:
  "evicted_to key budget c n c' \<Longrightarrow> cc_by_path c' k = Some e \<Longrightarrow> cc_by_path c k = Some e"
  by (auto simp: evicted_to_def restrict_map_def split: if_splits)

subsection \<open>Lookups, and the contract of a content store\<close>

definition holds :: "content_cache \<Rightarrow> string \<Rightarrow> (version \<times> bytes) option" where
  "holds c k = map_option (\<lambda>e. (ce_version e, ce_bytes e)) (cc_by_path c k)"

lemma cc_bump_total: "cc_hit now key v c \<Longrightarrow> cc_bump key c \<noteq> None"
  by (auto simp: cc_hit_def cc_bump_def Let_def split: option.splits)

lemma cc_get_hit:
  assumes ok: "cc_ok c" and hit: "cc_hit now key v c"
  shows "\<exists>e. cc_by_path c key = Some e \<and> ce_version e = v \<and> cc_get now key v c =
    (Some (ce_bytes e), cc_add key (ce_version e) (ce_bytes e) (ce_fetched e) (cc_remove key c))"
proof -
  from hit obtain e where e: "cc_by_path c key = Some e" "ce_version e = v"
    by (auto simp: cc_hit_def split: option.splits)
  with hit show ?thesis by (simp add: cc_get_def cc_bump_alt [OF ok])
qed

lemma cc_get_miss: "\<not> cc_hit now key v c \<Longrightarrow> cc_get now key v c = (None, c)"
  by (simp add: cc_get_def)

lemma cc_ok_get:
  assumes ok: "cc_ok c"
  shows "cc_ok (snd (cc_get now key v c))"
proof (cases "cc_hit now key v c")
  case True
  from cc_get_hit [OF ok this] show ?thesis by (auto simp: cc_ok_add cc_ok_remove [OF ok])
qed (simp add: cc_get_miss ok)

lemma holds_get:
  assumes ok: "cc_ok c"
  shows "holds (snd (cc_get now key v c)) = holds c"
proof (cases "cc_hit now key v c")
  case True
  from cc_get_hit [OF ok this] show ?thesis by (auto simp: holds_def fun_eq_iff)
qed (simp add: cc_get_miss)

lemma cc_get_holds:
  assumes ok: "cc_ok c" and "fst (cc_get now key v c) = Some b"
  shows "holds c key = Some (v, b)"
proof -
  have hit: "cc_hit now key v c" using assms cc_get_miss by fastforce
  from cc_get_hit [OF ok hit] assms(2) show ?thesis by (auto simp: holds_def)
qed

lemma holds_remove: "holds (cc_remove key c) k = (if k = key then None else holds c k)"
  by (simp add: holds_def)

text \<open>
  What \<^verbatim>\<open>CachedResource\<close> relies on: a lookup answers with bytes stored under the very version
  asked for, and nothing is ever held that was not put.
\<close>

locale content_store =
  fixes good :: "'c \<Rightarrow> bool"
    and held :: "'c \<Rightarrow> string \<Rightarrow> (version \<times> bytes) option"
    and get :: "nat \<Rightarrow> string \<Rightarrow> version \<Rightarrow> 'c \<Rightarrow> bytes option \<times> 'c"
    and put :: "nat \<Rightarrow> string \<Rightarrow> version \<Rightarrow> bytes \<Rightarrow> nat \<Rightarrow> 'c \<Rightarrow> 'c option"
    and remove :: "string \<Rightarrow> 'c \<Rightarrow> 'c"
  assumes good_get: "good c \<Longrightarrow> good (snd (get t k v c))"
    and held_get: "good c \<Longrightarrow> held (snd (get t k v c)) = held c"
    and get_held: "good c \<Longrightarrow> fst (get t k v c) = Some b \<Longrightarrow> held c k = Some (v, b)"
    and put_returns: "good c \<Longrightarrow> \<exists>c'. put t k v b budget c = Some c' \<and> good c' \<and>
      held c' k = Some (v, b) \<and> (\<forall>k' x. k' \<noteq> k \<and> held c' k' = Some x \<longrightarrow> held c k' = Some x)"
    and good_remove: "good c \<Longrightarrow> good (remove k c)"
    and held_remove: "good c \<Longrightarrow> held (remove k c) k' = (if k' = k then None else held c k')"
begin

text \<open>Every object held is the content \<open>T\<close> of its path at its version.\<close>

definition truthful :: "(string \<Rightarrow> version \<Rightarrow> bytes) \<Rightarrow> 'c \<Rightarrow> bool" where
  "truthful T c \<longleftrightarrow> good c \<and> (\<forall>k v b. held c k = Some (v, b) \<longrightarrow> b = T k v)"

lemma truthful_get: "truthful T c \<Longrightarrow> truthful T (snd (get t k v c))"
  by (simp add: truthful_def good_get held_get)

lemma truthful_hit: "truthful T c \<Longrightarrow> fst (get t k v c) = Some b \<Longrightarrow> b = T k v"
  using get_held by (auto simp: truthful_def)

lemma truthful_put:
  assumes T: "truthful T c" and b: "b = T k v"
  shows "\<exists>c'. put t k v b budget c = Some c' \<and> truthful T c'"
proof -
  from T have "good c" by (simp add: truthful_def)
  from put_returns [OF this, of t k v b budget] obtain c'
    where c': "put t k v b budget c = Some c'" "good c'" "held c' k = Some (v, b)"
      and old: "\<forall>k' x. k' \<noteq> k \<and> held c' k' = Some x \<longrightarrow> held c k' = Some x" by blast
  have "b' = T k' v'" if "held c' k' = Some (v', b')" for k' v' b'
  proof (cases "k' = k")
    case False
    with old that have "held c k' = Some (v', b')" by blast
    with T show ?thesis by (simp add: truthful_def)
  qed (use that c' b in auto)
  with c' show ?thesis by (simp add: truthful_def)
qed

lemma truthful_remove: "truthful T c \<Longrightarrow> truthful T (remove k c)"
  by (auto simp: truthful_def good_remove held_remove split: if_splits)

end

lemma cc_put_returns:
  assumes ok: "cc_ok c"
  shows "\<exists>c'. cc_put now key v data budget c = Some c' \<and> cc_ok c' \<and> holds c' key = Some (v, data) \<and>
    (\<forall>k x. k \<noteq> key \<and> holds c' k = Some x \<longrightarrow> holds c k = Some x)"
proof -
  obtain n c' where put: "cc_put now key v data budget c = Some c'"
    and to: "evicted_to key budget (cc_insert now key v data c) n c'"
    using cc_put_evicted [OF ok] by blast
  have "holds c' key = Some (v, data)"
    using evicted_keeps_last [OF to cc_insert_order [OF ok]]
    by (simp add: holds_def cc_insert_by_path [OF ok])
  moreover have "holds c k = Some x" if "k \<noteq> key" "holds c' k = Some x" for k x
    using that evicted_subset [OF to, of k] by (auto simp: holds_def cc_insert_by_path [OF ok])
  ultimately show ?thesis using put to by (auto simp: evicted_to_def)
qed

interpretation cc: content_store cc_ok holds cc_get cc_put cc_remove
  by (unfold_locales; (rule cc_put_returns)?)
    (simp_all add: cc_ok_get holds_get cc_get_holds cc_ok_remove holds_remove)

text \<open>
  C1. Inserting an object into a sound content cache returns (the eviction loop ends) with a
  sound cache that holds the object; the other entries are those of before that were used
  most recently, as many as fit: what is evicted is a prefix of the LRU order, and one entry
  less would have been over budget. The bytes kept are within the budget, or the object alone.
\<close>

theorem content_put_correct:
  assumes ok: "cc_ok c"
  shows "\<exists>n c'. cc_put now key v data budget c = Some c' \<and> cc_ok c' \<and>
     cc_by_path c' key =
       Some \<lparr>ce_version = v, ce_bytes = data, ce_seq = cc_tick c + 1, ce_fetched = now\<rparr> \<and>
     cc_order c' = drop n (cc_order (cc_insert now key v data c)) \<and>
     (\<forall>k e. k \<noteq> key \<and> cc_by_path c' k = Some e \<longrightarrow> cc_by_path c k = Some e) \<and>
     (\<forall>m<n. budget < order_weight (cc_insert now key v data c)
                       (drop m (cc_order (cc_insert now key v data c)))) \<and>
     cc_total c' \<le> max budget (length data)"
proof -
  let ?i = "cc_insert now key v data c"
  obtain n c' where put: "cc_put now key v data budget c = Some c'" and to: "evicted_to key budget ?i n c'"
    using cc_put_evicted [OF ok] by blast
  note o = cc_insert_order [OF ok, of now key v data]
  have "weight ?i key = length data" by (simp add: weight_def cc_insert_by_path [OF ok])
  with evicted_total [OF to o] have "cc_total c' \<le> max budget (length data)" by simp
  moreover have "cc_by_path c' key = cc_by_path ?i key" by (rule evicted_keeps_last [OF to o])
  moreover have "cc_by_path c k = Some e" if "k \<noteq> key" "cc_by_path c' k = Some e" for k e
    using evicted_subset [OF to that(2)] that(1) by (simp add: cc_insert_by_path [OF ok])
  ultimately show ?thesis
    using put to by (intro exI [of _ n] exI [of _ c']) (simp add: evicted_to_def cc_insert_by_path [OF ok])
qed

definition small_cache :: content_cache where
  "small_cache = cc_insert 0 ''/b'' (Tag ''1'') [1, 2, 3] (cc_insert 0 ''/a'' (Tag ''1'') [1, 2] cc_empty)"

lemma content_put_correct_witness:
  "\<exists>n c'. cc_put 5 ''/c'' (Tag ''2'') [7, 8, 9] 6 small_cache = Some c' \<and> cc_ok c' \<and>
     cc_by_path c' ''/c'' =
       Some \<lparr>ce_version = Tag ''2'', ce_bytes = [7, 8, 9], ce_seq = cc_tick small_cache + 1, ce_fetched = 5\<rparr> \<and>
     cc_total c' \<le> max 6 (length [7, 8, 9 :: byte])"
proof -
  have "cc_ok small_cache" by (simp add: small_cache_def cc_ok_insert)
  from content_put_correct [OF this, of 5 "''/c''" "Tag ''2''" "[7, 8, 9]" 6] show ?thesis by blast
qed

end
