(* ===== verification/Cached_Resource.thy ===== *)
theory Cached_Resource
  imports Index_Cache Content_Cache "HOL-Library.AList"
begin

section \<open>The caching provider\<close>

text \<open>
  \<^verbatim>\<open>CachedResource\<close> of \<^verbatim>\<open>workspace/src/vfs/cache.rs\<close>: a provider wrapped with the metadata index
  and the validated content cache. Its state is the provider's state, the two caches, the learned
  sizes (a \<^verbatim>\<open>HashMap\<close> whose size the code tests, so an association list without duplicate keys)
  and the clock that \<^verbatim>\<open>Instant::now()\<close> reads, which stands still during one operation. Every method
  of the trait is a definition over an arbitrary provider \<open>R\<close>, and \<open>cached_resource R\<close> is again a
  provider. The lemmas show when an operation is answered from the caches without a provider
  call, that what they answer is never stale, and that a mutation leaves nothing to answer from.
\<close>

record 's cached =
  cr_inner :: 's
  cr_cache :: index_cache
  cr_content :: content_cache
  cr_sizes :: "(string \<times> (version \<times> nat)) list"
  cr_now :: nat

text \<open>\<^verbatim>\<open>MAX_LEARNED_SIZES\<close>.\<close>

definition max_learned_sizes :: nat where
  "max_learned_sizes = 50000"

definition cr_new :: "nat \<Rightarrow> 's \<Rightarrow> 's cached" where
  "cr_new now inner =
     \<lparr>cr_inner = inner, cr_cache = ic_new listing_ttl, cr_content = cc_empty, cr_sizes = [], cr_now = now\<rparr>"

definition content_get :: "string \<Rightarrow> version \<Rightarrow> 's cached \<Rightarrow> bytes option \<times> 's cached" where
  "content_get key v s =
     (if \<not> version_known v then (None, s)
      else (let (hit, c) = cc_get (cr_now s) key v (cr_content s) in (hit, s\<lparr>cr_content := c\<rparr>)))"

text \<open>The last branch is an eviction loop that never ends; it is not taken on a sound cache.\<close>

definition content_put :: "string \<Rightarrow> version \<Rightarrow> bytes \<Rightarrow> bool \<Rightarrow> 's cached \<Rightarrow> 's cached" where
  "content_put key v data whole s =
     (if \<not> version_known v then s
      else if \<not> whole \<and> length data > max_content_bytes then s
      else if length data > content_cache_budget then s
      else (case cc_put (cr_now s) key v data content_cache_budget (cr_content s) of
              Some c \<Rightarrow> s\<lparr>cr_content := c\<rparr>
            | None \<Rightarrow> s))"

definition content_drop :: "string \<Rightarrow> 's cached \<Rightarrow> 's cached" where
  "content_drop key s = s\<lparr>cr_content := cc_remove key (cr_content s)\<rparr>"

definition content_clear :: "'s cached \<Rightarrow> 's cached" where
  "content_clear s = s\<lparr>cr_content := cc_empty\<rparr>"

definition size_learned :: "string \<Rightarrow> version \<Rightarrow> 's cached \<Rightarrow> nat option" where
  "size_learned key v s =
     (if \<not> version_known v then None
      else (case map_of (cr_sizes s) key of
              Some (v', n) \<Rightarrow> if v' = v then Some n else None
            | None \<Rightarrow> None))"

definition size_learn :: "string \<Rightarrow> version \<Rightarrow> nat \<Rightarrow> 's cached \<Rightarrow> 's cached" where
  "size_learn key v len s =
     (if \<not> version_known v then s
      else (let sizes = (if length (cr_sizes s) \<ge> max_learned_sizes then [] else cr_sizes s)
            in s\<lparr>cr_sizes := AList.update key (v, len) sizes\<rparr>))"

definition resolve_size ::
  "'s resource \<Rightarrow> mount_path \<Rightarrow> version \<Rightarrow> nat \<Rightarrow> bool \<Rightarrow> 's cached \<Rightarrow> nat \<times> 's cached" where
  "resolve_size R path v fallback whole s =
     (let (hit, s1) = content_get (as_str path) v s in
      case hit of
        Some b \<Rightarrow> (length b, s1)
      | None \<Rightarrow>
          (case size_learned (as_str path) v s1 of
             Some n \<Rightarrow> (n, s1)
           | None \<Rightarrow>
               (let (res, inner) = r_read_bytes R (cr_inner s1) path None;
                    s2 = s1\<lparr>cr_inner := inner\<rparr>
                in case res of
                     Inr b \<Rightarrow>
                       (length b,
                        content_put (as_str path) v b whole (size_learn (as_str path) v (length b) s2))
                   | Inl _ \<Rightarrow> (fallback, s2))))"

definition whole_or_small :: "file_stat \<Rightarrow> bool" where
  "whole_or_small st \<longleftrightarrow>
     fs_serves_whole st \<or> fs_size st = 0 \<or> (\<not> fs_size_is_estimate st \<and> fs_size st \<le> max_content_bytes)"

definition cr_read_bytes :: "'s resource \<Rightarrow> 's cached \<Rightarrow> mount_path \<Rightarrow> range option \<Rightarrow> bytes rres \<times> 's cached" where
  "cr_read_bytes R s path rng =
     (let key = as_str path;
          (sres, inner) = r_stat R (cr_inner s) path;
          s1 = s\<lparr>cr_inner := inner\<rparr>
      in case sres of
           Inl e \<Rightarrow> (Inl e, s1)
         | Inr st \<Rightarrow>
             (let v = version_of st;
                  (hit, s2) = content_get key v s1
              in case hit of
                   Some full \<Rightarrow> (Inr (slice full rng), s2)
                 | None \<Rightarrow>
                     if rng = None \<or> whole_or_small st
                     then (let (res, inner') = r_read_bytes R (cr_inner s2) path None;
                               s3 = s2\<lparr>cr_inner := inner'\<rparr>
                           in case res of
                                Inl e \<Rightarrow> (Inl e, s3)
                              | Inr full \<Rightarrow>
                                  (Inr (slice full rng),
                                   content_put key v full (fs_serves_whole st) s3))
                     else (let (res, inner') = r_read_bytes R (cr_inner s2) path rng
                           in (res, s2\<lparr>cr_inner := inner'\<rparr>))))"

definition cr_read_bytes_pinned ::
  "'s resource \<Rightarrow> 's cached \<Rightarrow> mount_path \<Rightarrow> range option \<Rightarrow> file_stat \<Rightarrow> bytes rres \<times> 's cached" where
  "cr_read_bytes_pinned R s path rng st =
     (let key = as_str path;
          v = version_of st;
          (hit, s1) = content_get key v s
      in case hit of
           Some full \<Rightarrow> (Inr (slice full rng), s1)
         | None \<Rightarrow>
             if rng = None \<or> whole_or_small st
             then (let (res, inner) = r_read_bytes_pinned R (cr_inner s1) path None st;
                       s2 = s1\<lparr>cr_inner := inner\<rparr>
                   in case res of
                        Inl e \<Rightarrow> (Inl e, s2)
                      | Inr full \<Rightarrow>
                          (Inr (slice full rng), content_put key v full (fs_serves_whole st) s2))
             else (let (res, inner) = r_read_bytes_pinned R (cr_inner s1) path rng st
                   in (res, s1\<lparr>cr_inner := inner\<rparr>)))"

text \<open>Cache maintenance after a mutation of the provider.\<close>

definition index_upd :: "(index_cache \<Rightarrow> index_cache) \<Rightarrow> 's cached \<Rightarrow> 's cached" where
  "index_upd f s = s\<lparr>cr_cache := f (cr_cache s)\<rparr>"

definition cr_write_bytes :: "'s resource \<Rightarrow> 's cached \<Rightarrow> mount_path \<Rightarrow> bytes \<Rightarrow> unit rres \<times> 's cached" where
  "cr_write_bytes R s path data =
     (let (r, inner) = r_write_bytes R (cr_inner s) path data;
          s1 = s\<lparr>cr_inner := inner\<rparr>
      in (r, if is_ok r
             then content_drop (as_str path) (index_upd (ic_invalidate_parent (as_str path)) s1)
             else s1))"

definition cr_readdir :: "'s resource \<Rightarrow> 's cached \<Rightarrow> mount_path \<Rightarrow> dir_entry list rres \<times> 's cached" where
  "cr_readdir R s path =
     (case ic_list_dir_entries (cr_now s) (as_str path) (cr_cache s) of
        Some entries \<Rightarrow> (Inr entries, s)
      | None \<Rightarrow>
          (let probe = (\<not> r_listings_complete R \<and> \<not> mp_is_root path \<and>
                        ic_is_listed (cr_now s) (parent_of (as_str path)) (cr_cache s));
               (found, cache) = (if probe then ic_get (cr_now s) (as_str path) (cr_cache s)
                                 else (None, cr_cache s));
               discovered = (probe \<and> found = None);
               (res, inner) = r_readdir R (cr_inner s) path;
               s1 = s\<lparr>cr_cache := cache, cr_inner := inner\<rparr>
           in case res of
                Inl e \<Rightarrow> (Inl e, s1)
              | Inr entries \<Rightarrow>
                  (let s2 = index_upd (ic_set_dir (cr_now s) (as_str path) entries) s1
                   in (Inr entries,
                       if discovered then index_upd (ic_invalidate_dir (parent_of (as_str path))) s2
                       else s2))))"

definition stat_of_dir :: "entry \<Rightarrow> file_stat" where
  "stat_of_dir e =
     default_stat\<lparr>fs_kind := FileKind_Dir, fs_mtime := e_mtime e, fs_atime := e_atime e,
       fs_ctime := e_ctime e\<rparr>"

definition stat_of_file :: "entry \<Rightarrow> file_stat" where
  "stat_of_file e =
     default_stat\<lparr>fs_kind := FileKind_File, fs_size := e_size e, fs_mtime := e_mtime e,
       fs_atime := e_atime e, fs_ctime := e_ctime e, fs_etag := e_etag e,
       fs_content_type := e_content_type e, fs_size_is_estimate := e_size_is_estimate e,
       fs_serves_whole := e_serves_whole e\<rparr>"

text \<open>\<^verbatim>\<open>stat\<close> in two parts: the answer from the index, if any, and the provider's.\<close>

definition stat_from_index :: "'s resource \<Rightarrow> mount_path \<Rightarrow> 's cached \<Rightarrow> file_stat rres option \<times> 's cached" where
  "stat_from_index R path s =
     (let key = as_str path;
          (found, cache) = ic_get (cr_now s) key (cr_cache s);
          s1 = s\<lparr>cr_cache := cache\<rparr>
      in (case found of
            Some e \<Rightarrow>
              if e_is_dir e then Some (Inr (stat_of_dir e))
              else if e_size_is_estimate e then None
              else if e_size e > 0 then Some (Inr (stat_of_file e))
              else None
          | None \<Rightarrow>
              if \<not> mp_is_root path \<and> r_listings_complete R \<and>
                 ic_is_listed (cr_now s) (parent_of key) cache
              then Some (Inl RNotFound) else None,
          s1))"

definition stat_from_provider :: "'s resource \<Rightarrow> mount_path \<Rightarrow> 's cached \<Rightarrow> file_stat rres \<times> 's cached" where
  "stat_from_provider R path s =
     (let (res, inner) = r_stat R (cr_inner s) path;
          s1 = s\<lparr>cr_inner := inner\<rparr>
      in case res of
           Inl e \<Rightarrow> (Inl e, s1)
         | Inr st \<Rightarrow>
             (let (hit, s2) = (if fs_kind st = FileKind_File
                               then content_get (as_str path) (version_of st) s1 else (None, s1))
              in case hit of
                   Some b \<Rightarrow> (Inr (st\<lparr>fs_size := length b, fs_size_is_estimate := False\<rparr>), s2)
                 | None \<Rightarrow>
                     if fs_kind st = FileKind_File \<and> (fs_size st = 0 \<or> fs_size_is_estimate st) \<and>
                        r_resolve_size_on_stat R
                     then (let (size, s3) = resolve_size R path (version_of st) (fs_size st)
                                              (fs_serves_whole st) s2;
                               resolved = (size \<noteq> fs_size st \<or> \<not> fs_size_is_estimate st)
                           in (Inr (st\<lparr>fs_size := size,
                                       fs_size_is_estimate := (fs_size_is_estimate st \<and> \<not> resolved)\<rparr>), s3))
                     else (Inr st, s2)))"

definition cr_stat :: "'s resource \<Rightarrow> 's cached \<Rightarrow> mount_path \<Rightarrow> file_stat rres \<times> 's cached" where
  "cr_stat R s path =
     (let (answer, s1) = stat_from_index R path s
      in case answer of Some r \<Rightarrow> (r, s1) | None \<Rightarrow> stat_from_provider R path s1)"

definition cr_unlink :: "'s resource \<Rightarrow> 's cached \<Rightarrow> mount_path \<Rightarrow> unit rres \<times> 's cached" where
  "cr_unlink R s path =
     (let (r, inner) = r_unlink R (cr_inner s) path;
          s1 = s\<lparr>cr_inner := inner\<rparr>
      in (r, if is_ok r
             then content_drop (as_str path)
               (if r_listings_complete R
                then index_upd (ic_invalidate_parent (as_str path))
                       (index_upd (ic_invalidate_dir (as_str path)) s1)
                else index_upd ic_clear s1)
             else s1))"

definition cr_mkdir :: "'s resource \<Rightarrow> 's cached \<Rightarrow> mount_path \<Rightarrow> unit rres \<times> 's cached" where
  "cr_mkdir R s path =
     (let (r, inner) = r_mkdir R (cr_inner s) path;
          s1 = s\<lparr>cr_inner := inner\<rparr>
      in (r, if is_ok r then index_upd (ic_invalidate_parent (as_str path)) s1 else s1))"

definition cr_rmdir :: "'s resource \<Rightarrow> 's cached \<Rightarrow> mount_path \<Rightarrow> unit rres \<times> 's cached" where
  "cr_rmdir R s path =
     (let (r, inner) = r_rmdir R (cr_inner s) path;
          s1 = s\<lparr>cr_inner := inner\<rparr>
      in (r, if is_ok r
             then index_upd (ic_invalidate_parent (as_str path))
                    (index_upd (ic_invalidate_dir (as_str path)) s1)
             else s1))"

definition cr_rename :: "'s resource \<Rightarrow> 's cached \<Rightarrow> mount_path \<Rightarrow> mount_path \<Rightarrow> unit rres \<times> 's cached" where
  "cr_rename R s src dst =
     (let (r, inner) = r_rename R (cr_inner s) src dst;
          s1 = s\<lparr>cr_inner := inner\<rparr>
      in (r, if is_ok r
             then content_drop (as_str dst) (content_drop (as_str src)
                    (index_upd (ic_invalidate_parent (as_str dst))
                      (index_upd (ic_invalidate_parent (as_str src))
                        (index_upd (ic_invalidate_dir (as_str src)) s1))))
             else s1))"

definition cr_command :: "'s resource \<Rightarrow> 's cached \<Rightarrow> string \<Rightarrow> bytes \<Rightarrow> bytes rres \<times> 's cached" where
  "cr_command R s name body =
     (let (r, inner) = r_command R (cr_inner s) name body;
          s1 = s\<lparr>cr_inner := inner\<rparr>
      in (r, if is_ok r then content_clear (index_upd ic_clear s1) else s1))"

definition cached_resource :: "'s resource \<Rightarrow> 's cached resource" where
  "cached_resource R =
     \<lparr>r_read_bytes = cr_read_bytes R, r_read_bytes_pinned = cr_read_bytes_pinned R,
      r_write_bytes = cr_write_bytes R, r_readdir = cr_readdir R, r_stat = cr_stat R,
      r_unlink = cr_unlink R, r_mkdir = cr_mkdir R, r_rmdir = cr_rmdir R, r_rename = cr_rename R,
      r_command = cr_command R, r_prompt = r_prompt R, r_listings_complete = r_listings_complete R,
      r_resolve_size_on_stat = r_resolve_size_on_stat R,
      r_reports_content_type = r_reports_content_type R\<rparr>"

subsection \<open>Soundness of what is served from the caches\<close>

text \<open>
  A versioned provider: the content of a path at a version is \<open>T\<close>. What a read returns right
  after a \<^verbatim>\<open>stat\<close> that gave a known version is that version's content, and a pinned read returns
  the pinned version's content or fails (S3's \<^verbatim>\<open>If-Match\<close>).
\<close>

definition versioned :: "'s resource \<Rightarrow> (string \<Rightarrow> version \<Rightarrow> bytes) \<Rightarrow> bool" where
  "versioned R T \<longleftrightarrow>
     (\<forall>i p st i1 r b i2. r_stat R i p = (Inr st, i1) \<and> version_known (version_of st) \<and>
        r_read_bytes R i1 p r = (Inr b, i2) \<longrightarrow> b = slice (T (as_str p) (version_of st)) r) \<and>
     (\<forall>i p st r b i1. version_known (version_of st) \<and> r_read_bytes_pinned R i p r st = (Inr b, i1) \<longrightarrow>
        b = slice (T (as_str p) (version_of st)) r)"

definition cr_sound :: "(string \<Rightarrow> version \<Rightarrow> bytes) \<Rightarrow> 's cached \<Rightarrow> bool" where
  "cr_sound T s \<longleftrightarrow>
     cc.truthful T (cr_content s) \<and>
     (\<forall>k v n. map_of (cr_sizes s) k = Some (v, n) \<longrightarrow> n = length (T k v))"

lemma truthful_empty: "cc.truthful T cc_empty"
  by (simp add: cc.truthful_def holds_def cc_empty_def) (simp add: cc_ok_empty [unfolded cc_empty_def])

lemma cr_sound_new: "cr_sound T (cr_new now i)"
  by (simp add: cr_sound_def cr_new_def truthful_empty)

lemma cr_sound_upd [simp]:
  "cr_sound T (s\<lparr>cr_inner := i\<rparr>) = cr_sound T s"
  "cr_sound T (s\<lparr>cr_cache := x\<rparr>) = cr_sound T s"
  "cr_sound T (index_upd f s) = cr_sound T s"
  "cr_sound T (s\<lparr>cr_now := t\<rparr>) = cr_sound T s"
  by (simp_all add: cr_sound_def index_upd_def)

lemma content_get_frame:
  assumes "content_get k v s = (hit, s')"
  shows "cr_inner s' = cr_inner s \<and> cr_cache s' = cr_cache s \<and> cr_now s' = cr_now s \<and> cr_sizes s' = cr_sizes s"
  using assms by (auto simp: content_get_def Let_def split: if_splits prod.splits)

lemma content_get_sound:
  assumes snd: "cr_sound T s" and g: "content_get k v s = (hit, s')"
  shows "cr_sound T s'" "hit = Some b \<Longrightarrow> version_known v \<and> b = T k v"
proof -
  have T: "cc.truthful T (cr_content s)" using snd by (simp add: cr_sound_def)
  obtain h c where hc: "cc_get (cr_now s) k v (cr_content s) = (h, c)" by fastforce
  have c: "cc.truthful T c" using cc.truthful_get [OF T, of "cr_now s" k v] by (simp add: hc)
  show "cr_sound T s'" using g snd c hc by (auto simp: content_get_def cr_sound_def split: if_splits)
  show "hit = Some b \<Longrightarrow> version_known v \<and> b = T k v"
    using g hc cc.truthful_hit [OF T, of "cr_now s" k v b] by (auto simp: content_get_def split: if_splits)
qed

lemma content_put_sound:
  assumes "cr_sound T s" "b = T k v"
  shows "cr_sound T (content_put k v b whole s)"
proof -
  obtain c' where "cc_put (cr_now s) k v b content_cache_budget (cr_content s) = Some c'" "cc.truthful T c'"
    using cc.truthful_put [of T "cr_content s" b k v] assms unfolding cr_sound_def by blast
  with assms show ?thesis by (simp add: content_put_def cr_sound_def)
qed

lemma content_put_frame:
  "cr_inner (content_put k v b w s) = cr_inner s" "cr_cache (content_put k v b w s) = cr_cache s"
  "cr_now (content_put k v b w s) = cr_now s"
  by (auto simp: content_put_def split: option.splits)

lemma content_put_unknown: "\<not> version_known v \<Longrightarrow> content_put k v b w s = s"
  by (simp add: content_put_def)

text \<open>On a sound cache the eviction of a put always ends, whatever is put.\<close>

lemma content_put_evicts:
  "cc_ok (cr_content s) \<Longrightarrow>
     cc_put (cr_now s) k v b content_cache_budget (cr_content s) \<noteq> None"
  using cc_put_returns by blast

lemma content_get_unknown: "\<not> version_known v \<Longrightarrow> content_get k v s = (None, s)"
  by (simp add: content_get_def)

lemma versioned_read:
  "\<lbrakk>versioned R T; r_stat R i p = (Inr st, i1); version_known (version_of st);
    r_read_bytes R i1 p r = (Inr b, i2)\<rbrakk> \<Longrightarrow> b = slice (T (as_str p) (version_of st)) r"
  unfolding versioned_def by blast

lemma versioned_pinned:
  "\<lbrakk>versioned R T; version_known (version_of st); r_read_bytes_pinned R i p r st = (Inr b, i1)\<rbrakk>
    \<Longrightarrow> b = slice (T (as_str p) (version_of st)) r"
  unfolding versioned_def by blast

text \<open>
  C2. A read through the cache is never stale: after the provider's \<^verbatim>\<open>stat\<close> reports a known
  version, every byte returned is that version's content in the requested range (whether it came
  from the cache, a whole fetch or a ranged one), an error is the provider's own, and the cache
  stays truthful.
\<close>

theorem cached_read_fresh:
  assumes R: "versioned R T" and s: "cr_sound T s"
    and st: "r_stat R (cr_inner s) p = (Inr st, i1)" and v: "version_known (version_of st)"
    and rd: "cr_read_bytes R s p r = (res, s')"
  shows "cr_sound T s' \<and>
    (case res of Inr b \<Rightarrow> b = slice (T (as_str p) (version_of st)) r
     | Inl e \<Rightarrow> \<exists>r'. fst (r_read_bytes R i1 p r') = Inl e)"
proof -
  let ?s1 = "s\<lparr>cr_inner := i1\<rparr>" and ?T = "T (as_str p) (version_of st)"
  obtain hit s2 where g: "content_get (as_str p) (version_of st) ?s1 = (hit, s2)" by fastforce
  have s1: "cr_sound T ?s1" using s by simp
  note sound2 = content_get_sound [OF s1 g]
  have i: "cr_inner s2 = i1" using content_get_frame [OF g] by simp
  show ?thesis
  proof (cases hit)
    case (Some full)
    then show ?thesis using rd sound2(1) sound2(2) [OF Some] by (auto simp: cr_read_bytes_def Let_def st g)
  next
    case None
    show ?thesis
    proof (cases "r = None \<or> whole_or_small st")
      case True
      obtain res0 i2 where rb: "r_read_bytes R i1 p None = (res0, i2)" by fastforce
      have ex: "\<exists>r'. fst (r_read_bytes R i1 p r') = res0" by (rule exI [of _ None]) (simp add: rb)
      show ?thesis
      proof (cases res0)
        case (Inl e)
        then have "res = Inl e" "s' = s2\<lparr>cr_inner := i2\<rparr>"
          using rd True None rb by (auto simp: cr_read_bytes_def Let_def st g i)
        then show ?thesis using sound2(1) ex Inl by simp
      next
        case (Inr full)
        have full: "full = ?T" using versioned_read [OF R st v, of None full i2] rb Inr by simp
        then have "cr_sound T (content_put (as_str p) (version_of st) full (fs_serves_whole st) (s2\<lparr>cr_inner := i2\<rparr>))"
          using sound2(1) by (intro content_put_sound) simp_all
        then show ?thesis using rd True None rb Inr full by (auto simp: cr_read_bytes_def Let_def st g i)
      qed
    next
      case False
      obtain res0 i2 where rb: "r_read_bytes R i1 p r = (res0, i2)" by fastforce
      have ex: "\<exists>r'. fst (r_read_bytes R i1 p r') = res0" by (rule exI [of _ r]) (simp add: rb)
      have eq: "res = res0" "s' = s2\<lparr>cr_inner := i2\<rparr>"
        using rd False None rb by (auto simp: cr_read_bytes_def Let_def st g i)
      then have "cr_sound T s'" using sound2(1) by simp
      moreover have "case res0 of Inr b \<Rightarrow> b = slice ?T r | Inl e \<Rightarrow> \<exists>r'. fst (r_read_bytes R i1 p r') = Inl e"
      proof (cases res0)
        case (Inl e)
        then show ?thesis using ex by simp
      next
        case (Inr b)
        then show ?thesis using versioned_read [OF R st v] rb by auto
      qed
      ultimately show ?thesis by (simp add: eq)
    qed
  qed
qed

text \<open>
  A pinned read stays on the version pinned when the file was opened: whatever happened to
  the provider since, the bytes returned are that version's content in the requested range, or
  the read fails; and the cache stays truthful.
\<close>

lemma cached_pinned_read_snapshot:
  assumes R: "versioned R T" and s: "cr_sound T s" and v: "version_known (version_of st)"
    and rd: "cr_read_bytes_pinned R s p r st = (res, s')"
  shows "cr_sound T s' \<and> (\<forall>b. res = Inr b \<longrightarrow> b = slice (T (as_str p) (version_of st)) r)"
proof -
  obtain hit s1 where g: "content_get (as_str p) (version_of st) s = (hit, s1)" by fastforce
  note sound1 = content_get_sound [OF s g]
  show ?thesis
  proof (cases hit)
    case (Some full)
    then show ?thesis using rd sound1(1) sound1(2) [OF Some] by (auto simp: cr_read_bytes_pinned_def Let_def g)
  next
    case None
    show ?thesis
    proof (cases "r = None \<or> whole_or_small st")
      case True
      obtain res0 i2 where rb: "r_read_bytes_pinned R (cr_inner s1) p None st = (res0, i2)" by fastforce
      show ?thesis
      proof (cases res0)
        case (Inl e)
        then show ?thesis using rd True None rb sound1(1) by (auto simp: cr_read_bytes_pinned_def Let_def g)
      next
        case (Inr full)
        have full: "full = T (as_str p) (version_of st)"
          using versioned_pinned [OF R v, of "cr_inner s1" p None full i2] rb Inr by simp
        then have "cr_sound T (content_put (as_str p) (version_of st) full (fs_serves_whole st) (s1\<lparr>cr_inner := i2\<rparr>))"
          using sound1(1) by (intro content_put_sound) simp_all
        then show ?thesis using rd True None rb Inr full by (auto simp: cr_read_bytes_pinned_def Let_def g)
      qed
    next
      case False
      obtain res0 i2 where rb: "r_read_bytes_pinned R (cr_inner s1) p r st = (res0, i2)" by fastforce
      have "res = res0" "s' = s1\<lparr>cr_inner := i2\<rparr>"
        using rd False None rb by (auto simp: cr_read_bytes_pinned_def Let_def g)
      then show ?thesis using sound1(1) versioned_pinned [OF R v] rb by auto
    qed
  qed
qed

subsection \<open>Sizes\<close>

lemma size_learn_sound:
  assumes "cr_sound T s" "n = length (T k v)"
  shows "cr_sound T (size_learn k v n s)"
  using assms by (auto simp: cr_sound_def size_learn_def update_conv' Let_def split: if_splits)

lemma size_learn_frame: "cr_inner (size_learn k v n s) = cr_inner s" "cr_content (size_learn k v n s) = cr_content s"
  by (simp_all add: size_learn_def Let_def)

lemma size_learned_sound: "cr_sound T s \<Longrightarrow> size_learned k v s = Some n \<Longrightarrow> n = length (T k v)"
  by (auto simp: cr_sound_def size_learned_def split: if_splits option.splits)

text \<open>The true length, unless the render that would produce it fails.\<close>

lemma resolve_size_true:
  assumes R: "versioned R T" and s: "cr_sound T s"
    and st: "r_stat R i0 p = (Inr st, cr_inner s)" and v: "version_known (version_of st)"
    and rs: "resolve_size R p (version_of st) fb whole s = (n, s')"
  shows "cr_sound T s' \<and>
    (n = length (T (as_str p) (version_of st)) \<or>
     n = fb \<and> (\<exists>e. fst (r_read_bytes R (cr_inner s) p None) = Inl e))"
proof -
  let ?v = "version_of st" and ?k = "as_str p"
  obtain hit s1 where g: "content_get ?k ?v s = (hit, s1)" by fastforce
  note sound1 = content_get_sound [OF s g]
  have i: "cr_inner s1 = cr_inner s" using content_get_frame [OF g] by simp
  show ?thesis
  proof (cases hit)
    case (Some b)
    then show ?thesis using rs sound1(1) sound1(2) [OF Some] by (auto simp: resolve_size_def Let_def g)
  next
    case None
    show ?thesis
    proof (cases "size_learned ?k ?v s1")
      case (Some m)
      then show ?thesis using rs None sound1(1) size_learned_sound [OF sound1(1) Some]
        by (auto simp: resolve_size_def Let_def g)
    next
      case learned: None
      obtain res i2 where rb: "r_read_bytes R (cr_inner s1) p None = (res, i2)" by fastforce
      show ?thesis
      proof (cases res)
        case (Inl e)
        then show ?thesis using rs None learned rb sound1(1) i by (auto simp: resolve_size_def Let_def g)
      next
        case (Inr b)
        have b: "b = T ?k ?v" using versioned_read [OF R st v, of None b i2] rb Inr i by simp
        then have "cr_sound T (content_put ?k ?v b whole (size_learn ?k ?v (length b) (s1\<lparr>cr_inner := i2\<rparr>)))"
          using sound1(1) by (intro content_put_sound size_learn_sound) simp_all
        then show ?thesis using rs None learned rb Inr b by (auto simp: resolve_size_def Let_def g)
      qed
    qed
  qed
qed

lemma version_of_resized [simp]:
  "version_of (st\<lparr>fs_size := n, fs_size_is_estimate := b\<rparr>) = version_of st"
  by (simp add: version_of_def split: option.splits)

text \<open>
  When a \<^verbatim>\<open>stat\<close> has to ask the provider and the provider cannot size the file (it reports 0
  or an estimate, and lets sizes be resolved), the size returned is the file's true length at the
  version reported, marked exact unless it equals the estimate; only when the render fails is it
  the provider's own number. The version and the kind are the provider's.
\<close>

lemma stat_resolves_size:
  assumes R: "versioned R T" and s: "cr_sound T s"
    and st: "r_stat R (cr_inner s) p = (Inr st, i1)" and v: "version_known (version_of st)"
    and isf: "fs_kind st = FileKind_File" "fs_size st = 0 \<or> fs_size_is_estimate st" "r_resolve_size_on_stat R"
    and ps: "stat_from_provider R p s = (res, s')"
  shows "\<exists>st'. res = Inr st' \<and> cr_sound T s' \<and>
    version_of st' = version_of st \<and> fs_kind st' = FileKind_File \<and>
    (fs_size st' = length (T (as_str p) (version_of st)) \<or>
     fs_size st' = fs_size st \<and> (\<exists>e. fst (r_read_bytes R i1 p None) = Inl e)) \<and>
    (fs_size_is_estimate st' \<longrightarrow> fs_size st' = fs_size st)"
proof -
  let ?k = "as_str p" and ?v = "version_of st" and ?s1 = "s\<lparr>cr_inner := i1\<rparr>"
  obtain hit s2 where g: "content_get ?k ?v ?s1 = (hit, s2)" by fastforce
  have s1: "cr_sound T ?s1" using s by simp
  note sound2 = content_get_sound [OF s1 g]
  have i: "cr_inner s2 = i1" using content_get_frame [OF g] by simp
  show ?thesis
  proof (cases hit)
    case (Some b)
    then have "res = Inr (st\<lparr>fs_size := length b, fs_size_is_estimate := False\<rparr>)" "s' = s2"
      using ps isf by (auto simp: stat_from_provider_def Let_def st g)
    then show ?thesis using sound2(1) sound2(2) [OF Some] isf by simp
  next
    case None
    obtain n s3 where rs: "resolve_size R p ?v (fs_size st) (fs_serves_whole st) s2 = (n, s3)" by fastforce
    have st': "r_stat R (cr_inner s) p = (Inr st, cr_inner s2)" by (simp add: st i)
    note true = resolve_size_true [OF R sound2(1) st' v rs]
    from None isf ps have "res = Inr (st\<lparr>fs_size := n,
        fs_size_is_estimate := (fs_size_is_estimate st \<and> \<not> (n \<noteq> fs_size st \<or> \<not> fs_size_is_estimate st))\<rparr>)" "s' = s3"
      by (auto simp: stat_from_provider_def Let_def st g rs)
    then show ?thesis using true i isf by auto
  qed
qed

subsection \<open>Listings answer the stats that follow\<close>

lemma cr_stat_index:
  "stat_from_index R path s = (Some r, s1) \<Longrightarrow> cr_stat R s path = (r, s1)"
  by (simp add: cr_stat_def)

lemma cr_stat_miss:
  "stat_from_index R path s = (None, s1) \<Longrightarrow> cr_stat R s path = stat_from_provider R path s1"
  by (simp add: cr_stat_def)

lemma stat_from_index_inner [simp]: "cr_inner (snd (stat_from_index R path s)) = cr_inner s"
  by (simp add: stat_from_index_def Let_def split: prod.splits)

text \<open>A fetched listing is stored, with nothing dropped, when listings are complete.\<close>

lemma cr_readdir_fetch:
  assumes "ic_list_dir_entries (cr_now s) (as_str p) (cr_cache s) = None"
    and "r_readdir R (cr_inner s) p = (Inr es, i1)" and "r_listings_complete R"
  shows "cr_readdir R s p =
    (Inr es, s\<lparr>cr_inner := i1, cr_cache := ic_set_dir (cr_now s) (as_str p) es (cr_cache s)\<rparr>)"
  using assms by (simp add: cr_readdir_def index_upd_def)

lemma stat_listed_hit:
  assumes d: "d \<noteq> []" "listing_ok es" "e \<in> set es" and t: "cr_now s < t0 + ic_ttl ic"
    and c: "cr_cache s = ic_set_dir t0 d es ic"
    and sized: "de_kind e = FileKind_Dir \<or> \<not> de_size_is_estimate e \<and> de_size e > 0"
  shows "fst (stat_from_index R (MountPath (child_key d (de_name e))) s) =
    Some (Inr (if de_kind e = FileKind_Dir then stat_of_dir (entry_of e) else stat_of_file (entry_of e)))"
proof -
  have "fst (ic_get (cr_now s) (child_key d (de_name e)) (cr_cache s)) = Some (entry_of e)"
    using ic.lookup_hit [OF d t] by (simp add: c)
  then show ?thesis using sized
    by (auto simp: stat_from_index_def Let_def entry_of_def split: prod.splits)
qed

lemma stat_listed_miss:
  assumes ok: "ic_ok ic" and d: "d \<noteq> []" "listing_ok es" and n: "name_ok n" "n \<notin> de_name ` set es"
    and t: "cr_now s < t0 + ic_ttl ic" and c: "cr_cache s = ic_set_dir t0 d es ic"
    and complete: "r_listings_complete R"
  shows "fst (stat_from_index R (MountPath (child_key d n)) s) = Some (Inl RNotFound)"
proof -
  obtain ic' where g: "ic_get (cr_now s) (child_key d n) (cr_cache s) = (None, ic')"
    using ic.lookup_miss [OF ok d n, of "cr_now s" t0] by (cases "ic_get (cr_now s) (child_key d n) (cr_cache s)") (simp add: c)
  then have "ic' = snd (ic_get (cr_now s) (child_key d n) (cr_cache s))" by simp
  then have "ic_is_listed (cr_now s) d ic'"
    using t by (simp add: c ic_is_listed_def ic_get_def ic_fresh_def cache_simps)
  then show ?thesis using complete n(1) d(1) child_key_not_root [OF n(1), of d]
    by (simp add: stat_from_index_def Let_def mp_is_root_def path_simps g)
qed

text \<open>
  After a directory was listed, and until the listing expires, the \<^verbatim>\<open>stat\<close> of every entry
  whose kind or length the listing settles is answered with what the listing said, and the
  \<^verbatim>\<open>stat\<close> of every other name is \<^verbatim>\<open>NotFound\<close>, without one call to the provider.
\<close>

lemma listing_answers_stats:
  assumes ok: "ic_ok (cr_cache s)" and d: "as_str p = d" "d \<noteq> []"
    and miss: "ic_list_dir_entries (cr_now s) d (cr_cache s) = None"
    and rd: "r_readdir R (cr_inner s) p = (Inr es, i1)" "listing_ok es" "r_listings_complete R"
    and s1: "s1 = (snd (cr_readdir R s p))\<lparr>cr_now := t\<rparr>" and t: "t < cr_now s + ic_ttl (cr_cache s)"
  shows "fst (cr_readdir R s p) = Inr es \<and>
    (\<forall>e\<in>set es. de_kind e = FileKind_Dir \<or> \<not> de_size_is_estimate e \<and> de_size e > 0 \<longrightarrow>
       fst (cr_stat R s1 (MountPath (child_key d (de_name e)))) =
         Inr (if de_kind e = FileKind_Dir then stat_of_dir (entry_of e) else stat_of_file (entry_of e)) \<and>
       cr_inner (snd (cr_stat R s1 (MountPath (child_key d (de_name e))))) = i1) \<and>
    (\<forall>n. name_ok n \<and> n \<notin> de_name ` set es \<longrightarrow>
       fst (cr_stat R s1 (MountPath (child_key d n))) = Inl RNotFound \<and>
       cr_inner (snd (cr_stat R s1 (MountPath (child_key d n)))) = i1)"
proof -
  have fetch: "cr_readdir R s p = (Inr es, s\<lparr>cr_inner := i1, cr_cache := ic_set_dir (cr_now s) d es (cr_cache s)\<rparr>)"
    using cr_readdir_fetch [of s p R es i1] miss rd d(1) by simp
  then have c: "cr_cache s1 = ic_set_dir (cr_now s) d es (cr_cache s)" and now: "cr_now s1 = t"
    and i: "cr_inner s1 = i1" by (simp_all add: s1)
  have t': "cr_now s1 < cr_now s + ic_ttl (cr_cache s)" using t now by simp
  have answered: "fst (cr_stat R s1 q) = r \<and> cr_inner (snd (cr_stat R s1 q)) = i1"
    if "fst (stat_from_index R q s1) = Some r" for q r
    using that stat_from_index_inner [of R q s1]
    by (cases "stat_from_index R q s1") (simp add: cr_stat_index i)
  show ?thesis
    using fetch answered stat_listed_hit [OF d(2) rd(2) _ t' c]
      stat_listed_miss [OF ok d(2) rd(2) _ _ t' c rd(3)] by simp
qed

subsection \<open>Mutations\<close>

text \<open>Neither index answer is left about the children of \<open>d\<close>.\<close>

definition forgotten :: "'s resource \<Rightarrow> string \<Rightarrow> 's cached \<Rightarrow> bool" where
  "forgotten R d s \<longleftrightarrow>
     ic_list_dir_entries (cr_now s) d (cr_cache s) = None \<and>
     (\<forall>n. name_ok n \<longrightarrow> fst (stat_from_index R (MountPath (child_key d n)) s) = None)"

lemma forgottenI:
  assumes d: "d \<noteq> []" and "\<not> ic_is_listed (cr_now s) d (cr_cache s)"
  shows "forgotten R d s"
  using assms
  by (auto simp: forgotten_def ic_list_dir_entries_def ic_is_listed_def stat_from_index_def ic_get_def
      path_simps ic_fresh_def)

lemma not_listed_discard:
  "\<not> ic_is_listed t d ic \<Longrightarrow> \<not> ic_is_listed t d (ic_invalidate_dir p ic)"
  using ic.listed_discard ic.listed_discard_other by (cases "below p d") auto

lemma not_listed_parent:
  "d \<noteq> [] \<Longrightarrow> name_ok n \<Longrightarrow> \<not> ic_is_listed t d (ic_invalidate_parent (child_key d n) ic)"
  by (simp add: ic_invalidate_parent_def path_simps ic.listed_discard)

lemma not_listed_clear: "\<not> ic_is_listed t d (ic_clear ic)"
  by (simp add: ic_is_listed_def ic_fresh_def ic_clear_def)

lemma index_upd_sel [simp]:
  "cr_cache (index_upd f s) = f (cr_cache s)" "cr_now (index_upd f s) = cr_now s"
  "cr_content (index_upd f s) = cr_content s" "cr_inner (index_upd f s) = cr_inner s"
  by (simp_all add: index_upd_def)

lemma content_drop_sel [simp]:
  "cr_cache (content_drop k s) = cr_cache s" "cr_now (content_drop k s) = cr_now s"
  "cr_inner (content_drop k s) = cr_inner s"
  "cr_content (content_drop k s) = cc_remove k (cr_content s)"
  by (simp_all add: content_drop_def)

lemma forgotten_write:
  assumes "d \<noteq> []" "name_ok n" "fst (cr_write_bytes R s (MountPath (child_key d n)) data) = Inr ()"
  shows "forgotten R d (snd (cr_write_bytes R s (MountPath (child_key d n)) data))"
  using assms by (intro forgottenI) (auto simp: cr_write_bytes_def Let_def not_listed_parent split: prod.splits)

lemma forgotten_mkdir:
  assumes "d \<noteq> []" "name_ok n" "fst (cr_mkdir R s (MountPath (child_key d n))) = Inr ()"
  shows "forgotten R d (snd (cr_mkdir R s (MountPath (child_key d n))))"
  using assms by (intro forgottenI) (auto simp: cr_mkdir_def Let_def not_listed_parent split: prod.splits)

lemma forgotten_rmdir:
  assumes "d \<noteq> []" "name_ok n" "fst (cr_rmdir R s (MountPath (child_key d n))) = Inr ()"
  shows "forgotten R d (snd (cr_rmdir R s (MountPath (child_key d n))))"
  using assms by (intro forgottenI) (auto simp: cr_rmdir_def Let_def not_listed_parent split: prod.splits)

lemma forgotten_unlink:
  assumes "d \<noteq> []" "name_ok n" "fst (cr_unlink R s (MountPath (child_key d n))) = Inr ()"
  shows "forgotten R d (snd (cr_unlink R s (MountPath (child_key d n))))"
  using assms by (intro forgottenI)
    (auto simp: cr_unlink_def Let_def not_listed_parent not_listed_clear split: prod.splits)

lemma forgotten_rename:
  assumes "d \<noteq> []" "name_ok n" "d' \<noteq> []" "name_ok n'"
    and "fst (cr_rename R s (MountPath (child_key d n)) (MountPath (child_key d' n'))) = Inr ()"
  shows "forgotten R d (snd (cr_rename R s (MountPath (child_key d n)) (MountPath (child_key d' n'))))"
    "forgotten R d' (snd (cr_rename R s (MountPath (child_key d n)) (MountPath (child_key d' n'))))"
proof -
  note nl = not_listed_parent [OF assms(1,2)] not_listed_parent [OF assms(3,4)]
  have keep: "\<not> ic_is_listed t d (ic_invalidate_parent (child_key d' n') (ic_invalidate_parent (child_key d n) c))"
    for t c using not_listed_discard [OF nl(1)] by (simp add: ic_invalidate_parent_def)
  show "forgotten R d (snd (cr_rename R s (MountPath (child_key d n)) (MountPath (child_key d' n'))))"
    using assms keep by (intro forgottenI) (auto simp: cr_rename_def Let_def split: prod.splits)
  show "forgotten R d' (snd (cr_rename R s (MountPath (child_key d n)) (MountPath (child_key d' n'))))"
    using assms nl by (intro forgottenI) (auto simp: cr_rename_def Let_def split: prod.splits)
qed

lemma content_dropped:
  "fst (cr_write_bytes R s p data) = Inr () \<Longrightarrow> holds (cr_content (snd (cr_write_bytes R s p data))) (as_str p) = None"
  "fst (cr_unlink R s p) = Inr () \<Longrightarrow> holds (cr_content (snd (cr_unlink R s p))) (as_str p) = None"
  "fst (cr_rename R s p q) = Inr () \<Longrightarrow> holds (cr_content (snd (cr_rename R s p q))) (as_str p) = None"
  "fst (cr_rename R s p q) = Inr () \<Longrightarrow> holds (cr_content (snd (cr_rename R s p q))) (as_str q) = None"
  by (auto simp: cr_write_bytes_def cr_unlink_def cr_rename_def Let_def holds_remove split: prod.splits)

text \<open>
  C3. After a successful write, mkdir, rmdir, unlink or rename through the cache, the listing of
  every directory a name was created in or removed from, and every \<^verbatim>\<open>stat\<close> of its children, is
  asked from the provider again: nothing the index knew before can be served. After a write,
  unlink or rename no content of the paths named is held either.
\<close>

theorem mutation_not_served_stale:
  assumes d: "d \<noteq> []" "name_ok n" and d': "d' \<noteq> []" "name_ok n'"
    and p: "p = MountPath (child_key d n)" and q: "q = MountPath (child_key d' n')"
  shows
    "(fst (cr_write_bytes R s p data) = Inr () \<longrightarrow> forgotten R d (snd (cr_write_bytes R s p data)) \<and>
        holds (cr_content (snd (cr_write_bytes R s p data))) (as_str p) = None) \<and>
     (fst (cr_mkdir R s p) = Inr () \<longrightarrow> forgotten R d (snd (cr_mkdir R s p))) \<and>
     (fst (cr_rmdir R s p) = Inr () \<longrightarrow> forgotten R d (snd (cr_rmdir R s p))) \<and>
     (fst (cr_unlink R s p) = Inr () \<longrightarrow> forgotten R d (snd (cr_unlink R s p)) \<and>
        holds (cr_content (snd (cr_unlink R s p))) (as_str p) = None) \<and>
     (fst (cr_rename R s p q) = Inr () \<longrightarrow> forgotten R d (snd (cr_rename R s p q)) \<and>
        forgotten R d' (snd (cr_rename R s p q)) \<and>
        holds (cr_content (snd (cr_rename R s p q))) (as_str p) = None \<and>
        holds (cr_content (snd (cr_rename R s p q))) (as_str q) = None)"
  unfolding p q
  by (intro conjI impI; erule forgotten_write [OF d] forgotten_mkdir [OF d] forgotten_rmdir [OF d]
      forgotten_unlink [OF d] forgotten_rename [OF d d'] content_dropped)

subsection \<open>A provider that meets the hypotheses\<close>

text \<open>
  A content-addressed store: the tag of a file is its content, its length is not reported. It
  shows that the hypotheses of the properties can hold together.
\<close>

definition cas_truth :: "string \<Rightarrow> version \<Rightarrow> bytes" where
  "cas_truth k v = (case v of Tag e \<Rightarrow> str_bytes e | _ \<Rightarrow> [])"

definition cas_stat_of :: "bytes \<Rightarrow> file_stat" where
  "cas_stat_of b = default_stat\<lparr>fs_etag := Some (bytes_str b)\<rparr>"

definition cas_provider :: "(string \<Rightarrow> bytes option) resource" where
  "cas_provider =
     (resource_defaults
       (\<lambda>s p r. (case s (as_str p) of Some b \<Rightarrow> Inr (slice b r) | None \<Rightarrow> Inl RNotFound, s))
       (\<lambda>s p b. (Inr (), s(as_str p \<mapsto> b)))
       (\<lambda>s p. (Inr two_files, s))
       (\<lambda>s p. (case s (as_str p) of Some b \<Rightarrow> Inr (cas_stat_of b) | None \<Rightarrow> Inl RNotFound, s)))
     \<lparr>r_read_bytes_pinned := (\<lambda>s p r st. (case s (as_str p) of
          Some b \<Rightarrow> if version_of (cas_stat_of b) = version_of st then Inr (slice b r) else Inl (RBackend ''412'')
        | None \<Rightarrow> Inl RNotFound, s)),
      r_unlink := (\<lambda>s p. (Inr (), s(as_str p := None)))\<rparr>"

lemma str_bytes_bytes_str [simp]: "str_bytes (bytes_str b) = b"
  by (simp add: str_bytes_def bytes_str_def comp_def map_idI of_char_of_byte)

lemma cas_version: "version_of (cas_stat_of b) = Tag (bytes_str b)"
  by (simp add: version_of_def cas_stat_of_def)

lemma cas_truth_version [simp]: "cas_truth k (version_of (cas_stat_of b)) = b"
  by (simp add: cas_truth_def cas_version)

lemma cas_versioned: "versioned cas_provider cas_truth"
proof -
  have "b = slice (cas_truth (as_str p) (version_of st)) r"
    if "r_stat cas_provider i p = (Inr st, i1)" "r_read_bytes cas_provider i1 p r = (Inr b, i2)"
    for i p st i1 r b i2
    using that by (auto simp: cas_provider_def resource_defaults_def split: option.splits)
  moreover have "b = slice (cas_truth (as_str p) (version_of st)) r"
    if "r_read_bytes_pinned cas_provider i p r st = (Inr b, i1)" for i p st r b i1
  proof -
    from that obtain c where c: "i (as_str p) = Some c" "version_of (cas_stat_of c) = version_of st"
      "b = slice c r" by (auto simp: cas_provider_def split: option.splits if_splits)
    then show ?thesis by (metis cas_truth_version)
  qed
  ultimately show ?thesis unfolding versioned_def by blast
qed

definition cas_state :: "(string \<Rightarrow> bytes option) cached" where
  "cas_state = cr_new 0 [''/f'' \<mapsto> [1, 2, 3]]"

lemma cas_stat: "r_stat cas_provider (cr_inner cas_state) (MountPath ''/f'') =
    (Inr (cas_stat_of [1, 2, 3]), cr_inner cas_state)"
  by (simp add: cas_provider_def resource_defaults_def cas_state_def cr_new_def)

lemma cas_known: "version_known (version_of (cas_stat_of b))"
  by (simp add: cas_version)

lemma cas_sound: "cr_sound cas_truth cas_state"
  by (simp add: cas_state_def cr_sound_new)

lemma cached_read_fresh_witness:
  "case cr_read_bytes cas_provider cas_state (MountPath ''/f'') (Some (1, 3)) of (res, s') \<Rightarrow>
     cr_sound cas_truth s' \<and>
     (case res of Inr b \<Rightarrow> b = [2, 3] | Inl e \<Rightarrow>
        \<exists>r'. fst (r_read_bytes cas_provider (cr_inner cas_state) (MountPath ''/f'') r') = Inl e)"
proof -
  obtain res s' where rd: "cr_read_bytes cas_provider cas_state (MountPath ''/f'') (Some (1, 3)) = (res, s')"
    by fastforce
  from cached_read_fresh [OF cas_versioned cas_sound cas_stat cas_known rd] rd show ?thesis
    by (simp add: slice_take_drop split: sum.splits)
qed

lemma cas_miss: "content_get k v cas_state = (None, cas_state)"
  by (simp add: content_get_def cas_state_def cr_new_def cc_get_def cc_hit_def cc_empty_def)

lemma cas_whole: "whole_or_small (cas_stat_of b)"
  by (simp add: whole_or_small_def cas_stat_of_def default_stat_def)

lemma cas_pinned: "r_read_bytes_pinned cas_provider (cr_inner cas_state) (MountPath ''/f'') None (cas_stat_of [1, 2, 3]) =
    (Inr [1, 2, 3], cr_inner cas_state)"
  by (simp add: cas_provider_def cas_state_def cr_new_def)

lemma cached_pinned_read_snapshot_witness:
  "cr_sound cas_truth (snd (cr_read_bytes_pinned cas_provider cas_state (MountPath ''/f'') (Some (1, 3)) (cas_stat_of [1, 2, 3]))) \<and>
   fst (cr_read_bytes_pinned cas_provider cas_state (MountPath ''/f'') (Some (1, 3)) (cas_stat_of [1, 2, 3])) = Inr [2, 3]"
proof -
  obtain res s' where rd: "cr_read_bytes_pinned cas_provider cas_state (MountPath ''/f'') (Some (1, 3)) (cas_stat_of [1, 2, 3]) = (res, s')"
    by fastforce
  then obtain b where b: "res = Inr b"
    by (auto simp: cr_read_bytes_pinned_def cas_miss cas_whole cas_pinned Let_def)
  from cached_pinned_read_snapshot [OF cas_versioned cas_sound cas_known rd] rd b show ?thesis
    by (simp add: slice_take_drop)
qed

lemma stat_resolves_size_witness:
  "\<exists>st'. fst (stat_from_provider cas_provider (MountPath ''/f'') cas_state) = Inr st' \<and> fs_size st' = 3"
proof -
  obtain res s' where ps: "stat_from_provider cas_provider (MountPath ''/f'') cas_state = (res, s')" by fastforce
  have f: "fs_kind (cas_stat_of [1, 2, 3]) = FileKind_File"
    "fs_size (cas_stat_of [1, 2, 3]) = 0 \<or> fs_size_is_estimate (cas_stat_of [1, 2, 3])"
    "r_resolve_size_on_stat cas_provider"
    by (simp_all add: cas_stat_of_def default_stat_def cas_provider_def resource_defaults_def)
  have rendered: "fst (r_read_bytes cas_provider (cr_inner cas_state) (MountPath ''/f'') None) = Inr [1, 2, 3]"
    by (simp add: cas_provider_def resource_defaults_def cas_state_def cr_new_def)
  from stat_resolves_size [OF cas_versioned cas_sound cas_stat cas_known f ps] ps rendered show ?thesis by auto
qed

lemma listing_answers_stats_witness:
  "fst (cr_stat cas_provider ((snd (cr_readdir cas_provider cas_state (MountPath ''/d'')))\<lparr>cr_now := 5\<rparr>)
      (MountPath (child_key ''/d'' ''zz''))) = Inl RNotFound"
proof -
  have ttl: "5 < cr_now cas_state + ic_ttl (cr_cache cas_state)"
    by (simp add: cas_state_def cr_new_def ic_new_def listing_ttl_def)
  have miss: "ic_list_dir_entries (cr_now cas_state) ''/d'' (cr_cache cas_state) = None"
    by (simp add: cas_state_def cr_new_def ic_new_def ic_list_dir_entries_def ic_fresh_def)
  have ok: "ic_ok (cr_cache cas_state)" by (simp add: cas_state_def cr_new_def)
  have rd: "r_readdir cas_provider (cr_inner cas_state) (MountPath ''/d'') = (Inr two_files, cr_inner cas_state)"
    "r_listings_complete cas_provider"
    by (simp_all add: cas_provider_def resource_defaults_def)
  have n: "name_ok ''zz'' \<and> ''zz'' \<notin> de_name ` set two_files" by (simp add: name_ok_def two_files_def)
  from listing_answers_stats [OF ok mount_path.sel _ miss rd(1) two_files_ok rd(2) refl ttl] n show ?thesis
    by simp
qed

lemma mutation_not_served_stale_witness:
  "forgotten cas_provider ''/'' (snd (cr_write_bytes cas_provider cas_state (MountPath (child_key ''/'' ''f'')) [7])) \<and>
   holds (cr_content (snd (cr_write_bytes cas_provider cas_state (MountPath (child_key ''/'' ''f'')) [7])))
     (as_str (MountPath (child_key ''/'' ''f''))) = None"
proof -
  have "fst (cr_write_bytes cas_provider cas_state (MountPath (child_key ''/'' ''f'')) [7]) = Inr ()"
    by (simp add: cr_write_bytes_def cas_provider_def resource_defaults_def Let_def)
  with mutation_not_served_stale [of "''/''" "''f''" "''/''" "''g''" "MountPath (child_key ''/'' ''f'')"
      "MountPath (child_key ''/'' ''g'')" cas_provider cas_state "[7]"]
  show ?thesis by (simp add: name_ok_def)
qed

end
