(* ===== verification/Local_Resource.thy ===== *)
theory Local_Resource
  imports Resource_Api "HOL-Library.AList"
begin

section \<open>The local file tree\<close>

text \<open>
  \<^verbatim>\<open>LocalResource\<close> of \<^verbatim>\<open>workspace/src/vfs/resource/local.rs\<close>: a workspace's files on disk as a
  provider. The disk is an association list from absolute paths (lists of segments) to nodes,
  with the POSIX behaviour of the \<^verbatim>\<open>std::fs\<close> calls the source makes (no symbolic links, no
  permission or device errors; a directory's own times are those of its creation). The lemmas
  show that no path escapes the root, that the tree stays a tree, and that the provider meets
  the contract of a store of plain files.
\<close>

datatype io_error = IoNotFound | IoOther string

record metadata =
  md_mtime :: systime
  md_atime :: systime
  md_ctime :: systime
  md_created :: systime

datatype fnode = FFile bytes metadata | FDir metadata

type_synonym disk_nodes = "(string list \<times> fnode) list"

record disk =
  dk_nodes :: disk_nodes
  dk_now :: systime

fun node_is_dir :: "fnode \<Rightarrow> bool" where
  "node_is_dir (FDir _) = True"
| "node_is_dir (FFile _ _) = False"

fun node_meta :: "fnode \<Rightarrow> metadata" where
  "node_meta (FDir m) = m"
| "node_meta (FFile _ m) = m"

fun node_len :: "fnode \<Rightarrow> nat" where
  "node_len (FDir _) = 4096"
| "node_len (FFile b _) = length b"

subsection \<open>The calls to std::fs\<close>

definition fresh_meta :: "systime \<Rightarrow> metadata" where
  "fresh_meta t = \<lparr>md_mtime = t, md_atime = t, md_ctime = t, md_created = t\<rparr>"

text \<open>Why a path names nothing: an ancestor is a file (\<^verbatim>\<open>ENOTDIR\<close>), or some component is missing.\<close>

definition missing_err :: "disk_nodes \<Rightarrow> string list \<Rightarrow> io_error" where
  "missing_err ns p =
     (if list_ex (\<lambda>i. case map_of ns (take i p) of Some n \<Rightarrow> \<not> node_is_dir n | None \<Rightarrow> False) [0..<length p]
      then IoOther ''ENOTDIR'' else IoNotFound)"

definition is_dir_at :: "disk_nodes \<Rightarrow> string list \<Rightarrow> bool" where
  "is_dir_at ns p = (case map_of ns p of Some n \<Rightarrow> node_is_dir n | None \<Rightarrow> False)"

definition sys_metadata :: "disk \<Rightarrow> string list \<Rightarrow> (io_error, fnode) res" where
  "sys_metadata d p =
     (case map_of (dk_nodes d) p of Some n \<Rightarrow> Inr n | None \<Rightarrow> Inl (missing_err (dk_nodes d) p))"

text \<open>\<^verbatim>\<open>OpenOptions::write(true).create(true).truncate(true)\<close>, then \<^verbatim>\<open>write_all\<close>.\<close>

definition sys_write_new :: "disk \<Rightarrow> string list \<Rightarrow> bytes \<Rightarrow> (io_error, disk) res" where
  "sys_write_new d p data =
     (case map_of (dk_nodes d) p of
        Some (FDir _) \<Rightarrow> Inl (IoOther ''EISDIR'')
      | Some (FFile _ m) \<Rightarrow>
          Inr (d\<lparr>dk_nodes := AList.update p
            (FFile data (m\<lparr>md_mtime := dk_now d, md_ctime := dk_now d\<rparr>)) (dk_nodes d)\<rparr>)
      | None \<Rightarrow>
          if p \<noteq> [] \<and> is_dir_at (dk_nodes d) (butlast p)
          then Inr (d\<lparr>dk_nodes := AList.update p (FFile data (fresh_meta (dk_now d))) (dk_nodes d)\<rparr>)
          else Inl (missing_err (dk_nodes d) p))"

text \<open>\<^verbatim>\<open>read_dir\<close>: the nodes whose parent is the directory, in the order the disk keeps them.\<close>

definition children :: "disk_nodes \<Rightarrow> string list \<Rightarrow> (string list \<times> fnode) list" where
  "children ns p = filter (\<lambda>(q, _). q \<noteq> [] \<and> butlast q = p) ns"

definition sys_read_dir :: "disk \<Rightarrow> string list \<Rightarrow> (io_error, (string \<times> fnode) list) res" where
  "sys_read_dir d p =
     (case map_of (dk_nodes d) p of
        Some (FDir _) \<Rightarrow> Inr (map (\<lambda>(q, n). (last q, n)) (children (dk_nodes d) p))
      | Some (FFile _ _) \<Rightarrow> Inl (IoOther ''ENOTDIR'')
      | None \<Rightarrow> Inl (missing_err (dk_nodes d) p))"

definition sys_remove_file :: "disk \<Rightarrow> string list \<Rightarrow> (io_error, disk) res" where
  "sys_remove_file d p =
     (case map_of (dk_nodes d) p of
        Some (FFile _ _) \<Rightarrow> Inr (d\<lparr>dk_nodes := AList.delete p (dk_nodes d)\<rparr>)
      | Some (FDir _) \<Rightarrow> Inl (IoOther ''EISDIR'')
      | None \<Rightarrow> Inl (missing_err (dk_nodes d) p))"

definition sys_create_dir :: "disk \<Rightarrow> string list \<Rightarrow> (io_error, disk) res" where
  "sys_create_dir d p =
     (case map_of (dk_nodes d) p of
        Some _ \<Rightarrow> Inl (IoOther ''EEXIST'')
      | None \<Rightarrow>
          if p \<noteq> [] \<and> is_dir_at (dk_nodes d) (butlast p)
          then Inr (d\<lparr>dk_nodes := AList.update p (FDir (fresh_meta (dk_now d))) (dk_nodes d)\<rparr>)
          else Inl (missing_err (dk_nodes d) p))"

definition sys_remove_dir :: "disk \<Rightarrow> string list \<Rightarrow> (io_error, disk) res" where
  "sys_remove_dir d p =
     (case map_of (dk_nodes d) p of
        Some (FDir _) \<Rightarrow>
          if p = [] then Inl (IoOther ''EBUSY'')
          else if children (dk_nodes d) p = []
          then Inr (d\<lparr>dk_nodes := AList.delete p (dk_nodes d)\<rparr>)
          else Inl (IoOther ''ENOTEMPTY'')
      | Some (FFile _ _) \<Rightarrow> Inl (IoOther ''ENOTDIR'')
      | None \<Rightarrow> Inl (missing_err (dk_nodes d) p))"

text \<open>\<^verbatim>\<open>rename(2)\<close>: the subtree of \<open>p\<close> moves to \<open>q\<close>; a file replaces a file, a directory an empty directory.\<close>

definition move_key :: "string list \<Rightarrow> string list \<Rightarrow> string list \<Rightarrow> string list" where
  "move_key p q k = (if prefix p k then q @ drop (length p) k else k)"

definition move_tree :: "string list \<Rightarrow> string list \<Rightarrow> disk_nodes \<Rightarrow> disk_nodes" where
  "move_tree p q ns = map (\<lambda>(k, n). (move_key p q k, n)) (AList.delete q ns)"

definition sys_rename :: "disk \<Rightarrow> string list \<Rightarrow> string list \<Rightarrow> (io_error, disk) res" where
  "sys_rename d p q =
     (case map_of (dk_nodes d) p of
        None \<Rightarrow> Inl (missing_err (dk_nodes d) p)
      | Some n \<Rightarrow>
          if p = q then Inr d
          else if p = [] \<or> q = [] then Inl (IoOther ''EBUSY'')
          else if strict_prefix p q then Inl (IoOther ''EINVAL'')
          else if \<not> is_dir_at (dk_nodes d) (butlast q) then Inl (missing_err (dk_nodes d) q)
          else (case map_of (dk_nodes d) q of
                  None \<Rightarrow> Inr (d\<lparr>dk_nodes := move_tree p q (dk_nodes d)\<rparr>)
                | Some (FFile _ _) \<Rightarrow>
                    if node_is_dir n then Inl (IoOther ''ENOTDIR'')
                    else Inr (d\<lparr>dk_nodes := move_tree p q (dk_nodes d)\<rparr>)
                | Some (FDir _) \<Rightarrow>
                    if \<not> node_is_dir n then Inl (IoOther ''EISDIR'')
                    else if children (dk_nodes d) q \<noteq> [] then Inl (IoOther ''ENOTEMPTY'')
                    else Inr (d\<lparr>dk_nodes := move_tree p q (dk_nodes d)\<rparr>)))"

subsection \<open>LocalResource\<close>

definition segments :: "string \<Rightarrow> string list" where
  "segments s = filter (\<lambda>seg. seg \<noteq> []) (split_on slash s)"

fun resolve_onto :: "string list \<Rightarrow> string list \<Rightarrow> string list rres" where
  "resolve_onto out [] = Inr out"
| "resolve_onto out (seg # rest) =
     (if seg = ''.'' \<or> seg = ''..'' then Inl RNotFound else resolve_onto (out @ [seg]) rest)"

definition local_resolve :: "string list \<Rightarrow> mount_path \<Rightarrow> string list rres" where
  "local_resolve root path = resolve_onto root (segments (as_str path))"

fun io_err :: "io_error \<Rightarrow> resource_error" where
  "io_err IoNotFound = RNotFound"
| "io_err (IoOther e) = RBackend e"

text \<open>\<^verbatim>\<open>m.ctime() as u64\<close>: whole seconds, cast to an unsigned 64-bit value.\<close>

definition ctime_of :: "metadata \<Rightarrow> systime option" where
  "ctime_of m = Some ((md_ctime m div 10 ^ 9) mod 2 ^ 64 * 10 ^ 9)"

definition stat_of :: "fnode \<Rightarrow> file_stat" where
  "stat_of n =
     \<lparr>fs_kind = (if node_is_dir n then FileKind_Dir else FileKind_File),
      fs_size = node_len n,
      fs_mtime = Some (md_mtime (node_meta n)), fs_atime = Some (md_atime (node_meta n)),
      fs_ctime = ctime_of (node_meta n), fs_created = Some (md_created (node_meta n)),
      fs_etag = None, fs_version = None, fs_content_type = None,
      fs_size_is_estimate = False, fs_serves_whole = False\<rparr>"

text \<open>The body of \<^verbatim>\<open>read_bytes\<close> after the file is open; reading a directory is \<^verbatim>\<open>EISDIR\<close>.\<close>

definition read_open :: "fnode \<Rightarrow> range option \<Rightarrow> (io_error, bytes) res" where
  "read_open n r =
     (case r of
        Some (start, stop) \<Rightarrow>
          if start \<ge> 2 ^ 63 then Inl (IoOther ''EINVAL'')
          else (let len = stop - start in
                case n of
                  FFile b _ \<Rightarrow> Inr (take len (drop start b))
                | FDir _ \<Rightarrow> if len = 0 then Inr [] else Inl (IoOther ''EISDIR''))
      | None \<Rightarrow> (case n of FFile b _ \<Rightarrow> Inr b | FDir _ \<Rightarrow> Inl (IoOther ''EISDIR'')))"

definition local_read_bytes :: "string list \<Rightarrow> disk \<Rightarrow> mount_path \<Rightarrow> range option \<Rightarrow> bytes rres \<times> disk" where
  "local_read_bytes root d path r =
     (case local_resolve root path of
        Inl e \<Rightarrow> (Inl e, d)
      | Inr p \<Rightarrow>
          (case sys_metadata d p of
             Inl e \<Rightarrow> (Inl (io_err e), d)
           | Inr n \<Rightarrow> (map_err io_err (read_open n r), d)))"

text \<open>Run a mutating call on the resolved path.\<close>

fun commit :: "disk \<Rightarrow> (io_error, disk) res \<Rightarrow> unit rres \<times> disk" where
  "commit d (Inl e) = (Inl (io_err e), d)"
| "commit d (Inr d') = (Inr (), d')"

definition local_write_bytes :: "string list \<Rightarrow> disk \<Rightarrow> mount_path \<Rightarrow> bytes \<Rightarrow> unit rres \<times> disk" where
  "local_write_bytes root d path data =
     (case local_resolve root path of
        Inl e \<Rightarrow> (Inl e, d)
      | Inr p \<Rightarrow> commit d (sys_write_new d p data))"

definition local_dir_entry :: "string \<times> fnode \<Rightarrow> dir_entry" where
  "local_dir_entry e =
     (let s = stat_of (snd e) in
      \<lparr>de_name = fst e, de_kind = fs_kind s, de_size = fs_size s, de_mtime = fs_mtime s,
       de_atime = fs_atime s, de_ctime = fs_ctime s, de_created = fs_created s, de_etag = None,
       de_content_type = None, de_size_is_estimate = False, de_serves_whole = False\<rparr>)"

definition local_readdir :: "string list \<Rightarrow> disk \<Rightarrow> mount_path \<Rightarrow> dir_entry list rres \<times> disk" where
  "local_readdir root d path =
     (case local_resolve root path of
        Inl e \<Rightarrow> (Inl e, d)
      | Inr p \<Rightarrow> (map_err io_err (map_ok (map local_dir_entry) (sys_read_dir d p)), d))"

definition local_stat :: "string list \<Rightarrow> disk \<Rightarrow> mount_path \<Rightarrow> file_stat rres \<times> disk" where
  "local_stat root d path =
     (case local_resolve root path of
        Inl e \<Rightarrow> (Inl e, d)
      | Inr p \<Rightarrow> (map_err io_err (map_ok stat_of (sys_metadata d p)), d))"

definition local_unlink :: "string list \<Rightarrow> disk \<Rightarrow> mount_path \<Rightarrow> unit rres \<times> disk" where
  "local_unlink root d path =
     (case local_resolve root path of
        Inl e \<Rightarrow> (Inl e, d)
      | Inr p \<Rightarrow> commit d (sys_remove_file d p))"

definition local_mkdir :: "string list \<Rightarrow> disk \<Rightarrow> mount_path \<Rightarrow> unit rres \<times> disk" where
  "local_mkdir root d path =
     (case local_resolve root path of
        Inl e \<Rightarrow> (Inl e, d)
      | Inr p \<Rightarrow> commit d (sys_create_dir d p))"

definition local_rmdir :: "string list \<Rightarrow> disk \<Rightarrow> mount_path \<Rightarrow> unit rres \<times> disk" where
  "local_rmdir root d path =
     (case local_resolve root path of
        Inl e \<Rightarrow> (Inl e, d)
      | Inr p \<Rightarrow> commit d (sys_remove_dir d p))"

text \<open>\<^verbatim>\<open>rename_compat\<close>: a directory renamed over a file removes the file and tries again.\<close>

definition rename_compat :: "disk \<Rightarrow> string list \<Rightarrow> string list \<Rightarrow> (io_error, disk) res \<times> disk" where
  "rename_compat d src dst =
     (case sys_rename d src dst of
        Inr d' \<Rightarrow> (Inr d', d')
      | Inl e \<Rightarrow>
          (let from_is_dir = (case sys_metadata d src of Inr n \<Rightarrow> node_is_dir n | Inl _ \<Rightarrow> False);
               to_is_file = (case sys_metadata d dst of Inr n \<Rightarrow> \<not> node_is_dir n | Inl _ \<Rightarrow> False)
           in if from_is_dir \<and> to_is_file
              then (let d1 = (case sys_remove_file d dst of Inr d' \<Rightarrow> d' | Inl _ \<Rightarrow> d)
                    in case sys_rename d1 src dst of
                         Inr d' \<Rightarrow> (Inr d', d') | Inl e' \<Rightarrow> (Inl e', d1))
              else (Inl e, d)))"

definition local_rename :: "string list \<Rightarrow> disk \<Rightarrow> mount_path \<Rightarrow> mount_path \<Rightarrow> unit rres \<times> disk" where
  "local_rename root d src dst =
     (case local_resolve root src of
        Inl e \<Rightarrow> (Inl e, d)
      | Inr p \<Rightarrow>
          (case local_resolve root dst of
             Inl e \<Rightarrow> (Inl e, d)
           | Inr q \<Rightarrow> (let (r, d') = rename_compat d p q in (map_err io_err (map_ok (\<lambda>_. ()) r), d'))))"

definition local_resource :: "string list \<Rightarrow> disk resource" where
  "local_resource root =
     (resource_defaults (local_read_bytes root) (local_write_bytes root) (local_readdir root) (local_stat root))
     \<lparr>r_unlink := local_unlink root, r_mkdir := local_mkdir root, r_rmdir := local_rmdir root,
      r_rename := local_rename root\<rparr>"

subsection \<open>The disk stays a tree\<close>

definition tree_ok :: "disk_nodes \<Rightarrow> bool" where
  "tree_ok ns \<longleftrightarrow>
     distinct (map fst ns) \<and> is_dir_at ns [] \<and> (\<forall>k\<in>fst ` set ns. k \<noteq> [] \<longrightarrow> is_dir_at ns (butlast k))"

lemma tree_ok_distinct: "tree_ok ns \<Longrightarrow> distinct (map fst ns)"
  by (simp add: tree_ok_def)

lemma tree_ok_parent:
  "tree_ok ns \<Longrightarrow> map_of ns k = Some n \<Longrightarrow> k \<noteq> [] \<Longrightarrow> is_dir_at ns (butlast k)"
  by (metis imageI map_of_SomeD prod.sel(1) tree_ok_def)

lemma tree_okI:
  assumes "distinct (map fst ns)" "is_dir_at ns []"
    and "\<And>k n. map_of ns k = Some n \<Longrightarrow> k \<noteq> [] \<Longrightarrow> is_dir_at ns (butlast k)"
  shows "tree_ok ns"
  unfolding tree_ok_def using assms by (auto simp: image_iff)

lemma is_dir_at_Some: "is_dir_at ns k \<longleftrightarrow> (\<exists>n. map_of ns k = Some n \<and> node_is_dir n)"
  by (simp add: is_dir_at_def split: option.splits)

lemma map_of_update: "map_of (AList.update k v ns) = (map_of ns)(k \<mapsto> v)"
  by (rule update_conv')

lemma map_of_delete: "map_of (AList.delete k ns) = (map_of ns)(k := None)"
  by (simp add: delete_conv')

lemma children_empty:
  assumes "tree_ok ns"
  shows "children ns p = [] \<longleftrightarrow> (\<forall>k n. map_of ns k = Some n \<and> k \<noteq> [] \<longrightarrow> butlast k \<noteq> p)"
  using tree_ok_distinct [OF assms] by (auto simp: children_def filter_empty_conv)

lemma tree_ok_put_file:
  assumes ok: "tree_ok ns" and p: "p \<noteq> []" "is_dir_at ns (butlast p)" "\<not> is_dir_at ns p"
  shows "tree_ok (AList.update p (FFile b m) ns)"
proof (rule tree_okI)
  show "distinct (map fst (AList.update p (FFile b m) ns))"
    using tree_ok_distinct [OF ok] by (rule distinct_update)
  have keep: "is_dir_at (AList.update p (FFile b m) ns) k" if "is_dir_at ns k" for k
    using that p by (auto simp: is_dir_at_Some map_of_update)
  show "is_dir_at (AList.update p (FFile b m) ns) []" using ok keep by (simp add: tree_ok_def)
  fix k n assume "map_of (AList.update p (FFile b m) ns) k = Some n" "k \<noteq> []"
  then show "is_dir_at (AList.update p (FFile b m) ns) (butlast k)"
    using keep p tree_ok_parent [OF ok, of k n] by (auto simp: map_of_update split: if_splits)
qed

lemma tree_ok_put_dir:
  assumes ok: "tree_ok ns" and p: "p \<noteq> []" "is_dir_at ns (butlast p)"
  shows "tree_ok (AList.update p (FDir m) ns)"
proof (rule tree_okI)
  show "distinct (map fst (AList.update p (FDir m) ns))"
    using tree_ok_distinct [OF ok] by (rule distinct_update)
  have keep: "is_dir_at (AList.update p (FDir m) ns) k" if "is_dir_at ns k" for k
    using that by (auto simp: is_dir_at_Some map_of_update)
  show "is_dir_at (AList.update p (FDir m) ns) []" using ok keep by (simp add: tree_ok_def)
  fix k n assume "map_of (AList.update p (FDir m) ns) k = Some n" "k \<noteq> []"
  then show "is_dir_at (AList.update p (FDir m) ns) (butlast k)"
    using keep p tree_ok_parent [OF ok, of k n] by (auto simp: map_of_update split: if_splits)
qed

lemma tree_ok_delete:
  assumes ok: "tree_ok ns" and p: "p \<noteq> []" "\<And>k n. map_of ns k = Some n \<Longrightarrow> k \<noteq> [] \<Longrightarrow> butlast k \<noteq> p"
  shows "tree_ok (AList.delete p ns)"
proof (rule tree_okI)
  show "distinct (map fst (AList.delete p ns))"
    using tree_ok_distinct [OF ok] by (rule distinct_delete)
  show "is_dir_at (AList.delete p ns) []"
    using ok p(1) by (auto simp: tree_ok_def is_dir_at_Some map_of_delete)
  fix k n assume "map_of (AList.delete p ns) k = Some n" "k \<noteq> []"
  then have k: "map_of ns k = Some n" "k \<noteq> []" by (auto simp: map_of_delete split: if_splits)
  with p(2) tree_ok_parent [OF ok k] show "is_dir_at (AList.delete p ns) (butlast k)"
    by (auto simp: is_dir_at_Some map_of_delete)
qed

lemma file_no_children:
  assumes "tree_ok ns" "map_of ns p = Some (FFile b m)" "map_of ns k = Some n" "k \<noteq> []"
  shows "butlast k \<noteq> p"
  using tree_ok_parent [OF assms(1,3,4)] assms(2) by (auto simp: is_dir_at_Some)

text \<open>Below a node that is no directory, or an empty one, there is nothing.\<close>

lemma ancestor_has_child:
  assumes ok: "tree_ok ns"
  shows "map_of ns (q @ x # xs) = Some n \<Longrightarrow>
    is_dir_at ns q \<and> (\<exists>k n. map_of ns k = Some n \<and> k \<noteq> [] \<and> butlast k = q)"
proof (induction xs arbitrary: n rule: rev_induct)
  case Nil
  from tree_ok_parent [OF ok Nil] have "is_dir_at ns q" by (simp add: butlast_append)
  with Nil show ?case by (metis append_is_Nil_conv butlast_snoc list.distinct(1))
next
  case (snoc y ys)
  from tree_ok_parent [OF ok snoc.prems] have "is_dir_at ns (q @ x # ys)"
    by (simp add: butlast_append split: if_splits)
  with snoc.IH show ?case by (auto simp: is_dir_at_Some)
qed

definition replaceable :: "disk_nodes \<Rightarrow> string list \<Rightarrow> bool" where
  "replaceable ns q \<longleftrightarrow> \<not> is_dir_at ns q \<or> children ns q = []"

lemma nothing_below:
  assumes ok: "tree_ok ns" and q: "replaceable ns q" and k: "map_of ns k = Some n" "prefix q k"
  shows "k = q"
proof (rule ccontr)
  assume "k \<noteq> q"
  with k(2) obtain x xs where "k = q @ x # xs" by (metis append_Nil2 neq_Nil_conv prefix_def)
  with k(1) ancestor_has_child [OF ok, of q x xs n] have "is_dir_at ns q" "children ns q \<noteq> []"
    by (auto simp: children_empty [OF ok])
  with q show False by (simp add: replaceable_def)
qed

lemma move_key_inj:
  assumes ok: "tree_ok ns" and q: "replaceable ns q"
  shows "inj_on (move_key p q) (fst ` set (AList.delete q ns))"
proof (rule inj_onI)
  fix a b assume a: "a \<in> fst ` set (AList.delete q ns)" and b: "b \<in> fst ` set (AList.delete q ns)"
    and eq: "move_key p q a = move_key p q b"
  have "\<not> prefix q k" if "k \<in> fst ` set (AList.delete q ns)" for k
  proof -
    from that have "k \<in> dom (map_of (AList.delete q ns))" by (simp add: dom_map_of_conv_image_fst)
    then obtain n where "map_of ns k = Some n" "k \<noteq> q" by (auto simp: map_of_delete split: if_splits)
    with nothing_below [OF ok q] show ?thesis by blast
  qed
  with a b eq show "a = b" by (auto simp: move_key_def prefix_def split: if_splits)
qed

lemma map_of_move:
  assumes ok: "tree_ok ns" and q: "replaceable ns q"
  shows "map_of (move_tree p q ns) k' = Some n \<longleftrightarrow>
    (\<exists>k. map_of ns k = Some n \<and> k \<noteq> q \<and> k' = move_key p q k)"
proof -
  let ?ns = "AList.delete q ns"
  have d: "distinct (map fst ?ns)" using tree_ok_distinct [OF ok] by (rule distinct_delete)
  then have d': "distinct (map fst (move_tree p q ns))"
    using move_key_inj [OF ok q, of p]
    by (simp add: move_tree_def comp_def case_prod_beta distinct_map inj_on_def)
  have "map_of (move_tree p q ns) k' = Some n \<longleftrightarrow> (k', n) \<in> set (move_tree p q ns)"
    using d' by simp
  also have "\<dots> \<longleftrightarrow> (\<exists>k. (k, n) \<in> set ?ns \<and> k' = move_key p q k)"
    unfolding move_tree_def set_map image_iff 
    by (rule iffI, fastforce) (elim exE conjE, erule bexI [rotated], simp)
  also have "\<dots> \<longleftrightarrow> (\<exists>k. map_of ?ns k = Some n \<and> k' = move_key p q k)" using d by simp
  also have "\<dots> \<longleftrightarrow> (\<exists>k. map_of ns k = Some n \<and> k \<noteq> q \<and> k' = move_key p q k)"
    by (auto simp: map_of_delete)
  finally show ?thesis .
qed

lemma tree_ok_move:
  assumes ok: "tree_ok ns" and q: "replaceable ns q" and p: "p \<noteq> []" "q \<noteq> []"
    and nsub: "\<not> prefix p q" and parent: "is_dir_at ns (butlast q)"
  shows "tree_ok (move_tree p q ns)"
proof (rule tree_okI)
  show "distinct (map fst (move_tree p q ns))"
    using move_key_inj [OF ok q, of p] distinct_delete [OF tree_ok_distinct [OF ok], of q]
    by (simp add: move_tree_def comp_def case_prod_beta distinct_map inj_on_def)
  have moved: "is_dir_at (move_tree p q ns) (move_key p q k)" if "is_dir_at ns k" "k \<noteq> q" for k
    using that map_of_move [OF ok q] by (auto simp: is_dir_at_Some)
  have npq: "\<not> prefix p (butlast q)" using nsub prefixeq_butlast prefix_order.trans by blast
  show "is_dir_at (move_tree p q ns) []"
    using moved [of "[]"] ok p by (simp add: tree_ok_def move_key_def)
  fix k' n assume "map_of (move_tree p q ns) k' = Some n" and ne: "k' \<noteq> []"
  then obtain k where k: "map_of ns k = Some n" "k \<noteq> q" and k': "k' = move_key p q k"
    using map_of_move [OF ok q] by blast
  show "is_dir_at (move_tree p q ns) (butlast k')"
  proof (cases "prefix p k")
    case True
    then obtain x where x: "k = p @ x" by (auto simp: prefix_def)
    show ?thesis
    proof (cases "x = []")
      case True
      have "butlast q \<noteq> q" using p(2) by (metis append_butlast_last_id append_self_conv not_Cons_self2)
      with moved [OF parent] True x k' npq show ?thesis by (simp add: move_key_def)
    next
      case False
      with x have bk: "butlast k = p @ butlast x" "k \<noteq> []" by (auto simp: butlast_append)
      have "p @ butlast x \<noteq> q" using nsub by auto
      with moved [of "butlast k"] tree_ok_parent [OF ok k(1)] bk False x k'
      show ?thesis by (simp add: move_key_def butlast_append)
    qed
  next
    case False
    then have kk: "k' = k" by (simp add: k' move_key_def)
    have bq: "butlast k \<noteq> q"
    proof
      assume "butlast k = q"
      then have "prefix q k" using prefixeq_butlast by blast
      with nothing_below [OF ok q k(1)] k(2) show False by blast
    qed
    have "\<not> prefix p (butlast k)" using False prefixeq_butlast prefix_order.trans by blast
    with moved [OF tree_ok_parent [OF ok k(1)] bq] ne kk show ?thesis by (simp add: move_key_def)
  qed
qed

text \<open>When \<^verbatim>\<open>rename(2)\<close> succeeds, and what it then did.\<close>

lemma sys_rename_ok:
  assumes ok: "tree_ok (dk_nodes d)" and r: "sys_rename d p q = Inr d'"
  shows "p = q \<and> d' = d \<or>
    p \<noteq> [] \<and> q \<noteq> [] \<and> \<not> prefix p q \<and> is_dir_at (dk_nodes d) (butlast q) \<and> replaceable (dk_nodes d) q \<and>
    d' = d\<lparr>dk_nodes := move_tree p q (dk_nodes d)\<rparr>"
  using r by (auto simp: sys_rename_def replaceable_def is_dir_at_Some strict_prefix_def
      split: option.splits fnode.splits if_splits)

subsection \<open>No operation leaves the root\<close>

lemma resolve_onto_Inr: "resolve_onto out segs = Inr p \<Longrightarrow> p = out @ segs \<and> ''.'' \<notin> set segs \<and> ''..'' \<notin> set segs"
  by (induction out segs rule: resolve_onto.induct) (auto split: if_splits)

lemma local_resolve_Inr:
  "local_resolve root path = Inr p \<Longrightarrow>
     p = root @ segments (as_str path) \<and> ''.'' \<notin> set (segments (as_str path)) \<and> ''..'' \<notin> set (segments (as_str path))"
  unfolding local_resolve_def by (rule resolve_onto_Inr)

definition same_outside :: "string list \<Rightarrow> disk \<Rightarrow> disk \<Rightarrow> bool" where
  "same_outside root d d' \<longleftrightarrow> (\<forall>k. \<not> prefix root k \<longrightarrow> map_of (dk_nodes d') k = map_of (dk_nodes d) k)"

definition contained :: "string list \<Rightarrow> disk \<Rightarrow> disk \<Rightarrow> bool" where
  "contained root d d' \<longleftrightarrow> tree_ok (dk_nodes d') \<and> same_outside root d d'"

lemma contained_refl: "tree_ok (dk_nodes d) \<Longrightarrow> contained root d d"
  by (simp add: contained_def same_outside_def)

lemma contained_trans: "contained root d d1 \<Longrightarrow> contained root d1 d2 \<Longrightarrow> contained root d d2"
  by (simp add: contained_def same_outside_def)

lemma tree_ok_root: "tree_ok ns \<Longrightarrow> map_of ns [] = Some (FFile b m) \<Longrightarrow> False"
  by (simp add: tree_ok_def is_dir_at_def)

lemma sys_write_new_ok:
  assumes ok: "tree_ok (dk_nodes d)" and w: "sys_write_new d p data = Inr d'"
  shows "p \<noteq> [] \<and> is_dir_at (dk_nodes d) (butlast p) \<and> \<not> is_dir_at (dk_nodes d) p \<and>
    (\<exists>m. d' = d\<lparr>dk_nodes := AList.update p (FFile data m) (dk_nodes d)\<rparr>)"
proof (cases "map_of (dk_nodes d) p")
  case None
  with w show ?thesis by (auto simp: sys_write_new_def is_dir_at_def split: if_splits)
next
  case (Some n)
  then obtain b m where n: "map_of (dk_nodes d) p = Some (FFile b m)"
    using w by (auto simp: sys_write_new_def split: fnode.splits)
  with tree_ok_root [OF ok] have "p \<noteq> []" by blast
  with w n tree_ok_parent [OF ok n] show ?thesis by (auto simp: sys_write_new_def is_dir_at_def)
qed

lemma contained_write:
  assumes ok: "tree_ok (dk_nodes d)" and root: "prefix root p" and w: "sys_write_new d p data = Inr d'"
  shows "contained root d d'"
  using sys_write_new_ok [OF ok w] tree_ok_put_file [OF ok] root
  by (auto simp: contained_def same_outside_def map_of_update)

lemma sys_remove_file_ok:
  assumes ok: "tree_ok (dk_nodes d)" and w: "sys_remove_file d p = Inr d'"
  shows "p \<noteq> [] \<and> (\<exists>b m. map_of (dk_nodes d) p = Some (FFile b m)) \<and>
    d' = d\<lparr>dk_nodes := AList.delete p (dk_nodes d)\<rparr>"
  using w tree_ok_root [OF ok] by (auto simp: sys_remove_file_def simp del: map_of_eq_Some_iff split: option.splits fnode.splits)

lemma contained_remove_file:
  assumes ok: "tree_ok (dk_nodes d)" and root: "prefix root p" and w: "sys_remove_file d p = Inr d'"
  shows "contained root d d'"
proof -
  from sys_remove_file_ok [OF ok w] obtain b m where p: "p \<noteq> []" "map_of (dk_nodes d) p = Some (FFile b m)"
    and d': "d' = d\<lparr>dk_nodes := AList.delete p (dk_nodes d)\<rparr>" by blast
  have "tree_ok (AList.delete p (dk_nodes d))"
    using file_no_children [OF ok p(2)] by (intro tree_ok_delete ok p)
  with root d' show ?thesis by (auto simp: contained_def same_outside_def map_of_delete)
qed

lemma contained_create_dir:
  "\<lbrakk>tree_ok (dk_nodes d); prefix root p; sys_create_dir d p = Inr d'\<rbrakk> \<Longrightarrow> contained root d d'"
  by (auto simp: sys_create_dir_def contained_def same_outside_def map_of_update
      split: option.splits if_splits intro!: tree_ok_put_dir)

lemma contained_remove_dir:
  assumes ok: "tree_ok (dk_nodes d)" and root: "prefix root p" and w: "sys_remove_dir d p = Inr d'"
  shows "contained root d d'"
proof -
  have p: "p \<noteq> []" "children (dk_nodes d) p = []" and d': "d' = d\<lparr>dk_nodes := AList.delete p (dk_nodes d)\<rparr>"
    using w by (auto simp: sys_remove_dir_def split: option.splits fnode.splits if_splits)
  have "tree_ok (AList.delete p (dk_nodes d))"
    by (rule tree_ok_delete [OF ok p(1)]) (use p(2) children_empty [OF ok] in blast)
  with root d' show ?thesis by (auto simp: contained_def same_outside_def map_of_delete)
qed

lemma contained_rename:
  assumes ok: "tree_ok (dk_nodes d)" and root: "prefix root p" "prefix root q" and r: "sys_rename d p q = Inr d'"
  shows "contained root d d'"
  using sys_rename_ok [OF ok r]
proof (elim disjE conjE)
  assume h: "p \<noteq> []" "q \<noteq> []" "\<not> prefix p q" "is_dir_at (dk_nodes d) (butlast q)"
    "replaceable (dk_nodes d) q" and d': "d' = d\<lparr>dk_nodes := move_tree p q (dk_nodes d)\<rparr>"
  have "map_of (move_tree p q (dk_nodes d)) k = map_of (dk_nodes d) k" if k: "\<not> prefix root k" for k
  proof -
    have "k \<noteq> q" "\<not> prefix p k" using k root prefix_order.trans by blast+
    moreover have "k = move_key p q k0 \<longleftrightarrow> k0 = k" for k0
      using k root(2) \<open>\<not> prefix p k\<close> by (auto simp: move_key_def prefix_def)
    ultimately have "map_of (move_tree p q (dk_nodes d)) k = Some n \<longleftrightarrow> map_of (dk_nodes d) k = Some n" for n
      using map_of_move [OF ok h(5), of p k n] by metis
    then show ?thesis by (metis not_Some_eq)
  qed
  with tree_ok_move [OF ok h(5,1,2,3,4)] show ?thesis by (simp add: contained_def same_outside_def d')
qed (use ok in \<open>simp add: contained_refl\<close>)

lemma contained_rename_compat:
  assumes ok: "tree_ok (dk_nodes d)" and root: "prefix root p" "prefix root q"
  shows "contained root d (snd (rename_compat d p q))"
proof (cases "sys_rename d p q")
  case (Inr d')
  then show ?thesis using contained_rename [OF ok root] by (simp add: rename_compat_def)
next
  case (Inl e)
  define d1 where "d1 = (case sys_remove_file d q of Inr d' \<Rightarrow> d' | Inl _ \<Rightarrow> d)"
  have d1: "contained root d d1"
    using contained_remove_file [OF ok root(2)] contained_refl [OF ok] by (auto simp: d1_def split: sum.splits)
  then have "tree_ok (dk_nodes d1)" by (simp add: contained_def)
  then have "contained root d d'" if "sys_rename d1 p q = Inr d'" for d'
    using contained_trans [OF d1 contained_rename [OF _ root that]] by blast
  then show ?thesis using Inl d1 contained_refl [OF ok]
    by (auto simp: rename_compat_def Let_def d1_def [symmetric] split: sum.splits)
qed

lemma contained_commit:
  assumes "tree_ok (dk_nodes d)" "\<And>d'. r = Inr d' \<Longrightarrow> contained root d d'"
  shows "contained root d (snd (commit d r))"
  using assms by (cases r) (auto simp: contained_refl)

lemma contained_local:
  assumes ok: "tree_ok (dk_nodes d)" and f: "\<And>p d'. prefix root p \<Longrightarrow> f p = Inr d' \<Longrightarrow> contained root d d'"
  shows "contained root d (snd (case local_resolve root path of Inl e \<Rightarrow> (Inl e, d) | Inr p \<Rightarrow> commit d (f p)))"
proof (cases "local_resolve root path")
  case (Inr p)
  then have "prefix root p" using local_resolve_Inr by fastforce
  with Inr f show ?thesis by (simp add: contained_commit [OF ok])
qed (simp add: contained_refl ok)

lemma snd_local_rename:
  "local_resolve root src = Inr p \<Longrightarrow> local_resolve root dst = Inr q \<Longrightarrow>
     snd (local_rename root d src dst) = snd (rename_compat d p q)"
  by (simp add: local_rename_def split: prod.splits)


subsection \<open>The contract of a store of files\<close>

definition file_at :: "disk \<Rightarrow> string list \<Rightarrow> bytes option" where
  "file_at d p = (case map_of (dk_nodes d) p of Some (FFile b _) \<Rightarrow> Some b | _ \<Rightarrow> None)"

definition local_node :: "string list \<Rightarrow> mount_path \<Rightarrow> string list option" where
  "local_node root path = ok_opt (local_resolve root path)"

lemma local_node_Some: "local_node root path = Some p \<longleftrightarrow> local_resolve root path = Inr p"
  by (cases "local_resolve root path") (simp_all add: local_node_def)

lemma file_at_Some: "file_at d p = Some b \<longleftrightarrow> (\<exists>m. map_of (dk_nodes d) p = Some (FFile b m))"
  by (simp add: file_at_def split: option.splits fnode.splits)

lemma local_read_file:
  assumes "local_node root path = Some p" "file_at d p = Some b" "range_ok r"
  shows "local_read_bytes root d path r = (Inr (slice b r), d)"
  using assms by (cases r)
    (auto simp: local_node_Some file_at_Some local_read_bytes_def sys_metadata_def read_open_def
      range_ok_def slice_take_drop Let_def simp del: map_of_eq_Some_iff)

lemma local_stat_file:
  assumes "local_node root path = Some p" "file_at d p = Some b"
  shows "\<exists>st. local_stat root d path = (Inr st, d) \<and> fs_kind st = FileKind_File \<and> fs_size st = length b"
  using assms by (auto simp: local_node_Some file_at_Some local_stat_def sys_metadata_def stat_of_def
      simp del: map_of_eq_Some_iff)

lemma file_at_update: "file_at (d\<lparr>dk_nodes := AList.update p (FFile b m) (dk_nodes d)\<rparr>) = (file_at d)(p \<mapsto> b)"
  by (rule ext) (simp add: file_at_def map_of_update)

lemma file_at_delete: "file_at (d\<lparr>dk_nodes := AList.delete p (dk_nodes d)\<rparr>) = (file_at d)(p := None)"
  by (rule ext) (simp add: file_at_def map_of_delete)

lemma local_write_file:
  assumes ok: "tree_ok (dk_nodes d)" and w: "local_write_bytes root d path data = (Inr (), d')"
  shows "tree_ok (dk_nodes d') \<and>
    (\<exists>p. local_node root path = Some p \<and> file_at d' = (file_at d)(p \<mapsto> data))"
proof -
  obtain p where p: "local_resolve root path = Inr p"
    using w by (cases "local_resolve root path") (auto simp: local_write_bytes_def)
  with w have s: "sys_write_new d p data = Inr d'"
    by (cases "sys_write_new d p data") (auto simp: local_write_bytes_def)
  from sys_write_new_ok [OF ok s] tree_ok_put_file [OF ok] p show ?thesis
    by (auto simp: local_node_Some file_at_update)
qed

lemma local_unlink_file:
  assumes ok: "tree_ok (dk_nodes d)" and w: "local_unlink root d path = (Inr (), d')"
  shows "tree_ok (dk_nodes d') \<and>
    (\<exists>p. local_node root path = Some p \<and> file_at d' = (file_at d)(p := None))"
proof -
  obtain p where p: "local_resolve root path = Inr p"
    using w by (cases "local_resolve root path") (auto simp: local_unlink_def)
  with w have s: "sys_remove_file d p = Inr d'"
    by (cases "sys_remove_file d p") (auto simp: local_unlink_def)
  have "contained root d d'" using contained_remove_file [OF ok _ s] local_resolve_Inr [OF p] by simp
  with sys_remove_file_ok [OF ok s] p show ?thesis
    by (auto simp: local_node_Some file_at_delete contained_def)
qed

lemma local_resource_sel [simp]:
  "r_read_bytes (local_resource root) = local_read_bytes root"
  "r_read_bytes_pinned (local_resource root) d p r st = local_read_bytes root d p r"
  "r_write_bytes (local_resource root) = local_write_bytes root"
  "r_readdir (local_resource root) = local_readdir root"
  "r_stat (local_resource root) = local_stat root"
  "r_unlink (local_resource root) = local_unlink root"
  "r_mkdir (local_resource root) = local_mkdir root"
  "r_rmdir (local_resource root) = local_rmdir root"
  "r_rename (local_resource root) = local_rename root"
  by (simp_all add: local_resource_def resource_defaults_def)

interpretation local: file_store "local_resource root" "\<lambda>d. tree_ok (dk_nodes d)" "local_node root" file_at
  for root
proof (unfold_locales, goal_cases)
  case (1 s p n b r)
  then show ?case by (simp add: local_read_file)
next
  case (2 s p n b r st)
  then show ?case by (simp add: local_read_file)
next
  case (3 s p n b)
  then show ?case by (simp add: local_stat_file)
next
  case (4 s p)
  show ?case by (simp add: local_stat_def split: sum.splits)
next
  case (5 s p data s')
  then show ?case unfolding local_resource_sel by (rule local_write_file)
next
  case (6 s p s')
  then show ?case unfolding local_resource_sel by (rule local_unlink_file)
qed

subsection \<open>Renaming\<close>

lemma move_lookup:
  assumes ok: "tree_ok ns" and q: "replaceable ns q" and p: "map_of ns p = Some n" and nsub: "\<not> prefix p q"
  shows "map_of (move_tree p q ns) k =
    (if prefix q k then map_of ns (p @ drop (length q) k) else if prefix p k then None else map_of ns k)"
proof -
  have nqp: "\<not> prefix q p" using nothing_below [OF ok q p] nsub by auto
  have src: "map_of (move_tree p q ns) k = Some m \<longleftrightarrow> (\<exists>k0. map_of ns k0 = Some m \<and> k0 \<noteq> q \<and> k = move_key p q k0)"
    for m by (rule map_of_move [OF ok q])
  consider (in_q) x where "k = q @ x" | (in_p) x where "k = p @ x" "\<not> prefix q k"
    | (other) "\<not> prefix q k" "\<not> prefix p k" by (auto simp: prefix_def)
  then show ?thesis
  proof cases
    case in_q
    have "map_of (move_tree p q ns) k = Some m \<longleftrightarrow> map_of ns (p @ x) = Some m" for m
    proof
      assume "map_of (move_tree p q ns) k = Some m"
      then obtain k0 where k0: "map_of ns k0 = Some m" "k0 \<noteq> q" "q @ x = move_key p q k0"
        using src in_q by blast
      then have "prefix p k0" using nothing_below [OF ok q k0(1)] by (auto simp: move_key_def split: if_splits)
      with k0 show "map_of ns (p @ x) = Some m" by (auto simp: move_key_def prefix_def)
    next
      assume h: "map_of ns (p @ x) = Some m"
      have "p @ x \<noteq> q" using nsub by auto
      then show "map_of (move_tree p q ns) k = Some m"
        unfolding src using h in_q by (intro exI [of _ "p @ x"]) (simp add: move_key_def)
    qed
    then show ?thesis using in_q by (metis append_eq_conv_conj not_Some_eq prefixI)
  next
    case in_p
    have "map_of (move_tree p q ns) k \<noteq> Some m" for m
      unfolding src using in_p by (auto simp: move_key_def split: if_splits)
    then show ?thesis using in_p by (metis not_Some_eq prefixI)
  next
    case other
    have "k = move_key p q k0 \<longleftrightarrow> k0 = k" for k0 using other by (auto simp: move_key_def)
    moreover have "k \<noteq> q" using other by auto
    ultimately have "map_of (move_tree p q ns) k = Some m \<longleftrightarrow> map_of ns k = Some m" for m
      using src by metis
    then show ?thesis using other by (metis not_Some_eq)
  qed
qed

lemma rename_compat_moves:
  assumes ok: "tree_ok (dk_nodes d)" and r: "rename_compat d p q = (Inr d', d'')" and pq: "p \<noteq> q"
    and p: "map_of (dk_nodes d) p = Some n"
  shows "map_of (dk_nodes d'') k =
    (if prefix q k then map_of (dk_nodes d) (p @ drop (length q) k)
     else if prefix p k then None else map_of (dk_nodes d) k)"
proof (cases "sys_rename d p q")
  case (Inr x)
  with r have "d'' = x" by (auto simp add: rename_compat_def)
  with sys_rename_ok [OF ok Inr] pq move_lookup [OF ok _ p] show ?thesis by auto
next
  case (Inl e)
  let ?rm = "case sys_remove_file d q of Inr d' \<Rightarrow> d' | Inl _ \<Rightarrow> d"
  from Inl r have rn: "sys_rename ?rm p q = Inr d''"
    by (auto simp: rename_compat_def Let_def split: if_splits sum.splits)
  obtain d1 where rm: "sys_remove_file d q = Inr d1"
  proof (cases "sys_remove_file d q")
    case (Inl e')
    with rn have "sys_rename d p q = Inr d''" by simp
    with \<open>sys_rename d p q = Inl e\<close> show ?thesis by simp
  qed
  have ok1: "tree_ok (dk_nodes d1)" using contained_remove_file [OF ok _ rm, of "[]"] by (simp add: contained_def)
  have d1: "map_of (dk_nodes d1) j = (if j = q then None else map_of (dk_nodes d) j)" for j
    using sys_remove_file_ok [OF ok rm] by (auto simp: map_of_delete)
  from rn rm have rn1: "sys_rename d1 p q = Inr d''" by simp
  from sys_rename_ok [OF ok1 rn1] pq have h: "\<not> prefix p q" "replaceable (dk_nodes d1) q"
    and d'': "dk_nodes d'' = move_tree p q (dk_nodes d1)" by auto
  have p1: "map_of (dk_nodes d1) p = Some n" using p pq by (simp add: d1)
  have "p @ drop (length q) k \<noteq> q" using h(1) by (metis prefixI)
  moreover have "\<not> prefix q k \<Longrightarrow> k \<noteq> q" by auto
  ultimately show ?thesis unfolding d'' move_lookup [OF ok1 h(2) p1 h(1)] by (simp add: d1)
qed

text \<open>
  A successful rename moves the whole subtree: afterwards the destination holds exactly what
  was at and below the source, what was at the destination before is gone, nothing is left at or
  below the source, and every other path is as it was.
\<close>

lemma local_rename_moves_subtree:
  assumes ok: "tree_ok (dk_nodes d)"
    and p: "local_resolve root src = Inr p" and q: "local_resolve root dst = Inr q" and pq: "p \<noteq> q"
    and r: "local_rename root d src dst = (Inr (), d')"
  shows "map_of (dk_nodes d') k =
    (if prefix q k then map_of (dk_nodes d) (p @ drop (length q) k)
     else if prefix p k then None else map_of (dk_nodes d) k)"
proof -
  obtain x d'' where rc: "rename_compat d p q = (x, d'')" by fastforce
  with r p q obtain d1 where x: "x = Inr d1" and d': "d'' = d'"
    by (cases x) (auto simp: local_rename_def)
  have "map_of (dk_nodes d) p \<noteq> None"
  proof
    assume none: "map_of (dk_nodes d) p = None"
    then have "sys_rename d0 p q = Inl (missing_err (dk_nodes d0) p)" if "map_of (dk_nodes d0) p = None" for d0
      using that by (simp add: sys_rename_def)
    with none rc x show False by (simp add: rename_compat_def sys_metadata_def)
  qed
  then obtain n where "map_of (dk_nodes d) p = Some n" by blast
  from rename_compat_moves [OF ok _ pq this] rc x d' show ?thesis by simp
qed

text \<open>
  Renaming a directory onto a file inside itself fails, and the file is gone: the retry of
  \<^verbatim>\<open>rename_compat\<close> removes the destination file before it knows that the rename can succeed.
\<close>

lemma rename_into_itself_loses_file:
  assumes ok: "tree_ok (dk_nodes d)"
    and p: "local_resolve root src = Inr p" and q: "local_resolve root dst = Inr q"
    and dir: "map_of (dk_nodes d) p = Some (FDir m)" and f: "file_at d q = Some b"
    and below: "strict_prefix p q" "p \<noteq> []"
  shows "fst (local_rename root d src dst) = Inl (RBackend ''EINVAL'') \<and>
    file_at (snd (local_rename root d src dst)) q = None"
proof -
  obtain m' where q': "map_of (dk_nodes d) q = Some (FFile b m')" using f by (auto simp: file_at_Some)
  have ne: "p \<noteq> q" "q \<noteq> []" using below by auto
  let ?d1 = "d\<lparr>dk_nodes := AList.delete q (dk_nodes d)\<rparr>"
  have rm: "sys_remove_file d q = Inr ?d1" using q' by (simp add: sys_remove_file_def del: map_of_eq_Some_iff)
  have einval: "sys_rename x p q = Inl (IoOther ''EINVAL'')" if "map_of (dk_nodes x) p = Some (FDir m)" for x
    using that below ne by (simp add: sys_rename_def del: map_of_eq_Some_iff)
  have "map_of (dk_nodes ?d1) p = Some (FDir m)" using dir ne by (simp add: map_of_delete)
  then have "rename_compat d p q = (Inl (IoOther ''EINVAL''), ?d1)"
    using dir q' by (simp add: rename_compat_def einval rm sys_metadata_def del: map_of_eq_Some_iff)
  then show ?thesis using p q by (simp add: local_rename_def file_at_delete)
qed

definition sample_disk :: disk where
  "sample_disk =
     \<lparr>dk_nodes = [([], FDir (fresh_meta 0)), ([''w''], FDir (fresh_meta 0)),
        ([''w'', ''a''], FDir (fresh_meta 0)), ([''w'', ''a'', ''f''], FFile [1, 2] (fresh_meta 0))],
      dk_now = 5\<rparr>"

lemma sample_disk_ok: "tree_ok (dk_nodes sample_disk)"
  by (simp add: sample_disk_def tree_ok_def is_dir_at_def)

lemma sample_resolve:
  "local_resolve [''w''] (MountPath ''/a'') = Inr [''w'', ''a'']"
  "local_resolve [''w''] (MountPath ''/b'') = Inr [''w'', ''b'']"
  "local_resolve [''w''] (MountPath ''/a/f'') = Inr [''w'', ''a'', ''f'']"
  by (simp_all add: local_resolve_def segments_def)


lemma local_rename_moves_subtree_witness:
  "map_of (dk_nodes (snd (local_rename [''w''] sample_disk (MountPath ''/a'') (MountPath ''/b'')))) [''w'', ''b'', ''f''] =
     Some (FFile [1, 2] (fresh_meta 0))"
proof -
  have r: "fst (local_rename [''w''] sample_disk (MountPath ''/a'') (MountPath ''/b'')) = Inr ()"
    by (simp add: local_rename_def sample_resolve rename_compat_def sys_rename_def sample_disk_def is_dir_at_def)
  then have "local_rename [''w''] sample_disk (MountPath ''/a'') (MountPath ''/b'') =
      (Inr (), snd (local_rename [''w''] sample_disk (MountPath ''/a'') (MountPath ''/b'')))"
    by (simp add: prod_eq_iff)
  from local_rename_moves_subtree [OF sample_disk_ok sample_resolve(1,2) _ this, of "[''w'', ''b'', ''f'']"]
  show ?thesis by (simp add: sample_disk_def)
qed

lemma rename_into_itself_loses_file_witness:
  "fst (local_rename [''w''] sample_disk (MountPath ''/a'') (MountPath ''/a/f'')) = Inl (RBackend ''EINVAL'') \<and>
   file_at (snd (local_rename [''w''] sample_disk (MountPath ''/a'') (MountPath ''/a/f''))) [''w'', ''a'', ''f''] = None"
  by (rule rename_into_itself_loses_file [OF sample_disk_ok sample_resolve(1,3), of "fresh_meta 0" "[1, 2]"])
    (simp_all add: sample_disk_def file_at_def)

end
