(* ===== verification/Workspace_Fs.thy ===== *)
theory Workspace_Fs
  imports Cached_Resource Local_Resource
begin

section \<open>The workspace filesystem\<close>

text \<open>
  \<^verbatim>\<open>workspace/src/fs.rs\<close> with \<^verbatim>\<open>hook.rs\<close>, \<^verbatim>\<open>vfs/mount.rs\<close> and \<^verbatim>\<open>vfs/sandbox/fwdfs.rs\<close>: the mount
  table and its longest-prefix routing, file handles, the operations of \<^verbatim>\<open>WorkspaceFs\<close> and the
  surface \<^verbatim>\<open>ForwardFs\<close> it serves to the guest. All providers act on one world of type \<open>'w\<close>; the
  context of a call is that world and the list of events the change hook has observed. The
  identity of an \<^verbatim>\<open>Arc<dyn Resource>\<close> (\<^verbatim>\<open>Arc::ptr_eq\<close>) is the number \<open>m_arc\<close>. Directory streams are
  lists, and the concurrent sizing of a listing visits the entries in order, as \<^verbatim>\<open>buffered\<close> returns
  them. A read to the end of a file may loop for ever on a provider that never ends, so the loop
  is a partial function.
\<close>

subsection \<open>Types\<close>

datatype fs_error = NotImplemented | GeneralFailure | Exists | FsNotFound | Forbidden

type_synonym 'a fres = "(fs_error, 'a) res"

fun fs_error_of :: "resource_error \<Rightarrow> fs_error" where
  "fs_error_of RNotFound = FsNotFound"
| "fs_error_of RUnsupported = NotImplemented"
| "fs_error_of (RBackend _) = GeneralFailure"

record open_options =
  oo_read :: bool
  oo_write :: bool
  oo_append :: bool
  oo_truncate :: bool
  oo_create :: bool
  oo_create_new :: bool

definition default_options :: open_options where
  "default_options = \<lparr>oo_read = False, oo_write = False, oo_append = False, oo_truncate = False,
     oo_create = False, oo_create_new = False\<rparr>"

datatype node_kind = NodeFile | NodeDir

record ws_stat =
  st_kind :: node_kind
  st_len :: nat
  st_modified :: "systime option"
  st_accessed :: "systime option"
  st_created :: "systime option"
  st_status_changed :: "systime option"
  st_executable :: "bool option"
  st_content_type :: "string option"

definition st_is_dir :: "ws_stat \<Rightarrow> bool" where
  "st_is_dir s \<longleftrightarrow> st_kind s = NodeDir"

definition st_is_file :: "ws_stat \<Rightarrow> bool" where
  "st_is_file s \<longleftrightarrow> st_kind s = NodeFile"

definition st_is_symlink :: "ws_stat \<Rightarrow> bool" where
  "st_is_symlink s \<longleftrightarrow> False"

fun node_kind_of :: "file_kind \<Rightarrow> node_kind" where
  "node_kind_of FileKind_Dir = NodeDir"
| "node_kind_of FileKind_File = NodeFile"

definition stat_from_vfs :: "file_stat \<Rightarrow> ws_stat" where
  "stat_from_vfs fs =
     \<lparr>st_kind = node_kind_of (fs_kind fs), st_len = fs_size fs, st_modified = fs_mtime fs,
      st_accessed = fs_atime fs, st_created = fs_created fs, st_status_changed = fs_ctime fs,
      st_executable = None, st_content_type = fs_content_type fs\<rparr>"

definition dir_stat :: ws_stat where
  "dir_stat =
     \<lparr>st_kind = NodeDir, st_len = 0, st_modified = None, st_accessed = None, st_created = None,
      st_status_changed = None, st_executable = None, st_content_type = None\<rparr>"

record ws_dir_entry =
  wde_name :: string
  wde_metadata :: "ws_stat fres"

datatype fs_event = Created string | Modified string | Removed string

record 'w fs_ctx =
  fx_world :: 'w
  fx_events :: "fs_event list"

record 'w mount =
  m_prefix :: string
  m_resource :: "'w resource"
  m_arc :: nat

record 'w workspace_fs =
  ws_mounts :: "'w mount list"
  ws_hook :: bool

record observer =
  ob_rel :: string
  ob_existed :: bool
  ob_wrote :: bool
  ob_hook :: bool

record 'w file_handle =
  fl_resource :: "'w resource"
  fl_path :: mount_path
  fl_offset :: nat
  fl_stat :: file_stat
  fl_write :: bool
  fl_wbuf :: bytes
  fl_observer :: "observer option"

text \<open>One call to a provider, in the context of a workspace call.\<close>

definition on_world :: "('w \<Rightarrow> 'a rres \<times> 'w) \<Rightarrow> 'w fs_ctx \<Rightarrow> 'a fres \<times> 'w fs_ctx" where
  "on_world f fx = (let (r, w) = f (fx_world fx) in (map_err fs_error_of r, fx\<lparr>fx_world := w\<rparr>))"

definition emit :: "fs_event \<Rightarrow> 'w fs_ctx \<Rightarrow> 'w fs_ctx" where
  "emit ev fx = fx\<lparr>fx_events := fx_events fx @ [ev]\<rparr>"

subsection \<open>The mount table\<close>

datatype mount_error = BadPrefix string | DuplicatePrefix string | ProviderFailed string

text \<open>\<^verbatim>\<open>LOCAL_MOUNT\<close>.\<close>

definition local_mount :: string where
  "local_mount = ''/files''"

datatype 'c provider_config = S3Config 'c | NotionConfig 'c | GmailConfig 'c | GdriveConfig 'c

record 'c mount_spec =
  sp_prefix :: string
  sp_provider :: "'c provider_config"

record 'c fs_config =
  cfg_local_root :: "string list option"
  cfg_mirror_root :: "string list option"
  cfg_mounts :: "'c mount_spec list"

text \<open>
  \<^verbatim>\<open>build_mounts\<close>. The constructors of the providers are parameters: \<open>mk\<close> builds the remote
  providers, \<open>mk_gmail\<close> Gmail's, \<open>mk_local\<close> the local tree, and \<open>cached\<close> wraps a provider with
  its caches in the world.
\<close>

fun add_mounts ::
  "('c provider_config \<Rightarrow> (string, 'w resource) res) \<Rightarrow>
   ('c \<Rightarrow> string list option \<Rightarrow> (string, 'w resource) res) \<Rightarrow>
   ('w resource \<Rightarrow> 'w resource) \<Rightarrow> string list option \<Rightarrow>
   'w mount list \<Rightarrow> 'c mount_spec list \<Rightarrow> (mount_error, 'w mount list) res" where
  "add_mounts mk mk_gmail cached mirror mounts [] = Inr mounts"
| "add_mounts mk mk_gmail cached mirror mounts (spec # rest) =
     (case sp_provider spec of
        GmailConfig c \<Rightarrow>
          (case mk_gmail c mirror of
             Inl e \<Rightarrow> Inl (ProviderFailed e)
           | Inr r \<Rightarrow>
               add_mounts mk mk_gmail cached mirror
                 (mounts @ [\<lparr>m_prefix = sp_prefix spec, m_resource = r, m_arc = length mounts\<rparr>]) rest)
      | p \<Rightarrow>
          (case mk p of
             Inl e \<Rightarrow> Inl (ProviderFailed e)
           | Inr r \<Rightarrow>
               add_mounts mk mk_gmail cached mirror
                 (mounts @ [\<lparr>m_prefix = sp_prefix spec, m_resource = cached r, m_arc = length mounts\<rparr>]) rest))"

definition build_mounts ::
  "('c provider_config \<Rightarrow> (string, 'w resource) res) \<Rightarrow>
   ('c \<Rightarrow> string list option \<Rightarrow> (string, 'w resource) res) \<Rightarrow>
   ('w resource \<Rightarrow> 'w resource) \<Rightarrow> (string list \<Rightarrow> 'w resource) \<Rightarrow>
   'c fs_config \<Rightarrow> (mount_error, 'w mount list) res" where
  "build_mounts mk mk_gmail cached mk_local config =
     add_mounts mk mk_gmail cached (cfg_mirror_root config)
       (case cfg_local_root config of
          Some root \<Rightarrow> [\<lparr>m_prefix = local_mount, m_resource = mk_local root, m_arc = 0\<rparr>]
        | None \<Rightarrow> [])
       (cfg_mounts config)"

text \<open>\<^verbatim>\<open>from_mounts\<close>: the checks in the order of the code, then the stable sort.\<close>

fun bad_prefix :: "'w mount list \<Rightarrow> string option" where
  "bad_prefix [] = None"
| "bad_prefix (m # ms) =
     (if m_prefix m = [] \<or> \<not> starts_with (m_prefix m) ''/'' then Some (m_prefix m) else bad_prefix ms)"

fun duplicate_prefix :: "'w mount list \<Rightarrow> string option" where
  "duplicate_prefix [] = None"
| "duplicate_prefix (m # ms) =
     (if m_prefix m \<in> m_prefix ` set ms then Some (m_prefix m) else duplicate_prefix ms)"

definition from_mounts :: "'w mount list \<Rightarrow> (mount_error, 'w workspace_fs) res" where
  "from_mounts mounts =
     (case bad_prefix mounts of
        Some p \<Rightarrow> Inl (BadPrefix p)
      | None \<Rightarrow>
          (case duplicate_prefix mounts of
             Some p \<Rightarrow> Inl (DuplicatePrefix p)
           | None \<Rightarrow>
               Inr \<lparr>ws_mounts = sort_key (\<lambda>m. - int (length (m_prefix m))) mounts, ws_hook = False\<rparr>))"

definition from_config ::
  "('c provider_config \<Rightarrow> (string, 'w resource) res) \<Rightarrow>
   ('c \<Rightarrow> string list option \<Rightarrow> (string, 'w resource) res) \<Rightarrow>
   ('w resource \<Rightarrow> 'w resource) \<Rightarrow> (string list \<Rightarrow> 'w resource) \<Rightarrow>
   'c fs_config \<Rightarrow> (mount_error, 'w workspace_fs) res" where
  "from_config mk mk_gmail cached mk_local config =
     (case build_mounts mk mk_gmail cached mk_local config of
        Inl e \<Rightarrow> Inl e | Inr ms \<Rightarrow> from_mounts ms)"

definition with_hook :: "'w workspace_fs \<Rightarrow> bool \<Rightarrow> 'w workspace_fs" where
  "with_hook ws h = ws\<lparr>ws_hook := h\<rparr>"

definition fire :: "'w workspace_fs \<Rightarrow> fs_event \<Rightarrow> 'w fs_ctx \<Rightarrow> 'w fs_ctx" where
  "fire ws ev fx = (if ws_hook ws then emit ev fx else fx)"

text \<open>\<^verbatim>\<open>route\<close>: the absolute path without trailing slashes, then the first mount that owns it.\<close>

definition abs_path :: "string \<Rightarrow> string" where
  "abs_path rel =
     trim_end_matches (if starts_with rel ''/'' then rel else ''/'' @ rel) slash"

fun route_in :: "'w mount list \<Rightarrow> string \<Rightarrow> ('w mount \<times> mount_path) option" where
  "route_in [] pth = None"
| "route_in (m # ms) pth =
     (if pth = m_prefix m then Some (m, mp_root)
      else (case strip_prefix pth (m_prefix m) of
              Some rest \<Rightarrow>
                if starts_with rest ''/'' then Some (m, mp_new rest) else route_in ms pth
            | None \<Rightarrow> route_in ms pth))"

definition route :: "'w workspace_fs \<Rightarrow> string \<Rightarrow> ('w mount \<times> mount_path) option" where
  "route ws rel = route_in (ws_mounts ws) (abs_path rel)"

definition reports_content_type :: "'w workspace_fs \<Rightarrow> string \<Rightarrow> bool" where
  "reports_content_type ws rel =
     (case route ws rel of Some (m, _) \<Rightarrow> r_reports_content_type (m_resource m) | None \<Rightarrow> False)"

definition mount_names :: "'w workspace_fs \<Rightarrow> string list" where
  "mount_names ws = map (\<lambda>m. trim_start_matches (m_prefix m) slash) (ws_mounts ws)"

definition is_root_path :: "string \<Rightarrow> bool" where
  "is_root_path rel = (trim_matches rel slash = [])"

subsection \<open>File handles\<close>

definition file_metadata :: "'w file_handle \<Rightarrow> 'w fs_ctx \<Rightarrow> ws_stat fres \<times> 'w fs_ctx" where
  "file_metadata f fx =
     (let (r, fx1) = on_world (\<lambda>w. r_stat (fl_resource f) w (fl_path f)) fx in
      case r of
        Inl e \<Rightarrow> (Inl e, fx1)
      | Inr st \<Rightarrow>
          if \<not> fs_size_is_estimate st then (Inr (stat_from_vfs st), fx1)
          else (let (r', fx2) = on_world (\<lambda>w. r_read_bytes (fl_resource f) w (fl_path f) None) fx1 in
                (map_ok (\<lambda>b. (stat_from_vfs st)\<lparr>st_len := length b\<rparr>) r', fx2)))"

definition mark_wrote :: "'w file_handle \<Rightarrow> 'w file_handle" where
  "mark_wrote f = f\<lparr>fl_observer := map_option (\<lambda>o'. o'\<lparr>ob_wrote := True\<rparr>) (fl_observer f)\<rparr>"

definition file_write_bytes :: "'w file_handle \<Rightarrow> bytes \<Rightarrow> unit fres \<times> 'w file_handle" where
  "file_write_bytes f buf =
     (if \<not> fl_write f then (Inl Forbidden, f)
      else (Inr (), mark_wrote (f\<lparr>fl_wbuf := fl_wbuf f @ buf\<rparr>)))"

text \<open>A \<^verbatim>\<open>dyn Buf\<close> is the list of its chunks.\<close>

fun extend_chunks :: "bytes \<Rightarrow> bytes list \<Rightarrow> bytes" where
  "extend_chunks wbuf [] = wbuf"
| "extend_chunks wbuf (chunk # rest) = extend_chunks (wbuf @ chunk) rest"

definition file_write_buf :: "'w file_handle \<Rightarrow> bytes list \<Rightarrow> unit fres \<times> 'w file_handle" where
  "file_write_buf f chunks =
     (if \<not> fl_write f then (Inl Forbidden, f)
      else (Inr (), mark_wrote (f\<lparr>fl_wbuf := extend_chunks (fl_wbuf f) chunks\<rparr>)))"

definition file_read_bytes :: "'w file_handle \<Rightarrow> nat \<Rightarrow> 'w fs_ctx \<Rightarrow> bytes fres \<times> 'w file_handle \<times> 'w fs_ctx" where
  "file_read_bytes f count fx =
     (let stop = sat_add64 (fl_offset f) count;
          (r, fx1) = on_world (\<lambda>w. r_read_bytes_pinned (fl_resource f) w (fl_path f)
                       (Some (fl_offset f, stop)) (fl_stat f)) fx
      in case r of
           Inl e \<Rightarrow> (Inl e, f, fx1)
         | Inr data \<Rightarrow> (Inr data, f\<lparr>fl_offset := sat_add64 (fl_offset f) (length data)\<rparr>, fx1))"

datatype seek_from = SeekStart nat | SeekCurrent int | SeekEnd int

text \<open>
  \<^verbatim>\<open>(x as i64 + d).max(0) as u64\<close>; an addition that leaves \<^verbatim>\<open>i64\<close> wraps, as a release build's does.
\<close>

definition wrap_i64 :: "int \<Rightarrow> int" where
  "wrap_i64 i = (i + 2 ^ 63) mod 2 ^ 64 - 2 ^ 63"

definition file_seek :: "'w file_handle \<Rightarrow> seek_from \<Rightarrow> nat \<times> 'w file_handle" where
  "file_seek f pos =
     (let new = (case pos of
                   SeekStart n \<Rightarrow> n
                 | SeekCurrent d \<Rightarrow> nat (max (wrap_i64 (as_i64 (fl_offset f) + d)) 0)
                 | SeekEnd d \<Rightarrow> nat (max (wrap_i64 (as_i64 (fs_size (fl_stat f)) + d)) 0))
      in (new, f\<lparr>fl_offset := new\<rparr>))"

definition file_flush :: "'w file_handle \<Rightarrow> 'w fs_ctx \<Rightarrow> unit fres \<times> 'w file_handle \<times> 'w fs_ctx" where
  "file_flush f fx =
     (if \<not> fl_write f then (Inr (), f, fx)
      else
        (let (r, fx1) = on_world (\<lambda>w. r_write_bytes (fl_resource f) w (fl_path f) (fl_wbuf f)) fx in
         case r of
           Inl e \<Rightarrow> (Inl e, f, fx1)
         | Inr _ \<Rightarrow>
             (case fl_observer f of
                Some o' \<Rightarrow>
                  if ob_wrote o'
                  then (Inr (), f\<lparr>fl_observer := Some (o'\<lparr>ob_wrote := False\<rparr>)\<rparr>,
                        if ob_hook o'
                        then emit (if ob_existed o' then Modified (ob_rel o') else Created (ob_rel o')) fx1
                        else fx1)
                  else (Inr (), f, fx1)
              | None \<Rightarrow> (Inr (), f, fx1))))"

subsection \<open>The operations of WorkspaceFs\<close>

definition ws_metadata :: "'w workspace_fs \<Rightarrow> string \<Rightarrow> 'w fs_ctx \<Rightarrow> ws_stat fres \<times> 'w fs_ctx" where
  "ws_metadata ws rel fx =
     (if is_root_path rel then (Inr dir_stat, fx)
      else (case route ws rel of
              None \<Rightarrow> (Inl FsNotFound, fx)
            | Some (m, vpath) \<Rightarrow>
                (let (r, fx1) = on_world (\<lambda>w. r_stat (m_resource m) w vpath) fx
                 in (map_ok stat_from_vfs r, fx1))))"

definition dir_entry_from_vfs :: "dir_entry \<Rightarrow> ws_dir_entry" where
  "dir_entry_from_vfs e =
     \<lparr>wde_name = de_name e,
      wde_metadata = Inr
        \<lparr>st_kind = node_kind_of (de_kind e), st_len = de_size e, st_modified = de_mtime e,
         st_accessed = de_atime e, st_created = de_created e, st_status_changed = de_ctime e,
         st_executable = None, st_content_type = de_content_type e\<rparr>\<rparr>"

definition mount_dir_entry :: "string \<Rightarrow> ws_dir_entry" where
  "mount_dir_entry name = \<lparr>wde_name = name, wde_metadata = Inr dir_stat\<rparr>"

text \<open>The sizing pass of \<^verbatim>\<open>list\<close>: one \<^verbatim>\<open>stat\<close> per entry whose length is an estimate, in order.\<close>

fun stat_each :: "'w resource \<Rightarrow> 'w \<Rightarrow> mount_path list \<Rightarrow> file_stat option list \<times> 'w" where
  "stat_each R w [] = ([], w)"
| "stat_each R w (p # ps) =
     (let (r, w1) = r_stat R w p; (rest, w2) = stat_each R w1 ps in (ok_opt r # rest, w2))"

fun set_sizes :: "dir_entry list \<Rightarrow> (nat \<times> file_stat option) list \<Rightarrow> dir_entry list" where
  "set_sizes entries [] = entries"
| "set_sizes entries ((i, st) # rest) =
     set_sizes
       (case st of
          Some s \<Rightarrow>
            if \<not> fs_size_is_estimate s
            then entries[i := (entries ! i)\<lparr>de_size := fs_size s, de_size_is_estimate := False\<rparr>]
            else entries
        | None \<Rightarrow> entries)
       rest"

definition size_entries :: "'w resource \<Rightarrow> mount_path \<Rightarrow> dir_entry list \<Rightarrow> 'w \<Rightarrow> dir_entry list \<times> 'w" where
  "size_entries R vpath entries w =
     (let at = filter (\<lambda>i. de_size_is_estimate (entries ! i)) [0..<length entries];
          paths = map (\<lambda>i. mp_child vpath (de_name (entries ! i))) at;
          (sized, w1) = stat_each R w paths
      in (set_sizes entries (zip at sized), w1))"

definition ws_list :: "'w workspace_fs \<Rightarrow> string \<Rightarrow> bool \<Rightarrow> 'w fs_ctx \<Rightarrow> ws_dir_entry list fres \<times> 'w fs_ctx" where
  "ws_list ws rel with_sizes fx =
     (if is_root_path rel then (Inr (map mount_dir_entry (mount_names ws)), fx)
      else (case route ws rel of
              None \<Rightarrow> (Inl FsNotFound, fx)
            | Some (m, vpath) \<Rightarrow>
                (let (r, fx1) = on_world (\<lambda>w. r_readdir (m_resource m) w vpath) fx in
                 case r of
                   Inl e \<Rightarrow> (Inl e, fx1)
                 | Inr entries \<Rightarrow>
                     (let (entries', w) =
                        (if with_sizes \<and> r_resolve_size_on_stat (m_resource m)
                         then size_entries (m_resource m) vpath entries (fx_world fx1)
                         else (entries, fx_world fx1))
                      in (Inr (map dir_entry_from_vfs entries'), fx1\<lparr>fx_world := w\<rparr>)))))"

definition ws_open :: "'w workspace_fs \<Rightarrow> string \<Rightarrow> open_options \<Rightarrow> 'w fs_ctx \<Rightarrow> 'w file_handle fres \<times> 'w fs_ctx" where
  "ws_open ws rel opts fx =
     (case route ws rel of
        None \<Rightarrow> (Inl FsNotFound, fx)
      | Some (m, vpath) \<Rightarrow>
          (let R = m_resource m;
               is_write = (oo_write opts \<or> oo_append opts \<or> oo_create opts \<or> oo_create_new opts);
               (stat, fx1) = on_world (\<lambda>w. r_stat R w vpath) fx;
               existed = is_ok stat;
               pinned = (case stat of Inr st \<Rightarrow> st | Inl _ \<Rightarrow> default_stat)
           in if oo_create_new opts \<and> existed then (Inl Exists, fx1)
              else (case (if is_write then None
                          else (case stat of
                                  Inr st \<Rightarrow> if fs_kind st = FileKind_Dir then Some Forbidden else None
                                | Inl e \<Rightarrow> Some e)) of
                      Some e \<Rightarrow> (Inl e, fx1)
                    | None \<Rightarrow>
                        (let (seed, fx2) =
                           (if oo_append opts \<and> existed
                            then on_world (\<lambda>w. r_read_bytes R w vpath None) fx1
                            else (Inr [], fx1))
                         in case seed of
                              Inl e \<Rightarrow> (Inl e, fx2)
                            | Inr wbuf \<Rightarrow>
                                (Inr \<lparr>fl_resource = R, fl_path = vpath, fl_offset = 0, fl_stat = pinned,
                                   fl_write = is_write, fl_wbuf = wbuf,
                                   fl_observer =
                                     (if is_write \<and> ws_hook ws
                                      then Some \<lparr>ob_rel = rel, ob_existed = existed, ob_wrote = False,
                                                 ob_hook = ws_hook ws\<rparr>
                                      else None)\<rparr>, fx2)))))"

definition ws_create_dir :: "'w workspace_fs \<Rightarrow> string \<Rightarrow> 'w fs_ctx \<Rightarrow> unit fres \<times> 'w fs_ctx" where
  "ws_create_dir ws rel fx =
     (case route ws rel of
        None \<Rightarrow> (Inl Forbidden, fx)
      | Some (m, vpath) \<Rightarrow> on_world (\<lambda>w. r_mkdir (m_resource m) w vpath) fx)"

definition ws_remove_dir :: "'w workspace_fs \<Rightarrow> string \<Rightarrow> 'w fs_ctx \<Rightarrow> unit fres \<times> 'w fs_ctx" where
  "ws_remove_dir ws rel fx =
     (case route ws rel of
        None \<Rightarrow> (Inl FsNotFound, fx)
      | Some (m, vpath) \<Rightarrow>
          (let (r, fx1) = on_world (\<lambda>w. r_rmdir (m_resource m) w vpath) fx in
           case r of Inl e \<Rightarrow> (Inl e, fx1) | Inr _ \<Rightarrow> (Inr (), fire ws (Removed rel) fx1)))"

definition ws_remove_file :: "'w workspace_fs \<Rightarrow> string \<Rightarrow> 'w fs_ctx \<Rightarrow> unit fres \<times> 'w fs_ctx" where
  "ws_remove_file ws rel fx =
     (case route ws rel of
        None \<Rightarrow> (Inl FsNotFound, fx)
      | Some (m, vpath) \<Rightarrow>
          (let (r, fx1) = on_world (\<lambda>w. r_unlink (m_resource m) w vpath) fx in
           case r of Inl e \<Rightarrow> (Inl e, fx1) | Inr _ \<Rightarrow> (Inr (), fire ws (Removed rel) fx1)))"

definition ws_rename :: "'w workspace_fs \<Rightarrow> string \<Rightarrow> string \<Rightarrow> 'w fs_ctx \<Rightarrow> unit fres \<times> 'w fs_ctx" where
  "ws_rename ws src dst fx =
     (case route ws src of
        None \<Rightarrow> (Inl Forbidden, fx)
      | Some (mf, vfrom) \<Rightarrow>
          (case route ws dst of
             None \<Rightarrow> (Inl Forbidden, fx)
           | Some (mt, vto) \<Rightarrow>
               if m_arc mf \<noteq> m_arc mt then (Inl Forbidden, fx)
               else
                 (let (st, fx1) = on_world (\<lambda>w. r_stat (m_resource mt) w vto) fx;
                      to_existed = is_ok st;
                      (r, fx2) = on_world (\<lambda>w. r_rename (m_resource mf) w vfrom vto) fx1
                  in case r of
                       Inl e \<Rightarrow> (Inl e, fx2)
                     | Inr _ \<Rightarrow>
                         (Inr (), fire ws (if to_existed then Modified dst else Created dst)
                                    (fire ws (Removed src) fx2)))))"

definition ws_copy :: "'w workspace_fs \<Rightarrow> string \<Rightarrow> string \<Rightarrow> 'w fs_ctx \<Rightarrow> unit fres \<times> 'w fs_ctx" where
  "ws_copy ws src dst fx =
     (case route ws src of
        None \<Rightarrow> (Inl Forbidden, fx)
      | Some (mf, vfrom) \<Rightarrow>
          (case route ws dst of
             None \<Rightarrow> (Inl Forbidden, fx)
           | Some (mt, vto) \<Rightarrow>
               if m_arc mf \<noteq> m_arc mt then (Inl Forbidden, fx)
               else
                 (let (st, fx1) = on_world (\<lambda>w. r_stat (m_resource mt) w vto) fx;
                      to_existed = is_ok st;
                      (rd, fx2) = on_world (\<lambda>w. r_read_bytes (m_resource mf) w vfrom None) fx1
                  in case rd of
                       Inl e \<Rightarrow> (Inl e, fx2)
                     | Inr data \<Rightarrow>
                         (let (wr, fx3) = on_world (\<lambda>w. r_write_bytes (m_resource mt) w vto data) fx2 in
                          case wr of
                            Inl e \<Rightarrow> (Inl e, fx3)
                          | Inr _ \<Rightarrow>
                              (Inr (), fire ws (if to_existed then Modified dst else Created dst) fx3)))))"

subsection \<open>The surface served to the guest\<close>

record fwd_entry =
  fe_name :: string
  fe_is_dir :: bool
  fe_size :: nat
  fe_mtime :: "nat option"

record fwd_stat =
  fw_exists :: bool
  fw_is_dir :: bool
  fw_size :: nat
  fw_mtime :: "nat option"
  fw_atime :: "nat option"
  fw_ctime :: "nat option"

definition fwd_missing :: fwd_stat where
  "fwd_missing = \<lparr>fw_exists = False, fw_is_dir = False, fw_size = 0, fw_mtime = None,
     fw_atime = None, fw_ctime = None\<rparr>"

definition secs_since_epoch :: "systime \<Rightarrow> nat option" where
  "secs_since_epoch t = (if t \<ge> 0 then Some (nat (t div 10 ^ 9)) else None)"

text \<open>An \<^verbatim>\<open>anyhow\<close> error: the operation and path its message names, and the error it shows.\<close>

datatype fwd_error = FwdErr string string fs_error

definition fwd_readdir :: "'w workspace_fs \<Rightarrow> 'w fs_ctx \<Rightarrow> string \<Rightarrow> (fwd_error, fwd_entry list) res \<times> 'w fs_ctx" where
  "fwd_readdir ws fx path =
     (if is_root_path path
      then (Inr (map (\<lambda>name. \<lparr>fe_name = name, fe_is_dir = True, fe_size = 0, fe_mtime = None\<rparr>)
                     (mount_names ws)), fx)
      else
        (let (r, fx1) = ws_list ws path False fx in
         (map_ok (map (\<lambda>e.
            let (is_dir, sz, mtime) =
              (case wde_metadata e of
                 Inr st \<Rightarrow> (st_is_dir st, st_len st, Option.bind (st_modified st) secs_since_epoch)
               | Inl _ \<Rightarrow> (False, 0, None))
            in \<lparr>fe_name = wde_name e, fe_is_dir = is_dir, fe_size = sz, fe_mtime = mtime\<rparr>))
            (map_err (FwdErr ''readdir'' path) r), fx1)))"

definition fwd_stat_of :: "ws_stat \<Rightarrow> fwd_stat" where
  "fwd_stat_of st =
     \<lparr>fw_exists = True, fw_is_dir = st_is_dir st, fw_size = st_len st,
      fw_mtime = Option.bind (st_modified st) secs_since_epoch,
      fw_atime = Option.bind (st_accessed st) secs_since_epoch,
      fw_ctime = Option.bind (st_status_changed st) secs_since_epoch\<rparr>"

definition fwd_stat_at :: "'w workspace_fs \<Rightarrow> 'w fs_ctx \<Rightarrow> string \<Rightarrow> fwd_stat \<times> 'w fs_ctx" where
  "fwd_stat_at ws fx path =
     (if is_root_path path
      then (\<lparr>fw_exists = True, fw_is_dir = True, fw_size = 0, fw_mtime = None, fw_atime = None,
              fw_ctime = None\<rparr>, fx)
      else (let (r, fx1) = ws_metadata ws path fx
            in (case r of Inr st \<Rightarrow> fwd_stat_of st | Inl _ \<Rightarrow> fwd_missing, fx1)))"

definition fwd_chunk :: nat where
  "fwd_chunk = 256 * 1024"

text \<open>The loop of \<^verbatim>\<open>read\<close>; \<open>None\<close> is a loop that never ends.\<close>

partial_function (option) read_loop ::
  "'w file_handle \<Rightarrow> nat option \<Rightarrow> bytes \<Rightarrow> 'w fs_ctx \<Rightarrow> (bytes fres \<times> 'w fs_ctx) option" where
  "read_loop f sz out fx =
     (let want = (case sz of Some s \<Rightarrow> s - length out | None \<Rightarrow> fwd_chunk) in
      if want = 0 then Some (Inr out, fx)
      else
        (let (r, f', fx') = file_read_bytes f (min want fwd_chunk) fx in
         case r of
           Inl e \<Rightarrow> Some (Inl e, fx')
         | Inr chunk \<Rightarrow> if chunk = [] then Some (Inr out, fx') else read_loop f' sz (out @ chunk) fx'))"

definition fwd_read ::
  "'w workspace_fs \<Rightarrow> 'w fs_ctx \<Rightarrow> string \<Rightarrow> nat option \<Rightarrow> nat option \<Rightarrow>
   ((fwd_error, bytes) res \<times> 'w fs_ctx) option" where
  "fwd_read ws fx path offset sz =
     (let (r, fx1) = ws_open ws path (default_options\<lparr>oo_read := True\<rparr>) fx in
      case r of
        Inl e \<Rightarrow> Some (Inl (FwdErr ''open'' path e), fx1)
      | Inr f \<Rightarrow>
          (let f1 = (case offset of Some off \<Rightarrow> snd (file_seek f (SeekStart off)) | None \<Rightarrow> f) in
           map_option (\<lambda>(r', fx2). (map_err (FwdErr ''read'' path) r', fx2)) (read_loop f1 sz [] fx1)))"

definition fwd_write ::
  "'w workspace_fs \<Rightarrow> 'w fs_ctx \<Rightarrow> string \<Rightarrow> bytes \<Rightarrow> (fwd_error, string) res \<times> 'w fs_ctx" where
  "fwd_write ws fx path data =
     (let (r, fx1) = ws_open ws path
            (default_options\<lparr>oo_write := True, oo_create := True, oo_truncate := True\<rparr>) fx in
      case r of
        Inl e \<Rightarrow> (Inl (FwdErr ''open'' path e), fx1)
      | Inr f \<Rightarrow>
          (let (rw, f1) = file_write_bytes f data in
           case rw of
             Inl e \<Rightarrow> (Inl (FwdErr ''write'' path e), fx1)
           | Inr _ \<Rightarrow>
               (let (rf, f2, fx2) = file_flush f1 fx1 in
                case rf of
                  Inl e \<Rightarrow> (Inl (FwdErr ''flush'' path e), fx2)
                | Inr _ \<Rightarrow> (Inr ''{\"ok\":true}'', fx2))))"

definition fwd_unlink :: "'w workspace_fs \<Rightarrow> 'w fs_ctx \<Rightarrow> string \<Rightarrow> (fwd_error, unit) res \<times> 'w fs_ctx" where
  "fwd_unlink ws fx path =
     (let (r, fx1) = ws_remove_file ws path fx in (map_err (FwdErr ''unlink'' path) r, fx1))"

definition fwd_mkdir :: "'w workspace_fs \<Rightarrow> 'w fs_ctx \<Rightarrow> string \<Rightarrow> (fwd_error, unit) res \<times> 'w fs_ctx" where
  "fwd_mkdir ws fx path =
     (let (r, fx1) = ws_create_dir ws path fx in (map_err (FwdErr ''mkdir'' path) r, fx1))"

definition fwd_rmdir :: "'w workspace_fs \<Rightarrow> 'w fs_ctx \<Rightarrow> string \<Rightarrow> (fwd_error, unit) res \<times> 'w fs_ctx" where
  "fwd_rmdir ws fx path =
     (let (r, fx1) = ws_remove_dir ws path fx in (map_err (FwdErr ''rmdir'' path) r, fx1))"

definition fwd_rename :: "'w workspace_fs \<Rightarrow> 'w fs_ctx \<Rightarrow> string \<Rightarrow> string \<Rightarrow> (fwd_error, unit) res \<times> 'w fs_ctx" where
  "fwd_rename ws fx src dst =
     (let (r, fx1) = ws_rename ws src dst fx in (map_err (FwdErr ''rename'' (src @ '' -> '' @ dst)) r, fx1))"

subsection \<open>Routing\<close>

definition owns :: "'w mount \<Rightarrow> string \<Rightarrow> bool" where
  "owns m pth \<longleftrightarrow> pth = m_prefix m \<or> (\<exists>r. pth = m_prefix m @ slash # r)"

lemma route_in_Cons:
  "route_in (x # ms) pth =
     (if owns x pth
      then Some (x, if pth = m_prefix x then mp_root else mp_new (drop (length (m_prefix x)) pth))
      else route_in ms pth)"
proof (cases "owns x pth")
  case True
  then show ?thesis by (auto simp: owns_def starts_with_def)
next
  case False
  then show ?thesis
    by (auto simp: owns_def starts_with_def strip_prefix_Some prefix_def split: option.splits)
qed

declare route_in.simps(2) [simp del]

lemma route_in_first:
  "route_in ms pth = Some (m, vp) \<Longrightarrow>
   \<exists>xs ys. ms = xs @ m # ys \<and> (\<forall>x\<in>set xs. \<not> owns x pth) \<and> owns m pth \<and>
     vp = (if pth = m_prefix m then mp_root else mp_new (drop (length (m_prefix m)) pth))"
proof (induction ms)
  case (Cons x ms)
  show ?case
  proof (cases "owns x pth")
    case True
    with Cons.prems show ?thesis by (intro exI [of _ "[]"] exI [of _ ms]) (auto simp: route_in_Cons)
  next
    case False
    with Cons.prems have "route_in ms pth = Some (m, vp)" by (simp add: route_in_Cons)
    from Cons.IH [OF this] obtain xs ys where "ms = xs @ m # ys" "\<forall>x\<in>set xs. \<not> owns x pth" "owns m pth"
      "vp = (if pth = m_prefix m then mp_root else mp_new (drop (length (m_prefix m)) pth))" by blast
    with False show ?thesis by (intro exI [of _ "x # xs"] exI [of _ ys]) auto
  qed
qed simp

lemma route_in_None: "route_in ms pth = None \<longleftrightarrow> (\<forall>m\<in>set ms. \<not> owns m pth)"
  by (induction ms) (simp_all add: route_in_Cons)

lemma abs_path_no_trailing: "abs_path rel = [] \<or> last (abs_path rel) \<noteq> slash"
  unfolding abs_path_def by (metis trim_end_last)

lemma owns_length:
  assumes "owns m pth" "owns m' pth" "length (m_prefix m) = length (m_prefix m')"
  shows "m_prefix m = m_prefix m'"
proof -
  from assms(1) obtain x where "pth = m_prefix m @ x" by (auto simp: owns_def)
  moreover from assms(2) obtain y where "pth = m_prefix m' @ y" by (auto simp: owns_def)
  ultimately show ?thesis using assms(3) by (metis append_eq_append_conv)
qed

lemma mount_vpath:
  assumes "owns m pth" "pth = [] \<or> last pth \<noteq> slash" "pth \<noteq> m_prefix m"
  shows "m_prefix m @ as_str (mp_new (drop (length (m_prefix m)) pth)) = pth"
proof -
  from assms obtain r where r: "pth = m_prefix m @ slash # r" by (auto simp: owns_def)
  with assms(2) have "path_ok (slash # r)" by (cases "r = []") (auto simp: path_ok_def)
  from mp_new_id [OF this] show ?thesis by (simp add: r)
qed

text \<open>What a successful \<^verbatim>\<open>from_mounts\<close> gives: the mounts given, by decreasing prefix length.\<close>

lemma bad_prefix_None: "bad_prefix ms = None \<longleftrightarrow> (\<forall>m\<in>set ms. m_prefix m \<noteq> [] \<and> starts_with (m_prefix m) ''/'')"
  by (induction ms) auto

lemma duplicate_prefix_None: "duplicate_prefix ms = None \<longleftrightarrow> distinct (map m_prefix ms)"
  by (induction ms) auto

lemma from_mounts_Inr:
  assumes "from_mounts ms = Inr ws"
  shows "set (ws_mounts ws) = set ms \<and> distinct (map m_prefix ms) \<and>
    sorted_wrt (\<lambda>a b. length (m_prefix b) \<le> length (m_prefix a)) (ws_mounts ws) \<and>
    (\<forall>m\<in>set ms. \<exists>r. m_prefix m = slash # r)"
proof -
  have ws: "ws_mounts ws = sort_key (\<lambda>m. - int (length (m_prefix m))) ms"
    and ok: "bad_prefix ms = None" "duplicate_prefix ms = None"
    using assms by (auto simp: from_mounts_def split: option.splits)
  have "sorted (map (\<lambda>m. - int (length (m_prefix m))) (ws_mounts ws))" by (simp add: ws)
  then have "sorted_wrt (\<lambda>a b. length (m_prefix b) \<le> length (m_prefix a)) (ws_mounts ws)"
    by (simp add: sorted_map)
  moreover have "\<exists>r. m_prefix m = slash # r" if "m \<in> set ms" for m
    using that ok(1) by (auto simp: bad_prefix_None starts_with_def prefix_def)
  ultimately show ?thesis using ok(2) ws by (auto simp: duplicate_prefix_None)
qed

text \<open>
  C5. Routing is by longest prefix: in a mount table built by \<^verbatim>\<open>from_mounts\<close>, a path goes to a
  mount that owns it (its prefix, or its prefix and a slash, begin the path), no mount with a
  longer prefix owns it, the provider sees exactly the rest of the path, and a path no mount owns
  goes nowhere.
\<close>

theorem route_longest_prefix:
  assumes ws: "from_mounts ms = Inr ws"
  shows "case route ws rel of
      Some (m, vp) \<Rightarrow>
        m \<in> set ms \<and> owns m (abs_path rel) \<and>
        (\<forall>m'\<in>set ms. owns m' (abs_path rel) \<and> m_prefix m' \<noteq> m_prefix m \<longrightarrow>
           length (m_prefix m') < length (m_prefix m)) \<and>
        (if mp_is_root vp then abs_path rel = m_prefix m
         else m_prefix m @ as_str vp = abs_path rel)
    | None \<Rightarrow> \<forall>m\<in>set ms. \<not> owns m (abs_path rel)"
proof (cases "route ws rel")
  case None
  then have "\<forall>m\<in>set (ws_mounts ws). \<not> owns m (abs_path rel)" by (simp add: route_def route_in_None)
  with None show ?thesis using from_mounts_Inr [OF ws] by simp
next
  case (Some mv)
  obtain m vp where mv: "mv = (m, vp)" by (cases mv)
  let ?p = "abs_path rel"
  from Some mv have "route_in (ws_mounts ws) ?p = Some (m, vp)" by (simp add: route_def)
  from route_in_first [OF this] obtain xs ys where split: "ws_mounts ws = xs @ m # ys"
    and first: "\<forall>x\<in>set xs. \<not> owns x ?p" and m: "owns m ?p"
    and vp: "vp = (if ?p = m_prefix m then mp_root else mp_new (drop (length (m_prefix m)) ?p))" by blast
  have longest: "length (m_prefix m') < length (m_prefix m)"
    if "m' \<in> set ms" "owns m' ?p" "m_prefix m' \<noteq> m_prefix m" for m'
  proof -
    from that(1) from_mounts_Inr [OF ws] split have "m' \<in> set (xs @ m # ys)" by simp
    with that first have "m' \<in> set ys" by auto
    with from_mounts_Inr [OF ws] split have "length (m_prefix m') \<le> length (m_prefix m)"
      by (auto simp: sorted_wrt_append)
    with owns_length [OF that(2) m] that(3) show ?thesis by fastforce
  qed
  have rest: "if mp_is_root vp then ?p = m_prefix m else m_prefix m @ as_str vp = ?p"
  proof (cases "?p = m_prefix m")
    case True
    then show ?thesis by (simp add: vp mp_is_root_def)
  next
    case False
    from mount_vpath [OF m abs_path_no_trailing False] have eq: "m_prefix m @ as_str vp = ?p"
      using False vp by simp
    have "\<not> mp_is_root vp"
    proof
      assume "mp_is_root vp"
      with eq have "?p \<noteq> [] \<and> last ?p = slash" by (metis append_is_Nil_conv last_snoc mp_is_root_def not_Cons_self2)
      with abs_path_no_trailing [of rel] show False by blast
    qed
    with eq show ?thesis by simp
  qed
  have "m \<in> set ms" using from_mounts_Inr [OF ws] split by auto
  then show ?thesis using Some mv m longest rest by simp
qed

subsection \<open>Reading and writing a mount of plain files\<close>

definition limited :: "nat option \<Rightarrow> bytes \<Rightarrow> bytes \<Rightarrow> bytes" where
  "limited sz out rest = (case sz of Some s \<Rightarrow> take (s - length out) rest | None \<Rightarrow> rest)"

lemma on_world_same: "f (fx_world fx) = (r, fx_world fx) \<Longrightarrow> on_world f fx = (map_err fs_error_of r, fx)"
  by (simp add: on_world_def)

lemma fwd_chunk_pos: "0 < fwd_chunk"
  by (simp add: fwd_chunk_def)

text \<open>The offsets of a file shorter than \<open>2 ^ 63\<close> never saturate.\<close>

lemma sat_read_range:
  assumes "length b < 2 ^ 63" "ofs < 2 ^ 63"
  shows "slice b (Some (ofs, sat_add64 ofs count)) = take count (drop ofs b)"
proof (cases "ofs + count \<le> u64_max")
  case True
  then show ?thesis by (simp add: sat_add64_exact slice_take_drop)
next
  case False
  then have s: "sat_add64 ofs count = u64_max" by (simp add: sat_add64_def)
  have "length b - ofs \<le> u64_max - ofs" "length b - ofs \<le> count"
    using assms False by (auto simp: u64_max_def)
  then show ?thesis by (simp add: s slice_take_drop)
qed

context file_store
begin

text \<open>A handle open for reading on the file \<open>n\<close> whose content is \<open>b\<close>.\<close>

definition reads_from :: "'s file_handle \<Rightarrow> 's fs_ctx \<Rightarrow> bytes \<Rightarrow> bool" where
  "reads_from f fx b \<longleftrightarrow>
     fl_resource f = R \<and> fl_offset f < 2 ^ 63 \<and> length b < 2 ^ 63 \<and> good (fx_world fx) \<and>
     (\<exists>n. node (fl_path f) = Some n \<and> file_at (fx_world fx) n = Some b)"

lemma read_chunk:
  assumes "reads_from f fx b"
  shows "file_read_bytes f count fx =
    (Inr (take count (drop (fl_offset f) b)),
     f\<lparr>fl_offset := fl_offset f + length (take count (drop (fl_offset f) b))\<rparr>, fx)"
proof -
  let ?data = "take count (drop (fl_offset f) b)"
  from assms obtain n where n: "node (fl_path f) = Some n" "file_at (fx_world fx) n = Some b"
    and f: "fl_resource f = R" "fl_offset f < 2 ^ 63" "length b < 2 ^ 63" "good (fx_world fx)"
    by (auto simp: reads_from_def)
  have "r_read_bytes_pinned R (fx_world fx) (fl_path f) (Some (fl_offset f, sat_add64 (fl_offset f) count)) (fl_stat f) =
      (Inr ?data, fx_world fx)"
    using pinned_at [OF f(4) n, of "Some (fl_offset f, sat_add64 (fl_offset f) count)"] f
    by (simp add: range_ok_def sat_read_range)
  then have read: "on_world (\<lambda>w. r_read_bytes_pinned R w (fl_path f)
      (Some (fl_offset f, sat_add64 (fl_offset f) count)) (fl_stat f)) fx = (Inr ?data, fx)"
    by (simp add: on_world_same)
  have "fl_offset f + length ?data \<le> u64_max" using f(2,3) by (simp add: u64_max_def)
  then show ?thesis by (simp add: file_read_bytes_def Let_def f(1) read sat_add64_exact)
qed

lemma read_loop_result:
  assumes "reads_from f fx b"
  shows "read_loop f sz out fx = Some (Inr (out @ limited sz out (drop (fl_offset f) b)), fx)"
  using assms
proof (induction "length b - fl_offset f" arbitrary: f out rule: less_induct)
  case less
  let ?rest = "drop (fl_offset f) b"
  define want where "want = (case sz of Some s \<Rightarrow> s - length out | None \<Rightarrow> fwd_chunk)"
  define chunk where "chunk = take (min want fwd_chunk) ?rest"
  have step: "read_loop f sz out fx =
      (if want = 0 then Some (Inr out, fx)
       else if chunk = [] then Some (Inr out, fx)
       else read_loop (f\<lparr>fl_offset := fl_offset f + length chunk\<rparr>) sz (out @ chunk) fx)"
    by (subst read_loop.simps) (simp add: want_def [symmetric] read_chunk [OF less.prems] chunk_def [symmetric] Let_def)
  show ?case
  proof (cases "want = 0 \<or> chunk = []")
    case True
    then have "limited sz out ?rest = []"
      using fwd_chunk_pos by (auto simp: want_def chunk_def limited_def split: option.splits)
    then show ?thesis using True step by auto
  next
    case False
    let ?f = "f\<lparr>fl_offset := fl_offset f + length chunk\<rparr>"
    have len: "0 < length chunk" "length chunk \<le> length ?rest" using False by (auto simp: chunk_def)
    have rd: "reads_from ?f fx b" using less.prems len by (auto simp: reads_from_def)
    have "fl_offset ?f = fl_offset f + length chunk" "length chunk \<le> length b - fl_offset f"
      using len(2) by simp_all
    with len(1) have "length b - fl_offset ?f < length b - fl_offset f" by linarith
    from less.hyps [OF this rd]
    have rec: "read_loop ?f sz (out @ chunk) fx =
        Some (Inr ((out @ chunk) @ limited sz (out @ chunk) (drop (fl_offset ?f) b)), fx)" .
    have "prefix chunk ?rest" unfolding chunk_def by (rule take_is_prefix)
    then have "?rest = chunk @ drop (length chunk) ?rest" by (metis append_eq_conv_conj prefix_def)
    then have "?rest = chunk @ drop (fl_offset ?f) b" by (simp add: add.commute)
    moreover have "length chunk \<le> want" by (simp add: chunk_def)
    ultimately have "limited sz out ?rest = chunk @ limited sz (out @ chunk) (drop (fl_offset ?f) b)"
      by (auto simp: limited_def want_def split: option.splits)
    then show ?thesis using False step rec by simp
  qed
qed

lemma forward_read_file:
  assumes rt: "route ws path = Some (m, vp)" and m: "m_resource m = R"
    and w: "good (fx_world fx)" "node vp = Some n" "file_at (fx_world fx) n = Some b"
    and len: "length b < 2 ^ 63" "the_default 0 off < 2 ^ 63"
  shows "fwd_read ws fx path off sz =
    Some (Inr (limited sz [] (drop (the_default 0 off) b)), fx)"
proof -
  from stat_at [OF w] obtain st where st: "r_stat R (fx_world fx) vp = (Inr st, fx_world fx)"
    "fs_kind st = FileKind_File" by blast
  have stat: "on_world (\<lambda>w. r_stat R w vp) fx = (Inr st, fx)" by (simp add: on_world_def st(1))
  define f where "f = \<lparr>fl_resource = R, fl_path = vp, fl_offset = 0, fl_stat = st, fl_write = False,
    fl_wbuf = [], fl_observer = None\<rparr>"
  have open_ok: "ws_open ws path (default_options\<lparr>oo_read := True\<rparr>) fx = (Inr f, fx)"
    by (simp add: ws_open_def rt m default_options_def stat st(2) f_def)
  define f1 where "f1 = (case off of Some o' \<Rightarrow> snd (file_seek f (SeekStart o')) | None \<Rightarrow> f)"
  have f1: "reads_from f1 fx b" "fl_offset f1 = the_default 0 off"
    using w len by (auto simp: f1_def f_def file_seek_def reads_from_def split: option.splits)
  show ?thesis
    by (simp add: fwd_read_def open_ok f1_def [symmetric] read_loop_result [OF f1(1)] f1(2))
qed

lemma forward_write_file:
  assumes rt: "route ws path = Some (m, vp)" and m: "m_resource m = R" and w: "good (fx_world fx)"
    and wr: "fwd_write ws fx path data = (Inr msg, fx')"
  shows "good (fx_world fx') \<and>
    (\<exists>n. node vp = Some n \<and> file_at (fx_world fx') = (file_at (fx_world fx))(n \<mapsto> data)) \<and>
    fx_events fx' = fx_events fx @
      (if ws_hook ws then [if is_ok (fst (r_stat R (fx_world fx) vp)) then Modified path else Created path] else [])"
proof -
  obtain sr where sr: "r_stat R (fx_world fx) vp = (sr, fx_world fx)"
    using stat_pure [OF w, of vp] by (metis prod.collapse)
  have stat: "on_world (\<lambda>w. r_stat R w vp) fx = (map_err fs_error_of sr, fx)" by (simp add: on_world_def sr)
  obtain r w1 where wb: "r_write_bytes R (fx_world fx) vp data = (r, w1)" by fastforce
  define f where "f = \<lparr>fl_resource = R, fl_path = vp, fl_offset = 0,
    fl_stat = (case map_err fs_error_of sr of Inr st \<Rightarrow> st | Inl _ \<Rightarrow> default_stat), fl_write = True, fl_wbuf = [],
    fl_observer = (if ws_hook ws then Some \<lparr>ob_rel = path, ob_existed = is_ok sr, ob_wrote = False,
      ob_hook = True\<rparr> else None)\<rparr>"
  have opened: "ws_open ws path (default_options\<lparr>oo_write := True, oo_create := True, oo_truncate := True\<rparr>) fx = (Inr f, fx)"
    by (simp add: ws_open_def rt m default_options_def stat f_def)
  define f1 where "f1 = mark_wrote (f\<lparr>fl_wbuf := data\<rparr>)"
  have written: "file_write_bytes f data = (Inr (), f1)"
    by (simp add: file_write_bytes_def f_def f1_def)
  have f1: "fl_write f1" "fl_resource f1 = R" "fl_path f1 = vp" "fl_wbuf f1 = data"
    "fl_observer f1 = (if ws_hook ws then Some \<lparr>ob_rel = path, ob_existed = is_ok sr, ob_wrote = True,
      ob_hook = True\<rparr> else None)"
    by (simp_all add: f1_def mark_wrote_def f_def)
  obtain rf f2 fx2 where fl: "file_flush f1 fx = (rf, f2, fx2)" by (cases "file_flush f1 fx")
  have rf: "rf = Inr ()" "fx' = fx2"
    using wr by (cases rf; simp add: fwd_write_def opened written fl)+
  have call: "on_world (\<lambda>w. r_write_bytes R w vp data) fx = (map_err fs_error_of r, fx\<lparr>fx_world := w1\<rparr>)"
    by (simp add: on_world_def wb)
  have ok: "r = Inr ()"
    using fl rf(1) by (cases r) (simp_all add: file_flush_def f1 call Let_def)
  then have fx': "fx_world fx' = w1" and ev: "fx_events fx' = fx_events fx @
      (if ws_hook ws then [if is_ok sr then Modified path else Created path] else [])"
    using fl rf by (auto simp: file_flush_def f1 call Let_def emit_def split: if_splits)
  from write_at [OF w, of vp data w1] wb ok sr fx' ev show ?thesis by simp
qed

end

text \<open>
  C6. Reading a file of the local mount through the guest surface ends, whatever its size, and
  returns exactly the bytes asked for: from the offset on, at most the size given, to the end of
  the file if none is; the disk is not changed and no event fires.
\<close>

theorem forward_read_exact:
  assumes rt: "route ws path = Some (m, vp)" and m: "m_resource m = local_resource root"
    and w: "tree_ok (dk_nodes (fx_world fx))" "local_node root vp = Some n" "file_at (fx_world fx) n = Some b"
    and len: "length b < 2 ^ 63" "the_default 0 off < 2 ^ 63"
  shows "fwd_read ws fx path off sz =
    Some (Inr (case sz of Some s \<Rightarrow> take s (drop (the_default 0 off) b) | None \<Rightarrow> drop (the_default 0 off) b), fx)"
  using local.forward_read_file [OF rt m w len, of sz] by (simp add: limited_def split: option.splits)

text \<open>
  A file written through the guest surface reads back: after a write to the local mount that
  succeeded, reading the path at any offset and size returns that range of the data written, every
  other file is as it was, and the hook, if any, observed exactly one event, \<open>Modified\<close> if the
  path existed before and \<open>Created\<close> otherwise.
\<close>

lemma forward_write_read:
  assumes rt: "route ws path = Some (m, vp)" and m: "m_resource m = local_resource root"
    and w: "tree_ok (dk_nodes (fx_world fx))"
    and wr: "fwd_write ws fx path data = (Inr msg, fx')"
    and len: "length data < 2 ^ 63" "off < 2 ^ 63"
  shows "fwd_read ws fx' path (Some off) (Some sz) = Some (Inr (take sz (drop off data)), fx') \<and>
    (\<exists>n. local_node root vp = Some n \<and> (\<forall>k. k \<noteq> n \<longrightarrow> file_at (fx_world fx') k = file_at (fx_world fx) k)) \<and>
    fx_events fx' = fx_events fx @
      (if ws_hook ws
       then [if is_ok (fst (local_stat root (fx_world fx) vp)) then Modified path else Created path] else [])"
proof -
  from local.forward_write_file [OF rt m w wr] obtain n
    where ok: "tree_ok (dk_nodes (fx_world fx'))" and n: "local_node root vp = Some n"
      and at: "file_at (fx_world fx') = (file_at (fx_world fx))(n \<mapsto> data)"
      and ev: "fx_events fx' = fx_events fx @
        (if ws_hook ws
         then [if is_ok (fst (local_stat root (fx_world fx) vp)) then Modified path else Created path] else [])"
    by auto
  have "fwd_read ws fx' path (Some off) (Some sz) = Some (Inr (limited (Some sz) [] (drop off data)), fx')"
    using local.forward_read_file [OF rt m ok n, of data "Some off" "Some sz"] at len by simp
  with n at ev show ?thesis by (auto simp: limited_def)
qed

subsection \<open>Handles and events\<close>

fun write_chunks :: "bytes list \<Rightarrow> 'w file_handle \<Rightarrow> 'w file_handle" where
  "write_chunks [] f = f"
| "write_chunks (c # cs) f = write_chunks cs (snd (file_write_bytes f c))"

lemma write_chunks_result:
  "fl_write f \<Longrightarrow> write_chunks cs f =
     (if cs = [] then f else mark_wrote (f\<lparr>fl_wbuf := fl_wbuf f @ concat cs\<rparr>))"
proof (induction cs arbitrary: f)
  case (Cons c cs)
  let ?f = "mark_wrote (f\<lparr>fl_wbuf := fl_wbuf f @ c\<rparr>)"
  have "write_chunks (c # cs) f = write_chunks cs ?f"
    using Cons.prems by (simp add: file_write_bytes_def)
  also have "\<dots> = (if cs = [] then ?f else mark_wrote (?f\<lparr>fl_wbuf := fl_wbuf ?f @ concat cs\<rparr>))"
    using Cons.prems by (intro Cons.IH) (simp add: mark_wrote_def)
  also have "\<dots> = mark_wrote (f\<lparr>fl_wbuf := fl_wbuf f @ concat (c # cs)\<rparr>)"
    by (cases "fl_observer f") (simp_all add: mark_wrote_def)
  finally show ?case by simp
qed simp

lemma file_write_buf_concat:
  "extend_chunks w cs = w @ concat cs"
  by (induction w cs rule: extend_chunks.induct) auto

lemma ws_open_Inr:
  assumes "ws_open ws rel opts fx = (Inr f, fx1)" "route ws rel = Some (m, vp)"
  shows "fx_events fx1 = fx_events fx \<and> fl_resource f = m_resource m \<and> fl_path f = vp \<and>
    fl_write f = (oo_write opts \<or> oo_append opts \<or> oo_create opts \<or> oo_create_new opts) \<and>
    fl_observer f = (if fl_write f \<and> ws_hook ws
      then Some \<lparr>ob_rel = rel, ob_existed = is_ok (fst (r_stat (m_resource m) (fx_world fx) vp)),
        ob_wrote = False, ob_hook = True\<rparr> else None)"
  using assms by (auto simp: ws_open_def on_world_def Let_def map_err_Inl split: if_splits sum.splits option.splits prod.splits)

lemma file_flush_Inr:
  assumes "file_flush f fx = (Inr (), f', fx')" "fl_write f"
  shows "fl_write f' \<and> fl_wbuf f' = fl_wbuf f \<and> fl_resource f' = fl_resource f \<and> fl_path f' = fl_path f \<and>
    r_write_bytes (fl_resource f) (fx_world fx) (fl_path f) (fl_wbuf f) = (Inr (), fx_world fx') \<and>
    fl_observer f' = map_option (\<lambda>o'. o'\<lparr>ob_wrote := False\<rparr>) (fl_observer f) \<and>
    fx_events fx' = fx_events fx @ (case fl_observer f of
      Some o' \<Rightarrow> if ob_wrote o' \<and> ob_hook o'
                 then [if ob_existed o' then Modified (ob_rel o') else Created (ob_rel o')] else []
    | None \<Rightarrow> [])"
proof -
  obtain r w where call: "r_write_bytes (fl_resource f) (fx_world fx) (fl_path f) (fl_wbuf f) = (r, w)" by fastforce
  with assms have "r = Inr ()"
    by (cases r) (auto simp: file_flush_def on_world_def)
  with assms call show ?thesis
    by (cases "fl_observer f") (auto simp: file_flush_def on_world_def emit_def split: if_splits)
qed

text \<open>
  A write session reports once: a handle opened for writing, written to any number of times
  and flushed twice writes what it was seeded with (nothing, or the old content of an append) and
  all chunks in order, both times, and the hook has then observed exactly one event for the
  session, and none if nothing was written.
\<close>

lemma write_session_reports_once:
  assumes rt: "route ws rel = Some (m, vp)" and op: "ws_open ws rel opts fx = (Inr f, fx1)" and w: "fl_write f"
    and fl: "file_flush (write_chunks cs f) fx1 = (Inr (), f2, fx2)"
    and fl': "file_flush f2 fx2 = (Inr (), f3, fx3)"
  shows "fx_events fx3 = fx_events fx @
      (if ws_hook ws \<and> cs \<noteq> []
       then [if is_ok (fst (r_stat (m_resource m) (fx_world fx) vp)) then Modified rel else Created rel] else []) \<and>
    r_write_bytes (m_resource m) (fx_world fx1) vp (fl_wbuf f @ concat cs) = (Inr (), fx_world fx2) \<and>
    r_write_bytes (m_resource m) (fx_world fx2) vp (fl_wbuf f @ concat cs) = (Inr (), fx_world fx3)"
proof -
  let ?f = "write_chunks cs f"
  have f1: "fl_write ?f" "fl_resource ?f = fl_resource f" "fl_path ?f = fl_path f" "fl_wbuf ?f = fl_wbuf f @ concat cs"
    "fl_observer ?f = (if cs = [] then fl_observer f else map_option (\<lambda>o'. o'\<lparr>ob_wrote := True\<rparr>) (fl_observer f))"
    using w by (auto simp: write_chunks_result mark_wrote_def)
  note o1 = ws_open_Inr [OF op rt] and f2 = file_flush_Inr [OF fl f1(1)]
  from f2 have w2: "fl_write f2" by simp
  note f3 = file_flush_Inr [OF fl' w2]
  from f1 o1 f2 f3 w show ?thesis by simp
qed

lemma emit_events [simp]: "fx_events (emit ev fx) = fx_events fx @ [ev]" "fx_world (emit ev fx) = fx_world fx"
  by (simp_all add: emit_def)

lemma fire_events: "fx_events (fire ws ev fx) = fx_events fx @ (if ws_hook ws then [ev] else [])"
  "fx_world (fire ws ev fx) = fx_world fx"
  by (simp_all add: fire_def)

lemma on_world_events:
  "on_world f fx = (r, fx1) \<Longrightarrow> fx_events fx1 = fx_events fx"
  by (auto simp: on_world_def split: prod.splits)

text \<open>
  The hook hears of what happened and of nothing else: an operation that fails fires no
  event, a directory create never does, a removal fires \<open>Removed\<close>, a rename fires \<open>Removed\<close> for
  the source and then \<open>Modified\<close> or \<open>Created\<close> for the destination, a copy the latter only; and a
  rename or copy across two mounts is \<open>Forbidden\<close> without a call to either provider.
\<close>

theorem events_match_outcome:
  "fx_events (snd (ws_create_dir ws p fx)) = fx_events fx \<and>
    fx_events (snd (ws_remove_dir ws p fx)) = fx_events fx @
      (if ws_hook ws \<and> is_ok (fst (ws_remove_dir ws p fx)) then [Removed p] else []) \<and>
    fx_events (snd (ws_remove_file ws p fx)) = fx_events fx @
      (if ws_hook ws \<and> is_ok (fst (ws_remove_file ws p fx)) then [Removed p] else []) \<and>
    (\<exists>ev. ev \<in> {Modified q, Created q} \<and> fx_events (snd (ws_rename ws p q fx)) = fx_events fx @
      (if ws_hook ws \<and> is_ok (fst (ws_rename ws p q fx)) then [Removed p, ev] else [])) \<and>
    (\<exists>ev. ev \<in> {Modified q, Created q} \<and> fx_events (snd (ws_copy ws p q fx)) = fx_events fx @
      (if ws_hook ws \<and> is_ok (fst (ws_copy ws p q fx)) then [ev] else [])) \<and>
    (case (route ws p, route ws q) of
       (Some (mp, _), Some (mq, _)) \<Rightarrow>
         m_arc mp = m_arc mq \<or>
         (ws_rename ws p q fx = (Inl Forbidden, fx) \<and> ws_copy ws p q fx = (Inl Forbidden, fx))
     | _ \<Rightarrow> ws_rename ws p q fx = (Inl Forbidden, fx) \<and> ws_copy ws p q fx = (Inl Forbidden, fx))"
proof -
  have a: "fx_events (snd (ws_create_dir ws p fx)) = fx_events fx"
    by (simp add: ws_create_dir_def on_world_def split: option.splits prod.splits)
  have b: "fx_events (snd (ws_remove_dir ws p fx)) = fx_events fx @
      (if ws_hook ws \<and> is_ok (fst (ws_remove_dir ws p fx)) then [Removed p] else [])"
    by (simp add: ws_remove_dir_def on_world_def Let_def fire_events split: option.splits prod.splits sum.splits)
  have c: "fx_events (snd (ws_remove_file ws p fx)) = fx_events fx @
      (if ws_hook ws \<and> is_ok (fst (ws_remove_file ws p fx)) then [Removed p] else [])"
    by (simp add: ws_remove_file_def on_world_def Let_def fire_events split: option.splits prod.splits sum.splits)
  have d: "\<exists>ev. ev \<in> {Modified q, Created q} \<and> fx_events (snd (ws_rename ws p q fx)) = fx_events fx @
      (if ws_hook ws \<and> is_ok (fst (ws_rename ws p q fx)) then [Removed p, ev] else [])"
    by (simp add: ws_rename_def on_world_def Let_def fire_events split: option.splits prod.splits sum.splits) blast
  have e: "\<exists>ev. ev \<in> {Modified q, Created q} \<and> fx_events (snd (ws_copy ws p q fx)) = fx_events fx @
      (if ws_hook ws \<and> is_ok (fst (ws_copy ws p q fx)) then [ev] else [])"
    by (simp add: ws_copy_def on_world_def Let_def fire_events split: option.splits prod.splits sum.splits) blast
  show ?thesis using a b c d e by (auto simp: ws_rename_def ws_copy_def split: option.splits)
qed

subsection \<open>The properties at concrete inputs\<close>

definition sample_local :: "disk mount" where
  "sample_local = \<lparr>m_prefix = ''/files'', m_resource = local_resource [''w''], m_arc = 1\<rparr>"

definition sample_mounts :: "disk mount list" where
  "sample_mounts =
     [\<lparr>m_prefix = ''/f'', m_resource = local_resource [''w'', ''b''], m_arc = 0\<rparr>,
      sample_local]"

definition sample_ws :: "disk workspace_fs" where
  "sample_ws = \<lparr>ws_mounts = rev sample_mounts, ws_hook = True\<rparr>"

definition sample_ctx :: "disk fs_ctx" where
  "sample_ctx = \<lparr>fx_world = sample_disk, fx_events = []\<rparr>"

lemma sample_from_mounts: "from_mounts sample_mounts = Inr \<lparr>ws_mounts = rev sample_mounts, ws_hook = False\<rparr>"
  by (simp add: from_mounts_def sample_mounts_def sample_local_def starts_with_def)

lemma sample_route: "route sample_ws ''/files/a/f'' = Some (sample_local, MountPath ''/a/f'')"
  by (simp add: route_def abs_path_def trim_end_matches_def starts_with_def sample_ws_def sample_mounts_def
      sample_local_def route_in_Cons owns_def mp_new_def strip_prefix_def)

lemma sample_mount_local: "m_resource sample_local = local_resource [''w'']"
  by (simp add: sample_local_def)

lemma sample_ctx_ok: "tree_ok (dk_nodes (fx_world sample_ctx))"
  by (simp add: sample_ctx_def sample_disk_ok)

lemma route_longest_prefix_witness:
  "case route \<lparr>ws_mounts = rev sample_mounts, ws_hook = False\<rparr> ''files/a'' of
     Some (m, vp) \<Rightarrow> m \<in> set sample_mounts \<and> owns m (abs_path ''files/a'')
   | None \<Rightarrow> \<forall>m\<in>set sample_mounts. \<not> owns m (abs_path ''files/a'')"
  using route_longest_prefix [OF sample_from_mounts, of "''files/a''"] by (auto split: option.splits)

lemma forward_read_exact_witness:
  "fwd_read sample_ws sample_ctx ''/files/a/f'' (Some 1) None = Some (Inr [2], sample_ctx)"
proof -
  have n: "local_node [''w''] (MountPath ''/a/f'') = Some [''w'', ''a'', ''f'']"
    by (simp add: local_node_Some sample_resolve)
  have b: "file_at (fx_world sample_ctx) [''w'', ''a'', ''f''] = Some [1, 2]"
    by (simp add: sample_ctx_def sample_disk_def file_at_def)
  from forward_read_exact [OF sample_route sample_mount_local sample_ctx_ok n b, of "Some 1" None]
  show ?thesis by simp
qed

lemma sample_write:
  "fst (fwd_write sample_ws sample_ctx ''/files/a/f'' [7, 8, 9]) = Inr ''{\"ok\":true}''"
  by (simp add: fwd_write_def ws_open_def sample_route sample_mount_local default_options_def on_world_def
      local_stat_def local_write_bytes_def sample_resolve sample_ctx_def sample_disk_def sys_metadata_def
      stat_of_def file_write_bytes_def mark_wrote_def file_flush_def sys_write_new_def sample_ws_def [symmetric]
      Let_def del: map_of_eq_Some_iff)

lemma forward_write_read_witness:
  "fwd_read sample_ws (snd (fwd_write sample_ws sample_ctx ''/files/a/f'' [7, 8, 9])) ''/files/a/f'' (Some 1) (Some 5) =
     Some (Inr [8, 9], snd (fwd_write sample_ws sample_ctx ''/files/a/f'' [7, 8, 9]))"
proof -
  have wr: "fwd_write sample_ws sample_ctx ''/files/a/f'' [7, 8, 9] =
      (Inr ''{\"ok\":true}'', snd (fwd_write sample_ws sample_ctx ''/files/a/f'' [7, 8, 9]))"
    using sample_write by (simp add: prod_eq_iff)
  from forward_write_read [OF sample_route sample_mount_local sample_ctx_ok wr, of 1 5] show ?thesis by simp
qed

definition sample_handle :: "disk file_handle" where
  "sample_handle =
     \<lparr>fl_resource = local_resource [''w''], fl_path = MountPath ''/a/f'', fl_offset = 0,
      fl_stat = stat_of (FFile [1, 2] (fresh_meta 0)), fl_write = True, fl_wbuf = [1, 2],
      fl_observer = Some \<lparr>ob_rel = ''/files/a/f'', ob_existed = True, ob_wrote = False, ob_hook = True\<rparr>\<rparr>"

lemma sample_hook: "ws_hook sample_ws"
  by (simp add: sample_ws_def)

lemma sample_open:
  "ws_open sample_ws ''/files/a/f'' (default_options\<lparr>oo_append := True\<rparr>) sample_ctx = (Inr sample_handle, sample_ctx)"
  by (simp add: ws_open_def sample_route sample_mount_local default_options_def on_world_def
      local_stat_def local_read_bytes_def read_open_def sample_resolve sample_ctx_def sample_disk_def sys_metadata_def
      sample_handle_def sample_hook Let_def del: map_of_eq_Some_iff)

lemma write_session_reports_once_witness:
  "\<exists>f2 fx2 f3 fx3. file_flush (write_chunks [[7], [8]] sample_handle) sample_ctx = (Inr (), f2, fx2) \<and>
     file_flush f2 fx2 = (Inr (), f3, fx3) \<and> fx_events fx3 = [Modified ''/files/a/f'']"
proof -
  let ?f = "write_chunks [[7], [8]] sample_handle"
  have fl: "fst (file_flush ?f sample_ctx) = Inr () \<and>
      fst (file_flush (fst (snd (file_flush ?f sample_ctx))) (snd (snd (file_flush ?f sample_ctx)))) = Inr ()"
    by (simp add: file_write_bytes_def mark_wrote_def sample_handle_def file_flush_def on_world_def emit_def
        local_write_bytes_def sample_resolve sys_write_new_def sample_ctx_def sample_disk_def Let_def)
  obtain r2 f2 fx2 where 2: "file_flush ?f sample_ctx = (r2, f2, fx2)" by (cases "file_flush ?f sample_ctx")
  obtain r3 f3 fx3 where 3: "file_flush f2 fx2 = (r3, f3, fx3)" by (cases "file_flush f2 fx2")
  have "r2 = Inr ()" "r3 = Inr ()" using fl by (simp_all only: 2 3 fst_conv snd_conv)
  with 2 3 have fl2: "file_flush ?f sample_ctx = (Inr (), f2, fx2)" and fl3: "file_flush f2 fx2 = (Inr (), f3, fx3)"
    by simp_all
  have st: "is_ok (fst (r_stat (m_resource sample_local) (fx_world sample_ctx) (MountPath ''/a/f'')))"
    by (simp add: sample_mount_local local_stat_def sample_resolve sample_ctx_def sample_disk_def sys_metadata_def)
  have w: "fl_write sample_handle" by (simp add: sample_handle_def)
  have e0: "fx_events sample_ctx = []" "ws_hook sample_ws" by (simp_all add: sample_ctx_def sample_ws_def)
  from write_session_reports_once [OF sample_route sample_open w fl2 fl3] st e0
  have "fx_events fx3 = [Modified ''/files/a/f'']" by simp
  with fl2 fl3 show ?thesis by blast
qed

end
