(* ===== verification/Tunnel.thy ===== *)
theory Tunnel
  imports Workspace_Fs
begin

section \<open>The raw-FUSE tunnel\<close>

text \<open>
  \<^verbatim>\<open>workspace/src/vfs/sandbox/tunnel.rs\<close>: the token handshake and the framing of a connection,
  the inode table, and the FUSE read path over a \<^verbatim>\<open>ForwardFs\<close>. A connection's input is the list of
  its bytes with their arrival times; a stalled peer is one whose next byte arrives late. The
  constant-time comparison (crate \<^verbatim>\<open>subtle\<close>) and the room left in fuser's directory buffer are
  parameters. Interning locks its two maps one after the other, so concurrent calls interleave;
  they are a step relation over the threads' program counters.
\<close>

subsection \<open>The handshake\<close>

datatype conn_error = TimedOut | WouldBlock | UnexpectedEof | TokenTooLong | FrameTooShort | BadToken

definition token_matches :: "(bytes \<Rightarrow> bytes \<Rightarrow> bool) \<Rightarrow> string \<Rightarrow> string \<Rightarrow> bool" where
  "token_matches ct_eq expected presented =
     (let e = str_bytes expected; p = str_bytes presented in length e = length p \<and> ct_eq e p)"

type_synonym timed_bytes = "(nat \<times> byte) list"

fun read_token_line :: "nat \<Rightarrow> nat \<Rightarrow> bytes \<Rightarrow> timed_bytes \<Rightarrow> (conn_error, bytes \<times> nat \<times> timed_bytes) res" where
  "read_token_line deadline now out inp =
     (if deadline - now = 0 then Inl TimedOut
      else (case inp of
              [] \<Rightarrow> Inl UnexpectedEof
            | (t, b) # rest \<Rightarrow>
                let now' = max now t in
                if now' \<ge> deadline then Inl WouldBlock
                else if b = 10 then Inr (out, now', rest)
                else (let out' = out @ [b] in
                      if length out' > 128 then Inl TokenTooLong
                      else read_token_line deadline now' out' rest)))"

text \<open>\<^verbatim>\<open>HANDSHAKE_TIMEOUT\<close>; the decoding \<^verbatim>\<open>from_utf8_lossy\<close> of the line is the parameter \<open>lossy\<close>.\<close>

definition handshake_timeout :: nat where
  "handshake_timeout = 5 * 10 ^ 9"

definition handshake ::
  "(bytes \<Rightarrow> bytes \<Rightarrow> bool) \<Rightarrow> (bytes \<Rightarrow> string) \<Rightarrow> string \<Rightarrow> nat \<Rightarrow> timed_bytes \<Rightarrow> (conn_error, bytes) res" where
  "handshake ct_eq lossy token now inp =
     (case read_token_line (now + handshake_timeout) now [] inp of
        Inl e \<Rightarrow> Inl e
      | Inr (line, _, rest) \<Rightarrow>
          if token_matches ct_eq token (lossy line) then Inr (map snd rest) else Inl BadToken)"

subsection \<open>Framing\<close>

definition u32_le :: "bytes \<Rightarrow> nat" where
  "u32_le bs = (\<Sum>i<4. unat (bs ! i) * 256 ^ i)"

definition read_frame :: "bytes \<Rightarrow> (conn_error, bytes \<times> bytes) res" where
  "read_frame s =
     (if length s < 4 then Inl UnexpectedEof
      else (let len = u32_le (take 4 s) in
            if len < 4 then Inl FrameTooShort
            else if length s < len then Inl UnexpectedEof
            else Inr (take len s, drop len s)))"

lemma read_frame_Inr:
  "read_frame s = Inr (m, rest) \<longleftrightarrow>
     s = m @ rest \<and> 4 \<le> length m \<and> u32_le (take 4 m) = length m"
proof
  assume r: "read_frame s = Inr (m, rest)"
  define len where "len = u32_le (take 4 s)"
  from r have l: "4 \<le> len" "len \<le> length s" "m = take len s" "rest = drop len s"
    by (auto simp: read_frame_def Let_def len_def [symmetric] split: if_splits)
  then have "take 4 m = take 4 s" "length m = len" by (simp_all add: min_def)
  with l show "s = m @ rest \<and> 4 \<le> length m \<and> u32_le (take 4 m) = length m"
    by (simp add: len_def)
next
  assume m: "s = m @ rest \<and> 4 \<le> length m \<and> u32_le (take 4 m) = length m"
  then have "take 4 s = take 4 m" by simp
  with m show "read_frame s = Inr (m, rest)" by (simp add: read_frame_def)
qed

text \<open>The relay loop of \<^verbatim>\<open>serve_conn\<close> from the stream to the datagram end: \<^verbatim>\<open>while let Ok(msg)\<close>.\<close>

function relay_up :: "bytes \<Rightarrow> bytes list" where
  "relay_up s = (case read_frame s of Inr (m, rest) \<Rightarrow> m # relay_up rest | Inl _ \<Rightarrow> [])"
  by pat_completeness auto
termination
  by (relation "measure length") (auto simp: read_frame_Inr)

declare relay_up.simps [simp del]

definition serve_input ::
  "(bytes \<Rightarrow> bytes \<Rightarrow> bool) \<Rightarrow> (bytes \<Rightarrow> string) \<Rightarrow> string \<Rightarrow> nat \<Rightarrow> timed_bytes \<Rightarrow> (conn_error, bytes list) res" where
  "serve_input ct_eq lossy token now inp = map_ok relay_up (handshake ct_eq lossy token now inp)"

subsection \<open>Inodes\<close>

record inodes =
  in_to_path :: "nat \<rightharpoonup> string"
  in_to_ino :: "string \<rightharpoonup> nat"
  in_next :: nat

definition inodes_new :: inodes where
  "inodes_new = \<lparr>in_to_path = [1 \<mapsto> ''/''], in_to_ino = [''/'' \<mapsto> 1], in_next = 2\<rparr>"

definition ino_path :: "nat \<Rightarrow> inodes \<Rightarrow> string option" where
  "ino_path ino t = in_to_path t ino"

definition intern :: "string \<Rightarrow> inodes \<Rightarrow> nat \<times> inodes" where
  "intern path t =
     (case in_to_ino t path of
        Some i \<Rightarrow> (i, t)
      | None \<Rightarrow>
          (let ino = in_next t in
           (ino, t\<lparr>in_next := ino + 1, in_to_ino := (in_to_ino t)(path \<mapsto> ino),
                   in_to_path := (in_to_path t)(ino \<mapsto> path)\<rparr>)))"

definition ino_child :: "string \<Rightarrow> string \<Rightarrow> string" where
  "ino_child parent name = (if parent = ''/'' then ''/'' @ name else parent @ ''/'' @ name)"

subsection \<open>Attributes\<close>

datatype file_type = Directory | RegularFile

record file_attr =
  fa_ino :: nat
  fa_size :: nat
  fa_blocks :: nat
  fa_atime :: nat
  fa_mtime :: nat
  fa_ctime :: nat
  fa_crtime :: nat
  fa_kind :: file_type
  fa_perm :: nat
  fa_nlink :: nat
  fa_blksize :: nat

text \<open>Times as seconds after the epoch (permissions 493 and 420 are octal 755 and 644); 0 is \<^verbatim>\<open>UNIX_EPOCH\<close>.\<close>

definition secs_or :: "nat \<Rightarrow> nat option \<Rightarrow> nat" where
  "secs_or mtime secs = (case secs of Some v \<Rightarrow> if v > 0 then v else mtime | None \<Rightarrow> mtime)"

definition mk_attr :: "nat \<Rightarrow> file_type \<Rightarrow> nat \<Rightarrow> nat \<Rightarrow> nat option \<Rightarrow> nat option \<Rightarrow> file_attr" where
  "mk_attr ino kind sz mtime atime ctime =
     \<lparr>fa_ino = ino, fa_size = sz, fa_blocks = 1, fa_atime = secs_or mtime atime,
      fa_mtime = secs_or mtime (Some mtime), fa_ctime = secs_or mtime ctime, fa_crtime = 0,
      fa_kind = kind, fa_perm = (if kind = Directory then 493 else 420),
      fa_nlink = (if kind = Directory then 2 else 1), fa_blksize = 65536\<rparr>"

definition dir_attr :: "nat \<Rightarrow> file_attr" where
  "dir_attr ino = mk_attr ino Directory 0 0 None None"

definition attr_from_stat :: "nat \<Rightarrow> fwd_stat \<Rightarrow> file_attr" where
  "attr_from_stat ino s =
     (if fw_is_dir s then dir_attr ino
      else mk_attr ino RegularFile (fw_size s) (the_default 0 (fw_mtime s)) (fw_atime s) (fw_ctime s))"

subsection \<open>The read path\<close>

text \<open>A \<^verbatim>\<open>dyn ForwardFs\<close> over a state \<open>'s\<close>; a read that never ends is \<open>None\<close>.\<close>

record 's forward_fs =
  ff_readdir :: "'s \<Rightarrow> string \<Rightarrow> (fwd_error, fwd_entry list) res \<times> 's"
  ff_stat :: "'s \<Rightarrow> string \<Rightarrow> (fwd_error, fwd_stat) res \<times> 's"
  ff_read :: "'s \<Rightarrow> string \<Rightarrow> nat option \<Rightarrow> nat option \<Rightarrow> ((fwd_error, bytes) res \<times> 's) option"

definition workspace_forward :: "'w workspace_fs \<Rightarrow> 'w fs_ctx forward_fs" where
  "workspace_forward ws =
     \<lparr>ff_readdir = fwd_readdir ws,
      ff_stat = (\<lambda>fx path. let (st, fx1) = fwd_stat_at ws fx path in (Inr st, fx1)),
      ff_read = fwd_read ws\<rparr>"

datatype errno = EINVAL | ENOENT | EIO

record 's tunnel =
  tn_fs :: 's
  tn_inodes :: inodes

text \<open>\<^verbatim>\<open>name.to_str()\<close> is \<open>None\<close> for a name that is not UTF-8.\<close>

definition tn_lookup :: "'s forward_fs \<Rightarrow> nat \<Rightarrow> string option \<Rightarrow> 's tunnel \<Rightarrow> (errno, file_attr) res \<times> 's tunnel" where
  "tn_lookup F parent name t =
     (case name of
        None \<Rightarrow> (Inl EINVAL, t)
      | Some nm \<Rightarrow>
          (case ino_path parent (tn_inodes t) of
             None \<Rightarrow> (Inl ENOENT, t)
           | Some pp \<Rightarrow>
               (let path = ino_child pp nm; (r, fs) = ff_stat F (tn_fs t) path; t1 = t\<lparr>tn_fs := fs\<rparr> in
                case r of
                  Inr s \<Rightarrow>
                    if fw_exists s
                    then (let (ino, tab) = intern path (tn_inodes t1)
                          in (Inr (attr_from_stat ino s), t1\<lparr>tn_inodes := tab\<rparr>))
                    else (Inl ENOENT, t1)
                | Inl _ \<Rightarrow> (Inl ENOENT, t1))))"

definition tn_getattr :: "'s forward_fs \<Rightarrow> nat \<Rightarrow> 's tunnel \<Rightarrow> (errno, file_attr) res \<times> 's tunnel" where
  "tn_getattr F ino t =
     (case ino_path ino (tn_inodes t) of
        None \<Rightarrow> (Inl ENOENT, t)
      | Some path \<Rightarrow>
          if path = ''/'' then (Inr (dir_attr 1), t)
          else
            (let (r, fs) = ff_stat F (tn_fs t) path; t1 = t\<lparr>tn_fs := fs\<rparr> in
             case r of
               Inr s \<Rightarrow> if fw_exists s then (Inr (attr_from_stat ino s), t1) else (Inl ENOENT, t1)
             | Inl _ \<Rightarrow> (Inl ENOENT, t1)))"

definition tn_read :: "'s forward_fs \<Rightarrow> nat \<Rightarrow> nat \<Rightarrow> nat \<Rightarrow> 's tunnel \<Rightarrow> ((errno, bytes) res \<times> 's tunnel) option" where
  "tn_read F ino offset sz t =
     (case ino_path ino (tn_inodes t) of
        None \<Rightarrow> Some (Inl ENOENT, t)
      | Some path \<Rightarrow>
          map_option (\<lambda>(r, fs). (map_err (\<lambda>_. EIO) r, t\<lparr>tn_fs := fs\<rparr>))
            (ff_read F (tn_fs t) path (Some offset) (Some sz)))"

type_synonym listing_entry = "nat \<times> file_type \<times> string"

fun intern_entries :: "string \<Rightarrow> fwd_entry list \<Rightarrow> inodes \<Rightarrow> listing_entry list \<times> inodes" where
  "intern_entries path [] tab = ([], tab)"
| "intern_entries path (e # es) tab =
     (let (cino, tab1) = intern (ino_child path (fe_name e)) tab;
          kind = (if fe_is_dir e then Directory else RegularFile);
          (rest, tab2) = intern_entries path es tab1
      in ((cino, kind, fe_name e) # rest, tab2))"

text \<open>
  The reply of fuser: \<^verbatim>\<open>add\<close> appends the entry with the offset that resumes after it, or says the
  buffer is full. \<open>room sent e\<close> is whether \<open>e\<close> still fits behind what was sent.
\<close>

fun fill_reply ::
  "((nat \<times> listing_entry) list \<Rightarrow> listing_entry \<Rightarrow> bool) \<Rightarrow> nat \<Rightarrow> listing_entry list \<Rightarrow>
   (nat \<times> listing_entry) list \<Rightarrow> (nat \<times> listing_entry) list" where
  "fill_reply room i [] sent = sent"
| "fill_reply room i (e # es) sent =
     (if room sent e then fill_reply room (i + 1) es (sent @ [(i + 1, e)]) else sent)"

definition tn_readdir ::
  "'s forward_fs \<Rightarrow> ((nat \<times> listing_entry) list \<Rightarrow> listing_entry \<Rightarrow> bool) \<Rightarrow> nat \<Rightarrow> nat \<Rightarrow> 's tunnel \<Rightarrow>
   (errno, (nat \<times> listing_entry) list) res \<times> 's tunnel" where
  "tn_readdir F room ino offset t =
     (case ino_path ino (tn_inodes t) of
        None \<Rightarrow> (Inl ENOENT, t)
      | Some path \<Rightarrow>
          (let (r, fs) = ff_readdir F (tn_fs t) path; t1 = t\<lparr>tn_fs := fs\<rparr> in
           case r of
             Inl _ \<Rightarrow> (Inl EIO, t1)
           | Inr entries \<Rightarrow>
               (let (rows, tab) = intern_entries path entries (tn_inodes t1);
                    listing = [(ino, Directory, ''.''), (1, Directory, ''..'')] @ rows
                in (Inr (fill_reply room offset (drop offset listing) []), t1\<lparr>tn_inodes := tab\<rparr>))))"

subsection \<open>Interning under concurrency\<close>

text \<open>
  A call to \<^verbatim>\<open>intern\<close> reads \<open>to_ino\<close>, then takes a number, then writes \<open>to_ino\<close>, then \<open>to_path\<close>,
  each step atomic, none together.
\<close>

datatype intern_pc = Idle | Missed string | Allocated string nat | Linked string nat | Finished string nat

type_synonym intern_state = "inodes \<times> (nat \<Rightarrow> intern_pc)"

inductive intern_step :: "intern_state \<Rightarrow> intern_state \<Rightarrow> bool" where
  hit [run_intros]: "\<lbrakk>pcs th = Idle; in_to_ino t p = Some i\<rbrakk> \<Longrightarrow> intern_step (t, pcs) (t, pcs(th := Finished p i))"
| miss [run_intros]: "\<lbrakk>pcs th = Idle; in_to_ino t p = None\<rbrakk> \<Longrightarrow> intern_step (t, pcs) (t, pcs(th := Missed p))"
| alloc [run_intros]: "pcs th = Missed p \<Longrightarrow>
    intern_step (t, pcs) (t\<lparr>in_next := in_next t + 1\<rparr>, pcs(th := Allocated p (in_next t)))"
| link_ino [run_intros]: "pcs th = Allocated p i \<Longrightarrow>
    intern_step (t, pcs) (t\<lparr>in_to_ino := (in_to_ino t)(p \<mapsto> i)\<rparr>, pcs(th := Linked p i))"
| link_path [run_intros]: "pcs th = Linked p i \<Longrightarrow>
    intern_step (t, pcs) (t\<lparr>in_to_path := (in_to_path t)(i \<mapsto> p)\<rparr>, pcs(th := Finished p i))"
| again [run_intros]: "pcs th = Finished p i \<Longrightarrow> intern_step (t, pcs) (t, pcs(th := Idle))"

inductive_cases intern_stepE: "intern_step (t, pcs) s'"

inductive intern_reachable :: "intern_state \<Rightarrow> bool" where
  start: "intern_reachable (inodes_new, \<lambda>_. Idle)"
| step: "intern_reachable s \<Longrightarrow> intern_step s s' \<Longrightarrow> intern_reachable s'"

subsection \<open>Handshake and framing\<close>

declare read_token_line.simps [simp del]

lemma read_token_line_Inr:
  "read_token_line deadline now out inp = Inr (line, t, rest) \<Longrightarrow>
   \<exists>pre tt. inp = pre @ (tt, 10) # rest \<and> line = out @ map snd pre \<and>
     (\<forall>p\<in>set pre. fst p < deadline \<and> snd p \<noteq> 10) \<and> tt < deadline \<and>
     (length out \<le> 128 \<longrightarrow> length line \<le> 128)"
proof (induction deadline now out inp rule: read_token_line.induct)
  case (1 deadline now out inp)
  show ?case
  proof (cases inp)
    case Nil
    with "1.prems" show ?thesis by (subst (asm) read_token_line.simps) (auto split: if_splits)
  next
    case (Cons p rest')
    obtain tt b where p: "p = (tt, b)" by (cases p)
    have live: "\<not> deadline - now = 0" and before: "\<not> max now tt \<ge> deadline"
      using "1.prems" Cons p by (auto simp: read_token_line.simps [of deadline now] Let_def split: if_splits)
    show ?thesis
    proof (cases "b = 10")
      case True
      with "1.prems" Cons p live before have "line = out" "rest = rest'"
        by (auto simp: read_token_line.simps [of deadline now] Let_def)
      with True Cons p before show ?thesis by (intro exI [of _ "[]"] exI [of _ tt]) simp
    next
      case False
      with "1.prems" Cons p live before have short: "\<not> length (out @ [b]) > 128"
        and rec: "read_token_line deadline (max now tt) (out @ [b]) rest' = Inr (line, t, rest)"
        by (auto simp: read_token_line.simps [of deadline now] Let_def split: if_splits)
      from "1.IH" [OF live Cons p [symmetric] refl before False refl short rec]
      obtain pre t2 where "rest' = pre @ (t2, 10) # rest" "line = (out @ [b]) @ map snd pre"
        "\<forall>p\<in>set pre. fst p < deadline \<and> snd p \<noteq> 10" "t2 < deadline"
        "length (out @ [b]) \<le> 128 \<longrightarrow> length line \<le> 128" by blast
      with False Cons p before short show ?thesis by (intro exI [of _ "(tt, b) # pre"] exI [of _ t2]) auto
    qed
  qed
qed

text \<open>
  C7. A connection is served only behind its token: when a connection gets as far as the relay,
  the peer sent the token's bytes (at most 128) and a newline, every byte within the handshake
  budget, and the relay starts with the very next byte, so no FUSE byte is lost or read early. The
  hypotheses say that the comparison is equality on byte strings of one length and that decoding a
  line gives the token only if the line is the token's bytes.
\<close>

theorem handshake_authenticates:
  assumes ct: "\<And>a b. length a = length b \<Longrightarrow> ct_eq a b \<longleftrightarrow> a = b"
    and lossy: "\<And>l. str_bytes (lossy l) = str_bytes token \<Longrightarrow> l = str_bytes token"
    and ok: "serve_input ct_eq lossy token now inp = Inr frames"
  shows "\<exists>pre t post. inp = pre @ (t, 10) # post \<and> map snd pre = str_bytes token \<and>
    length pre \<le> 128 \<and> t < now + handshake_timeout \<and> (\<forall>p\<in>set pre. fst p < now + handshake_timeout) \<and>
    frames = relay_up (map snd post)"
proof -
  from ok obtain line t post where line: "read_token_line (now + handshake_timeout) now [] inp = Inr (line, t, post)"
    and tok: "token_matches ct_eq token (lossy line)" and fr: "frames = relay_up (map snd post)"
    by (auto simp: serve_input_def map_ok_Inr handshake_def split: sum.splits prod.splits if_splits)
  from tok ct lossy have "line = str_bytes token" by (metis token_matches_def)
  with read_token_line_Inr [OF line] fr show ?thesis by fastforce
qed

definition frame_ok :: "bytes \<Rightarrow> bool" where
  "frame_ok m \<longleftrightarrow> 4 \<le> length m \<and> u32_le (take 4 m) = length m"

lemma relay_up_Cons: "frame_ok m \<Longrightarrow> relay_up (m @ s) = m # relay_up s"
proof -
  assume "frame_ok m"
  then have "read_frame (m @ s) = Inr (m, s)" by (simp add: read_frame_Inr frame_ok_def)
  then show ?thesis by (subst relay_up.simps) simp
qed

lemma relay_up_stop: "read_frame s = Inl e \<Longrightarrow> relay_up s = []"
  by (subst relay_up.simps) simp

lemma relay_up_sound: "(\<forall>m\<in>set (relay_up s). frame_ok m) \<and> prefix (concat (relay_up s)) s"
proof (induction s rule: relay_up.induct)
  case (1 s)
  show ?case
  proof (cases "read_frame s")
    case (Inl e)
    then show ?thesis by (simp add: relay_up_stop)
  next
    case (Inr x)
    obtain m rest where x: "x = (m, rest)" by (cases x)
    with Inr have s: "s = m @ rest" and m: "frame_ok m" by (auto simp: read_frame_Inr frame_ok_def)
    with "1.IH" [OF Inr x [symmetric]] show ?thesis by (simp add: relay_up_Cons)
  qed
qed

text \<open>
  Framing loses and invents nothing: a stream of well-formed FUSE messages followed by an
  incomplete one is cut into exactly those messages, in order; and whatever the stream, what is
  relayed are well-formed messages that are, concatenated, the beginning of the stream.
\<close>

lemma framing_roundtrip:
  "((\<forall>m\<in>set ms. frame_ok m) \<and> read_frame tail = Inl e \<longrightarrow> relay_up (concat ms @ tail) = ms) \<and>
   (\<forall>m\<in>set (relay_up s). frame_ok m) \<and> prefix (concat (relay_up s)) s"
proof -
  have "relay_up (concat ms @ tail) = ms" if "\<forall>m\<in>set ms. frame_ok m" "read_frame tail = Inl e"
    using that by (induction ms) (auto simp: relay_up_Cons relay_up_stop)
  then show ?thesis using relay_up_sound [of s] by blast
qed

subsection \<open>The inode table\<close>

definition inodes_ok :: "inodes \<Rightarrow> bool" where
  "inodes_ok t \<longleftrightarrow>
     (\<forall>i p. in_to_path t i = Some p \<longleftrightarrow> in_to_ino t p = Some i) \<and>
     (\<forall>i p. in_to_path t i = Some p \<longrightarrow> i < in_next t) \<and> in_to_path t 1 = Some ''/''"

lemma inodes_ok_new [simp]: "inodes_ok inodes_new"
  by (auto simp: inodes_ok_def inodes_new_def split: if_splits)

lemma intern_ok:
  assumes ok: "inodes_ok t" and i: "intern p t = (i, t')"
  shows "inodes_ok t' \<and> ino_path i t' = Some p \<and> in_to_path t \<subseteq>\<^sub>m in_to_path t'"
proof (cases "in_to_ino t p")
  case (Some j)
  with i ok show ?thesis by (auto simp: intern_def inodes_ok_def ino_path_def)
next
  case None
  with i have i': "i = in_next t" and t': "t' = t\<lparr>in_next := in_next t + 1,
      in_to_ino := (in_to_ino t)(p \<mapsto> in_next t), in_to_path := (in_to_path t)(in_next t \<mapsto> p)\<rparr>"
    by (auto simp: intern_def Let_def)
  have fresh: "in_to_path t (in_next t) = None" "in_to_ino t q \<noteq> Some (in_next t)" for q
    using ok by (auto simp: inodes_ok_def) (metis less_irrefl not_None_eq)+
  have "inodes_ok t'" using ok None fresh unfolding inodes_ok_def t'
    by (auto simp: less_Suc_eq)
  then show ?thesis using fresh i' t' by (auto simp: ino_path_def map_le_def)
qed

text \<open>The (inode, path) pairs a state of the concurrent system commits to.\<close>

definition claim :: "intern_state \<Rightarrow> nat \<Rightarrow> string \<Rightarrow> bool" where
  "claim s i p \<longleftrightarrow>
     in_to_path (fst s) i = Some p \<or> in_to_ino (fst s) p = Some i \<or>
     (\<exists>th. snd s th \<in> {Allocated p i, Linked p i, Finished p i})"

definition issued :: "intern_state \<Rightarrow> nat \<Rightarrow> string \<Rightarrow> bool" where
  "issued s i p \<longleftrightarrow> in_to_ino (fst s) p = Some i \<or> (\<exists>th. snd s th = Finished p i)"

definition answered :: "intern_state \<Rightarrow> nat \<Rightarrow> string \<Rightarrow> bool" where
  "answered s i p \<longleftrightarrow> in_to_path (fst s) i = Some p \<or> (\<exists>th. snd s th = Linked p i)"

definition conc_ok :: "intern_state \<Rightarrow> bool" where
  "conc_ok s \<longleftrightarrow>
     (\<forall>i p. claim s i p \<longrightarrow> i < in_next (fst s)) \<and>
     (\<forall>i p q. claim s i p \<and> claim s i q \<longrightarrow> p = q) \<and>
     (\<forall>i p. issued s i p \<longrightarrow> answered s i p)"

lemma conc_ok_start: "conc_ok (inodes_new, \<lambda>_. Idle)"
  by (auto simp: conc_ok_def claim_def issued_def answered_def inodes_new_def split: if_splits)

text \<open>A step commits to nothing new, but for the fresh number an allocation takes.\<close>

lemma step_claims:
  assumes "intern_step s s'" "claim s' i p"
  shows "claim s i p \<or> i = in_next (fst s) \<and> in_next (fst s') = Suc i"
  using assms
  by (induction rule: intern_step.induct) (auto simp: claim_def split: if_splits)

lemma step_next: "intern_step s s' \<Longrightarrow> in_next (fst s) \<le> in_next (fst s')"
  by (induction rule: intern_step.induct) auto

lemma fresh_claim_unique:
  assumes "intern_step s s'" "conc_ok s" "claim s' (in_next (fst s)) p" "claim s' (in_next (fst s)) q"
  shows "p = q"
proof -
  have none: "\<not> claim s (in_next (fst s)) r" for r using assms(2) by (auto simp: conc_ok_def)
  from assms(1,3,4) none show ?thesis
    by (induction rule: intern_step.induct) (auto simp: claim_def split: if_splits)
qed

lemma step_keeps_answered:
  assumes "intern_step s s'" "\<forall>i p q. claim s i p \<and> claim s i q \<longrightarrow> p = q" "answered s i p"
  shows "answered s' i p"
  using assms
proof (induction rule: intern_step.induct)
  case (link_path pcs th p' i' t)
  show ?case
  proof (cases "in_to_path t i = Some p")
    case True
    have "p' = p" if "i' = i"
    proof -
      have "claim (t, pcs) i p'" using link_path.hyps that by (auto simp: claim_def)
      moreover have "claim (t, pcs) i p" using True by (simp add: claim_def)
      ultimately show ?thesis using link_path.prems(1) by blast
    qed
    with True show ?thesis by (auto simp: answered_def)
  next
    case False
    then obtain th'' where l: "pcs th'' = Linked p i" using link_path.prems(2) by (auto simp: answered_def)
    show ?thesis
    proof (cases "th'' = th")
      case True
      with l link_path.hyps show ?thesis by (simp add: answered_def)
    next
      case False
      with l show ?thesis by (auto simp: answered_def intro: exI [of _ th''])
    qed
  qed
qed (auto simp: answered_def; metis intern_pc.distinct)+

lemma step_issues:
  assumes "intern_step s s'" "issued s' i p"
  shows "issued s i p \<or> answered s' i p"
  using assms
  by (induction rule: intern_step.induct) (auto simp: issued_def answered_def split: if_splits)

lemma conc_ok_step:
  assumes st: "intern_step s s'" and ok: "conc_ok s"
  shows "conc_ok s'"
proof -
  have lt: "\<forall>i p. claim s i p \<longrightarrow> i < in_next (fst s)" and uniq: "\<forall>i p q. claim s i p \<and> claim s i q \<longrightarrow> p = q"
    and ans: "\<forall>i p. issued s i p \<longrightarrow> answered s i p"
    using ok unfolding conc_ok_def by blast+
  have "i < in_next (fst s')" if "claim s' i p" for i p
    using step_claims [OF st that] step_next [OF st] lt by fastforce
  moreover have "p = q" if "claim s' i p" "claim s' i q" for i p q
  proof (cases "i = in_next (fst s)")
    case True
    with fresh_claim_unique [OF st ok] that show ?thesis by blast
  next
    case False
    with step_claims [OF st] that uniq show ?thesis by blast
  qed
  moreover have "answered s' i p" if "issued s' i p" for i p
    using step_issues [OF st that] step_keeps_answered [OF st uniq] ans by blast
  ultimately show ?thesis unfolding conc_ok_def by blast
qed

lemma conc_ok_reachable: "intern_reachable s \<Longrightarrow> conc_ok s"
  by (induction rule: intern_reachable.induct) (auto intro: conc_ok_start conc_ok_step)

text \<open>
  C8. However calls to \<^verbatim>\<open>intern\<close> interleave, an inode number never stands for two paths: what it
  was handed out for is what the table maps it to, or will map it to once the call that took it
  stores its last entry; and two calls that were given one number asked for one path.
\<close>

theorem intern_never_confuses:
  assumes "intern_reachable (t, pcs)" "pcs th = Finished p i"
  shows "(ino_path i t = Some p \<or> ino_path i t = None \<and> (\<exists>th'. pcs th' = Linked p i)) \<and>
    (\<forall>th' q. pcs th' = Finished q i \<longrightarrow> q = p)"
proof -
  from conc_ok_reachable [OF assms(1)] have
    uniq: "\<And>i p q. claim (t, pcs) i p \<Longrightarrow> claim (t, pcs) i q \<Longrightarrow> p = q"
    and ans: "\<And>i p. issued (t, pcs) i p \<Longrightarrow> answered (t, pcs) i p"
    unfolding conc_ok_def by blast+
  have "issued (t, pcs) i p" using assms(2) by (auto simp: issued_def)
  from ans [OF this] have ans: "in_to_path t i = Some p \<or> (\<exists>th. pcs th = Linked p i)"
    by (simp add: answered_def)
  have c: "claim (t, pcs) i p" using assms(2) by (auto simp: claim_def)
  have "q = p" if "in_to_path t i = Some q" for q
    using uniq [OF c, of q] that by (simp add: claim_def)
  moreover have "q = p" if "pcs th' = Finished q i" for q th'
    using uniq [OF c, of q] that by (auto simp: claim_def)
  ultimately show ?thesis using ans unfolding ino_path_def by (metis not_None_eq)
qed

text \<open>Two calls for one new path can both miss, and then hand out two numbers for it.\<close>

lemma intern_race_duplicates:
  "\<exists>t pcs. intern_reachable (t, pcs) \<and> pcs 0 = Finished ''/a'' 2 \<and> pcs 1 = Finished ''/a'' 3"
proof -
  let ?p0 = "\<lambda>_::nat. Idle"
  have 0: "intern_reachable (inodes_new, ?p0)" by (rule intern_reachable.start)
  have 1: "intern_reachable (inodes_new, ?p0(0 := Missed ''/a''))"
    by (rule intern_reachable.step [OF 0]) (rule miss; simp add: inodes_new_def)
  have 2: "intern_reachable (inodes_new, ?p0(0 := Missed ''/a'', 1 := Missed ''/a''))"
    by (rule intern_reachable.step [OF 1]) (rule miss; simp add: inodes_new_def)
  note 3 = intern_reachable.step [OF 2 alloc [of _ 0 "''/a''"]]
  note 4 = intern_reachable.step [OF 3 alloc [of _ 1 "''/a''"]]
  note 5 = intern_reachable.step [OF 4 link_ino [of _ 0 "''/a''" 2]]
  note 6 = intern_reachable.step [OF 5 link_ino [of _ 1 "''/a''" 3]]
  note 7 = intern_reachable.step [OF 6 link_path [of _ 0 "''/a''" 2]]
  note 8 = intern_reachable.step [OF 7 link_path [of _ 1 "''/a''" 3]]
  show ?thesis by (rule exI, rule exI, rule conjI, rule 8) (simp_all add: inodes_new_def)
qed

subsection \<open>Directory pages\<close>

lemma fill_reply_prefix:
  "\<exists>k\<le>length es. fill_reply room i es sent = sent @ zip [Suc i..<Suc i + k] (take k es) \<and>
     (es \<noteq> [] \<and> room sent (hd es) \<longrightarrow> 0 < k)"
proof (induction es arbitrary: i sent)
  case (Cons e es)
  show ?case
  proof (cases "room sent e")
    case True
    from Cons.IH [of "i + 1" "sent @ [(i + 1, e)]"] obtain k where k: "k \<le> length es"
      "fill_reply room (i + 1) es (sent @ [(i + 1, e)]) =
        (sent @ [(i + 1, e)]) @ zip [Suc (i + 1)..<Suc (i + 1) + k] (take k es)" by blast
    have "zip [Suc i..<Suc i + Suc k] (take (Suc k) (e # es)) =
        (Suc i, e) # zip [Suc (i + 1)..<Suc (i + 1) + k] (take k es)"
      by (subst upt_conv_Cons) simp_all
    with k True show ?thesis by (intro exI [of _ "Suc k"]) simp
  next
    case False
    then show ?thesis by (intro exI [of _ 0]) simp
  qed
qed simp

lemma intern_in_ino: "intern p t = (i, t') \<Longrightarrow> in_to_ino t' p = Some i \<and> in_to_ino t \<subseteq>\<^sub>m in_to_ino t'"
  by (auto simp: intern_def Let_def map_le_def split: option.splits)

lemma intern_present: "in_to_ino t p = Some i \<Longrightarrow> intern p t = (i, t)"
  by (simp add: intern_def)

text \<open>Every row resolves to its child's path, and interning the entries again changes nothing.\<close>

lemma intern_entries_rows:
  "intern_entries path es t = (rows, t') \<Longrightarrow>
     in_to_ino t \<subseteq>\<^sub>m in_to_ino t' \<and>
     list_all2 (\<lambda>e (i, kind, name). in_to_ino t' (ino_child path (fe_name e)) = Some i \<and>
        kind = (if fe_is_dir e then Directory else RegularFile) \<and> name = fe_name e) es rows"
proof (induction path es t arbitrary: rows t' rule: intern_entries.induct)
  case (2 path e es t)
  obtain i t1 where i: "intern (ino_child path (fe_name e)) t = (i, t1)" by fastforce
  obtain rest t2 where r: "intern_entries path es t1 = (rest, t2)" by fastforce
  from "2.prems" i r have eq: "rows = (i, (if fe_is_dir e then Directory else RegularFile), fe_name e) # rest" "t' = t2"
    by auto
  note m1 = intern_in_ino [OF i]
  from "2.IH" [OF refl i [symmetric] refl r] have m2: "in_to_ino t1 \<subseteq>\<^sub>m in_to_ino t2"
    and l: "list_all2 (\<lambda>e (i, kind, name). in_to_ino t2 (ino_child path (fe_name e)) = Some i \<and>
        kind = (if fe_is_dir e then Directory else RegularFile) \<and> name = fe_name e) es rest" by blast+
  have "in_to_ino t2 (ino_child path (fe_name e)) = Some i"
    using m1 m2 by (metis domI map_le_def)
  with m1 m2 l eq show ?case using map_le_trans by auto
qed simp

lemma intern_entries_again:
  "list_all2 (\<lambda>e (i, kind, name). in_to_ino t (ino_child path (fe_name e)) = Some i \<and>
      kind = (if fe_is_dir e then Directory else RegularFile) \<and> name = fe_name e) es rows \<Longrightarrow>
   intern_entries path es t = (rows, t)"
  by (induction es rows rule: list_all2_induct) (auto simp: intern_present)

lemma intern_entries_idem:
  "intern_entries path es t = (rows, t') \<Longrightarrow> intern_entries path es t' = (rows, t')"
  using intern_entries_rows intern_entries_again by blast

lemma intern_entries_ok:
  "inodes_ok t \<Longrightarrow> intern_entries path es t = (rows, t') \<Longrightarrow> inodes_ok t' \<and> in_to_path t \<subseteq>\<^sub>m in_to_path t'"
proof (induction path es t arbitrary: rows t' rule: intern_entries.induct)
  case (2 path e es t)
  obtain i t1 where i: "intern (ino_child path (fe_name e)) t = (i, t1)" by fastforce
  obtain rest t2 where r: "intern_entries path es t1 = (rest, t2)" by fastforce
  from "2.prems" i r have "t' = t2" by auto
  with "2.IH" [OF refl i [symmetric] refl _ r] intern_ok [OF "2.prems"(1) i] show ?case
    using map_le_trans by auto
qed simp

text \<open>A client that lists a directory: it resumes after the last entry it got, until it gets none.\<close>

fun list_dir ::
  "'s forward_fs \<Rightarrow> ((nat \<times> listing_entry) list \<Rightarrow> listing_entry \<Rightarrow> bool) \<Rightarrow> nat \<Rightarrow> nat \<Rightarrow> nat \<Rightarrow> 's tunnel \<Rightarrow>
   listing_entry list" where
  "list_dir F room 0 ino offset t = []"
| "list_dir F room (Suc fuel) ino offset t =
     (case tn_readdir F room ino offset t of
        (Inr page, t') \<Rightarrow>
          if page = [] then []
          else map snd page @ list_dir F room fuel ino (fst (last page)) t'
      | (Inl _, _) \<Rightarrow> [])"

definition full_listing :: "nat \<Rightarrow> listing_entry list \<Rightarrow> listing_entry list" where
  "full_listing ino rows = [(ino, Directory, ''.''), (1, Directory, ''..'')] @ rows"

lemma list_dir_from:
  assumes room: "\<And>e. room [] e" and path: "in_to_path tab ino = Some path"
    and rd: "ff_readdir F fs path = (Inr es, fs)"
    and idem: "intern_entries path es tab = (rows, tab)"
  shows "length (full_listing ino rows) < fuel + off \<Longrightarrow> off \<le> length (full_listing ino rows) \<Longrightarrow>
    list_dir F room fuel ino off \<lparr>tn_fs = fs, tn_inodes = tab\<rparr> = drop off (full_listing ino rows)"
proof (induction fuel arbitrary: off)
  case (Suc fuel)
  let ?L = "full_listing ino rows"
  obtain k where k: "k \<le> length (drop off ?L)" "drop off ?L \<noteq> [] \<longrightarrow> 0 < k"
    and page: "fill_reply room off (drop off ?L) [] = zip [Suc off..<Suc off + k] (take k (drop off ?L))"
    using fill_reply_prefix [of "drop off ?L" room off "[]"] room by (metis append_Nil)
  have "tn_readdir F room ino off \<lparr>tn_fs = fs, tn_inodes = tab\<rparr> =
      (Inr (fill_reply room off (drop off ?L) []), \<lparr>tn_fs = fs, tn_inodes = tab\<rparr>)"
    by (simp add: tn_readdir_def ino_path_def path rd idem full_listing_def)
  note call = this [unfolded page]
  show ?case
  proof (cases "k = 0")
    case True
    with k(2) have "drop off ?L = []" by blast
    with True call show ?thesis by simp
  next
    case False
    let ?page = "zip [Suc off..<Suc off + k] (take k (drop off ?L))"
    have ne: "?page \<noteq> []" using False k(1) by auto
    then have "fst (last ?page) = last (map fst ?page)" by (rule last_map [symmetric])
    also have "map fst ?page = [Suc off..<Suc off + k]" using k(1) by simp
    finally have last: "fst (last ?page) = off + k" using False by simp
    have "map snd ?page = take k (drop off ?L)" using k(1) by simp
    moreover have "list_dir F room fuel ino (off + k) \<lparr>tn_fs = fs, tn_inodes = tab\<rparr> = drop (off + k) ?L"
      using Suc.prems k(1) False by (intro Suc.IH) auto
    ultimately have "list_dir F room (Suc fuel) ino off \<lparr>tn_fs = fs, tn_inodes = tab\<rparr> =
        take k (drop off ?L) @ drop (off + k) ?L"
      using call ne last by (simp del: map_snd_zip)
    also have "\<dots> = drop off ?L" by (metis append_take_drop_id drop_drop add.commute)
    finally show ?thesis .
  qed
qed simp

text \<open>
  C9. Listing a directory through the tunnel is complete whatever the size of the reply buffer:
  if at least one entry fits in an empty reply and the provider's listing does not change in
  between, the pages a client reads, each resuming after the last entry of the one before, are
  \<^verbatim>\<open>.\<close>, \<^verbatim>\<open>..\<close> and every entry of the provider once and in order, and each entry's inode resolves to
  the child's path.
\<close>

theorem readdir_pages_complete:
  assumes ok: "inodes_ok (tn_inodes t)" and room: "\<And>e. room [] e"
    and path: "ino_path ino (tn_inodes t) = Some path"
    and rd: "\<And>fs. ff_readdir F fs path = (Inr es, fs)"
    and fuel: "length es + 3 \<le> fuel"
    and first: "tn_readdir F room ino 0 t = (Inr page, t')"
  shows "\<exists>rows. list_dir F room fuel ino 0 t' = (ino, Directory, ''.'') # (1, Directory, ''..'') # rows \<and>
    map (\<lambda>(_, _, name). name) rows = map fe_name es \<and>
    (\<forall>(i, _, name)\<in>set rows. ino_path i (tn_inodes t') = Some (ino_child path name)) \<and>
    map snd page = take (length page) (list_dir F room fuel ino 0 t')"
proof -
  obtain rows tab where ie: "intern_entries path es (tn_inodes t) = (rows, tab)" by fastforce
  let ?L = "full_listing ino rows"
  have t': "t' = \<lparr>tn_fs = tn_fs t, tn_inodes = tab\<rparr>" and page: "page = fill_reply room 0 ?L []"
    using first by (auto simp: tn_readdir_def path rd ie full_listing_def)
  note rows = intern_entries_rows [OF ie] and tab_ok = intern_entries_ok [OF ok ie]
  have p': "in_to_path tab ino = Some path"
    using tab_ok path by (metis domI ino_path_def map_le_def)
  have len: "length rows = length es" using rows list_all2_lengthD by fastforce
  have all: "list_dir F room fuel ino 0 t' = ?L"
    unfolding t' using list_dir_from [where off = 0 and room = room and F = F and fs = "tn_fs t", OF room p' rd intern_entries_idem [OF ie]] fuel len
    by (simp add: full_listing_def)
  have "map (\<lambda>(_, _, name). name) rows = map fe_name es"
    using rows by (intro nth_equalityI) (auto simp: len list_all2_conv_all_nth split: prod.splits)
  moreover have "ino_path i tab = Some (ino_child path name)" if row: "(i, k, name) \<in> set rows" for i k name
  proof -
    from row obtain j where j: "j < length rows" "rows ! j = (i, k, name)" by (auto simp: in_set_conv_nth)
    with list_all2_nthD2 [OF rows [THEN conjunct2] j(1)]
    have "in_to_ino tab (ino_child path name) = Some i" by auto
    with tab_ok show ?thesis by (simp add: inodes_ok_def ino_path_def)
  qed
  moreover obtain k where "page = zip [1..<1 + k] (take k ?L)" "k \<le> length ?L"
    using fill_reply_prefix [of ?L room 0 "[]"] page by auto
  then have "map snd page = take (length page) ?L" by simp
  ultimately show ?thesis using all by (intro exI [of _ rows]) (auto simp: full_listing_def t')
qed

subsection \<open>The properties at concrete inputs\<close>

definition sample_input :: timed_bytes where
  "sample_input = map (Pair 7) (str_bytes ''ab'' @ [10, 6, 0, 0, 0, 1, 2, 5])"

lemma read_token_line_Cons:
  "read_token_line deadline now out ((t, b) # rest) =
     (if deadline - now = 0 then Inl TimedOut
      else if max now t \<ge> deadline then Inl WouldBlock
      else if b = 10 then Inr (out, max now t, rest)
      else if length out \<ge> 128 then Inl TokenTooLong
      else read_token_line deadline (max now t) (out @ [b]) rest)"
  by (subst read_token_line.simps) (simp add: Let_def less_Suc_eq_le max_def)

lemma u32_le_4: "u32_le [a, b, c, d] = unat a + unat b * 256 + unat c * 65536 + unat d * 16777216"
  by (simp add: u32_le_def lessThan_nat_numeral lessThan_Suc)

lemma sample_serve: "serve_input (=) bytes_str ''ab'' 0 sample_input = Inr [[6, 0, 0, 0, 1, 2]]"
proof -
  have line: "read_token_line handshake_timeout 0 [] sample_input =
      Inr (str_bytes ''ab'', 7, map (Pair 7) [6, 0, 0, 0, 1, 2, 5])"
    by (simp add: sample_input_def str_bytes_def read_token_line_Cons handshake_timeout_def)
  have "frame_ok [6, 0, 0, 0, 1, 2]" by (simp add: frame_ok_def u32_le_4)
  moreover have "read_frame [5] = Inl UnexpectedEof" by (simp add: read_frame_def)
  ultimately have "relay_up ([6, 0, 0, 0, 1, 2] @ [5]) = [[6, 0, 0, 0, 1, 2]]"
    by (simp only: relay_up_Cons relay_up_stop)
  then show ?thesis by (simp add: serve_input_def handshake_def line token_matches_def Let_def comp_def)
qed

lemma handshake_authenticates_witness:
  "\<exists>pre t post. sample_input = pre @ (t, 10) # post \<and> map snd pre = str_bytes ''ab'' \<and>
     [[6, 0, 0, 0, 1, 2]] = relay_up (map snd post)"
proof -
  have "l = str_bytes ''ab''" if "str_bytes (bytes_str l) = str_bytes ''ab''" for l
    using that by (simp add: str_bytes_def bytes_str_def comp_def of_char_of_byte)
  from handshake_authenticates [where ct_eq = "(=)", OF refl this sample_serve] show ?thesis by blast
qed

lemma framing_roundtrip_witness:
  "relay_up (concat [[6, 0, 0, 0, 1, 2]] @ [5]) = [[6, 0, 0, 0, 1, 2]]"
proof -
  have "\<forall>m\<in>set [[6, 0, 0, 0, 1, 2]]. frame_ok m" by (simp add: frame_ok_def u32_le_4)
  moreover have "read_frame [5] = Inl UnexpectedEof" by (simp add: read_frame_def)
  ultimately show ?thesis using framing_roundtrip by blast
qed

lemma intern_never_confuses_witness:
  "\<exists>t pcs. intern_reachable (t, pcs) \<and> ino_path 2 t = Some ''/a''"
proof -
  let ?p0 = "\<lambda>_::nat. Idle"
  have 0: "intern_reachable (inodes_new, ?p0)" by (rule intern_reachable.start)
  have 1: "intern_reachable (inodes_new, ?p0(0 := Missed ''/a''))"
    by (rule intern_reachable.step [OF 0]) (rule miss; simp add: inodes_new_def)
  note 2 = intern_reachable.step [OF 1 alloc [of _ 0 "''/a''"]]
  note 3 = intern_reachable.step [OF 2 link_ino [of _ 0 "''/a''" 2]]
  note 4 = intern_reachable.step [OF 3 link_path [of _ 0 "''/a''" 2]]
  obtain t pcs where r: "intern_reachable (t, pcs)" and f: "pcs 0 = Finished ''/a'' 2" "\<And>th. pcs th \<noteq> Linked ''/a'' 2"
    by (rule that, rule 4) (simp_all add: inodes_new_def)
  from intern_never_confuses [OF r f(1)] f(2) r show ?thesis by blast
qed

definition one_file_fs :: "unit forward_fs" where
  "one_file_fs =
     \<lparr>ff_readdir = (\<lambda>s _. (Inr [\<lparr>fe_name = ''x'', fe_is_dir = False, fe_size = 5, fe_mtime = None\<rparr>], s)),
      ff_stat = (\<lambda>s _. (Inr fwd_missing, s)), ff_read = (\<lambda>s _ _ _. Some (Inr [], s))\<rparr>"

lemma readdir_pages_complete_witness:
  "\<exists>t' rows. list_dir one_file_fs (\<lambda>sent _. sent = []) 4 1 0 t' = (1, Directory, ''.'') # (1, Directory, ''..'') # rows \<and>
     map (\<lambda>(_, _, name). name) rows = [''x'']"
proof -
  let ?t = "\<lparr>tn_fs = (), tn_inodes = inodes_new\<rparr>"
  have path: "ino_path 1 (tn_inodes ?t) = Some ''/''" by (simp add: ino_path_def inodes_new_def)
  obtain r t' where call: "tn_readdir one_file_fs (\<lambda>sent _. sent = []) 1 0 ?t = (r, t')" by fastforce
  then obtain page where "r = Inr page"
    by (auto simp: tn_readdir_def path [simplified] one_file_fs_def Let_def split: prod.splits)
  with call have first: "tn_readdir one_file_fs (\<lambda>sent _. sent = []) 1 0 ?t = (Inr page, t')" by simp
  have "\<exists>rows. list_dir one_file_fs (\<lambda>sent _. sent = []) 4 1 0 t' = (1, Directory, ''.'') # (1, Directory, ''..'') # rows \<and>
      map (\<lambda>(_, _, name). name) rows = map fe_name [\<lparr>fe_name = ''x'', fe_is_dir = False, fe_size = 5, fe_mtime = None\<rparr>]"
    using readdir_pages_complete [OF _ _ path _ _ first, of "[\<lparr>fe_name = ''x'', fe_is_dir = False, fe_size = 5, fe_mtime = None\<rparr>]" 4]
    by (auto simp: one_file_fs_def)
  then show ?thesis by (intro exI [of _ t']) simp
qed

end
