(* ===== verification/Model_Catalog.thy ===== *)
theory Model_Catalog
  imports Prelude
begin

section \<open>The model catalogue and the resolution of a session's model\<close>

text \<open>
  \<^verbatim>\<open>src/backend/src/model/llm.rs\<close>: the agent surfaces, their recommendation chains, the
  advertised catalogue and the choice of the model a session runs on. Whether a provider is
  registered (\<^verbatim>\<open>get_lm_providers().get("default")\<close> of the agent runtime) is the parameter
  \<open>avail\<close>: a predicate on model ids.
\<close>

datatype model_tier = Light | Standard | Max

datatype agent_type = Coworker | DeepResearch

fun agent_as_str :: "agent_type \<Rightarrow> string" where
  "agent_as_str Coworker = ''coworker''"
| "agent_as_str DeepResearch = ''deep-research''"

definition agent_parse :: "string \<Rightarrow> agent_type option" where
  "agent_parse s =
     (if s = ''coworker'' then Some Coworker
      else if s = ''deep-research'' then Some DeepResearch
      else None)"

definition agent_all :: "agent_type list" where
  "agent_all = [Coworker, DeepResearch]"

fun agent_chain :: "agent_type \<Rightarrow> string list" where
  "agent_chain Coworker =
     [''openai/gpt-5.6-terra'', ''anthropic/claude-sonnet-5'', ''google/gemini-3.5-flash'',
      ''moonshotai/kimi-k3'']"
| "agent_chain DeepResearch =
     [''openai/gpt-5.6-sol'', ''google/gemini-3.5-flash'', ''anthropic/claude-fable-5'',
      ''moonshotai/kimi-k3'']"

record model_info =
  mi_id :: string
  mi_label :: string
  mi_tier :: model_tier

definition catalog :: "model_info list" where
  "catalog =
     [\<lparr>mi_id = ''openai/gpt-5.6-luna'', mi_label = ''GPT-5.6 Luna'', mi_tier = Light\<rparr>,
      \<lparr>mi_id = ''anthropic/claude-haiku-4-5'', mi_label = ''Claude Haiku 4.5'', mi_tier = Light\<rparr>,
      \<lparr>mi_id = ''google/gemini-3.1-flash-lite'', mi_label = ''Gemini 3.1 Flash-Lite'', mi_tier = Light\<rparr>,
      \<lparr>mi_id = ''openai/gpt-5.6-terra'', mi_label = ''GPT-5.6 Terra'', mi_tier = Standard\<rparr>,
      \<lparr>mi_id = ''anthropic/claude-sonnet-5'', mi_label = ''Claude Sonnet 5'', mi_tier = Standard\<rparr>,
      \<lparr>mi_id = ''google/gemini-3-flash-preview'', mi_label = ''Gemini 3 Flash'', mi_tier = Standard\<rparr>,
      \<lparr>mi_id = ''moonshotai/kimi-k3'', mi_label = ''Kimi K3'', mi_tier = Standard\<rparr>,
      \<lparr>mi_id = ''openai/gpt-5.6-sol'', mi_label = ''GPT-5.6 Sol'', mi_tier = Max\<rparr>,
      \<lparr>mi_id = ''google/gemini-3.5-flash'', mi_label = ''Gemini 3.5 Flash'', mi_tier = Max\<rparr>,
      \<lparr>mi_id = ''anthropic/claude-opus-4-8'', mi_label = ''Claude Opus 4.8'', mi_tier = Max\<rparr>,
      \<lparr>mi_id = ''anthropic/claude-fable-5'', mi_label = ''Claude Fable 5'', mi_tier = Max\<rparr>]"

subsection \<open>Resolution\<close>

definition resolve_model_in :: "(string \<Rightarrow> bool) \<Rightarrow> string list \<Rightarrow> string option \<Rightarrow> string" where
  "resolve_model_in avail chain pin =
     (case (case pin of None \<Rightarrow> None
            | Some p \<Rightarrow> (if p \<noteq> [] \<and> avail p then Some p else None)) of
        Some p \<Rightarrow> p
      | None \<Rightarrow>
          (case find avail chain of
             Some m \<Rightarrow> m
           | None \<Rightarrow> (if chain = [] then [] else last chain)))"

definition resolve_model :: "(string \<Rightarrow> bool) \<Rightarrow> string option \<Rightarrow> string option \<Rightarrow> string" where
  "resolve_model avail agent pin =
     (let a = (case agent of None \<Rightarrow> Coworker | Some s \<Rightarrow> the_default Coworker (agent_parse s))
      in resolve_model_in avail (agent_chain a) pin)"

subsection \<open>The response of \<^verbatim>\<open>GET /models\<close>\<close>

record model_entry =
  me_id :: string
  me_label :: string
  me_tier :: model_tier
  me_available :: bool

record agent_recommendation =
  ar_agent_type :: agent_type
  ar_chain :: "string list"
  ar_resolved_model :: string

record model_catalog_response =
  mcr_models :: "model_entry list"
  mcr_agents :: "agent_recommendation list"

definition catalog_response :: "(string \<Rightarrow> bool) \<Rightarrow> model_catalog_response" where
  "catalog_response avail =
     \<lparr>mcr_models = map (\<lambda>m. \<lparr>me_id = mi_id m, me_label = mi_label m, me_tier = mi_tier m,
                              me_available = avail (mi_id m)\<rparr>) catalog,
      mcr_agents = map (\<lambda>a. \<lparr>ar_agent_type = a, ar_chain = agent_chain a,
                              ar_resolved_model = resolve_model_in avail (agent_chain a) None\<rparr>)
                       agent_all\<rparr>"

subsection \<open>Lemmas\<close>

lemma agent_parse_as_str [simp]: "agent_parse (agent_as_str a) = Some a"
  by (cases a) (simp_all add: agent_parse_def)

lemma agent_parse_Some: "agent_parse s = Some a \<longleftrightarrow> s = agent_as_str a"
  by (cases a) (auto simp: agent_parse_def)

lemma resolve_pin: "p \<noteq> [] \<Longrightarrow> avail p \<Longrightarrow> resolve_model_in avail chain (Some p) = p"
  by (simp add: resolve_model_in_def)

lemma resolve_no_pin:
  assumes "\<And>p. pin = Some p \<Longrightarrow> p = [] \<or> \<not> avail p"
  shows "resolve_model_in avail chain pin =
           (case find avail chain of Some m \<Rightarrow> m | None \<Rightarrow> (if chain = [] then [] else last chain))"
  using assms by (cases pin) (auto simp: resolve_model_in_def)

lemma find_first_split:
  assumes "x \<in> set xs" "P x"
  shows "\<exists>us m vs. xs = us @ m # vs \<and> P m \<and> (\<forall>u \<in> set us. \<not> P u) \<and> find P xs = Some m"
proof -
  from assms obtain us m vs where "xs = us @ m # vs" "P m" "\<forall>u \<in> set us. \<not> P u"
    by (metis split_list_first_prop)
  moreover from this have "find P xs = Some m" by (induction us arbitrary: xs) auto
  ultimately show ?thesis by blast
qed

lemma chain_in_catalog: "m \<in> set (agent_chain a) \<Longrightarrow> m \<in> mi_id ` set catalog"
  by (cases a) (auto simp: catalog_def)

lemma chain_nonempty [simp]: "agent_chain a \<noteq> []"
  by (cases a) simp_all

lemma find_None_all: "find P xs = None \<longleftrightarrow> (\<forall>x \<in> set xs. \<not> P x)"
  by (induction xs) auto

subsection \<open>Properties\<close>

text \<open>
  The model of a session. A non-empty pin whose provider is registered is always kept,
  catalogued or not; otherwise the result is the first model of the agent's chain whose provider
  is registered, every earlier one being unavailable, and when none is, the last of the chain.
  An agent type that is missing or unknown is resolved as the coworker. In all cases the result
  is available as soon as the pin or any model of the chain is.
\<close>

lemma model_resolution:
  "(\<forall>p. p \<noteq> [] \<longrightarrow> avail p \<longrightarrow> resolve_model avail agent (Some p) = p) \<and>
   (\<forall>pin a. (case pin of None \<Rightarrow> True | Some p \<Rightarrow> p = [] \<or> \<not> avail p) \<longrightarrow>
      a = (case agent of Some s \<Rightarrow> (if s = ''deep-research'' then DeepResearch else Coworker)
                       | None \<Rightarrow> Coworker) \<longrightarrow>
      (if \<exists>m \<in> set (agent_chain a). avail m
       then \<exists>us m vs. agent_chain a = us @ m # vs \<and> avail m \<and> (\<forall>u \<in> set us. \<not> avail u)
              \<and> resolve_model avail agent pin = m
       else resolve_model avail agent pin = ''moonshotai/kimi-k3''))"
proof (intro conjI allI impI)
  fix p :: string assume "p \<noteq> []" "avail p"
  then show "resolve_model avail agent (Some p) = p"
    by (simp add: resolve_model_def resolve_pin)
next
  fix pin a
  assume pin: "case pin of None \<Rightarrow> True | Some p \<Rightarrow> p = [] \<or> \<not> avail p"
    and a: "a = (case agent of Some s \<Rightarrow> (if s = ''deep-research'' then DeepResearch else Coworker)
                 | None \<Rightarrow> Coworker)"
  have agent: "(case agent of None \<Rightarrow> Coworker | Some s \<Rightarrow> the_default Coworker (agent_parse s)) = a"
    unfolding a by (simp add: agent_parse_def split: option.splits)
  have r: "resolve_model avail agent pin =
             (case find avail (agent_chain a) of Some m \<Rightarrow> m | None \<Rightarrow> last (agent_chain a))"
    unfolding resolve_model_def agent Let_def using pin
    by (subst resolve_no_pin) (auto split: option.splits)
  show "if \<exists>m \<in> set (agent_chain a). avail m
        then \<exists>us m vs. agent_chain a = us @ m # vs \<and> avail m \<and> (\<forall>u \<in> set us. \<not> avail u)
               \<and> resolve_model avail agent pin = m
        else resolve_model avail agent pin = ''moonshotai/kimi-k3''"
  proof (cases "\<exists>m \<in> set (agent_chain a). avail m")
    case True
    then show ?thesis using find_first_split [of _ "agent_chain a" avail] r
      by (metis option.simps(5))
  next
    case False
    then have "find avail (agent_chain a) = None" by (simp add: find_None_all)
    then show ?thesis using False r by (cases a) auto
  qed
qed

lemma model_resolution_witness:
  "resolve_model (\<lambda>m. m = ''google/gemini-3.5-flash'') (Some ''deep-research'') (Some ''openai/gpt-5.6-luna'')
     = ''google/gemini-3.5-flash'' \<and>
   resolve_model (\<lambda>m. m = ''local/llama'') None (Some ''local/llama'') = ''local/llama''"
proof
  show "resolve_model (\<lambda>m. m = ''google/gemini-3.5-flash'') (Some ''deep-research'') (Some ''openai/gpt-5.6-luna'')
     = ''google/gemini-3.5-flash''"
    by (simp add: resolve_model_def resolve_model_in_def agent_parse_def)
next
  show "resolve_model (\<lambda>m. m = ''local/llama'') None (Some ''local/llama'') = ''local/llama''"
    using model_resolution [of "\<lambda>m. m = ''local/llama''" None] by simp
qed

text \<open>
  The picker's response. It lists every catalogued model exactly once, flagged with the
  availability of its provider, and for each agent type its chain, all of whose models the
  response lists, and the model a session without a pin resolves to now, which is listed as
  available whenever any model of the chain is.
\<close>

theorem catalog_response_consistent:
  "distinct (map me_id (mcr_models (catalog_response avail))) \<and>
   (\<forall>e \<in> set (mcr_models (catalog_response avail)). me_available e = avail (me_id e)) \<and>
   map ar_agent_type (mcr_agents (catalog_response avail)) = agent_all \<and>
   (\<forall>r \<in> set (mcr_agents (catalog_response avail)).
      set (ar_chain r) \<subseteq> me_id ` set (mcr_models (catalog_response avail)) \<and>
      ar_resolved_model r = resolve_model avail (Some (agent_as_str (ar_agent_type r))) None \<and>
      ((\<exists>m \<in> set (ar_chain r). avail m) \<longrightarrow>
        (\<exists>e \<in> set (mcr_models (catalog_response avail)).
           me_id e = ar_resolved_model r \<and> me_available e)))"
proof (intro conjI ballI impI)
  show "distinct (map me_id (mcr_models (catalog_response avail)))"
    by (simp add: catalog_response_def catalog_def)
next
  fix e assume "e \<in> set (mcr_models (catalog_response avail))"
  then show "me_available e = avail (me_id e)" by (auto simp: catalog_response_def)
next
  show "map ar_agent_type (mcr_agents (catalog_response avail)) = agent_all"
    by (simp add: catalog_response_def comp_def)
next
  fix r assume r: "r \<in> set (mcr_agents (catalog_response avail))"
  then have chain: "ar_chain r = agent_chain (ar_agent_type r)"
    and res: "ar_resolved_model r = resolve_model_in avail (ar_chain r) None"
    by (auto simp: catalog_response_def)
  have ids: "me_id ` set (mcr_models (catalog_response avail)) = mi_id ` set catalog"
    by (auto simp: catalog_response_def image_def)
  show sub: "set (ar_chain r) \<subseteq> me_id ` set (mcr_models (catalog_response avail))"
    unfolding ids chain using chain_in_catalog by blast
  show "ar_resolved_model r = resolve_model avail (Some (agent_as_str (ar_agent_type r))) None"
    by (simp add: resolve_model_def chain res)
  assume "\<exists>m \<in> set (ar_chain r). avail m"
  then obtain m where m: "find avail (ar_chain r) = Some m" "avail m" "m \<in> set (ar_chain r)"
    using find_first_split [of _ "ar_chain r" avail] by (metis in_set_conv_decomp)
  then have "ar_resolved_model r = m" by (simp add: res resolve_model_in_def)
  moreover obtain e where "e \<in> set (mcr_models (catalog_response avail))" "me_id e = m"
    using sub m(3) by blast
  moreover from this have "me_available e" using m(2) by (auto simp: catalog_response_def)
  ultimately show "\<exists>e \<in> set (mcr_models (catalog_response avail)).
           me_id e = ar_resolved_model r \<and> me_available e" by blast
qed

theorem catalog_response_consistent_witness:
  "ar_resolved_model (mcr_agents (catalog_response (\<lambda>m. m = ''moonshotai/kimi-k3'')) ! 1)
     = ''moonshotai/kimi-k3'' \<and>
   map ar_agent_type (mcr_agents (catalog_response (\<lambda>m. m = ''moonshotai/kimi-k3''))) = agent_all"
  using catalog_response_consistent [of "\<lambda>m. m = ''moonshotai/kimi-k3''"]
  by (simp add: catalog_response_def agent_all_def resolve_model_in_def)

end
