(* ===== verification/Backend_Types.thy ===== *)
theory Backend_Types
  imports Prelude
begin

section \<open>Types the backend's stores share\<close>

text \<open>
  \<^verbatim>\<open>src/backend/src/state/mod.rs\<close>: the error of every store operation. A UUID is a number (two
  are compared and nothing else is done with them), an instant is its nanoseconds since the epoch
  (the tables hold it as RFC 3339 text in UTC, whose order on four-digit years is the order of the
  instants), and a JSON document is its value, with constructors for the UUIDs and instants that
  the code prints into one.
\<close>

type_synonym uuid = nat
type_synonym time = int

datatype state_error =
    Sqlx string
  | Migration string
  | InvalidData string
  | NotFound
  | UniqueViolation string
  | AlreadyRunning uuid
  | Io string
  | Json string
  | Sandbox string

datatype json =
    JNull
  | JStr string
  | JInt int
  | JUuid uuid
  | JTime time
  | JObj "(string \<times> json) list"

text \<open>
  The three forms of SQL statement the stores use on a table held as the list of its rows in
  insertion order: \<^verbatim>\<open>UPDATE .. WHERE\<close>, the number of rows it affected, and the key test of
  a \<^verbatim>\<open>PRIMARY KEY\<close>, \<^verbatim>\<open>UNIQUE\<close> or \<^verbatim>\<open>REFERENCES\<close> clause, which the database checks on
  insertion (sqlx opens SQLite with foreign keys on).
\<close>

definition set_where :: "('r \<Rightarrow> bool) \<Rightarrow> ('r \<Rightarrow> 'r) \<Rightarrow> 'r list \<Rightarrow> 'r list" where
  "set_where P f rs = map (\<lambda>r. if P r then f r else r) rs"

definition affected :: "('r \<Rightarrow> bool) \<Rightarrow> 'r list \<Rightarrow> nat" where
  "affected P rs = length (filter P rs)"

definition has_key :: "('r \<Rightarrow> 'k) \<Rightarrow> 'k \<Rightarrow> 'r list \<Rightarrow> bool" where
  "has_key key k rs = list_ex (\<lambda>r. key r = k) rs"

definition refs :: "('r \<Rightarrow> 'k) \<Rightarrow> 'k option \<Rightarrow> 'r list \<Rightarrow> bool" where
  "refs key ko rs = (case ko of None \<Rightarrow> True | Some k \<Rightarrow> has_key key k rs)"

definition constraint_failed :: state_error where
  "constraint_failed = Sqlx ''constraint failed''"

lemma set_where_length [simp, store_simps]: "length (set_where P f rs) = length rs"
  by (simp add: set_where_def)

lemma set_where_nth [store_simps]:
  "i < length rs \<Longrightarrow> set_where P f rs ! i = (if P (rs ! i) then f (rs ! i) else rs ! i)"
  by (simp add: set_where_def)

lemma set_where_map [store_simps]:
  "(\<And>r. g (f r) = g r) \<Longrightarrow> map g (set_where P f rs) = map g rs"
  by (simp add: set_where_def)

lemma set_where_image [store_simps]:
  "(\<And>r. g (f r) = g r) \<Longrightarrow> g ` set (set_where P f rs) = g ` set rs"
  by (metis set_map set_where_map)

lemma in_set_where: "r' \<in> set (set_where P f rs) \<longleftrightarrow> (\<exists>r \<in> set rs. r' = (if P r then f r else r))"
  by (auto simp: set_where_def)

lemma set_where_none:
  assumes "x \<in> set (set_where P f rs)" "\<And>r. P r \<Longrightarrow> \<not> Q (f r)" "\<And>r. Q r \<Longrightarrow> P r"
  shows "\<not> Q x"
proof -
  obtain r where "x = (if P r then f r else r)" using assms(1) unfolding in_set_where by blast
  then show ?thesis using assms(2,3) by (cases "P r") auto
qed

lemma set_where_id [store_simps]: "(\<And>r. r \<in> set rs \<Longrightarrow> P r \<Longrightarrow> f r = r) \<Longrightarrow> set_where P f rs = rs"
  by (simp add: set_where_def map_idI)

lemma affected_0 [store_simps]: "affected P rs = 0 \<longleftrightarrow> (\<forall>r \<in> set rs. \<not> P r)"
  by (auto simp: affected_def filter_empty_conv)

lemma has_key_iff [store_simps]: "has_key key k rs \<longleftrightarrow> k \<in> key ` set rs"
  by (auto simp: has_key_def list_ex_iff)

lemma refs_None [simp]: "refs key None rs"
  by (simp add: refs_def)

lemma refs_Some [simp]: "refs key (Some k) rs \<longleftrightarrow> has_key key k rs"
  by (simp add: refs_def)

lemma refs_mono: "refs key ko rs \<Longrightarrow> key ` set rs \<subseteq> key ` set rs' \<Longrightarrow> refs key ko rs'"
  by (auto simp: refs_def has_key_iff split: option.splits)

lemma refs_cong: "key ` set rs = key ` set rs' \<Longrightarrow> refs key ko rs = refs key ko rs'"
  using refs_mono by (metis order_refl)

lemma affected_key_le:
  assumes "distinct (map key rs)"
  shows "affected (\<lambda>r. key r = k \<and> Q r) rs \<le> 1"
  using assms
proof (induction rs)
  case (Cons a rs)
  have "affected (\<lambda>r. key r = k \<and> Q r) rs = 0" if "key a = k"
    using Cons.prems that by (auto simp: affected_0 rev_image_eqI)
  then show ?case using Cons by (auto simp: affected_def)
qed (simp add: affected_def)

lemma affected_key_one:
  assumes "distinct (map key rs)"
  shows "affected (\<lambda>r. key r = k \<and> Q r) rs = 1 \<longleftrightarrow> (\<exists>r \<in> set rs. key r = k \<and> Q r)"
  using affected_key_le [OF assms, of k Q] affected_0 [of "\<lambda>r. key r = k \<and> Q r" rs]
  by fastforce

lemma distinct_key_eq:
  "distinct (map key rs) \<Longrightarrow> r \<in> set rs \<Longrightarrow> r' \<in> set rs \<Longrightarrow> key r = key r' \<Longrightarrow> r = r'"
  by (auto simp: distinct_map dest: inj_onD)

text \<open>An update guarded by a key and a test that the row with that key passes is one by key.\<close>

lemma set_where_key:
  assumes "distinct (map key rs)" "r \<in> set rs" "Q r"
  shows "set_where (\<lambda>x. key x = key r \<and> Q x) f rs = map (\<lambda>x. if key x = key r then f x else x) rs"
proof -
  have "key x = key r \<and> Q x \<longleftrightarrow> key x = key r" if "x \<in> set rs" for x
    using distinct_key_eq [OF assms(1) that assms(2)] assms(3) by auto
  then show ?thesis by (simp add: set_where_def)
qed

lemma sort_key_hd_least:
  assumes "sort_key f xs = x # ys"
  shows "x \<in> set xs" "\<And>y. y \<in> set xs \<Longrightarrow> f x \<le> f y"
proof -
  have s: "set (x # ys) = set xs" using assms by (metis set_sort)
  then show "x \<in> set xs" by auto
  have "sorted (map f (x # ys))" using assms by (metis sorted_sort_key)
  then show "f x \<le> f y" if "y \<in> set xs" for y using that s by auto
qed

lemma sort_key_Nil: "sort_key f xs = [] \<longleftrightarrow> xs = []"
  by (metis length_0_conv length_sort)

end
