(* ===== verification/Cron_Schedule.thy ===== *)
theory Cron_Schedule
  imports Backend_Types
begin

section \<open>Cron expressions and their fire instants\<close>

text \<open>
  \<^verbatim>\<open>src/backend/src/cron.rs\<close>. The time-zone database and the cron engine are libraries: a
  record of parameters gives what the code calls of them. Instants are the nanoseconds since the
  epoch, so \<^verbatim>\<open>with_timezone\<close>, which changes how an instant is shown and not the instant, is the
  identity; the zone is still an argument of the engine.
\<close>



record ('z, 'c) cron_lib =
  parse_tz :: "string \<Rightarrow> (string, 'z) res"
  parse_cron :: "string \<Rightarrow> (string, 'c) res"
  find_next :: "'c \<Rightarrow> 'z \<Rightarrow> time \<Rightarrow> bool \<Rightarrow> (string, time) res"

subsection \<open>Fields\<close>

text \<open>
  \<^verbatim>\<open>str::split_whitespace\<close> on UTF-8 bytes: \<open>ws_len\<close> is the length of the Unicode white-space
  character a string starts with, 0 when it starts with none.
\<close>

definition ws_len :: "string \<Rightarrow> nat" where
  "ws_len s = (let b = map of_char s :: nat list in
     (if b = [] then 0
      else if b ! 0 = 32 \<or> (9 \<le> b ! 0 \<and> b ! 0 \<le> 13) then 1
      else if 2 \<le> length b \<and> b ! 0 = 194 \<and> (b ! 1 = 133 \<or> b ! 1 = 160) then 2
      else if 3 \<le> length b \<and> take 3 b \<in> set ([225, 154, 128] # [226, 129, 159] # [227, 128, 128] #
                [226, 128, 168] # [226, 128, 169] # [226, 128, 175] #
                map (\<lambda>k. [226, 128, k]) [128..<139]) then 3
      else 0))"

function count_fields_from :: "bool \<Rightarrow> string \<Rightarrow> nat" where
  "count_fields_from in_field s =
     (if s = [] then (if in_field then 1 else 0)
      else if 0 < ws_len s then (if in_field then 1 else 0) + count_fields_from False (drop (ws_len s) s)
      else count_fields_from True (tl s))"
  by pat_completeness auto
termination by (relation "measure (length \<circ> snd)") auto

declare count_fields_from.simps [simp del]

text \<open>\<^verbatim>\<open>expr.split_whitespace().count()\<close>.\<close>

definition count_fields :: "string \<Rightarrow> nat" where
  "count_fields s = count_fields_from False s"

text \<open>A decimal numeral, for the error text.\<close>

fun show_nat :: "nat \<Rightarrow> string" where
  "show_nat n = (if n < 10 then [char_of (48 + n)] else show_nat (n div 10) @ [char_of (48 + n mod 10)])"

declare show_nat.simps [simp del]

definition quoted :: "string \<Rightarrow> string" where
  "quoted s = CHR 0x27 # s @ [CHR 0x27]"

definition validate_five_field :: "string \<Rightarrow> (string, unit) res" where
  "validate_five_field expr =
     (let n = count_fields expr in
      if n = 5 then Ok ()
      else Err (''only 5-field POSIX cron is supported (got '' @ show_nat n @
                '' fields); sub-minute precision not allowed''))"

subsection \<open>The next fire instant\<close>

text \<open>
  \<^verbatim>\<open>default_tz_name\<close>: the environment variable is read once and cached, so its value is a
  constant of the process.
\<close>

definition default_tz_name :: "('z, 'c) cron_lib \<Rightarrow> string option \<Rightarrow> string" where
  "default_tz_name L env =
     (case env of
        Some name \<Rightarrow> (case parse_tz L name of Ok _ \<Rightarrow> name | Err _ \<Rightarrow> ''UTC'')
      | None \<Rightarrow> ''UTC'')"

text \<open>The checks both entry points start with: zone, then field count, then expression.\<close>

definition cron_setup :: "('z, 'c) cron_lib \<Rightarrow> string \<Rightarrow> string \<Rightarrow> (string, 'z \<times> 'c) res" where
  "cron_setup L expr tz_name =
     (case parse_tz L tz_name of
        Err e \<Rightarrow> Err (''invalid timezone '' @ quoted tz_name @ '': '' @ e)
      | Ok z \<Rightarrow>
          (case validate_five_field expr of
             Err e \<Rightarrow> Err e
           | Ok _ \<Rightarrow>
               (case parse_cron L expr of
                  Err e \<Rightarrow> Err (''invalid cron expression '' @ quoted expr @ '': '' @ e)
                | Ok c \<Rightarrow> Ok (z, c))))"

definition next_fire_after ::
  "('z, 'c) cron_lib \<Rightarrow> string \<Rightarrow> string \<Rightarrow> time \<Rightarrow> (string, time) res" where
  "next_fire_after L expr tz_name after =
     (case cron_setup L expr tz_name of
        Err e \<Rightarrow> Err e
      | Ok (z, c) \<Rightarrow>
          map_err (\<lambda>e. ''no future occurrence for '' @ quoted expr @ '': '' @ e) (find_next L c z after False))"

subsection \<open>All fire instants of a window\<close>

text \<open>
  The loop of \<^verbatim>\<open>occurrences_between\<close>: each round adds one instant, and the round that
  reaches the cap ends it.
\<close>

function occ_loop ::
  "(time \<Rightarrow> bool \<Rightarrow> (string, time) res) \<Rightarrow> time \<Rightarrow> nat \<Rightarrow> time list \<Rightarrow> time \<Rightarrow> bool \<Rightarrow>
   time list \<times> bool" where
  "occ_loop nxt to mx out cursor inclusive =
     (case nxt cursor inclusive of
        Err _ \<Rightarrow> (out, False)
      | Ok t \<Rightarrow>
          (if to \<le> t then (out, False)
           else if mx \<le> length (out @ [t]) then (out @ [t], True)
           else occ_loop nxt to mx (out @ [t]) t False))"
  by pat_completeness auto
termination by (relation "measure (\<lambda>(nxt, to, mx, out, cursor, inclusive). mx - length out)") auto

declare occ_loop.simps [simp del]

definition occurrences_between ::
  "('z, 'c) cron_lib \<Rightarrow> string \<Rightarrow> string \<Rightarrow> time \<Rightarrow> time \<Rightarrow> nat \<Rightarrow> (string, time list \<times> bool) res" where
  "occurrences_between L expr tz_name frm to mx =
     (case cron_setup L expr tz_name of
        Err e \<Rightarrow> Err e
      | Ok (z, c) \<Rightarrow> Ok (occ_loop (find_next L c z) to mx [] frm True))"

subsection \<open>What the engine promises, and what the window then holds\<close>

text \<open>
  \<open>strictly_after\<close> is the engine's \<^verbatim>\<open>inclusive\<close> flag. The documented behaviour of
  \<^verbatim>\<open>find_next_occurrence\<close>: it returns the least instant matching the expression in the zone,
  at or after the given one, and fails only when there is none before its search horizon.
\<close>

definition from_cursor :: "time \<Rightarrow> bool \<Rightarrow> time \<Rightarrow> bool" where
  "from_cursor cursor inclusive t = (if inclusive then cursor \<le> t else cursor < t)"

definition finds_least :: "(time \<Rightarrow> bool) \<Rightarrow> time \<Rightarrow> (time \<Rightarrow> bool \<Rightarrow> (string, time) res) \<Rightarrow> bool" where
  "finds_least occ horizon nxt =
     (\<forall>cursor inclusive.
        case nxt cursor inclusive of
          Ok t \<Rightarrow> occ t \<and> from_cursor cursor inclusive t \<and>
                  (\<forall>v. occ v \<and> from_cursor cursor inclusive v \<longrightarrow> t \<le> v)
        | Err _ \<Rightarrow> (\<forall>v. occ v \<and> from_cursor cursor inclusive v \<longrightarrow> horizon \<le> v))"

lemma finds_least_Ok:
  assumes "finds_least occ hz nxt" "nxt cur incl = Inr t"
  shows "occ t" "from_cursor cur incl t" "\<And>v. occ v \<Longrightarrow> from_cursor cur incl v \<Longrightarrow> t \<le> v"
proof -
  have "case nxt cur incl of
          Ok t \<Rightarrow> occ t \<and> from_cursor cur incl t \<and>
                  (\<forall>v. occ v \<and> from_cursor cur incl v \<longrightarrow> t \<le> v)
        | Err _ \<Rightarrow> (\<forall>v. occ v \<and> from_cursor cur incl v \<longrightarrow> hz \<le> v)"
    using assms(1) by (simp add: finds_least_def)
  then show "occ t" "from_cursor cur incl t" "\<And>v. occ v \<Longrightarrow> from_cursor cur incl v \<Longrightarrow> t \<le> v"
    by (simp_all add: assms(2))
qed

lemma finds_least_Err:
  assumes "finds_least occ hz nxt" "nxt cur incl = Inl e" "occ v" "from_cursor cur incl v"
  shows "hz \<le> v"
proof -
  have "case nxt cur incl of
          Ok t \<Rightarrow> occ t \<and> from_cursor cur incl t \<and>
                  (\<forall>v. occ v \<and> from_cursor cur incl v \<longrightarrow> t \<le> v)
        | Err _ \<Rightarrow> (\<forall>v. occ v \<and> from_cursor cur incl v \<longrightarrow> hz \<le> v)"
    using assms(1) by (simp add: finds_least_def)
  with assms(2-4) show ?thesis by simp
qed

text \<open>The instants a round of the loop still has to return, and what the whole loop returns.\<close>

definition window_result ::
  "(time \<Rightarrow> bool) \<Rightarrow> time \<Rightarrow> nat \<Rightarrow> time \<Rightarrow> bool \<Rightarrow> time list \<Rightarrow> bool \<Rightarrow> bool" where
  "window_result occ to room cur incl ts truncated =
     (sorted_wrt (<) ts \<and>
      (\<forall>t \<in> set ts. occ t \<and> from_cursor cur incl t \<and> t < to) \<and>
      (if truncated
       then length ts = room \<and> ts \<noteq> [] \<and>
            (\<forall>v. occ v \<and> from_cursor cur incl v \<and> v \<le> last ts \<longrightarrow> v \<in> set ts)
       else length ts < room \<and>
            (\<forall>v. occ v \<and> from_cursor cur incl v \<and> v < to \<longrightarrow> v \<in> set ts)))"

lemma window_result_True:
  "window_result occ to room cur incl ts True \<longleftrightarrow>
     sorted_wrt (<) ts \<and> (\<forall>t \<in> set ts. occ t \<and> from_cursor cur incl t \<and> t < to) \<and>
     length ts = room \<and> ts \<noteq> [] \<and>
     (\<forall>v. occ v \<and> from_cursor cur incl v \<and> v \<le> last ts \<longrightarrow> v \<in> set ts)"
  by (simp only: window_result_def if_True)

lemma window_result_False:
  "window_result occ to room cur incl ts False \<longleftrightarrow>
     sorted_wrt (<) ts \<and> (\<forall>t \<in> set ts. occ t \<and> from_cursor cur incl t \<and> t < to) \<and>
     length ts < room \<and> (\<forall>v. occ v \<and> from_cursor cur incl v \<and> v < to \<longrightarrow> v \<in> set ts)"
  by (simp only: window_result_def if_False)

lemma window_result_Nil:
  assumes "0 < room" "\<And>v. occ v \<Longrightarrow> from_cursor cur incl v \<Longrightarrow> to \<le> v"
  shows "window_result occ to room cur incl [] False"
  using assms by (fastforce simp: window_result_def)

lemma window_result_one:
  assumes "occ t" "from_cursor cur incl t" "t < to"
    "\<And>v. occ v \<Longrightarrow> from_cursor cur incl v \<Longrightarrow> t \<le> v"
  shows "window_result occ to 1 cur incl [t] True"
  using assms by (fastforce simp: window_result_def)

lemma window_result_Cons:
  assumes t: "occ t" "from_cursor cur incl t" "t < to"
    and least: "\<And>v. occ v \<Longrightarrow> from_cursor cur incl v \<Longrightarrow> t \<le> v"
    and w: "window_result occ to room t False ts tr"
  shows "window_result occ to (Suc room) cur incl (t # ts) tr"
proof -
  have after: "from_cursor t False v \<Longrightarrow> from_cursor cur incl v" for v
    using t(2) by (auto simp: from_cursor_def split: if_splits)
  have split: "occ v \<Longrightarrow> from_cursor cur incl v \<Longrightarrow> v = t \<or> from_cursor t False v" for v
    using least [of v] by (auto simp: from_cursor_def)
  have gt: "\<forall>x \<in> set ts. t < x" using w by (auto simp: window_result_def from_cursor_def)
  have all: "\<forall>x \<in> set (t # ts). occ x \<and> from_cursor cur incl x \<and> x < to"
    using w t after by (auto simp: window_result_def)
  have sorted: "sorted_wrt (<) (t # ts)" using w gt by (simp add: window_result_def)
  show ?thesis
  proof (cases tr)
    case True
    then have ne: "ts \<noteq> []" and len: "length ts = room"
      and c: "\<And>v. occ v \<Longrightarrow> from_cursor t False v \<Longrightarrow> v \<le> last ts \<Longrightarrow> v \<in> set ts"
      using w by (auto simp: window_result_def)
    have "v \<in> set (t # ts)" if "occ v" "from_cursor cur incl v" "v \<le> last (t # ts)" for v
      using split [OF that(1,2)] c [OF that(1)] that(3) ne by auto
    then show ?thesis using True all sorted len by (simp add: window_result_def)
  next
    case False
    then have len: "length ts < room"
      and c: "\<And>v. occ v \<Longrightarrow> from_cursor t False v \<Longrightarrow> v < to \<Longrightarrow> v \<in> set ts"
      using w by (auto simp: window_result_def)
    have "v \<in> set (t # ts)" if "occ v" "from_cursor cur incl v" "v < to" for v
      using split [OF that(1,2)] c [OF that(1)] that(3) by auto
    then show ?thesis using False all sorted len by (simp add: window_result_def)
  qed
qed

lemma occ_loop_window:
  assumes "finds_least occ hz nxt" "to \<le> hz" "length out < mx \<or> (out = [] \<and> mx = 0)"
  shows "\<exists>ts tr. occ_loop nxt to mx out cur incl = (out @ ts, tr) \<and>
           window_result occ to (max 1 mx - length out) cur incl ts tr"
  using assms
proof (induction nxt to mx out cur incl rule: occ_loop.induct)
  case (1 nxt to mx out cur incl)
  show ?case
  proof (cases "nxt cur incl")
    case (Inl e)
    then have "window_result occ to (max 1 mx - length out) cur incl [] False"
      using 1 finds_least_Err [OF "1.prems"(1) Inl] by (intro window_result_Nil) fastforce+
    then show ?thesis using Inl by (subst occ_loop.simps) force
  next
    case (Inr t)
    note ok = finds_least_Ok [OF "1.prems"(1) Inr]
    show ?thesis
    proof (cases "to \<le> t")
      case True
      then have "window_result occ to (max 1 mx - length out) cur incl [] False"
        using 1 ok(3) by (intro window_result_Nil) fastforce+
      then show ?thesis using Inr True by (subst occ_loop.simps) force
    next
      case to: False
      show ?thesis
      proof (cases "mx \<le> length (out @ [t])")
        case True
        then have "max 1 mx - length out = 1" using "1.prems"(3) by auto
        moreover have "occ_loop nxt to mx out cur incl = (out @ [t], True)"
          using Inr to True by (subst occ_loop.simps) simp
        moreover have "window_result occ to 1 cur incl [t] True"
          using window_result_one [of occ t cur incl to] ok to by simp
        ultimately show ?thesis by auto
      next
        case False
        then have "\<exists>ts tr. occ_loop nxt to mx (out @ [t]) t False = ((out @ [t]) @ ts, tr) \<and>
            window_result occ to (max 1 mx - length (out @ [t])) t False ts tr"
          using "1.IH" [OF Inr to False "1.prems"(1,2)] by simp
        then obtain ts tr where r: "occ_loop nxt to mx (out @ [t]) t False = (out @ t # ts, tr)"
          and w: "window_result occ to (max 1 mx - length (out @ [t])) t False ts tr" by auto
        have "Suc (max 1 mx - length (out @ [t])) = max 1 mx - length out" using False by auto
        then have "window_result occ to (max 1 mx - length out) cur incl (t # ts) tr"
          using window_result_Cons [of occ t cur incl to, OF _ _ _ _ w] ok to by simp
        moreover have "occ_loop nxt to mx out cur incl = (out @ t # ts, tr)"
          using Inr to False r by (subst occ_loop.simps) simp
        ultimately show ?thesis by blast
      qed
    qed
  qed
qed

lemma cron_setup_Ok:
  "cron_setup L expr tz = Inr (z, c) \<longleftrightarrow>
     parse_tz L tz = Inr z \<and> count_fields expr = 5 \<and> parse_cron L expr = Inr c"
  by (auto simp: cron_setup_def validate_five_field_def Let_def split: sum.splits if_splits)

subsection \<open>Properties\<close>

text \<open>
  C10. Cron schedules. An expression is accepted only with a known zone, exactly five fields and
  the engine's agreement. Then the next fire instant is the least occurrence strictly after the
  given one, and the preview of a window returns its occurrences in strictly ascending order,
  starting with one exactly at the window's start and never one at its end: all of them when the
  result is not truncated, and the first \<open>max 1 mx\<close> of them when it is.
\<close>

theorem cron_window_exact:
  assumes "\<And>z c. finds_least (occ z c) horizon (find_next L c z)"
    and "to \<le> horizon"
  shows "(case cron_setup L expr tz of
            Err e \<Rightarrow> next_fire_after L expr tz after = Err e \<and>
                      occurrences_between L expr tz frm to mx = Err e \<and>
                      ((\<exists>e. parse_tz L tz = Err e) \<or> count_fields expr \<noteq> 5 \<or>
                       (\<exists>e. parse_cron L expr = Err e))
          | Ok (z, c) \<Rightarrow>
              (\<forall>t. next_fire_after L expr tz after = Ok t \<longrightarrow>
                 occ z c t \<and> after < t \<and> (\<forall>v. occ z c v \<and> after < v \<longrightarrow> t \<le> v)) \<and>
              (\<exists>ts truncated. occurrences_between L expr tz frm to mx = Ok (ts, truncated) \<and>
                 sorted_wrt (<) ts \<and>
                 (if truncated
                  then length ts = max 1 mx \<and>
                       set ts = {v. occ z c v \<and> frm \<le> v \<and> v \<le> last ts} \<and> last ts < to
                  else length ts < max 1 mx \<and> set ts = {v. occ z c v \<and> frm \<le> v \<and> v < to})))"
proof (cases "cron_setup L expr tz")
  case (Inl e)
  then show ?thesis
    by (auto simp: next_fire_after_def occurrences_between_def cron_setup_def
        validate_five_field_def Let_def split: sum.splits if_splits)
next
  case (Inr zc)
  obtain z c where zc: "zc = (z, c)" by (cases zc)
  have fl: "finds_least (occ z c) horizon (find_next L c z)" by (rule assms(1))
  have nx: "occ z c t \<and> after < t \<and> (\<forall>v. occ z c v \<and> after < v \<longrightarrow> t \<le> v)"
    if "next_fire_after L expr tz after = Ok t" for t
  proof -
    have "find_next L c z after False = Inr t"
      using that by (simp add: next_fire_after_def Inr zc)
    from finds_least_Ok [OF fl this] show ?thesis by (auto simp: from_cursor_def)
  qed
  obtain ts tr where r: "occ_loop (find_next L c z) to mx [] frm True = (ts, tr)"
    and w: "window_result (occ z c) to (max 1 mx) frm True ts tr"
    using occ_loop_window [OF fl assms(2), of "[]" mx frm True] by auto
  have le_last: "v \<le> last ts" if "v \<in> set ts" "sorted_wrt (<) ts" for v
    using that
  proof (induction ts)
    case (Cons a ts)
    show ?case
    proof (cases "ts = []")
      case True
      then show ?thesis using Cons.prems by simp
    next
      case False
      then have "a < last ts" using Cons.prems(2) by simp
      then show ?thesis using Cons False by (auto simp: order_less_imp_le)
    qed
  qed simp
  have last: "ts \<noteq> [] \<Longrightarrow> last ts < to" using w by (simp add: window_result_def)
  have "if tr then length ts = max 1 mx \<and> set ts = {v. occ z c v \<and> frm \<le> v \<and> v \<le> last ts} \<and> last ts < to
        else length ts < max 1 mx \<and> set ts = {v. occ z c v \<and> frm \<le> v \<and> v < to}"
  proof (cases tr)
    case True
    have w': "window_result (occ z c) to (max 1 mx) frm True ts True" using w True by simp
    note w' = w' [unfolded window_result_True from_cursor_def if_True]
    have "set ts = {v. occ z c v \<and> frm \<le> v \<and> v \<le> last ts}"
    proof (intro set_eqI iffI)
      fix v assume v: "v \<in> set ts"
      with w' have "occ z c v \<and> frm \<le> v" by blast
      moreover have "v \<le> last ts" by (rule le_last [OF v]) (use w' in blast)
      ultimately show "v \<in> {v. occ z c v \<and> frm \<le> v \<and> v \<le> last ts}" by simp
    next
      fix v assume "v \<in> {v. occ z c v \<and> frm \<le> v \<and> v \<le> last ts}"
      then have "occ z c v \<and> frm \<le> v \<and> v \<le> last ts" by (rule CollectD)
      with w' show "v \<in> set ts" by blast
    qed
    moreover have "length ts = max 1 mx" "last ts < to" using w' last by blast+
    ultimately show ?thesis unfolding if_P [OF True] by (intro conjI)
  next
    case False
    have w': "window_result (occ z c) to (max 1 mx) frm True ts False" using w False by simp
    note w' = w' [unfolded window_result_False from_cursor_def if_True]
    have "set ts = {v. occ z c v \<and> frm \<le> v \<and> v < to}" using w' by blast
    moreover have "length ts < max 1 mx" using w' by blast
    ultimately show ?thesis unfolding if_not_P [OF False] by (intro conjI)
  qed
  moreover have "sorted_wrt (<) ts" using w by (simp add: window_result_def)
  moreover have "occurrences_between L expr tz frm to mx = Ok (ts, tr)"
    by (simp add: occurrences_between_def Inr zc r)
  ultimately show ?thesis using nx by (auto simp: Inr zc)
qed

text \<open>An engine that fires at every full minute, given in seconds.\<close>

definition minutely :: "(unit, unit) cron_lib" where
  "minutely =
     \<lparr>parse_tz = (\<lambda>s. if s = ''UTC'' then Ok () else Err ''unknown''),
      parse_cron = (\<lambda>_. Ok ()),
      find_next = (\<lambda>_ _ t incl. Ok (if incl then ((t + 59) div 60) * 60 else (t div 60 + 1) * 60))\<rparr>"

lemma minutely_finds_least: "finds_least (\<lambda>v. 60 dvd v) hz (find_next minutely c z)"
proof -
  have a: "t \<le> (t + 59) div 60 * 60" for t :: int by linarith
  have b: "(t + 59) div 60 * 60 \<le> v" if "60 dvd v" "t \<le> v" for t v :: int
  proof -
    obtain k where "v = 60 * k" using \<open>60 dvd v\<close> by blast
    moreover have "(t + 59) div 60 < k + 1" using \<open>t \<le> v\<close> calculation by arith
    ultimately show ?thesis by simp
  qed
  have c: "t < (t div 60 + 1) * 60" for t :: int
  proof -
    have "t div 60 * 60 + t mod 60 = t" by (rule div_mult_mod_eq)
    moreover have "t mod 60 < 60" by simp
    ultimately show ?thesis by (simp add: algebra_simps)
  qed
  have d: "(t div 60 + 1) * 60 \<le> v" if "60 dvd v" "t < v" for t v :: int
  proof -
    obtain k where "v = 60 * k" using \<open>60 dvd v\<close> by blast
    moreover have "t div 60 < k" using \<open>t < v\<close> calculation by arith
    ultimately show ?thesis by simp
  qed
  show ?thesis
    unfolding finds_least_def minutely_def using a b c d
    by (simp only: cron_lib.simps sum.case if_split from_cursor_def) simp
qed

theorem cron_window_exact_witness:
  "cron_setup minutely ''* * * * *'' ''UTC'' = Ok ((), ()) \<and>
   occurrences_between minutely ''* * * * *'' ''UTC'' 60 200 10 = Ok ([60, 120, 180], False) \<and>
   {60, 120, 180} = {v :: int. 60 dvd v \<and> 60 \<le> v \<and> v < 200}"
proof -
  have s: "cron_setup minutely ''* * * * *'' ''UTC'' = Ok ((), ())"
    by (simp add: cron_setup_Ok) (simp add: minutely_def count_fields_def count_fields_from.simps ws_len_def Let_def)
  have w: "occurrences_between minutely ''* * * * *'' ''UTC'' 60 200 10 = Ok ([60, 120, 180], False)"
    by (simp add: occurrences_between_def s) (simp add: minutely_def occ_loop.simps)
  show ?thesis
  proof (intro conjI s w)
    have fl: "finds_least (\<lambda>v. 60 dvd v) 1000 (find_next minutely z c)" for z c
      by (rule minutely_finds_least)
    have "(200 :: int) \<le> 1000" by simp
    from cron_window_exact [of "\<lambda>_ _ v. 60 dvd v" 1000 minutely 200 "''* * * * *''" "''UTC''" 0 60 10, OF fl this]
    obtain ts tr where "occurrences_between minutely ''* * * * *'' ''UTC'' 60 200 10 = Ok (ts, tr)"
      and "if tr then length ts = max 1 10 \<and> set ts = {v. 60 dvd v \<and> 60 \<le> v \<and> v \<le> last ts} \<and> last ts < 200
           else length ts < max 1 10 \<and> set ts = {v. 60 dvd v \<and> 60 \<le> v \<and> v < 200}"
      unfolding s sum.case prod.case by (elim conjE exE)
    then show "{60, 120, 180} = {v :: int. 60 dvd v \<and> 60 \<le> v \<and> v < 200}"
      unfolding w by (cases tr) (simp_all, metis (no_types) list.set(1) list.set(2))
  qed
qed

end
