(* ===== verification/Automation_Store.thy ===== *)
theory Automation_Store
  imports Model_Catalog Cron_Schedule "HOL-Library.List_Lexorder" "HOL-Library.Char_ord"
begin

section \<open>The automation store\<close>

text \<open>
  \<^verbatim>\<open>src/backend/src/state/automation.rs\<close> and the tables of
  \<^verbatim>\<open>migrations/0003_automations.sql\<close> it works on. The state \<open>db\<close> is the tables as lists of
  rows; a row keeps its enumerations as the text of its column, and \<open>trigger_from_row\<close>,
  \<open>run_from_row\<close> and \<open>log_from_row\<close> decode them as the code does, with the code's error. Every
  operation takes the state and returns the new one with its result; a transaction that is
  dropped or rolled back returns the state it began with. What the code draws from outside is an
  argument: the instants of \<^verbatim>\<open>Utc::now()\<close> (one for each call), the fresh UUIDs, the cron library,
  and \<open>avail\<close>, the registered model providers.
\<close>

subsection \<open>Enumerations and trigger specifications\<close>

definition session_agent_name :: string where
  "session_agent_name = ''agent-k''"

definition max_attempts :: int where
  "max_attempts = 3"

definition validate_agent_type :: "string \<Rightarrow> (state_error, unit) res" where
  "validate_agent_type s =
     (case agent_parse s of
        Some _ \<Rightarrow> Ok ()
      | None \<Rightarrow> Err (InvalidData (''unknown agent_type: '' @ s)))"

text \<open>The specification of a session's agent: the builder called, with its arguments.\<close>

datatype agent_spec =
    DeepResearchSpec string string
  | CoworkerSpec string string bool

definition build_spec :: "(string \<Rightarrow> bool) \<Rightarrow> string \<Rightarrow> string option \<Rightarrow> agent_spec" where
  "build_spec avail agent_type model =
     (let agent = the_default Coworker (agent_parse agent_type);
          m = resolve_model avail (Some (agent_as_str agent)) model
      in case agent of
           DeepResearch \<Rightarrow> DeepResearchSpec session_agent_name m
         | Coworker \<Rightarrow> CoworkerSpec session_agent_name m True)"

datatype run_status = Queued | Running | Succeeded | Failed | Cancelled

fun run_status_as_str :: "run_status \<Rightarrow> string" where
  "run_status_as_str Queued = ''queued''"
| "run_status_as_str Running = ''running''"
| "run_status_as_str Succeeded = ''succeeded''"
| "run_status_as_str Failed = ''failed''"
| "run_status_as_str Cancelled = ''cancelled''"

definition run_status_parse :: "string \<Rightarrow> run_status option" where
  "run_status_parse s =
     (if s = ''queued'' then Some Queued
      else if s = ''running'' then Some Running
      else if s = ''succeeded'' then Some Succeeded
      else if s = ''failed'' then Some Failed
      else if s = ''cancelled'' then Some Cancelled
      else None)"

datatype trigger_kind = Cron | Webhook

fun trigger_kind_as_str :: "trigger_kind \<Rightarrow> string" where
  "trigger_kind_as_str Cron = ''cron''"
| "trigger_kind_as_str Webhook = ''webhook''"

definition trigger_kind_parse :: "string \<Rightarrow> trigger_kind option" where
  "trigger_kind_parse s =
     (if s = ''cron'' then Some Cron else if s = ''webhook'' then Some Webhook else None)"

datatype trigger_spec = CronSpec string "string option" | WebhookSpec

fun spec_kind :: "trigger_spec \<Rightarrow> trigger_kind" where
  "spec_kind (CronSpec _ _) = Cron"
| "spec_kind WebhookSpec = Webhook"

fun to_db_spec_json :: "trigger_spec \<Rightarrow> json" where
  "to_db_spec_json (CronSpec expr tz) =
     JObj [(''expr'', JStr expr), (''tz'', case tz of None \<Rightarrow> JNull | Some z \<Rightarrow> JStr z)]"
| "to_db_spec_json WebhookSpec = JObj []"

text \<open>
  \<^verbatim>\<open>TriggerSpec::from_db\<close>: \<^verbatim>\<open>expr\<close> must be there and a string, \<^verbatim>\<open>tz\<close> may be missing or
  null, other fields are ignored, and one of the two given twice is an error.
\<close>

fun spec_from_db :: "trigger_kind \<Rightarrow> json \<Rightarrow> (string, trigger_spec) res" where
  "spec_from_db Webhook _ = Ok WebhookSpec"
| "spec_from_db Cron (JObj kvs) =
     (if \<not> distinct (filter (\<lambda>k. k = ''expr'' \<or> k = ''tz'') (map fst kvs)) then Err ''duplicate field''
      else (case map_of kvs ''expr'' of
              Some (JStr expr) \<Rightarrow>
                (case map_of kvs ''tz'' of
                   None \<Rightarrow> Ok (CronSpec expr None)
                 | Some JNull \<Rightarrow> Ok (CronSpec expr None)
                 | Some (JStr z) \<Rightarrow> Ok (CronSpec expr (Some z))
                 | Some _ \<Rightarrow> Err ''invalid type'')
            | Some _ \<Rightarrow> Err ''invalid type''
            | None \<Rightarrow> Err ''missing field''))"
| "spec_from_db Cron _ = Err ''invalid type''"

datatype run_log_kind =
    LTriggered | LQueued | LStarted | LSucceeded | LFailed | LRetryScheduled | LRetrySkipped
  | LLeaseLost | LCancelled

fun log_kind_as_str :: "run_log_kind \<Rightarrow> string" where
  "log_kind_as_str LTriggered = ''triggered''"
| "log_kind_as_str LQueued = ''queued''"
| "log_kind_as_str LStarted = ''started''"
| "log_kind_as_str LSucceeded = ''succeeded''"
| "log_kind_as_str LFailed = ''failed''"
| "log_kind_as_str LRetryScheduled = ''retry_scheduled''"
| "log_kind_as_str LRetrySkipped = ''retry_skipped''"
| "log_kind_as_str LLeaseLost = ''lease_lost''"
| "log_kind_as_str LCancelled = ''cancelled''"

definition log_kind_parse :: "string \<Rightarrow> run_log_kind option" where
  "log_kind_parse s =
     (if s = ''triggered'' then Some LTriggered
      else if s = ''queued'' then Some LQueued
      else if s = ''started'' then Some LStarted
      else if s = ''succeeded'' then Some LSucceeded
      else if s = ''failed'' then Some LFailed
      else if s = ''retry_scheduled'' then Some LRetryScheduled
      else if s = ''retry_skipped'' then Some LRetrySkipped
      else if s = ''lease_lost'' then Some LLeaseLost
      else if s = ''cancelled'' then Some LCancelled
      else None)"

subsection \<open>Rows and the state\<close>

record automation =
  auto_id :: uuid
  auto_ws :: uuid
  auto_name :: string
  auto_descr :: "string option"
  auto_prompt :: string
  auto_agent :: string
  auto_model :: "string option"
  auto_enabled :: bool
  auto_by :: uuid
  auto_created :: time
  auto_updated :: time

text \<open>
  \<open>'k\<close> is the type of the kind: \<open>string\<close> in a row, \<open>trigger_kind\<close> in the decoded struct; and
  so for the runs' status and the logs' kind.
\<close>

record 'k automation_trigger =
  trg_id :: uuid
  trg_auto :: uuid
  trg_kind :: 'k
  trg_spec :: json
  trg_enabled :: bool
  trg_next :: "time option"
  trg_hash :: "string option"
  trg_created :: time
  trg_updated :: time

record 's automation_run =
  run_id :: uuid
  run_auto :: "uuid option"
  run_trig :: "uuid option"
  run_session :: uuid
  run_ws :: uuid
  run_prompt :: string
  run_agent :: string
  run_model :: "string option"
  run_status :: 's
  run_sched :: time
  run_lease :: "time option"
  run_prev :: "uuid option"
  run_created :: time
  run_updated :: time

record 'k run_log =
  log_id :: nat
  log_run :: uuid
  log_ts :: time
  log_kind :: 'k
  log_payload :: "json option"

record session_row =
  ses_id :: uuid
  ses_ws :: uuid
  ses_title :: string
  ses_spec :: agent_spec
  ses_runenv :: bool
  ses_origin :: string
  ses_created :: time
  ses_updated :: time

record db =
  workspaces :: "uuid list"
  users :: "uuid list"
  sessions :: "session_row list"
  automations :: "automation list"
  triggers :: "string automation_trigger list"
  runs :: "string automation_run list"
  logs :: "string run_log list"
  log_seq :: nat

definition trigger_from_row ::
  "string automation_trigger \<Rightarrow> (state_error, trigger_kind automation_trigger) res" where
  "trigger_from_row r =
     (case trigger_kind_parse (trg_kind r) of
        None \<Rightarrow> Err (InvalidData (''invalid trigger kind '' @ quoted (trg_kind r)))
      | Some k \<Rightarrow>
          Ok \<lparr>trg_id = trg_id r, trg_auto = trg_auto r, trg_kind = k, trg_spec = trg_spec r,
              trg_enabled = trg_enabled r, trg_next = trg_next r, trg_hash = trg_hash r,
              trg_created = trg_created r, trg_updated = trg_updated r\<rparr>)"

definition run_from_row :: "string automation_run \<Rightarrow> (state_error, run_status automation_run) res" where
  "run_from_row r =
     (case run_status_parse (run_status r) of
        None \<Rightarrow> Err (InvalidData (''invalid run status '' @ quoted (run_status r)))
      | Some s \<Rightarrow>
          Ok \<lparr>run_id = run_id r, run_auto = run_auto r, run_trig = run_trig r,
              run_session = run_session r, run_ws = run_ws r, run_prompt = run_prompt r,
              run_agent = run_agent r, run_model = run_model r, run_status = s,
              run_sched = run_sched r, run_lease = run_lease r, run_prev = run_prev r,
              run_created = run_created r, run_updated = run_updated r\<rparr>)"

definition log_from_row :: "string run_log \<Rightarrow> (state_error, run_log_kind run_log) res" where
  "log_from_row r =
     (case log_kind_parse (log_kind r) of
        None \<Rightarrow> Err (InvalidData (''invalid event kind '' @ quoted (log_kind r)))
      | Some k \<Rightarrow>
          Ok \<lparr>log_id = log_id r, log_run = log_run r, log_ts = log_ts r, log_kind = k,
              log_payload = log_payload r\<rparr>)"

text \<open>\<^verbatim>\<open>query .. fetch_optional .. map(from_row).transpose()\<close>.\<close>

definition fetch_optional :: "('r \<Rightarrow> ('e, 'a) res) \<Rightarrow> 'r list \<Rightarrow> ('e, 'a option) res" where
  "fetch_optional decode rows =
     (case rows of [] \<Rightarrow> Ok None | r # _ \<Rightarrow> map_ok Some (decode r))"

subsection \<open>New runs\<close>

record new_run =
  nr_auto :: "uuid option"
  nr_trig :: "uuid option"
  nr_ws :: uuid
  nr_title :: string
  nr_prompt :: string
  nr_agent :: string
  nr_model :: "string option"
  nr_prev :: "uuid option"

definition from_automation :: "automation \<Rightarrow> uuid option \<Rightarrow> uuid option \<Rightarrow> new_run" where
  "from_automation a trig prev =
     \<lparr>nr_auto = Some (auto_id a), nr_trig = trig, nr_ws = auto_ws a, nr_title = auto_name a,
      nr_prompt = auto_prompt a, nr_agent = auto_agent a, nr_model = auto_model a, nr_prev = prev\<rparr>"

text \<open>\<^verbatim>\<open>chars().take(n)\<close> on UTF-8: a byte of the form \<open>10xxxxxx\<close> continues its character.\<close>

fun take_chars :: "nat \<Rightarrow> string \<Rightarrow> string" where
  "take_chars n [] = []"
| "take_chars n (c # cs) =
     (if (of_char c :: nat) div 64 = 2 then c # take_chars n cs
      else (case n of 0 \<Rightarrow> [] | Suc m \<Rightarrow> c # take_chars m cs))"

definition retry_of :: "run_status automation_run \<Rightarrow> new_run" where
  "retry_of prev =
     \<lparr>nr_auto = run_auto prev, nr_trig = run_trig prev, nr_ws = run_ws prev,
      nr_title = take_chars 60 (run_prompt prev), nr_prompt = run_prompt prev,
      nr_agent = run_agent prev, nr_model = run_model prev, nr_prev = Some (run_id prev)\<rparr>"

subsection \<open>Automations\<close>

definition create_automation ::
  "uuid \<Rightarrow> time \<Rightarrow> db \<Rightarrow> uuid \<Rightarrow> string \<Rightarrow> string option \<Rightarrow> string \<Rightarrow> string \<Rightarrow> string option \<Rightarrow> uuid \<Rightarrow>
   db \<times> (state_error, automation) res" where
  "create_automation fresh now d ws name descr prompt agent model created_by =
     (case validate_agent_type agent of
        Err e \<Rightarrow> (d, Err e)
      | Ok _ \<Rightarrow>
          (if has_key auto_id fresh (automations d) \<or> \<not> has_key id ws (workspaces d) \<or>
              \<not> has_key id created_by (users d)
           then (d, Err constraint_failed)
           else let a = \<lparr>auto_id = fresh, auto_ws = ws, auto_name = name, auto_descr = descr,
                         auto_prompt = prompt, auto_agent = agent, auto_model = model,
                         auto_enabled = True, auto_by = created_by, auto_created = now,
                         auto_updated = now\<rparr>
                in (d\<lparr>automations := automations d @ [a]\<rparr>, Ok a)))"

definition get_automation :: "db \<Rightarrow> uuid \<Rightarrow> automation option" where
  "get_automation d aid = find (\<lambda>a. auto_id a = aid) (automations d)"

definition list_automations_by_workspace :: "db \<Rightarrow> uuid \<Rightarrow> automation list" where
  "list_automations_by_workspace d ws =
     sort_key (\<lambda>a. - auto_created a) (filter (\<lambda>a. auto_ws a = ws) (automations d))"

text \<open>
  The next fire instant of a stored cron specification, with the default zone when it names none:
  the steps that \<^verbatim>\<open>recompute_cron_next_fire\<close> and \<^verbatim>\<open>update_trigger\<close> share.
\<close>

definition spec_next_fire ::
  "('z, 'c) cron_lib \<Rightarrow> string \<Rightarrow> time \<Rightarrow> json \<Rightarrow> (state_error, time) res" where
  "spec_next_fire L dtz now spec =
     (case spec_from_db Cron spec of
        Err e \<Rightarrow> Err (InvalidData (''trigger spec: '' @ e))
      | Ok (CronSpec expr tz) \<Rightarrow> map_err InvalidData (next_fire_after L expr (the_default dtz tz) now)
      | Ok WebhookSpec \<Rightarrow> Err (InvalidData ''unreachable''))"

definition set_next_fire :: "time \<Rightarrow> time option \<Rightarrow> string automation_trigger \<Rightarrow> string automation_trigger" where
  "set_next_fire now next t = t\<lparr>trg_next := next, trg_updated := now\<rparr>"

fun recompute_rows ::
  "('z, 'c) cron_lib \<Rightarrow> string \<Rightarrow> time \<Rightarrow> string automation_trigger list \<Rightarrow>
   string automation_trigger list \<Rightarrow> (state_error, string automation_trigger list) res" where
  "recompute_rows L dtz now [] trs = Ok trs"
| "recompute_rows L dtz now (row # rows) trs =
     (case spec_next_fire L dtz now (trg_spec row) of
        Err e \<Rightarrow> Err e
      | Ok next \<Rightarrow>
          recompute_rows L dtz now rows
            (set_where (\<lambda>t. trg_id t = trg_id row) (set_next_fire now (Some next)) trs))"

definition recompute_cron_next_fire ::
  "('z, 'c) cron_lib \<Rightarrow> string \<Rightarrow> db \<Rightarrow> uuid \<Rightarrow> time \<Rightarrow> (state_error, db) res" where
  "recompute_cron_next_fire L dtz d aid now =
     map_ok (\<lambda>trs. d\<lparr>triggers := trs\<rparr>)
       (recompute_rows L dtz now
          (filter (\<lambda>t. trg_auto t = aid \<and> trg_kind t = ''cron'' \<and> trg_enabled t) (triggers d))
          (triggers d))"

text \<open>
  \<^verbatim>\<open>update_automation\<close> reads the row, then writes in a transaction; the two are apart, so that
  another operation may run between them. \<open>update_automation_write\<close> is what follows the read.
\<close>

definition update_automation_write ::
  "('z, 'c) cron_lib \<Rightarrow> string \<Rightarrow> time \<Rightarrow> db \<Rightarrow> automation \<Rightarrow> string option \<Rightarrow> string option option \<Rightarrow>
   string option \<Rightarrow> string option \<Rightarrow> string option option \<Rightarrow> bool option \<Rightarrow>
   db \<times> (state_error, automation) res" where
  "update_automation_write L dtz now d current name descr prompt agent model enabled =
     (let a = current\<lparr>auto_name := the_default (auto_name current) name,
                      auto_descr := the_default (auto_descr current) descr,
                      auto_prompt := the_default (auto_prompt current) prompt,
                      auto_agent := the_default (auto_agent current) agent,
                      auto_model := the_default (auto_model current) model,
                      auto_enabled := the_default (auto_enabled current) enabled,
                      auto_updated := now\<rparr>;
          aid = auto_id current
      in case validate_agent_type (auto_agent a) of
           Err e \<Rightarrow> (d, Err e)
         | Ok _ \<Rightarrow>
             let d1 = d\<lparr>automations := set_where (\<lambda>r. auto_id r = aid)
                        (\<lambda>r. r\<lparr>auto_name := auto_name a, auto_descr := auto_descr a,
                               auto_prompt := auto_prompt a, auto_agent := auto_agent a,
                               auto_model := auto_model a, auto_enabled := auto_enabled a,
                               auto_updated := now\<rparr>) (automations d)\<rparr>
             in if auto_enabled current \<and> \<not> auto_enabled a
                then (d1\<lparr>triggers := set_where (\<lambda>t. trg_auto t = aid \<and> trg_kind t = ''cron'')
                                       (set_next_fire now None) (triggers d1),
                         runs := set_where (\<lambda>r. run_auto r = Some aid \<and> run_status r = ''queued'')
                                   (\<lambda>r. r\<lparr>run_status := ''cancelled'', run_lease := None,
                                          run_updated := now\<rparr>) (runs d1)\<rparr>, Ok a)
                else if \<not> auto_enabled current \<and> auto_enabled a
                then (case recompute_cron_next_fire L dtz d1 aid now of
                        Err e \<Rightarrow> (d, Err e)
                      | Ok d2 \<Rightarrow> (d2, Ok a))
                else (d1, Ok a))"

definition update_automation ::
  "('z, 'c) cron_lib \<Rightarrow> string \<Rightarrow> time \<Rightarrow> db \<Rightarrow> uuid \<Rightarrow> string option \<Rightarrow> string option option \<Rightarrow>
   string option \<Rightarrow> string option \<Rightarrow> string option option \<Rightarrow> bool option \<Rightarrow>
   db \<times> (state_error, automation) res" where
  "update_automation L dtz now d aid name descr prompt agent model enabled =
     (case get_automation d aid of
        None \<Rightarrow> (d, Err NotFound)
      | Some current \<Rightarrow>
          update_automation_write L dtz now d current name descr prompt agent model enabled)"

text \<open>
  \<^verbatim>\<open>DELETE FROM automations\<close> and \<^verbatim>\<open>DELETE FROM automation_triggers\<close> with the clauses of the
  tables that refer to them: triggers go with their automation, and the runs stay, their
  references set to null.
\<close>

definition clear_ref :: "(uuid \<Rightarrow> bool) \<Rightarrow> uuid option \<Rightarrow> uuid option" where
  "clear_ref gone ko = (case ko of None \<Rightarrow> None | Some k \<Rightarrow> (if gone k then None else Some k))"

definition drop_triggers :: "(string automation_trigger \<Rightarrow> bool) \<Rightarrow> db \<Rightarrow> db" where
  "drop_triggers P d =
     (let gone = (\<lambda>k. list_ex (\<lambda>t. P t \<and> trg_id t = k) (triggers d)) in
      d\<lparr>triggers := filter (\<lambda>t. \<not> P t) (triggers d),
        runs := map (\<lambda>r. r\<lparr>run_trig := clear_ref gone (run_trig r)\<rparr>) (runs d)\<rparr>)"

definition delete_automation :: "db \<Rightarrow> uuid \<Rightarrow> db \<times> bool" where
  "delete_automation d aid =
     (let n = affected (\<lambda>a. auto_id a = aid) (automations d);
          d1 = drop_triggers (\<lambda>t. trg_auto t = aid \<and> 0 < n) d
      in (d1\<lparr>automations := filter (\<lambda>a. auto_id a \<noteq> aid) (automations d1),
             runs := map (\<lambda>r. r\<lparr>run_auto := clear_ref (\<lambda>k. k = aid \<and> 0 < n) (run_auto r)\<rparr>) (runs d1)\<rparr>,
          n = 1))"

subsection \<open>Triggers\<close>

definition create_trigger ::
  "uuid \<Rightarrow> time \<Rightarrow> db \<Rightarrow> uuid \<Rightarrow> trigger_spec \<Rightarrow> bool \<Rightarrow> time option \<Rightarrow> string option \<Rightarrow>
   db \<times> (state_error, trigger_kind automation_trigger) res" where
  "create_trigger fresh now d aid spec enabled next_fire hash =
     (if has_key trg_id fresh (triggers d) \<or> \<not> has_key auto_id aid (automations d) \<or>
         (hash \<noteq> None \<and> has_key trg_hash hash (triggers d))
      then (d, Err constraint_failed)
      else let t = \<lparr>trg_id = fresh, trg_auto = aid, trg_kind = trigger_kind_as_str (spec_kind spec),
                    trg_spec = to_db_spec_json spec, trg_enabled = enabled, trg_next = next_fire,
                    trg_hash = hash, trg_created = now, trg_updated = now\<rparr>
           in (d\<lparr>triggers := triggers d @ [t]\<rparr>,
               Ok \<lparr>trg_id = fresh, trg_auto = aid, trg_kind = spec_kind spec,
                   trg_spec = to_db_spec_json spec, trg_enabled = enabled, trg_next = next_fire,
                   trg_hash = hash, trg_created = now, trg_updated = now\<rparr>))"

definition get_trigger :: "db \<Rightarrow> uuid \<Rightarrow> (state_error, trigger_kind automation_trigger option) res" where
  "get_trigger d tid = fetch_optional trigger_from_row (filter (\<lambda>t. trg_id t = tid) (triggers d))"

definition update_trigger_next ::
  "('z, 'c) cron_lib \<Rightarrow> string \<Rightarrow> time \<Rightarrow> db \<Rightarrow> trigger_kind automation_trigger \<Rightarrow> bool \<Rightarrow> json \<Rightarrow>
   (state_error, time option) res" where
  "update_trigger_next L dtz now d current enabled spec =
     (if trg_kind current = Cron \<and> enabled
      then (case get_automation d (trg_auto current) of
              None \<Rightarrow> Err NotFound
            | Some a \<Rightarrow> (if auto_enabled a then map_ok Some (spec_next_fire L dtz now spec) else Ok None))
      else Ok None)"

definition update_trigger_write ::
  "time \<Rightarrow> db \<Rightarrow> uuid \<Rightarrow> json \<Rightarrow> bool \<Rightarrow> time option \<Rightarrow> db" where
  "update_trigger_write now d tid spec enabled next_fire =
     d\<lparr>triggers := set_where (\<lambda>t. trg_id t = tid)
         (\<lambda>t. t\<lparr>trg_spec := spec, trg_enabled := enabled, trg_next := next_fire, trg_updated := now\<rparr>)
         (triggers d)\<rparr>"

definition update_trigger ::
  "('z, 'c) cron_lib \<Rightarrow> string \<Rightarrow> time \<Rightarrow> db \<Rightarrow> uuid \<Rightarrow> trigger_spec option \<Rightarrow> bool option \<Rightarrow>
   db \<times> (state_error, trigger_kind automation_trigger) res" where
  "update_trigger L dtz now d tid spec enabled =
     (case get_trigger d tid of
        Err e \<Rightarrow> (d, Err e)
      | Ok None \<Rightarrow> (d, Err NotFound)
      | Ok (Some current) \<Rightarrow>
          if (case spec of None \<Rightarrow> False | Some s \<Rightarrow> spec_kind s \<noteq> trg_kind current)
          then (d, Err (InvalidData ''trigger kind is immutable; delete and recreate to change it''))
          else let en = the_default (trg_enabled current) enabled;
                   js = (case spec of Some s \<Rightarrow> to_db_spec_json s | None \<Rightarrow> trg_spec current)
               in case update_trigger_next L dtz now d current en js of
                    Err e \<Rightarrow> (d, Err e)
                  | Ok next \<Rightarrow>
                      let d' = update_trigger_write now d tid js en next
                      in (d', case get_trigger d' tid of
                                Err e \<Rightarrow> Err e
                              | Ok None \<Rightarrow> Err NotFound
                              | Ok (Some t) \<Rightarrow> Ok t))"

definition list_enabled_cron_triggers_by_workspace ::
  "db \<Rightarrow> uuid \<Rightarrow> (state_error, (trigger_kind automation_trigger \<times> string) list) res" where
  "list_enabled_cron_triggers_by_workspace d ws =
     traverse (\<lambda>(t, name). map_ok (\<lambda>t. (t, name)) (trigger_from_row t))
       (sort_key snd (sort_key (\<lambda>(t, _). trg_created t)
          [(t, auto_name a). t \<leftarrow> triggers d, a \<leftarrow> automations d,
             auto_id a = trg_auto t \<and> auto_ws a = ws \<and> trg_kind t = ''cron'' \<and> trg_enabled t \<and>
             auto_enabled a]))"

definition list_triggers :: "db \<Rightarrow> uuid \<Rightarrow> (state_error, trigger_kind automation_trigger list) res" where
  "list_triggers d aid =
     traverse trigger_from_row (sort_key trg_created (filter (\<lambda>t. trg_auto t = aid) (triggers d)))"

definition delete_trigger :: "db \<Rightarrow> uuid \<Rightarrow> db \<times> bool" where
  "delete_trigger d tid =
     (drop_triggers (\<lambda>t. trg_id t = tid) d, affected (\<lambda>t. trg_id t = tid) (triggers d) = 1)"

definition find_trigger_by_webhook_token_hash ::
  "db \<Rightarrow> string \<Rightarrow> (state_error, trigger_kind automation_trigger option) res" where
  "find_trigger_by_webhook_token_hash d hash =
     fetch_optional trigger_from_row (filter (\<lambda>t. trg_hash t = Some hash) (triggers d))"

definition due_cron :: "db \<Rightarrow> time \<Rightarrow> string automation_trigger \<Rightarrow> bool" where
  "due_cron d now t =
     (trg_kind t = ''cron'' \<and> trg_enabled t \<and>
      (case trg_next t of None \<Rightarrow> False | Some n \<Rightarrow> n \<le> now) \<and>
      list_ex (\<lambda>a. auto_id a = trg_auto t \<and> auto_enabled a) (automations d))"

definition list_due_cron_triggers ::
  "db \<Rightarrow> time \<Rightarrow> (state_error, trigger_kind automation_trigger list) res" where
  "list_due_cron_triggers d now =
     traverse trigger_from_row
       (sort_key (\<lambda>t. the_default 0 (trg_next t)) (filter (due_cron d now) (triggers d)))"

subsection \<open>Runs\<close>

text \<open>The shared insertion into the log; its identifiers are never used twice.\<close>

definition insert_log ::
  "db \<Rightarrow> uuid \<Rightarrow> run_log_kind \<Rightarrow> json option \<Rightarrow> time \<Rightarrow> (state_error, db) res" where
  "insert_log d rid kind payload ts =
     (if \<not> has_key run_id rid (runs d) then Err constraint_failed
      else Ok (d\<lparr>logs := logs d @ [\<lparr>log_id = log_seq d, log_run = rid, log_ts = ts,
                                   log_kind = log_kind_as_str kind, log_payload = payload\<rparr>],
                 log_seq := Suc (log_seq d)\<rparr>))"

text \<open>The row and the struct of a new run, and the row of its session.\<close>

definition new_run_row :: "'s \<Rightarrow> new_run \<Rightarrow> uuid \<Rightarrow> uuid \<Rightarrow> time \<Rightarrow> time \<Rightarrow> 's automation_run" where
  "new_run_row status spec rid sid sched now =
     \<lparr>run_id = rid, run_auto = nr_auto spec, run_trig = nr_trig spec, run_session = sid,
      run_ws = nr_ws spec, run_prompt = nr_prompt spec, run_agent = nr_agent spec,
      run_model = nr_model spec, run_status = status, run_sched = sched, run_lease = None,
      run_prev = nr_prev spec, run_created = now, run_updated = now\<rparr>"

definition new_session_row :: "(string \<Rightarrow> bool) \<Rightarrow> new_run \<Rightarrow> uuid \<Rightarrow> time \<Rightarrow> session_row" where
  "new_session_row avail spec sid now =
     \<lparr>ses_id = sid, ses_ws = nr_ws spec, ses_title = nr_title spec,
      ses_spec = build_spec avail (nr_agent spec) (nr_model spec), ses_runenv = False,
      ses_origin = ''automation'', ses_created = now, ses_updated = now\<rparr>"

text \<open>The gate of a run linked to an automation: that automation exists and is enabled.\<close>

definition gate_open :: "db \<Rightarrow> uuid option \<Rightarrow> bool" where
  "gate_open d ao =
     (case ao of None \<Rightarrow> True
      | Some aid \<Rightarrow> list_ex (\<lambda>a. auto_id a = aid \<and> auto_enabled a) (automations d))"

definition run_constraints :: "db \<Rightarrow> new_run \<Rightarrow> uuid \<Rightarrow> uuid \<Rightarrow> bool" where
  "run_constraints d spec rid sid =
     (\<not> has_key run_id rid (runs d) \<and> \<not> has_key run_session sid (runs d) \<and>
      refs trg_id (nr_trig spec) (triggers d) \<and> has_key id (nr_ws spec) (workspaces d) \<and>
      refs run_id (nr_prev spec) (runs d))"

definition insert_run_in ::
  "(string \<Rightarrow> bool) \<Rightarrow> uuid \<Rightarrow> uuid \<Rightarrow> time \<Rightarrow> db \<Rightarrow> new_run \<Rightarrow> time \<Rightarrow> json option \<Rightarrow>
   (state_error, db \<times> run_status automation_run option) res" where
  "insert_run_in avail sid rid now d spec sched payload =
     (if has_key ses_id sid (sessions d) \<or> \<not> has_key id (nr_ws spec) (workspaces d)
      then Err constraint_failed
      else let d1 = d\<lparr>sessions := sessions d @ [new_session_row avail spec sid now]\<rparr>
           in if \<not> gate_open d (nr_auto spec) then Ok (d1, None)
              else if \<not> run_constraints d spec rid sid then Err constraint_failed
              else let d2 = d1\<lparr>runs := runs d @ [new_run_row ''queued'' spec rid sid sched now]\<rparr>
                   in and_then (insert_log d2 rid LTriggered payload now) (\<lambda>d3.
                      and_then (insert_log d3 rid LQueued None now) (\<lambda>d4.
                        Ok (d4, Some (new_run_row Queued spec rid sid sched now)))))"

definition insert_run_with_session ::
  "(string \<Rightarrow> bool) \<Rightarrow> uuid \<Rightarrow> uuid \<Rightarrow> time \<Rightarrow> db \<Rightarrow> new_run \<Rightarrow> time \<Rightarrow> json option \<Rightarrow>
   db \<times> (state_error, run_status automation_run option) res" where
  "insert_run_with_session avail sid rid now d spec sched payload =
     (case insert_run_in avail sid rid now d spec sched payload of
        Err e \<Rightarrow> (d, Err e)
      | Ok (d', Some r) \<Rightarrow> (d', Ok (Some r))
      | Ok (d', None) \<Rightarrow> (d, Ok None))"

definition create_webhook_run ::
  "(string \<Rightarrow> bool) \<Rightarrow> uuid \<Rightarrow> uuid \<Rightarrow> time \<Rightarrow> time \<Rightarrow> db \<Rightarrow> automation \<Rightarrow> uuid \<Rightarrow>
   db \<times> (state_error, run_status automation_run option) res" where
  "create_webhook_run avail sid rid at now d a tid =
     insert_run_with_session avail sid rid now d (from_automation a (Some tid) None) at
       (Some (JObj [(''source'', JStr ''webhook'')]))"

text \<open>\<^verbatim>\<open>ok_or_else\<close> on the optional run.\<close>

definition require_run ::
  "string \<Rightarrow> db \<times> (state_error, run_status automation_run option) res \<Rightarrow>
   db \<times> (state_error, run_status automation_run) res" where
  "require_run msg p =
     (fst p, case snd p of Err e \<Rightarrow> Err e | Ok None \<Rightarrow> Err (InvalidData msg) | Ok (Some r) \<Rightarrow> Ok r)"

definition create_scheduled_run ::
  "(string \<Rightarrow> bool) \<Rightarrow> uuid \<Rightarrow> uuid \<Rightarrow> time \<Rightarrow> db \<Rightarrow> automation \<Rightarrow> time \<Rightarrow> string \<Rightarrow>
   db \<times> (state_error, run_status automation_run) res" where
  "create_scheduled_run avail sid rid now d a at source =
     require_run ''automation is disabled''
       (insert_run_with_session avail sid rid now d (from_automation a None None) at
          (Some (JObj [(''source'', JStr source), (''scheduled_for'', JTime at)])))"

definition create_adhoc_run ::
  "(string \<Rightarrow> bool) \<Rightarrow> uuid \<Rightarrow> uuid \<Rightarrow> time \<Rightarrow> db \<Rightarrow> uuid \<Rightarrow> string \<Rightarrow> string \<Rightarrow> string \<Rightarrow>
   string option \<Rightarrow> time \<Rightarrow> uuid \<Rightarrow> db \<times> (state_error, run_status automation_run) res" where
  "create_adhoc_run avail sid rid now d ws title prompt agent model at by =
     require_run ''failed to create run''
       (insert_run_with_session avail sid rid now d
          \<lparr>nr_auto = None, nr_trig = None, nr_ws = ws, nr_title = title, nr_prompt = prompt,
           nr_agent = agent, nr_model = model, nr_prev = None\<rparr> at
          (Some (JObj [(''source'', JStr ''one_time''), (''scheduled_by'', JUuid by),
                       (''scheduled_for'', JTime at)])))"

text \<open>
  \<^verbatim>\<open>fire_cron_trigger\<close>: the transaction that advances the trigger and inserts the run. When the
  gate is closed it is rolled back and, in a statement of its own, the trigger is parked.
\<close>

definition park_trigger :: "time \<Rightarrow> db \<Rightarrow> uuid \<Rightarrow> db" where
  "park_trigger now d tid =
     d\<lparr>triggers := set_where (\<lambda>t. trg_id t = tid) (set_next_fire now None) (triggers d)\<rparr>"

definition fire_cron_tx ::
  "(string \<Rightarrow> bool) \<Rightarrow> uuid \<Rightarrow> uuid \<Rightarrow> time \<Rightarrow> time \<Rightarrow> db \<Rightarrow> automation \<Rightarrow> uuid \<Rightarrow> time \<Rightarrow> time \<Rightarrow>
   json \<Rightarrow> db \<times> (state_error, run_status automation_run option) res" where
  "fire_cron_tx avail sid rid now1 now2 d a tid sched next payload =
     (let d1 = d\<lparr>triggers := set_where (\<lambda>t. trg_id t = tid) (set_next_fire now1 (Some next)) (triggers d)\<rparr>
      in case insert_run_in avail sid rid now2 d1 (from_automation a (Some tid) None) sched (Some payload) of
           Err e \<Rightarrow> (d, Err e)
         | Ok (d2, Some r) \<Rightarrow> (d2, Ok (Some r))
         | Ok (d2, None) \<Rightarrow> (d, Ok None))"

definition fire_cron_trigger ::
  "(string \<Rightarrow> bool) \<Rightarrow> uuid \<Rightarrow> uuid \<Rightarrow> time \<Rightarrow> time \<Rightarrow> time \<Rightarrow> db \<Rightarrow> automation \<Rightarrow> uuid \<Rightarrow> time \<Rightarrow>
   time \<Rightarrow> json \<Rightarrow> db \<times> (state_error, run_status automation_run option) res" where
  "fire_cron_trigger avail sid rid now1 now2 now3 d a tid sched next payload =
     (case fire_cron_tx avail sid rid now1 now2 d a tid sched next payload of
        (d', Ok None) \<Rightarrow> (park_trigger now3 d' tid, Ok None)
      | (d', r) \<Rightarrow> (d', r))"

definition get_run :: "db \<Rightarrow> uuid \<Rightarrow> (state_error, run_status automation_run option) res" where
  "get_run d rid = fetch_optional run_from_row (filter (\<lambda>r. run_id r = rid) (runs d))"

definition list_runs :: "db \<Rightarrow> uuid \<Rightarrow> (state_error, run_status automation_run list) res" where
  "list_runs d aid =
     traverse run_from_row (sort_key (\<lambda>r. - run_created r) (filter (\<lambda>r. run_auto r = Some aid) (runs d)))"

definition list_runs_by_workspace :: "db \<Rightarrow> uuid \<Rightarrow> (state_error, run_status automation_run list) res" where
  "list_runs_by_workspace d ws =
     traverse run_from_row (sort_key (\<lambda>r. - run_created r) (filter (\<lambda>r. run_ws r = ws) (runs d)))"

text \<open>A negative \<^verbatim>\<open>LIMIT\<close> is no limit.\<close>

definition list_runs_in_window ::
  "db \<Rightarrow> uuid \<Rightarrow> time \<Rightarrow> time \<Rightarrow> int \<Rightarrow> (state_error, run_status automation_run list) res" where
  "list_runs_in_window d ws frm to limit =
     traverse run_from_row
       ((if limit < 0 then id else take (nat limit))
          (sort_key (\<lambda>r. - run_sched r)
             (filter (\<lambda>r. run_ws r = ws \<and> frm \<le> run_sched r \<and> run_sched r < to) (runs d))))"

subsection \<open>The life of a run\<close>

definition due_runs :: "db \<Rightarrow> time \<Rightarrow> string automation_run list" where
  "due_runs d now =
     sort_key run_sched (filter (\<lambda>r. run_status r = ''queued'' \<and> run_sched r \<le> now) (runs d))"

definition claim_due_run ::
  "db \<Rightarrow> time \<Rightarrow> time \<Rightarrow> db \<times> (state_error, run_status automation_run option) res" where
  "claim_due_run d now lease =
     (case due_runs d now of
        [] \<Rightarrow> (d, Ok None)
      | row # _ \<Rightarrow>
          (case run_from_row row of
             Err e \<Rightarrow> (d, Err e)
           | Ok r \<Rightarrow>
               (if affected (\<lambda>x. run_id x = run_id r \<and> run_status x = ''queued'') (runs d) \<noteq> 1
                then (d, Ok None)
                else (d\<lparr>runs := set_where (\<lambda>x. run_id x = run_id r \<and> run_status x = ''queued'')
                         (\<lambda>x. x\<lparr>run_status := ''running'', run_lease := Some lease,
                                run_updated := now\<rparr>) (runs d)\<rparr>,
                      Ok (Some (r\<lparr>run_status := Running, run_lease := Some lease\<rparr>))))))"

definition renew_lease :: "time \<Rightarrow> db \<Rightarrow> uuid \<Rightarrow> time \<Rightarrow> db \<times> bool" where
  "renew_lease now d rid lease =
     (let P = (\<lambda>r. run_id r = rid \<and> run_status r = ''running'')
      in (d\<lparr>runs := set_where P (\<lambda>r. r\<lparr>run_lease := Some lease, run_updated := now\<rparr>) (runs d)\<rparr>,
          affected P (runs d) = 1))"

definition finalize_run ::
  "time \<Rightarrow> db \<Rightarrow> uuid \<Rightarrow> run_status \<Rightarrow> run_log_kind \<Rightarrow> json option \<Rightarrow> db \<times> (state_error, bool) res" where
  "finalize_run now d rid status kind payload =
     (let P = (\<lambda>r. run_id r = rid \<and> run_status r = ''running'')
      in if affected P (runs d) \<noteq> 1 then (d, Ok False)
         else (case insert_log (d\<lparr>runs := set_where P
                        (\<lambda>r. r\<lparr>run_status := run_status_as_str status, run_lease := None,
                               run_updated := now\<rparr>) (runs d)\<rparr>) rid kind payload now of
                 Err e \<Rightarrow> (d, Err e)
               | Ok d' \<Rightarrow> (d', Ok True)))"

definition cancel_run :: "time \<Rightarrow> db \<Rightarrow> uuid \<Rightarrow> json \<Rightarrow> db \<times> (state_error, bool) res" where
  "cancel_run now d rid payload =
     (let P = (\<lambda>r. run_id r = rid \<and> (run_status r = ''queued'' \<or> run_status r = ''running''))
      in if affected P (runs d) = 0 then (d, Ok False)
         else (case insert_log (d\<lparr>runs := set_where P
                        (\<lambda>r. r\<lparr>run_status := ''cancelled'', run_lease := None, run_updated := now\<rparr>)
                        (runs d)\<rparr>) rid LCancelled (Some payload) now of
                 Err e \<Rightarrow> (d, Err e)
               | Ok d' \<Rightarrow> (d', Ok True)))"

text \<open>
  The recursive query of \<^verbatim>\<open>compute_run_attempt\<close>: from the run along \<^verbatim>\<open>previous_run_id\<close>,
  counting. Its value is \<open>None\<close> when the query never ends, and an error, the panic of reading the
  maximum of no rows, when the run is not there.
\<close>

partial_function (option) chain_depth :: "string automation_run list \<Rightarrow> uuid option \<Rightarrow> int \<Rightarrow> int option" where
  "chain_depth rs prev d =
     (case prev of
        None \<Rightarrow> Some d
      | Some p \<Rightarrow>
          (case find (\<lambda>r. run_id r = p) rs of
             None \<Rightarrow> Some d
           | Some r \<Rightarrow> chain_depth rs (run_prev r) (d + 1)))"

definition compute_run_attempt :: "db \<Rightarrow> uuid \<Rightarrow> (string, int) res option" where
  "compute_run_attempt d rid =
     (case find (\<lambda>r. run_id r = rid) (runs d) of
        None \<Rightarrow> Some (Err ''unexpected null'')
      | Some r \<Rightarrow> map_option Ok (chain_depth (runs d) (run_prev r) 1))"

text \<open>
  \<^verbatim>\<open>schedule_retry\<close>: a gate on the automation, the insertion of the run (which tests the gate
  again), and a record in the previous run's log, each a transaction of its own.
\<close>

definition append_log ::
  "time \<Rightarrow> db \<Rightarrow> uuid \<Rightarrow> run_log_kind \<Rightarrow> json option \<Rightarrow> db \<times> (state_error, unit) res" where
  "append_log now d rid kind payload =
     (case insert_log d rid kind payload now of Err e \<Rightarrow> (d, Err e) | Ok d' \<Rightarrow> (d', Ok ()))"

definition schedule_retry ::
  "(string \<Rightarrow> bool) \<Rightarrow> uuid \<Rightarrow> uuid \<Rightarrow> time \<Rightarrow> time \<Rightarrow> db \<Rightarrow> run_status automation_run \<Rightarrow> time \<Rightarrow> int \<Rightarrow>
   db \<times> (state_error, run_status automation_run option) res" where
  "schedule_retry avail sid rid now1 now2 d prev sched next_attempt =
     (if (case run_auto prev of
            None \<Rightarrow> False
          | Some aid \<Rightarrow> (case get_automation d aid of None \<Rightarrow> True | Some a \<Rightarrow> \<not> auto_enabled a))
      then (case append_log now1 d (run_id prev) LRetrySkipped
                   (Some (JObj [(''reason'', JStr ''automation_disabled''),
                                (''attempt'', JInt next_attempt)])) of
              (d', Err e) \<Rightarrow> (d', Err e)
            | (d', Ok _) \<Rightarrow> (d', Ok None))
      else (case insert_run_with_session avail sid rid now1 d (retry_of prev) sched None of
              (d', Ok (Some retry)) \<Rightarrow>
                (case append_log now2 d' (run_id prev) LRetryScheduled
                        (Some (JObj [(''next_run_id'', JUuid (run_id retry)),
                                     (''scheduled_for'', JTime sched),
                                     (''attempt'', JInt next_attempt)])) of
                   (d'', Err e) \<Rightarrow> (d'', Err e)
                 | (d'', Ok _) \<Rightarrow> (d'', Ok (Some retry)))
            | (d', r) \<Rightarrow> (d', r)))"

text \<open>
  \<^verbatim>\<open>reap_expired_leases\<close>: a scan, then a transaction for each row found.
\<close>

definition reap_row :: "time \<Rightarrow> db \<Rightarrow> uuid \<Rightarrow> db \<times> (state_error, bool) res" where
  "reap_row now d rid =
     (let P = (\<lambda>r. run_id r = rid \<and> run_status r = ''running'')
      in if affected P (runs d) = 1
         then (case insert_log (d\<lparr>runs := set_where P
                        (\<lambda>r. r\<lparr>run_status := ''queued'', run_lease := None, run_updated := now\<rparr>)
                        (runs d)\<rparr>) rid LLeaseLost None now of
                 Err e \<Rightarrow> (d, Err e)
               | Ok d' \<Rightarrow> (d', Ok True))
         else (d, Ok False))"

fun reap_rows :: "time \<Rightarrow> db \<Rightarrow> uuid list \<Rightarrow> db \<times> (state_error, uuid list) res" where
  "reap_rows now d [] = (d, Ok [])"
| "reap_rows now d (rid # rids) =
     (case reap_row now d rid of
        (d', Err e) \<Rightarrow> (d', Err e)
      | (d', Ok b) \<Rightarrow>
          (case reap_rows now d' rids of
             (d'', Err e) \<Rightarrow> (d'', Err e)
           | (d'', Ok reaped) \<Rightarrow> (d'', Ok (if b then rid # reaped else reaped))))"

definition expired :: "time option \<Rightarrow> string automation_run \<Rightarrow> bool" where
  "expired limit r =
     (run_status r = ''running'' \<and>
      (case limit of
         None \<Rightarrow> True
       | Some t \<Rightarrow> (case run_lease r of None \<Rightarrow> False | Some l \<Rightarrow> l < t)))"

definition reap_expired_leases :: "time \<Rightarrow> db \<Rightarrow> time option \<Rightarrow> db \<times> (state_error, uuid list) res" where
  "reap_expired_leases now d limit = reap_rows now d (map run_id (filter (expired limit) (runs d)))"

definition list_logs_for_run :: "db \<Rightarrow> uuid \<Rightarrow> (state_error, run_log_kind run_log list) res" where
  "list_logs_for_run d rid =
     traverse log_from_row
       (sort_key log_ts (sort_key log_id (filter (\<lambda>l. log_run l = rid) (logs d))))"

end
