(* ===== verification/Automation_Invariants.thy ===== *)
theory Automation_Invariants
  imports Automation_Store
begin

section \<open>What the automation store keeps\<close>

text \<open>
  The committed transactions of the store as the steps of a transition system, the invariant of its
  tables, and what a run goes through. A method that is more than one transaction is the sequence
  of its steps, so that any other step may come between two of them.
\<close>

subsection \<open>Steps\<close>

definition terminal :: "string \<Rightarrow> bool" where
  "terminal s = (s = ''succeeded'' \<or> s = ''failed'' \<or> s = ''cancelled'')"

text \<open>
  The steps. A caller of \<open>finalize_run\<close> gives a final status, as the worker does. The writes of
  \<open>update_automation\<close> and \<open>update_trigger\<close> come with whatever row and instant were read before
  them, and the insertion of a run with any description.
\<close>

inductive store_step ::
  "(string \<Rightarrow> bool) \<Rightarrow> ('z, 'c) cron_lib \<Rightarrow> string \<Rightarrow> db \<Rightarrow> db \<Rightarrow> bool"
  for avail :: "string \<Rightarrow> bool" and L :: "('z, 'c) cron_lib" and dtz :: string
  where
  create_automation_step: "store_step avail L dtz d
      (fst (create_automation fresh now d ws name descr prompt agent model by))"
| update_automation_step: "store_step avail L dtz d
      (fst (update_automation_write L dtz now d current uname udescr uprompt uagent umodel enabled))"
| delete_automation_step: "store_step avail L dtz d (fst (delete_automation d aid))"
| create_trigger_step: "store_step avail L dtz d
      (fst (create_trigger fresh now d aid spec ten next hash))"
| update_trigger_step: "store_step avail L dtz d (update_trigger_write now d tid js ten next)"
| delete_trigger_step: "store_step avail L dtz d (fst (delete_trigger d tid))"
| insert_run_step: "store_step avail L dtz d
      (fst (insert_run_with_session avail sid rid now d nr sched payload))"
| fire_cron_step: "store_step avail L dtz d
      (fst (fire_cron_tx avail sid rid now now2 d a tid sched nxt fpayload))"
| park_trigger_step: "store_step avail L dtz d (park_trigger now d tid)"
| claim_step: "store_step avail L dtz d (fst (claim_due_run d now lease))"
| renew_step: "store_step avail L dtz d (fst (renew_lease now d rid lease))"
| finalize_step: "terminal (run_status_as_str status) \<Longrightarrow>
    store_step avail L dtz d (fst (finalize_run now d rid status kind payload))"
| cancel_step: "store_step avail L dtz d (fst (cancel_run now d rid cpayload))"
| reap_step: "store_step avail L dtz d (fst (reap_row now d rid))"
| append_log_step: "store_step avail L dtz d (fst (append_log now d rid kind payload))"

declare store_step.intros [run_intros]

inductive_cases store_stepE: "store_step avail L dtz d d'"

abbreviation store_steps ::
  "(string \<Rightarrow> bool) \<Rightarrow> ('z, 'c) cron_lib \<Rightarrow> string \<Rightarrow> db \<Rightarrow> db \<Rightarrow> bool" where
  "store_steps avail L dtz \<equiv> (store_step avail L dtz)\<^sup>*\<^sup>*"

subsection \<open>The invariant\<close>

definition prev_before :: "(uuid \<times> uuid option) list \<Rightarrow> bool" where
  "prev_before xs = (\<forall>i < length xs. \<forall>p. snd (xs ! i) = Some p \<longrightarrow> p \<in> fst ` set (take i xs))"

definition run_ok :: "db \<Rightarrow> string automation_run \<Rightarrow> bool" where
  "run_ok d r =
     (run_status_parse (run_status r) \<noteq> None \<and>
      (run_lease r \<noteq> None \<longleftrightarrow> run_status r = ''running'') \<and>
      (\<exists>s \<in> set (sessions d). ses_id s = run_session r \<and> ses_ws s = run_ws r \<and>
                              ses_origin s = ''automation'') \<and>
      run_ws r \<in> set (workspaces d) \<and>
      refs auto_id (run_auto r) (automations d) \<and> refs trg_id (run_trig r) (triggers d))"

definition runs_ok :: "db \<Rightarrow> bool" where
  "runs_ok d =
     (distinct (map run_id (runs d)) \<and> distinct (map run_session (runs d)) \<and>
      prev_before (map (\<lambda>r. (run_id r, run_prev r)) (runs d)) \<and> (\<forall>r \<in> set (runs d). run_ok d r))"

definition logs_ok :: "db \<Rightarrow> bool" where
  "logs_ok d =
     (sorted_wrt (<) (map log_id (logs d)) \<and>
      (\<forall>l \<in> set (logs d). log_id l < log_seq d \<and> log_run l \<in> run_id ` set (runs d) \<and>
                           log_kind_parse (log_kind l) \<noteq> None))"

definition triggers_ok :: "db \<Rightarrow> bool" where
  "triggers_ok d =
     (distinct (map trg_id (triggers d)) \<and>
      (\<forall>t \<in> set (triggers d). trigger_kind_parse (trg_kind t) \<noteq> None \<and>
                               trg_auto t \<in> auto_id ` set (automations d)))"

text \<open>
  The invariant: keys are unique; a run has a session of its own, marked as an automation's, in its
  workspace; it holds a lease exactly while it is running; its previous run was inserted before it;
  references, those of automations to workspaces among them, are to rows that exist; the log is in the order of its identifiers; and every text
  column of an enumeration decodes.
\<close>

definition autos_in_ws :: "db \<Rightarrow> bool" where
  "autos_in_ws d = (\<forall>a \<in> set (automations d). auto_ws a \<in> set (workspaces d))"

definition store_ok :: "db \<Rightarrow> bool" where
  "store_ok d = (distinct (map auto_id (automations d)) \<and> autos_in_ws d \<and> triggers_ok d \<and> runs_ok d \<and> logs_ok d)"

subsection \<open>Enumerations decode what they encode\<close>

lemma run_status_parse_as_str [simp]: "run_status_parse (run_status_as_str s) = Some s"
  by (cases s) (simp_all add: run_status_parse_def)

lemma run_status_parse_Some: "run_status_parse t = Some s \<longleftrightarrow> t = run_status_as_str s"
  by (cases s) (auto simp: run_status_parse_def)

lemma trigger_kind_parse_as_str [simp]: "trigger_kind_parse (trigger_kind_as_str k) = Some k"
  by (cases k) (simp_all add: trigger_kind_parse_def)

lemma log_kind_parse_as_str [simp]: "log_kind_parse (log_kind_as_str k) = Some k"
  by (cases k) (simp_all add: log_kind_parse_def)

lemma spec_from_db_to_db [simp]: "spec_from_db (spec_kind s) (to_db_spec_json s) = Ok s"
  by (cases s) (auto split: option.splits)

lemma run_status_parse_lits [store_simps]:
  "run_status_parse ''queued'' = Some Queued" "run_status_parse ''running'' = Some Running"
  "run_status_parse ''succeeded'' = Some Succeeded" "run_status_parse ''failed'' = Some Failed"
  "run_status_parse ''cancelled'' = Some Cancelled"
  by (simp_all add: run_status_parse_def)

lemma run_from_row_ok:
  "run_status_parse (run_status r) = Some s \<Longrightarrow>
     run_from_row r = Ok (new_run_row s \<lparr>nr_auto = run_auto r, nr_trig = run_trig r, nr_ws = run_ws r,
       nr_title = [], nr_prompt = run_prompt r, nr_agent = run_agent r, nr_model = run_model r,
       nr_prev = run_prev r\<rparr> (run_id r) (run_session r) (run_sched r) (run_created r)
       \<lparr>run_lease := run_lease r, run_updated := run_updated r\<rparr>)"
  by (simp add: run_from_row_def new_run_row_def)

lemma run_from_row_sels:
  assumes "run_from_row r = Inr s"
  shows "run_id s = run_id r" "run_auto s = run_auto r" "run_prev s = run_prev r"
    "run_session s = run_session r" "run_ws s = run_ws r" "run_sched s = run_sched r"
    "run_prompt s = run_prompt r" "run_status_as_str (run_status s) = run_status r"
  using assms by (auto simp: run_from_row_def run_status_parse_Some split: option.splits)

subsection \<open>The parts of a step keep the invariant\<close>

lemma store_okD:
  assumes "store_ok d"
  shows "distinct (map auto_id (automations d))" "triggers_ok d" "runs_ok d" "logs_ok d" "autos_in_ws d"
  using assms by (auto simp: store_ok_def)

lemma prev_before_snoc:
  "prev_before (xs @ [x]) \<longleftrightarrow> prev_before xs \<and> (\<forall>p. snd x = Some p \<longrightarrow> p \<in> fst ` set xs)"
  by (auto simp: prev_before_def nth_append less_Suc_eq)

text \<open>An update of runs that leaves their keys and references alone, or clears a reference.\<close>

lemma store_ok_update_runs:
  assumes ok: "store_ok d"
    and keep: "\<And>r. run_id (f r) = run_id r \<and> run_session (f r) = run_session r \<and> run_ws (f r) = run_ws r \<and>
                run_prev (f r) = run_prev r \<and> run_auto (f r) = run_auto r \<and> run_trig (f r) = run_trig r"
    and st: "\<And>r. P r \<Longrightarrow> run_ok d r \<Longrightarrow> run_status_parse (run_status (f r)) \<noteq> None \<and>
                (run_lease (f r) \<noteq> None \<longleftrightarrow> run_status (f r) = ''running'')"
  shows "store_ok (d\<lparr>runs := set_where P f (runs d)\<rparr>)"
proof -
  let ?d = "d\<lparr>runs := set_where P f (runs d)\<rparr>"
  have r: "runs_ok d" using ok by (rule store_okD)
  have ids: "map run_id (runs ?d) = map run_id (runs d)" "map run_session (runs ?d) = map run_session (runs d)"
    "map (\<lambda>r. (run_id r, run_prev r)) (runs ?d) = map (\<lambda>r. (run_id r, run_prev r)) (runs d)"
    using keep by (simp_all add: set_where_def)
  have "run_ok ?d r'" if mem: "r' \<in> set (runs ?d)" for r'
  proof -
    obtain r where r': "r \<in> set (runs d)" "r' = (if P r then f r else r)"
      using mem by (auto simp: in_set_where)
    then have "run_ok d r" using r by (auto simp: runs_ok_def)
    then show ?thesis using keep [of r] st [of r] r'(2) by (auto simp: run_ok_def)
  qed
  then have "runs_ok ?d" using r ids by (auto simp: runs_ok_def)
  moreover have "run_id ` set (runs ?d) = run_id ` set (runs d)"
    using ids(1) by (metis set_map)
  then have "logs_ok ?d" using store_okD(4) [OF ok] by (simp add: logs_ok_def)
  ultimately show ?thesis using ok by (simp add: store_ok_def triggers_ok_def autos_in_ws_def)
qed

lemma store_ok_insert_log:
  assumes "store_ok d" "insert_log d rid kind payload ts = Inr d'"
  shows "store_ok d'"
proof -
  have r: "rid \<in> run_id ` set (runs d)"
    and d': "d' = d\<lparr>logs := logs d @ [\<lparr>log_id = log_seq d, log_run = rid, log_ts = ts,
              log_kind = log_kind_as_str kind, log_payload = payload\<rparr>], log_seq := Suc (log_seq d)\<rparr>"
    using assms(2) by (auto simp: insert_log_def has_key_iff split: if_splits)
  have "logs_ok d'" using store_okD(4) [OF assms(1)] r
    by (auto simp: logs_ok_def d' sorted_wrt_append less_Suc_eq)
  then show ?thesis using assms(1) by (auto simp: store_ok_def d' triggers_ok_def runs_ok_def run_ok_def autos_in_ws_def)
qed

lemma store_ok_update_triggers:
  assumes "store_ok d"
    and "\<And>t. trg_id (f t) = trg_id t \<and> trg_auto (f t) = trg_auto t \<and> trg_kind (f t) = trg_kind t"
  shows "store_ok (d\<lparr>triggers := set_where P f (triggers d)\<rparr>)"
proof -
  let ?d = "d\<lparr>triggers := set_where P f (triggers d)\<rparr>"
  have ids: "map trg_id (triggers ?d) = map trg_id (triggers d)" using assms(2) by (simp add: set_where_def)
  have ids': "trg_id ` set (set_where P f (triggers d)) = trg_id ` set (triggers d)"
    using assms(2) by (simp add: set_where_image)
  have "triggers_ok ?d"
    using store_okD(2) [OF assms(1)] ids assms(2) by (auto simp: triggers_ok_def in_set_where)
  moreover have "runs_ok ?d"
    using store_okD(3) [OF assms(1)] by (simp add: runs_ok_def run_ok_def refs_cong [OF ids'])
  ultimately show ?thesis using assms(1) by (simp add: store_ok_def logs_ok_def autos_in_ws_def)
qed

lemma store_ok_update_automations:
  assumes "store_ok d" "\<And>a. auto_id (f a) = auto_id a \<and> auto_ws (f a) = auto_ws a"
  shows "store_ok (d\<lparr>automations := set_where P f (automations d)\<rparr>)"
proof -
  let ?d = "d\<lparr>automations := set_where P f (automations d)\<rparr>"
  have ids: "map auto_id (automations ?d) = map auto_id (automations d)"
    using assms(2) by (simp add: set_where_def)
  have ids': "auto_id ` set (set_where P f (automations d)) = auto_id ` set (automations d)"
    using assms(2) by (simp add: set_where_image)
  have "triggers_ok ?d" using store_okD(2) [OF assms(1)] ids' by (simp add: triggers_ok_def)
  moreover have "runs_ok ?d"
    using store_okD(3) [OF assms(1)] by (simp add: runs_ok_def run_ok_def refs_cong [OF ids'])
  moreover have "autos_in_ws ?d"
    using store_okD(5) [OF assms(1)] assms(2) by (auto simp: autos_in_ws_def in_set_where)
  ultimately show ?thesis using assms(1) ids by (simp add: store_ok_def logs_ok_def)
qed

text \<open>Deletion: the rows go, and the references to them are cleared.\<close>

lemma refs_clear:
  "refs key ko rs \<Longrightarrow> (\<And>r. r \<in> set rs \<Longrightarrow> P r \<Longrightarrow> gone (key r)) \<Longrightarrow>
     refs key (clear_ref gone ko) (filter (\<lambda>r. \<not> P r) rs)"
  by (force simp: clear_ref_def refs_def has_key_iff split: option.splits)

lemma runs_ok_map:
  assumes "runs_ok d"
    and "\<And>r. run_id (f r) = run_id r \<and> run_session (f r) = run_session r \<and> run_prev (f r) = run_prev r"
    and "\<And>r. r \<in> set (runs d) \<Longrightarrow> run_ok d r \<Longrightarrow> run_ok d' (f r)" and "runs d' = map f (runs d)"
  shows "runs_ok d'"
  using assms by (auto simp: runs_ok_def comp_def)

lemma distinct_map_filter: "distinct (map f xs) \<Longrightarrow> distinct (map f (filter P xs))"
  by (induction xs) auto

lemma store_ok_drop_triggers:
  assumes "store_ok d"
  shows "store_ok (drop_triggers P d)"
proof -
  let ?d = "drop_triggers P d"
  have "runs_ok ?d"
  proof (rule runs_ok_map [OF store_okD(3) [OF assms]])
    show "runs ?d = map (\<lambda>r. r\<lparr>run_trig := clear_ref (\<lambda>k. list_ex (\<lambda>t. P t \<and> trg_id t = k) (triggers d)) (run_trig r)\<rparr>) (runs d)"
      by (simp add: drop_triggers_def Let_def)
  next
    fix r assume "run_ok d r"
    then show "run_ok ?d (r\<lparr>run_trig := clear_ref (\<lambda>k. list_ex (\<lambda>t. P t \<and> trg_id t = k) (triggers d)) (run_trig r)\<rparr>)"
      by (auto simp: run_ok_def drop_triggers_def Let_def list_ex_iff intro!: refs_clear)
  qed simp
  moreover have "triggers_ok ?d"
    using store_okD(2) [OF assms] by (auto simp: triggers_ok_def drop_triggers_def Let_def distinct_map_filter)
  moreover have "run_id ` set (runs ?d) = run_id ` set (runs d)"
    by (auto simp: drop_triggers_def Let_def image_def)
  then have "logs_ok ?d" using store_okD(4) [OF assms] by (simp add: logs_ok_def) (simp add: drop_triggers_def Let_def)
  ultimately show ?thesis using store_okD(1,5) [OF assms]
    by (simp add: store_ok_def) (simp add: drop_triggers_def Let_def autos_in_ws_def)
qed

lemma store_ok_drop_automation:
  assumes "store_ok d" and none: "\<And>t. t \<in> set (triggers d) \<Longrightarrow> P (trg_auto t) \<Longrightarrow> False"
    and P: "\<And>k. P k \<Longrightarrow> k = aid" and aid: "aid \<in> auto_id ` set (automations d) \<Longrightarrow> P aid"
  shows "store_ok (d\<lparr>automations := filter (\<lambda>a. auto_id a \<noteq> aid) (automations d),
                     runs := map (\<lambda>r. r\<lparr>run_auto := clear_ref P (run_auto r)\<rparr>) (runs d)\<rparr>)"
proof -
  let ?d = "d\<lparr>automations := filter (\<lambda>a. auto_id a \<noteq> aid) (automations d),
              runs := map (\<lambda>r. r\<lparr>run_auto := clear_ref P (run_auto r)\<rparr>) (runs d)\<rparr>"
  have "runs_ok ?d"
  proof (rule runs_ok_map [OF store_okD(3) [OF assms(1)]])
    show "runs ?d = map (\<lambda>r. r\<lparr>run_auto := clear_ref P (run_auto r)\<rparr>) (runs d)" by simp
  next
    fix r assume r: "run_ok d r"
    have "refs auto_id (clear_ref P (run_auto r)) (filter (\<lambda>a. \<not> auto_id a = aid) (automations d))"
      using r aid by (intro refs_clear) (auto simp: run_ok_def)
    then show "run_ok ?d (r\<lparr>run_auto := clear_ref P (run_auto r)\<rparr>)" using r by (simp add: run_ok_def)
  qed simp
  moreover have "triggers_ok ?d"
    using store_okD(2) [OF assms(1)] none aid by (fastforce simp: triggers_ok_def)
  moreover have "run_id ` set (runs ?d) = run_id ` set (runs d)" by (auto simp: image_def)
  then have "logs_ok ?d" using store_okD(4) [OF assms(1)] by (simp add: logs_ok_def)
  ultimately show ?thesis
    using store_okD(1,5) [OF assms(1)] by (simp add: store_ok_def distinct_map_filter autos_in_ws_def)
qed

lemma store_ok_delete_automation:
  assumes "store_ok d"
  shows "store_ok (fst (delete_automation d aid))"
proof -
  let ?n = "affected (\<lambda>a. auto_id a = aid) (automations d)"
  let ?d = "drop_triggers (\<lambda>t. trg_auto t = aid \<and> 0 < ?n) d"
  have ok: "store_ok ?d" by (rule store_ok_drop_triggers [OF assms])
  have same: "automations ?d = automations d" by (simp add: drop_triggers_def Let_def)
  have n: "0 < ?n \<longleftrightarrow> aid \<in> auto_id ` set (automations d)"
    by (auto simp: affected_def filter_empty_conv)
  have "store_ok (?d\<lparr>automations := filter (\<lambda>a. auto_id a \<noteq> aid) (automations ?d),
      runs := map (\<lambda>r. r\<lparr>run_auto := clear_ref (\<lambda>k. k = aid \<and> 0 < ?n) (run_auto r)\<rparr>) (runs ?d)\<rparr>)"
    by (rule store_ok_drop_automation [OF ok]) (use n same in \<open>auto simp: drop_triggers_def Let_def\<close>)
  then show ?thesis by (simp add: delete_automation_def Let_def)
qed

text \<open>Insertions.\<close>

lemma run_ok_mono:
  assumes "run_ok d r" "set (sessions d) \<subseteq> set (sessions d')" "set (workspaces d) \<subseteq> set (workspaces d')"
    "auto_id ` set (automations d) \<subseteq> auto_id ` set (automations d')"
    "trg_id ` set (triggers d) \<subseteq> trg_id ` set (triggers d')"
  shows "run_ok d' r"
  using assms(1,2,3) refs_mono [OF _ assms(4)] refs_mono [OF _ assms(5)] unfolding run_ok_def by blast

lemma store_ok_add_automation:
  assumes "store_ok d" "auto_id a \<notin> auto_id ` set (automations d)" "auto_ws a \<in> set (workspaces d)"
  shows "store_ok (d\<lparr>automations := automations d @ [a]\<rparr>)"
proof -
  let ?d = "d\<lparr>automations := automations d @ [a]\<rparr>"
  have "runs_ok ?d" using store_okD(3) [OF assms(1)] run_ok_mono [of d _ ?d]
    by (auto simp: runs_ok_def)
  then show ?thesis using assms by (auto simp: store_ok_def triggers_ok_def logs_ok_def autos_in_ws_def)
qed

lemma store_ok_add_trigger:
  assumes "store_ok d" "trg_id t \<notin> trg_id ` set (triggers d)" "trigger_kind_parse (trg_kind t) \<noteq> None"
    "trg_auto t \<in> auto_id ` set (automations d)"
  shows "store_ok (d\<lparr>triggers := triggers d @ [t]\<rparr>)"
proof -
  let ?d = "d\<lparr>triggers := triggers d @ [t]\<rparr>"
  have "runs_ok ?d" using store_okD(3) [OF assms(1)] run_ok_mono [of d _ ?d]
    by (auto simp: runs_ok_def)
  then show ?thesis using assms by (auto simp: store_ok_def triggers_ok_def logs_ok_def autos_in_ws_def)
qed

lemma store_ok_add_run:
  assumes ok: "store_ok d" and sid: "ses_id s \<notin> ses_id ` set (sessions d)"
    and s: "ses_id s = run_session r" "ses_ws s = run_ws r" "ses_origin s = ''automation''"
    and r: "run_id r \<notin> run_id ` set (runs d)" "run_session r \<notin> run_session ` set (runs d)"
      "run_status r = ''queued''" "run_lease r = None" "run_ws r \<in> set (workspaces d)"
      "refs auto_id (run_auto r) (automations d)" "refs trg_id (run_trig r) (triggers d)"
      "refs run_id (run_prev r) (runs d)"
  shows "store_ok (d\<lparr>sessions := sessions d @ [s], runs := runs d @ [r]\<rparr>)"
proof -
  let ?d = "d\<lparr>sessions := sessions d @ [s], runs := runs d @ [r]\<rparr>"
  have "run_ok ?d r" using s r by (auto simp: run_ok_def run_status_parse_lits)
  moreover have "run_ok ?d r'" if "r' \<in> set (runs d)" for r'
    using store_okD(3) [OF ok] that run_ok_mono [of d r' ?d] by (auto simp: runs_ok_def)
  moreover have "prev_before (map (\<lambda>r. (run_id r, run_prev r)) (runs d @ [r]))"
    using store_okD(3) [OF ok] r(8)
    by (auto simp: runs_ok_def prev_before_snoc image_image has_key_iff refs_def)
  ultimately have "runs_ok ?d" using store_okD(3) [OF ok] r by (auto simp: runs_ok_def)
  then show ?thesis using ok by (auto simp: store_ok_def triggers_ok_def logs_ok_def autos_in_ws_def)
qed

text \<open>What the insertion of a run does, when it inserts one.\<close>

definition with_new_run ::
  "(string \<Rightarrow> bool) \<Rightarrow> uuid \<Rightarrow> uuid \<Rightarrow> time \<Rightarrow> db \<Rightarrow> new_run \<Rightarrow> time \<Rightarrow> json option \<Rightarrow> db" where
  "with_new_run avail sid rid now d spec sched payload =
     d\<lparr>sessions := sessions d @ [new_session_row avail spec sid now],
       runs := runs d @ [new_run_row ''queued'' spec rid sid sched now],
       logs := logs d @
         [\<lparr>log_id = log_seq d, log_run = rid, log_ts = now, log_kind = ''triggered'', log_payload = payload\<rparr>,
          \<lparr>log_id = Suc (log_seq d), log_run = rid, log_ts = now, log_kind = ''queued'', log_payload = None\<rparr>],
       log_seq := log_seq d + 2\<rparr>"

lemma insert_run_in_Some:
  "insert_run_in avail sid rid now d spec sched payload = Ok (d', Some r) \<longleftrightarrow>
     \<not> has_key ses_id sid (sessions d) \<and> has_key id (nr_ws spec) (workspaces d) \<and>
     gate_open d (nr_auto spec) \<and> run_constraints d spec rid sid \<and>
     r = new_run_row Queued spec rid sid sched now \<and>
     d' = with_new_run avail sid rid now d spec sched payload"
proof -
  have k: "has_key run_id rid (runs d @ [new_run_row ''queued'' spec rid sid sched now])"
    by (simp add: has_key_def new_run_row_def)
  show ?thesis
    by (auto simp: insert_run_in_def Let_def insert_log_def k with_new_run_def)
qed

lemma insert_run_in_None:
  "insert_run_in avail sid rid now d spec sched payload = Ok (d', None) \<longleftrightarrow>
     \<not> has_key ses_id sid (sessions d) \<and> has_key id (nr_ws spec) (workspaces d) \<and>
     \<not> gate_open d (nr_auto spec) \<and>
     d' = d\<lparr>sessions := sessions d @ [new_session_row avail spec sid now]\<rparr>"
proof -
  have k: "has_key run_id rid (runs d @ [new_run_row ''queued'' spec rid sid sched now])"
    by (simp add: has_key_def new_run_row_def)
  show ?thesis
    by (auto simp: insert_run_in_def Let_def insert_log_def k)
qed

lemma insert_run_with_session_cases:
  "(\<exists>r. insert_run_with_session avail sid rid now d spec sched payload =
          (with_new_run avail sid rid now d spec sched payload, Ok (Some r)) \<and>
        insert_run_in avail sid rid now d spec sched payload =
          Ok (with_new_run avail sid rid now d spec sched payload, Some r)) \<or>
   (fst (insert_run_with_session avail sid rid now d spec sched payload) = d \<and>
    (\<forall>r. snd (insert_run_with_session avail sid rid now d spec sched payload) \<noteq> Ok (Some r)))"
proof (cases "insert_run_in avail sid rid now d spec sched payload")
  case (Inr p)
  obtain d' o' where p: "p = (d', o')" by (cases p)
  show ?thesis
  proof (cases o')
    case (Some r)
    then show ?thesis using Inr p insert_run_in_Some [of avail sid rid now d spec sched payload d' r]
      by (auto simp: insert_run_with_session_def)
  qed (simp add: insert_run_with_session_def Inr p)
qed (simp add: insert_run_with_session_def)

lemma gate_open_refs: "gate_open d ao \<Longrightarrow> refs auto_id ao (automations d)"
  by (auto simp: gate_open_def refs_def has_key_iff list_ex_iff split: option.splits)

lemma store_ok_with_new_run:
  assumes ok: "store_ok d"
    and ins: "insert_run_in avail sid rid now d spec sched payload = Ok (d', Some r)"
  shows "store_ok d'"
proof -
  let ?s = "new_session_row avail spec sid now"
  let ?r = "new_run_row ''queued'' spec rid sid sched now"
  let ?d1 = "d\<lparr>sessions := sessions d @ [?s], runs := runs d @ [?r]\<rparr>"
  note c = ins [unfolded insert_run_in_Some]
  have ok1: "store_ok ?d1"
    using c gate_open_refs [of d "nr_auto spec"]
    by (intro store_ok_add_run [OF ok])
      (auto simp: new_session_row_def new_run_row_def has_key_iff run_constraints_def)
  have rid: "has_key run_id rid (runs ?d1)" by (simp add: new_run_row_def has_key_def)
  obtain d2 where d2: "insert_log ?d1 rid LTriggered payload now = Inr d2" "runs d2 = runs ?d1"
    using rid by (simp add: insert_log_def)
  obtain d3 where d3: "insert_log d2 rid LQueued None now = Inr d3"
    using rid d2(2) by (simp add: insert_log_def)
  have "d' = d3" using c d2 d3 rid
    by (auto simp: insert_log_def with_new_run_def split: if_splits)
  then show ?thesis using store_ok_insert_log [OF store_ok_insert_log [OF ok1 d2(1)] d3] by simp
qed

subsection \<open>Every step keeps the invariant\<close>

lemma recompute_rows_keep:
  assumes "recompute_rows L dtz now rows trs = Inr trs'"
  shows "map (\<lambda>t. (trg_id t, trg_auto t, trg_kind t)) trs' = map (\<lambda>t. (trg_id t, trg_auto t, trg_kind t)) trs"
  using assms
proof (induction rows arbitrary: trs)
  case (Cons row rows)
  then obtain n where n: "spec_next_fire L dtz now (trg_spec row) = Inr n" by (auto split: sum.splits)
  have "map (\<lambda>t. (trg_id t, trg_auto t, trg_kind t)) trs' =
        map (\<lambda>t. (trg_id t, trg_auto t, trg_kind t))
          (set_where (\<lambda>t. trg_id t = trg_id row) (set_next_fire now (Some n)) trs)"
    by (rule Cons.IH) (use Cons.prems n in simp)
  then show ?case by (simp add: set_where_map set_next_fire_def)
qed simp

lemma store_ok_same_triggers:
  assumes "store_ok d"
    and e: "map (\<lambda>t. (trg_id t, trg_auto t, trg_kind t)) trs = map (\<lambda>t. (trg_id t, trg_auto t, trg_kind t)) (triggers d)"
  shows "store_ok (d\<lparr>triggers := trs\<rparr>)"
proof -
  have ids: "map trg_id trs = map trg_id (triggers d)"
    using arg_cong [OF e, of "map fst"] by (simp add: comp_def)
  have ids': "trg_id ` set trs = trg_id ` set (triggers d)" using ids by (metis set_map)
  have k: "(\<lambda>t. (trg_auto t, trg_kind t)) ` set trs = (\<lambda>t. (trg_auto t, trg_kind t)) ` set (triggers d)"
    using arg_cong [OF e, of "\<lambda>xs. set (map snd xs)"] by (simp add: image_image)
  have "\<forall>t \<in> set trs. trigger_kind_parse (trg_kind t) \<noteq> None \<and> trg_auto t \<in> auto_id ` set (automations d)"
  proof
    fix t assume "t \<in> set trs"
    then have "(trg_auto t, trg_kind t) \<in> (\<lambda>t. (trg_auto t, trg_kind t)) ` set (triggers d)" using k by blast
    then obtain t' where "t' \<in> set (triggers d)" "trg_auto t' = trg_auto t" "trg_kind t' = trg_kind t" by auto
    then show "trigger_kind_parse (trg_kind t) \<noteq> None \<and> trg_auto t \<in> auto_id ` set (automations d)"
      using store_okD(2) [OF assms(1)] by (metis triggers_ok_def)
  qed
  then have "triggers_ok (d\<lparr>triggers := trs\<rparr>)"
    using store_okD(2) [OF assms(1)] ids by (simp add: triggers_ok_def)
  moreover have "runs_ok (d\<lparr>triggers := trs\<rparr>)"
    using store_okD(3) [OF assms(1)] by (simp add: runs_ok_def run_ok_def refs_cong [OF ids'])
  ultimately show ?thesis using assms(1) by (simp add: store_ok_def logs_ok_def autos_in_ws_def)
qed

lemma store_ok_update_automation:
  assumes "store_ok d"
  shows "store_ok (fst (update_automation_write L dtz now d current n de p ag m en))"
proof -
  define f where "f = (\<lambda>r. r\<lparr>auto_name := the_default (auto_name current) n,
     auto_descr := the_default (auto_descr current) de, auto_prompt := the_default (auto_prompt current) p,
     auto_agent := the_default (auto_agent current) ag, auto_model := the_default (auto_model current) m,
     auto_enabled := the_default (auto_enabled current) en, auto_updated := now\<rparr> :: automation)"
  define d1 where "d1 = d\<lparr>automations := set_where (\<lambda>r. auto_id r = auto_id current) f (automations d)\<rparr>"
  have ok1: "store_ok d1" unfolding d1_def
    by (rule store_ok_update_automations [OF assms]) (simp add: f_def)
  define d2 where "d2 = d1\<lparr>triggers := set_where (\<lambda>t. trg_auto t = auto_id current \<and> trg_kind t = ''cron'')
      (set_next_fire now None) (triggers d1)\<rparr>"
  have ok2: "store_ok d2" unfolding d2_def
    by (rule store_ok_update_triggers [OF ok1]) (simp add: set_next_fire_def)
  define d3 where "d3 = d2\<lparr>runs := set_where (\<lambda>r. run_auto r = Some (auto_id current) \<and> run_status r = ''queued'')
      (\<lambda>r. r\<lparr>run_status := ''cancelled'', run_lease := None, run_updated := now\<rparr>) (runs d2)\<rparr>"
  have ok3: "store_ok d3" unfolding d3_def
    by (rule store_ok_update_runs [OF ok2]) (simp_all add: run_status_parse_lits)
  have ok4: "store_ok d'" if "recompute_cron_next_fire L dtz d1 (auto_id current) now = Inr d'" for d'
    using that recompute_rows_keep store_ok_same_triggers [OF ok1]
    by (fastforce simp: recompute_cron_next_fire_def map_ok_Inr)
  have "fst (update_automation_write L dtz now d current n de p ag m en) \<in>
          {d, d1, d3} \<union> {d'. recompute_cron_next_fire L dtz d1 (auto_id current) now = Inr d'}"
    unfolding update_automation_write_def Let_def
    by (auto simp: d1_def d2_def d3_def f_def split: sum.splits)
  then show ?thesis using assms ok1 ok3 ok4 by auto
qed

lemma insert_log_Ok:
  "insert_log d rid kind payload ts = Inr d' \<Longrightarrow> rid \<in> run_id ` set (runs d) \<and>
     d' = d\<lparr>logs := logs d', log_seq := log_seq d'\<rparr>"
  by (auto simp: insert_log_def has_key_iff split: if_splits)

lemma store_ok_guarded_log:
  assumes ok: "store_ok d1" and d: "store_ok d"
  shows "store_ok (fst (case insert_log d1 rid kind payload now of Err e \<Rightarrow> (d, Err e) | Ok d' \<Rightarrow> (d', Ok b)))"
  using store_ok_insert_log [OF ok] d by (auto split: sum.splits)

lemma store_ok_claim:
  assumes "store_ok d" shows "store_ok (fst (claim_due_run d now lease))"
proof -
  have "store_ok (d\<lparr>runs := set_where (\<lambda>x. run_id x = k \<and> run_status x = ''queued'')
      (\<lambda>x. x\<lparr>run_status := ''running'', run_lease := Some lease, run_updated := now\<rparr>) (runs d)\<rparr>)" for k
    by (rule store_ok_update_runs [OF assms]) (simp_all add: run_status_parse_lits)
  then show ?thesis using assms by (auto simp: claim_due_run_def split: list.splits sum.splits)
qed

lemma store_ok_renew:
  assumes "store_ok d" shows "store_ok (fst (renew_lease now d rid lease))"
  unfolding renew_lease_def Let_def fst_conv
  by (rule store_ok_update_runs [OF assms]) (auto simp: run_status_parse_lits)

lemma store_ok_set_status:
  assumes "store_ok d" "run_status_parse st \<noteq> None" "st \<noteq> ''running''"
  shows "store_ok (d\<lparr>runs := set_where P (\<lambda>r. r\<lparr>run_status := st, run_lease := None, run_updated := now\<rparr>) (runs d)\<rparr>)"
  by (rule store_ok_update_runs [OF assms(1)]) (use assms in auto)

lemma store_step_ok:
  assumes "store_step avail L dtz d d'" "store_ok d"
  shows "store_ok d'"
  using assms
proof (cases rule: store_step.cases)
  case (create_automation_step fresh now ws name descr prompt agent model "by")
  then show ?thesis using assms(2)
    by (auto simp: create_automation_def Let_def has_key_iff intro!: store_ok_add_automation split: sum.splits)
next
  case (create_trigger_step fresh now aid spec ten "next" hash)
  then show ?thesis using assms(2)
    by (auto simp: create_trigger_def Let_def has_key_iff intro!: store_ok_add_trigger)
next
  case (insert_run_step sid rid now nr sched payload)
  then show ?thesis
    using assms(2) insert_run_with_session_cases [of avail sid rid now d nr sched payload]
      store_ok_with_new_run [OF assms(2)] by auto
next
  case (fire_cron_step sid rid now now2 a tid sched nxt fpayload)
  let ?d1 = "d\<lparr>triggers := set_where (\<lambda>t. trg_id t = tid) (set_next_fire now (Some nxt)) (triggers d)\<rparr>"
  have "store_ok ?d1"
    by (rule store_ok_update_triggers [OF assms(2)]) (simp add: set_next_fire_def)
  then show ?thesis
    using assms(2) fire_cron_step store_ok_with_new_run [of ?d1]
    by (auto simp: fire_cron_tx_def Let_def split: sum.splits prod.splits option.splits)
next
  case (finalize_step status now rid kind payload)
  then show ?thesis
    using assms(2) store_ok_guarded_log [OF store_ok_set_status [OF assms(2)] assms(2), of "run_status_as_str status"]
    by (auto simp: finalize_run_def Let_def terminal_def)
next
  case (cancel_step now rid cpayload)
  then show ?thesis
    using assms(2) store_ok_guarded_log [OF store_ok_set_status [OF assms(2)] assms(2), of "''cancelled''"]
    by (auto simp: cancel_run_def Let_def run_status_parse_lits)
next
  case (reap_step now rid)
  then show ?thesis
    using assms(2) store_ok_guarded_log [OF store_ok_set_status [OF assms(2)] assms(2), of "''queued''"]
    by (auto simp: reap_row_def Let_def run_status_parse_lits)
next
  case (append_log_step now rid kind payload)
  then show ?thesis using store_ok_guarded_log [OF assms(2,2)] by (auto simp: append_log_def)
qed (use assms(2) in \<open>auto intro: store_ok_update_automation store_ok_delete_automation store_ok_claim
       store_ok_renew store_ok_update_triggers store_ok_drop_triggers
     simp: update_trigger_write_def park_trigger_def set_next_fire_def delete_trigger_def\<close>)

end
