(* ===== verification/Automation_Lifecycle.thy ===== *)
theory Automation_Lifecycle
  imports Automation_Invariants
begin

section \<open>The life of a run and of an automation\<close>

text \<open>
  What the steps of the store do to the runs that are there (their snapshot never changes, their
  status moves along the arrows of the state machine, a finished run stays finished), and the
  functional behaviour of claiming, disabling, firing, retrying and reaping.
\<close>

subsection \<open>The state machine of a run\<close>

text \<open>The status of a run before and after one step.\<close>

definition transition :: "string \<Rightarrow> string \<Rightarrow> bool" where
  "transition s s' =
     (s' = s \<or>
      (s = ''queued'' \<and> (s' = ''running'' \<or> s' = ''cancelled'')) \<or>
      (s = ''running'' \<and> (s' = ''queued'' \<or> terminal s')))"

text \<open>
  One step of a run: its identity and its snapshot stay, its links to the automation and the
  trigger stay or are cleared, its status makes a transition, and a terminal run is otherwise
  left alone.
\<close>

definition evolve :: "string automation_run \<Rightarrow> string automation_run \<Rightarrow> bool" where
  "evolve r r' =
     (run_id r' = run_id r \<and> run_session r' = run_session r \<and> run_ws r' = run_ws r \<and>
      run_prompt r' = run_prompt r \<and> run_agent r' = run_agent r \<and> run_model r' = run_model r \<and>
      run_sched r' = run_sched r \<and> run_prev r' = run_prev r \<and> run_created r' = run_created r \<and>
      (run_auto r' = run_auto r \<or> run_auto r' = None) \<and> (run_trig r' = run_trig r \<or> run_trig r' = None) \<and>
      transition (run_status r) (run_status r') \<and>
      (terminal (run_status r) \<longrightarrow> run_lease r' = run_lease r \<and> run_updated r' = run_updated r))"

definition evolves :: "(string automation_run \<Rightarrow> string automation_run \<Rightarrow> bool) \<Rightarrow> db \<Rightarrow> db \<Rightarrow> bool" where
  "evolves R d d' =
     (prefix (logs d) (logs d') \<and>
      length (runs d) \<le> length (runs d') \<and>
      (\<forall>i < length (runs d). R (runs d ! i) (runs d' ! i)))"

lemma evolve_refl [simp]: "evolve r r"
  by (simp add: evolve_def transition_def)

lemma evolves_refl [simp]: "evolves evolve d d"
  by (simp add: evolves_def)

lemma terminal_lits [simp]:
  "terminal ''queued'' = False" "terminal ''running'' = False" "terminal ''succeeded''"
  "terminal ''failed''" "terminal ''cancelled''"
  by (simp_all add: terminal_def)

text \<open>The three ways a step touches runs and logs.\<close>

lemma evolves_same: "runs d' = runs d \<Longrightarrow> logs d' = logs d \<Longrightarrow> evolves evolve d d'"
  by (simp add: evolves_def)

lemma evolves_map:
  assumes "runs d' = map f (runs d)" "\<And>r. r \<in> set (runs d) \<Longrightarrow> evolve r (f r)" "prefix (logs d) (logs d')"
  shows "evolves evolve d d'"
  using assms by (simp add: evolves_def)

lemma evolves_append:
  assumes "runs d' = runs d @ new" "prefix (logs d) (logs d')"
  shows "evolves evolve d d'"
  using assms by (simp add: evolves_def nth_append)

lemma evolves_set_where:
  assumes "runs d' = set_where P f (runs d)" "\<And>r. P r \<Longrightarrow> evolve r (f r)" "prefix (logs d) (logs d')"
  shows "evolves evolve d d'"
  by (rule evolves_map [of _ "\<lambda>r. if P r then f r else r"]) (use assms in \<open>simp_all add: set_where_def\<close>)

lemma insert_log_runs:
  assumes "insert_log d rid kind payload ts = Inr d'"
  shows "runs d' = runs d" "prefix (logs d) (logs d')"
  using assms by (auto simp: insert_log_def split: if_splits)

lemma evolves_guarded_log:
  assumes "\<And>r. P r \<Longrightarrow> evolve r (f r)"
  shows "evolves evolve d (fst (case insert_log (d\<lparr>runs := set_where P f (runs d)\<rparr>) rid kind payload now of
           Err e \<Rightarrow> (d, Err e) | Ok d' \<Rightarrow> (d', Ok b)))"
proof (cases "insert_log (d\<lparr>runs := set_where P f (runs d)\<rparr>) rid kind payload now")
  case (Inr d')
  from insert_log_runs [OF this] show ?thesis
    by (auto simp: Inr intro!: evolves_set_where [of _ P f] assms)
qed simp

lemma evolve_clear: "evolve r (r\<lparr>run_trig := clear_ref g (run_trig r)\<rparr>)"
  "evolve r (r\<lparr>run_auto := clear_ref g (run_auto r)\<rparr>)"
  by (auto simp: evolve_def transition_def clear_ref_def split: option.splits)

lemma evolves_with_new_run:
  "insert_run_in avail sid rid now d spec sched payload = Ok (d', Some r) \<Longrightarrow> evolves evolve d d'"
  by (rule evolves_append) (auto simp: insert_run_in_Some with_new_run_def)

lemma runs_update_automation:
  fixes d :: db
  defines "P \<equiv> \<lambda>aid r. run_auto r = Some aid \<and> run_status r = ''queued''"
    and "f \<equiv> \<lambda>now r. r\<lparr>run_status := ''cancelled'', run_lease := None, run_updated := now\<rparr>"
  shows "logs (fst (update_automation_write L dtz now d current n de p ag m en)) = logs d \<and>
    (runs (fst (update_automation_write L dtz now d current n de p ag m en)) = runs d \<or>
     runs (fst (update_automation_write L dtz now d current n de p ag m en)) =
       set_where (P (auto_id current)) (f now) (runs d))"
proof -
  have r: "runs d2 = runs d1" "logs d2 = logs d1"
    if "recompute_cron_next_fire L dtz d1 aid now = Inr d2" for d1 d2 aid
    using that by (auto simp: recompute_cron_next_fire_def map_ok_Inr)
  show ?thesis
    unfolding update_automation_write_def Let_def P_def f_def
    by (auto split: sum.splits dest: r)
qed

lemma evolves_update_automation:
  "evolves evolve d (fst (update_automation_write L dtz now d current n de p ag m en))"
proof -
  let ?P = "\<lambda>r. run_auto r = Some (auto_id current) \<and> run_status r = ''queued''"
  let ?f = "\<lambda>r. r\<lparr>run_status := ''cancelled'', run_lease := None, run_updated := now\<rparr>"
  have "evolve r (?f r)" if "?P r" for r using that by (simp add: evolve_def transition_def)
  note sw = evolves_set_where [of "fst (update_automation_write L dtz now d current n de p ag m en)" ?P ?f d, OF _ this]
  from runs_update_automation [of L dtz now d current n de p ag m en] show ?thesis
    by (elim conjE disjE) (rule evolves_same sw; simp)+
qed

lemma evolves_drop_triggers: "evolves evolve d (drop_triggers P d)"
  by (rule evolves_map) (auto simp: drop_triggers_def Let_def evolve_clear)

lemma evolves_delete_automation: "evolves evolve d (fst (delete_automation d aid))"
proof (rule evolves_map)
  let ?n = "affected (\<lambda>a. auto_id a = aid) (automations d)"
  let ?g = "\<lambda>k. list_ex (\<lambda>t. (trg_auto t = aid \<and> 0 < ?n) \<and> trg_id t = k) (triggers d)"
  let ?f = "\<lambda>r. r\<lparr>run_trig := clear_ref ?g (run_trig r), run_auto := clear_ref (\<lambda>k. k = aid \<and> 0 < ?n) (run_auto r)\<rparr>"
  show "runs (fst (delete_automation d aid)) = map ?f (runs d)"
    by (simp add: delete_automation_def drop_triggers_def Let_def)
  show "evolve r (?f r)" for r
    by (auto simp: evolve_def transition_def clear_ref_def split: option.splits)
  show "prefix (logs d) (logs (fst (delete_automation d aid)))"
    by (simp add: delete_automation_def drop_triggers_def Let_def)
qed

lemma evolves_claim: "evolves evolve d (fst (claim_due_run d now lease))"
  by (auto simp: claim_due_run_def evolve_def transition_def split: list.splits sum.splits
      intro!: evolves_set_where)

lemma evolves_status:
  assumes "transition s s'" "\<not> terminal s"
  shows "run_status r = s \<Longrightarrow> evolve r (r\<lparr>run_status := s', run_lease := l, run_updated := now\<rparr>)"
  using assms by (simp add: evolve_def)

lemma store_step_evolves:
  assumes "store_step avail L dtz d d'"
  shows "evolves evolve d d'"
  using assms
proof (cases rule: store_step.cases)
  case (create_automation_step fresh now ws name descr prompt agent model "by")
  then show ?thesis by (auto simp: create_automation_def Let_def intro!: evolves_same split: sum.splits)
next
  case (create_trigger_step fresh now aid spec ten "next" hash)
  then show ?thesis by (auto simp: create_trigger_def Let_def intro!: evolves_same)
next
  case (insert_run_step sid rid now nr sched payload)
  then show ?thesis
    using insert_run_with_session_cases [of avail sid rid now d nr sched payload] evolves_with_new_run
    by fastforce
next
  case (fire_cron_step sid rid now now2 a tid sched nxt fpayload)
  have "evolves evolve d d'"
    if "insert_run_in avail sid rid now2 (d\<lparr>triggers := trs\<rparr>) nr sched pl = Ok (d', Some r)"
    for trs nr pl d' r
    using evolves_with_new_run [OF that] by (simp add: evolves_def)
  then show ?thesis using fire_cron_step
    by (auto simp: fire_cron_tx_def Let_def split: sum.splits prod.splits option.splits)
next
  case (renew_step now rid lease)
  then show ?thesis
    by (auto simp: renew_lease_def Let_def evolve_def transition_def intro!: evolves_set_where)
next
  case (finalize_step status now rid kind payload)
  have "evolve r (r\<lparr>run_status := run_status_as_str status, run_lease := None, run_updated := now\<rparr>)"
    if "run_id r = rid \<and> run_status r = ''running''" for r
    using that finalize_step(2) by (auto simp: transition_def intro!: evolves_status [of "''running''"])
  note e = evolves_guarded_log [where P = "\<lambda>r. run_id r = rid \<and> run_status r = ''running''", OF this]
  show ?thesis
    by (simp add: e finalize_step(1) finalize_run_def Let_def)
next
  case (cancel_step now rid cpayload)
  have "evolve r (r\<lparr>run_status := ''cancelled'', run_lease := None, run_updated := now\<rparr>)"
    if "run_id r = rid \<and> (run_status r = ''queued'' \<or> run_status r = ''running'')" for r
    using that by (auto simp: evolve_def transition_def)
  note e = evolves_guarded_log [where P = "\<lambda>r. run_id r = rid \<and> (run_status r = ''queued'' \<or> run_status r = ''running'')", OF this]
  show ?thesis
    by (simp add: e cancel_step cancel_run_def Let_def)
next
  case (reap_step now rid)
  have "evolve r (r\<lparr>run_status := ''queued'', run_lease := None, run_updated := now\<rparr>)"
    if "run_id r = rid \<and> run_status r = ''running''" for r
    using that by (auto simp: evolve_def transition_def)
  note e = evolves_guarded_log [where P = "\<lambda>r. run_id r = rid \<and> run_status r = ''running''", OF this]
  show ?thesis
    by (simp add: e reap_step reap_row_def Let_def)
next
  case (append_log_step now rid kind payload)
  then show ?thesis
    by (auto simp: append_log_def evolves_def dest: insert_log_runs split: sum.splits)
qed (auto intro: evolves_update_automation evolves_delete_automation evolves_claim evolves_drop_triggers
       evolves_same simp: update_trigger_write_def park_trigger_def delete_trigger_def)

lemma evolve_terminal:
  assumes "evolve r r'" "terminal (run_status r)"
  shows "run_status r' = run_status r"
  using assms by (auto simp: evolve_def transition_def)

text \<open>What stays of a run over any number of steps.\<close>

definition same_run :: "string automation_run \<Rightarrow> string automation_run \<Rightarrow> bool" where
  "same_run r r' =
     (run_id r' = run_id r \<and> run_session r' = run_session r \<and> run_ws r' = run_ws r \<and>
      run_prompt r' = run_prompt r \<and> run_agent r' = run_agent r \<and> run_model r' = run_model r \<and>
      run_sched r' = run_sched r \<and> run_prev r' = run_prev r \<and> run_created r' = run_created r \<and>
      (run_auto r' = run_auto r \<or> run_auto r' = None) \<and> (run_trig r' = run_trig r \<or> run_trig r' = None) \<and>
      (terminal (run_status r) \<longrightarrow> run_status r' = run_status r \<and> run_lease r' = run_lease r \<and>
                                    run_updated r' = run_updated r))"

lemma same_run_step: "same_run r r' \<Longrightarrow> evolve r' r'' \<Longrightarrow> same_run r r''"
  using evolve_terminal [of r' r''] by (auto simp: same_run_def evolve_def)

lemma same_run_refl [simp]: "same_run r r"
  by (simp add: same_run_def)

lemma evolves_same_run_trans:
  assumes "evolves same_run d d'" "evolves evolve d' d''"
  shows "evolves same_run d d''"
  unfolding evolves_def
proof (intro conjI allI impI)
  show "prefix (logs d) (logs d'')" using assms by (auto simp: evolves_def intro: prefix_order.trans)
  show "length (runs d) \<le> length (runs d'')" using assms by (simp add: evolves_def)
  fix i assume "i < length (runs d)"
  then have "same_run (runs d ! i) (runs d' ! i)" "evolve (runs d' ! i) (runs d'' ! i)"
    using assms by (simp_all add: evolves_def)
  then show "same_run (runs d ! i) (runs d'' ! i)" by (rule same_run_step)
qed

lemma store_steps_evolves: "store_steps avail L dtz d d' \<Longrightarrow> evolves same_run d d'"
proof (induction rule: rtranclp_induct)
  case base
  then show ?case by (simp add: evolves_def)
next
  case (step d' d'')
  then show ?case using evolves_same_run_trans store_step_evolves by blast
qed

lemma store_steps_ok: "store_steps avail L dtz d d' \<Longrightarrow> store_ok d \<Longrightarrow> store_ok d'"
  by (induction rule: rtranclp_induct) (auto intro: store_step_ok)

subsection \<open>Properties of every history\<close>

text \<open>
  C11. Integrity. Whatever transactions run, in whatever order and with whatever arguments, the
  tables keep their invariant: run, trigger and automation identifiers are unique; every run has
  a session of its own, in the run's workspace and marked as an automation's; a run holds a lease
  exactly while its status is \<open>running\<close>; a run's previous run was inserted before it; every
  reference is to a row that exists; the log is in the order of its identifiers; and every status
  and kind column decodes.
\<close>

theorem store_integrity:
  assumes "store_ok d" "store_steps avail L dtz d d'"
  shows "distinct (map auto_id (automations d')) \<and> distinct (map trg_id (triggers d')) \<and>
         distinct (map run_id (runs d')) \<and> distinct (map run_session (runs d')) \<and>
         (\<forall>a \<in> set (automations d'). auto_ws a \<in> set (workspaces d')) \<and>
         (\<forall>t \<in> set (triggers d'). trigger_kind_parse (trg_kind t) \<noteq> None \<and>
            trg_auto t \<in> auto_id ` set (automations d')) \<and>
         (\<forall>r \<in> set (runs d').
            run_status_parse (run_status r) \<noteq> None \<and>
            (run_lease r \<noteq> None \<longleftrightarrow> run_status r = ''running'') \<and>
            (\<exists>s \<in> set (sessions d'). ses_id s = run_session r \<and> ses_ws s = run_ws r \<and>
               ses_origin s = ''automation'') \<and>
            run_ws r \<in> set (workspaces d') \<and>
            refs auto_id (run_auto r) (automations d') \<and> refs trg_id (run_trig r) (triggers d')) \<and>
         (\<forall>i < length (runs d'). \<forall>p. run_prev (runs d' ! i) = Some p \<longrightarrow>
            p \<in> run_id ` set (take i (runs d'))) \<and>
         sorted_wrt (<) (map log_id (logs d')) \<and>
         (\<forall>l \<in> set (logs d'). log_kind_parse (log_kind l) \<noteq> None \<and>
            log_run l \<in> run_id ` set (runs d'))"
proof -
  note ok = store_okD [OF store_steps_ok [OF assms(2,1)]]
  have "prev_before (map (\<lambda>r. (run_id r, run_prev r)) (runs d'))" using ok(3) by (simp add: runs_ok_def)
  then have "\<forall>i < length (runs d'). \<forall>p. run_prev (runs d' ! i) = Some p \<longrightarrow>
      p \<in> run_id ` set (take i (runs d'))"
    by (simp add: prev_before_def take_map image_image)
  then show ?thesis
    using ok by (simp add: triggers_ok_def runs_ok_def logs_ok_def run_ok_def autos_in_ws_def)
qed

text \<open>A workspace with a user, and nothing else in it.\<close>

definition empty_db :: db where
  "empty_db = \<lparr>workspaces = [1], users = [7], sessions = [], automations = [], triggers = [], runs = [],
               logs = [], log_seq = 1\<rparr>"

lemma empty_db_ok: "store_ok empty_db"
  by (simp add: store_ok_def triggers_ok_def runs_ok_def logs_ok_def prev_before_def empty_db_def autos_in_ws_def)

definition demo_run :: new_run where
  "demo_run = \<lparr>nr_auto = None, nr_trig = None, nr_ws = 1, nr_title = ''t'', nr_prompt = ''go'',
               nr_agent = ''coworker'', nr_model = None, nr_prev = None\<rparr>"

definition demo_db :: db where
  "demo_db = fst (claim_due_run
     (fst (insert_run_with_session (\<lambda>_. True) 100 200 10 empty_db demo_run 5 None)) 20 200)"

lemma demo_steps: "store_steps (\<lambda>_. True) L dtz empty_db demo_db"
  unfolding demo_db_def
  by (rule rtranclp.rtrancl_into_rtrancl [OF r_into_rtranclp]) (rule run_intros)+

lemmas demo_eval = demo_db_def insert_run_with_session_def insert_run_in_def empty_db_def demo_run_def
  has_key_def gate_open_def run_constraints_def new_run_row_def new_session_row_def insert_log_def
  claim_due_run_def due_runs_def run_from_row_def run_status_parse_def affected_def set_where_def

lemma demo_runs: "runs demo_db = [new_run_row ''running'' demo_run 200 100 5 10
    \<lparr>run_lease := Some 200, run_updated := 20\<rparr>]"
  by (simp add: demo_eval)

theorem store_integrity_witness:
  "store_ok empty_db \<and> distinct (map run_id (runs demo_db)) \<and>
   run_status (hd (runs demo_db)) = ''running'' \<and> run_lease (hd (runs demo_db)) = Some 200"
  using store_integrity [OF empty_db_ok demo_steps] empty_db_ok
  by (simp add: demo_runs new_run_row_def)


definition demo_done :: db where
  "demo_done = fst (finalize_run 30 demo_db 200 Succeeded LSucceeded None)"

lemma demo_done_step: "store_step avail L dtz demo_db demo_done"
  unfolding demo_done_def by (rule finalize_step) simp

lemma demo_done_status: "run_status (runs demo_done ! 0) = ''succeeded''"
  by (simp add: demo_done_def demo_eval finalize_run_def Let_def)


end
