(* ===== verification/Automation_Behaviour.thy ===== *)
theory Automation_Behaviour
  imports Automation_Lifecycle
begin

section \<open>What the operations of the automation store do\<close>

text \<open>
  The functional behaviour of the operations the scheduler and the workers rest on: claiming,
  disabling, firing, retrying, reaping and listing.
\<close>

subsection \<open>Claiming\<close>

lemma run_ok_decodes:
  "store_ok d \<Longrightarrow> r \<in> set (runs d) \<Longrightarrow> \<exists>s. run_from_row r = Inr s"
  using store_okD(3) by (fastforce simp: runs_ok_def run_ok_def run_from_row_def)

lemma due_runs_hd:
  assumes "due_runs d now = r # rs"
  shows "r \<in> set (runs d)" "run_status r = ''queued''" "run_sched r \<le> now"
    "\<And>x. x \<in> set (runs d) \<Longrightarrow> run_status x = ''queued'' \<Longrightarrow> run_sched r \<le> run_sched x"
proof -
  have s: "sort_key run_sched (filter (\<lambda>r. run_status r = ''queued'' \<and> run_sched r \<le> now) (runs d)) = r # rs"
    using assms by (simp add: due_runs_def)
  show "r \<in> set (runs d)" "run_status r = ''queued''" "run_sched r \<le> now"
    using sort_key_hd_least(1) [OF s] by auto
  show "run_sched r \<le> run_sched x" if "x \<in> set (runs d)" "run_status x = ''queued''" for x
    using sort_key_hd_least [OF s] that by (cases "run_sched x \<le> now") auto
qed

lemma due_runs_Nil:
  "due_runs d now = [] \<longleftrightarrow> (\<forall>r \<in> set (runs d). run_status r = ''queued'' \<longrightarrow> now < run_sched r)"
  by (auto simp: due_runs_def sort_key_Nil filter_empty_conv not_le)

lemma claim_due_first:
  assumes "store_ok d" "due_runs d now = r # rs"
  shows "\<exists>run. run_from_row r = Ok run \<and>
    claim_due_run d now lease =
      (d\<lparr>runs := map (\<lambda>x. if run_id x = run_id r
             then x\<lparr>run_status := ''running'', run_lease := Some lease, run_updated := now\<rparr> else x) (runs d)\<rparr>,
       Ok (Some (run\<lparr>run_status := Running, run_lease := Some lease\<rparr>)))"
proof -
  note h = due_runs_hd [OF assms(2)]
  obtain run where run: "run_from_row r = Inr run" using run_ok_decodes [OF assms(1) h(1)] by blast
  then have rid: "run_id run = run_id r" by (rule run_from_row_sels)
  have dist: "distinct (map run_id (runs d))" using assms by (simp add: store_ok_def runs_ok_def)
  have one: "affected (\<lambda>x. run_id x = run_id r \<and> run_status x = ''queued'') (runs d) = 1"
    using affected_key_one [OF dist, of "run_id r" "\<lambda>x. run_status x = ''queued''"] h(1,2) by auto
  show ?thesis
    using one run by (simp add: claim_due_run_def assms(2) rid set_where_key [OF dist h(1)] h(2))
qed

text \<open>
  C13. Claiming. The worker's claim takes a queued run that is due, and one whose scheduled instant
  no queued run's precedes: exactly that row becomes \<open>running\<close> with the given lease, everything
  else is left as it was, and the run returned is the row as claimed. When no queued run is due it
  returns none and changes nothing.
\<close>

theorem claim_takes_oldest_due:
  assumes "store_ok d"
  shows "if \<exists>r \<in> set (runs d). run_status r = ''queued'' \<and> run_sched r \<le> now
         then \<exists>r \<in> set (runs d). \<exists>run.
                run_status r = ''queued'' \<and> run_sched r \<le> now \<and>
                (\<forall>x \<in> set (runs d). run_status x = ''queued'' \<longrightarrow> run_sched r \<le> run_sched x) \<and>
                run_from_row r = Ok run \<and>
                claim_due_run d now lease =
                  (d\<lparr>runs := map (\<lambda>x. if run_id x = run_id r
                                      then x\<lparr>run_status := ''running'', run_lease := Some lease,
                                             run_updated := now\<rparr> else x) (runs d)\<rparr>,
                   Ok (Some (run\<lparr>run_status := Running, run_lease := Some lease\<rparr>)))
         else claim_due_run d now lease = (d, Ok None)"
proof (cases "due_runs d now")
  case Nil
  then have "\<not> (\<exists>r \<in> set (runs d). run_status r = ''queued'' \<and> run_sched r \<le> now)"
    by (auto simp: due_runs_Nil)
  then show ?thesis using Nil by (simp add: claim_due_run_def)
next
  case (Cons r rs)
  note h = due_runs_hd [OF Cons]
  obtain run where run: "run_from_row r = Ok run" and "claim_due_run d now lease =
      (d\<lparr>runs := map (\<lambda>x. if run_id x = run_id r
             then x\<lparr>run_status := ''running'', run_lease := Some lease, run_updated := now\<rparr> else x) (runs d)\<rparr>,
       Ok (Some (run\<lparr>run_status := Running, run_lease := Some lease\<rparr>)))"
    using claim_due_first [OF assms Cons] by blast
  moreover have "\<exists>r \<in> set (runs d). run_status r = ''queued'' \<and> run_sched r \<le> now" using h by blast
  ultimately show ?thesis
    unfolding if_P [OF \<open>\<exists>r \<in> set (runs d). run_status r = ''queued'' \<and> run_sched r \<le> now\<close>]
    by (intro bexI [OF _ h(1)] exI [of _ run] conjI ballI impI h(2,3) run h(4))
qed

definition demo_queued :: db where
  "demo_queued = fst (insert_run_with_session (\<lambda>_. True) 100 200 10 empty_db demo_run 5 None)"

lemma demo_queued_ok: "store_ok demo_queued"
proof -
  have "store_steps (\<lambda>_. True) minutely ''UTC'' empty_db demo_queued"
    unfolding demo_queued_def by (rule r_into_rtranclp, rule run_intros)
  then show ?thesis using store_steps_ok empty_db_ok by blast
qed

lemma demo_queued_runs: "runs demo_queued = [new_run_row ''queued'' demo_run 200 100 5 10]"
  by (simp add: demo_queued_def demo_eval)

theorem claim_takes_oldest_due_witness:
  "store_ok demo_queued \<and> snd (claim_due_run demo_queued 4 200) = Ok None \<and>
   (case snd (claim_due_run demo_queued 20 200) of
      Ok (Some run) \<Rightarrow> run_id run = 200 \<and> run_status run = Running \<and> run_lease run = Some 200
    | _ \<Rightarrow> False)"
proof (intro conjI demo_queued_ok)
  show "snd (claim_due_run demo_queued 4 200) = Ok None"
    using claim_takes_oldest_due [OF demo_queued_ok, of 4 200]
    by (simp add: demo_queued_runs new_run_row_def)
  show "case snd (claim_due_run demo_queued 20 200) of
      Ok (Some run) \<Rightarrow> run_id run = 200 \<and> run_status run = Running \<and> run_lease run = Some 200
    | _ \<Rightarrow> False"
    using claim_takes_oldest_due [OF demo_queued_ok, of 20 200]
    by (auto simp: demo_queued_runs new_run_row_def run_from_row_def run_status_parse_lits)
qed

subsection \<open>Disabling an automation\<close>

definition disabled :: "db \<Rightarrow> uuid \<Rightarrow> bool" where
  "disabled d aid = (\<forall>a \<in> set (automations d). auto_id a = aid \<longrightarrow> \<not> auto_enabled a)"

lemma disabled_gate: "gate_open d (Some aid) \<longleftrightarrow> \<not> disabled d aid"
  by (auto simp: gate_open_def disabled_def list_ex_iff)

lemma insert_disabled:
  assumes "disabled d aid" "nr_auto spec = Some aid"
  shows "fst (insert_run_with_session avail sid rid now d spec sched payload) = d"
    "snd (insert_run_with_session avail sid rid now d spec sched payload) \<noteq> Ok (Some r)"
  using insert_run_with_session_cases [of avail sid rid now d spec sched payload] assms disabled_gate
  by (auto simp: insert_run_in_Some)

lemma update_automation_disable:
  assumes "auto_enabled current"
    and "snd (update_automation_write L dtz now d current n de p ag m (Some False)) = Ok a"
  shows "\<exists>f. (\<forall>r. auto_id (f r) = auto_id r \<and> \<not> auto_enabled (f r)) \<and>
    fst (update_automation_write L dtz now d current n de p ag m (Some False)) =
      d\<lparr>automations := set_where (\<lambda>r. auto_id r = auto_id current) f (automations d),
        triggers := set_where (\<lambda>t. trg_auto t = auto_id current \<and> trg_kind t = ''cron'')
                      (set_next_fire now None) (triggers d),
        runs := set_where (\<lambda>r. run_auto r = Some (auto_id current) \<and> run_status r = ''queued'')
                  (\<lambda>r. r\<lparr>run_status := ''cancelled'', run_lease := None, run_updated := now\<rparr>) (runs d)\<rparr>"
proof -
  have v: "validate_agent_type (the_default (auto_agent current) ag) = Ok ()"
    using assms(2) by (auto simp: update_automation_write_def Let_def split: sum.splits)
  let ?f = "\<lambda>r. r\<lparr>auto_name := the_default (auto_name current) n, auto_descr := the_default (auto_descr current) de,
     auto_prompt := the_default (auto_prompt current) p, auto_agent := the_default (auto_agent current) ag,
     auto_model := the_default (auto_model current) m, auto_enabled := False, auto_updated := now\<rparr> :: automation"
  show ?thesis
    by (rule exI [of _ ?f]) (simp add: update_automation_write_def Let_def v assms(1))
qed

lemma fire_disabled:
  assumes "disabled d (auto_id a)"
  shows "fst (fire_cron_trigger avail sid rid t1 t2 t3 d a tid sched nxt pl) \<in> {d, park_trigger t3 d tid}"
proof -
  let ?d1 = "d\<lparr>triggers := set_where (\<lambda>t. trg_id t = tid) (set_next_fire t1 (Some nxt)) (triggers d)\<rparr>"
  let ?ins = "insert_run_in avail sid rid t2 ?d1 (from_automation a (Some tid) None) sched (Some pl)"
  have "disabled ?d1 (auto_id a)" using assms by (simp add: disabled_def)
  then have no: "?ins \<noteq> Ok (d2, Some r)" for d2 r
    by (auto simp: insert_run_in_Some from_automation_def disabled_gate)
  show ?thesis
  proof (cases ?ins)
    case (Inl e)
    then show ?thesis by (simp add: fire_cron_trigger_def fire_cron_tx_def Let_def)
  next
    case (Inr q)
    then obtain d2 where "?ins = Ok (d2, None)" using no by (cases q) (metis option.exhaust)
    then show ?thesis by (simp add: fire_cron_trigger_def fire_cron_tx_def Let_def)
  qed
qed

text \<open>
  C14. Disabling. When \<open>update_automation\<close> turns an enabled automation off and succeeds, then in
  the state it leaves the automation is off, none of its runs is queued, and none of its cron
  triggers has a fire instant, while its running and finished runs, and all runs of others, are
  as before. And in any state where an automation is off, no run of it can be inserted, whatever
  the caller read before (a manual run, a webhook, a retry or a cron tick all leave runs,
  sessions and log as they are), and none of its triggers is due.
\<close>

theorem disable_stops_automation:
  "(\<forall>d current a.
      auto_enabled current \<and> en = Some False \<and>
      snd (update_automation_write L dtz now d current n de p ag m en) = Ok a \<longrightarrow>
      (let d' = fst (update_automation_write L dtz now d current n de p ag m en);
           aid = auto_id current in
       disabled d' aid \<and>
       (\<forall>r \<in> set (runs d'). \<not> (run_auto r = Some aid \<and> run_status r = ''queued'')) \<and>
       (\<forall>t \<in> set (triggers d'). trg_auto t = aid \<and> trg_kind t = ''cron'' \<longrightarrow> trg_next t = None) \<and>
       (\<forall>i < length (runs d). run_auto (runs d ! i) \<noteq> Some aid \<or> run_status (runs d ! i) \<noteq> ''queued'' \<longrightarrow>
          runs d' ! i = runs d ! i))) \<and>
   (\<forall>d aid. disabled d aid \<longrightarrow>
      (\<forall>spec sid rid at sched payload. nr_auto spec = Some aid \<longrightarrow>
         fst (insert_run_with_session avail sid rid at d spec sched payload) = d) \<and>
      (\<forall>a sid rid t1 t2 t3 tid sched nxt pl. auto_id a = aid \<longrightarrow>
         runs (fst (fire_cron_trigger avail sid rid t1 t2 t3 d a tid sched nxt pl)) = runs d \<and>
         logs (fst (fire_cron_trigger avail sid rid t1 t2 t3 d a tid sched nxt pl)) = logs d \<and>
         sessions (fst (fire_cron_trigger avail sid rid t1 t2 t3 d a tid sched nxt pl)) = sessions d) \<and>
      (\<forall>t at. due_cron d at t \<longrightarrow> trg_auto t \<noteq> aid))"
proof (intro conjI allI impI; (elim conjE)?)
  fix d current a
  assume en: "auto_enabled current" "en = Some False"
    and ok: "snd (update_automation_write L dtz now d current n de p ag m en) = Ok a"
  let ?d' = "fst (update_automation_write L dtz now d current n de p ag m en)"
  let ?aid = "auto_id current"
  obtain f where f: "\<forall>r. auto_id (f r) = auto_id r \<and> \<not> auto_enabled (f r)"
    and d': "?d' = d\<lparr>automations := set_where (\<lambda>r. auto_id r = ?aid) f (automations d),
        triggers := set_where (\<lambda>t. trg_auto t = ?aid \<and> trg_kind t = ''cron'') (set_next_fire now None) (triggers d),
        runs := set_where (\<lambda>r. run_auto r = Some ?aid \<and> run_status r = ''queued'')
                  (\<lambda>r. r\<lparr>run_status := ''cancelled'', run_lease := None, run_updated := now\<rparr>) (runs d)\<rparr>"
    using update_automation_disable [OF en(1), of L dtz now d n de p ag m a] ok unfolding en(2) by blast
  have "disabled ?d' ?aid" unfolding d' disabled_def using f
    by (auto dest!: set_where_none [where Q = "\<lambda>r. auto_id r = ?aid \<and> auto_enabled r"])
  moreover have "\<forall>r \<in> set (runs ?d'). \<not> (run_auto r = Some ?aid \<and> run_status r = ''queued'')"
    unfolding d' by (auto dest!: set_where_none [where Q = "\<lambda>r. run_auto r = Some ?aid \<and> run_status r = ''queued''"])
  moreover have "\<forall>t \<in> set (triggers ?d'). trg_auto t = ?aid \<and> trg_kind t = ''cron'' \<longrightarrow> trg_next t = None"
    unfolding d' by (auto simp: set_next_fire_def
      dest!: set_where_none [where Q = "\<lambda>t. trg_auto t = ?aid \<and> trg_kind t = ''cron'' \<and> trg_next t \<noteq> None"])
  moreover have "\<forall>i < length (runs d). run_auto (runs d ! i) \<noteq> Some ?aid \<or> run_status (runs d ! i) \<noteq> ''queued'' \<longrightarrow>
      runs ?d' ! i = runs d ! i"
    unfolding d' by (simp add: set_where_nth)
  ultimately show "let d' = ?d'; aid = ?aid in
       disabled d' aid \<and>
       (\<forall>r \<in> set (runs d'). \<not> (run_auto r = Some aid \<and> run_status r = ''queued'')) \<and>
       (\<forall>t \<in> set (triggers d'). trg_auto t = aid \<and> trg_kind t = ''cron'' \<longrightarrow> trg_next t = None) \<and>
       (\<forall>i < length (runs d). run_auto (runs d ! i) \<noteq> Some aid \<or> run_status (runs d ! i) \<noteq> ''queued'' \<longrightarrow>
          runs d' ! i = runs d ! i)"
    unfolding Let_def by blast
next
  fix d :: db and aid sid rid :: uuid and at sched :: time and spec :: new_run and payload
  assume "disabled d aid" "nr_auto spec = Some aid"
  then show "fst (insert_run_with_session avail sid rid at d spec sched payload) = d"
    by (rule insert_disabled)
next
  fix d :: db and a :: automation and aid sid rid t1 t2 t3 tid sched nxt pl
  assume dis: "disabled d aid" "auto_id a = aid"
  then have "fst (fire_cron_trigger avail sid rid t1 t2 t3 d a tid sched nxt pl) \<in> {d, park_trigger t3 d tid}"
    using fire_disabled by blast
  then show "runs (fst (fire_cron_trigger avail sid rid t1 t2 t3 d a tid sched nxt pl)) = runs d"
    "logs (fst (fire_cron_trigger avail sid rid t1 t2 t3 d a tid sched nxt pl)) = logs d"
    "sessions (fst (fire_cron_trigger avail sid rid t1 t2 t3 d a tid sched nxt pl)) = sessions d"
    by (auto simp: park_trigger_def)
next
  fix d :: db and aid :: uuid and t :: "string automation_trigger" and at :: time
  assume "disabled d aid" "due_cron d at t"
  then show "trg_auto t \<noteq> aid" by (auto simp: due_cron_def disabled_def list_ex_iff)
qed

definition demo_auto :: automation where
  "demo_auto = \<lparr>auto_id = 50, auto_ws = 1, auto_name = ''a'', auto_descr = None, auto_prompt = ''go'',
                auto_agent = ''coworker'', auto_model = None, auto_enabled = True, auto_by = 7,
                auto_created = 1, auto_updated = 1\<rparr>"

definition demo_linked :: db where
  "demo_linked = fst (create_scheduled_run (\<lambda>_. True) 100 200 10
     (empty_db\<lparr>automations := [demo_auto]\<rparr>) demo_auto 5 ''manual'')"

lemmas demo_linked_eval = demo_linked_def create_scheduled_run_def require_run_def from_automation_def
  demo_auto_def demo_eval

lemma demo_linked_runs: "map run_status (runs demo_linked) = [''queued'']"
  by (simp add: demo_linked_eval)

lemma demo_disable_ok:
  "snd (update_automation_write minutely ''UTC'' 30 demo_linked demo_auto None None None None None (Some False))
     = Ok (demo_auto\<lparr>auto_enabled := False, auto_updated := 30\<rparr>)"
  by (simp add: update_automation_write_def Let_def demo_auto_def validate_agent_type_def agent_parse_def)

theorem disable_stops_automation_witness:
  "map run_status (runs demo_linked) = [''queued''] \<and>
   (let d' = fst (update_automation_write minutely ''UTC'' 30 demo_linked demo_auto None None None None None (Some False))
    in disabled d' 50 \<and> \<not> (\<exists>r \<in> set (runs d'). run_auto r = Some 50 \<and> run_status r = ''queued''))"
proof -
  have a: "auto_enabled demo_auto" "auto_id demo_auto = 50" by (simp_all add: demo_auto_def)
  have "disabled d' 50 \<and> \<not> (\<exists>r \<in> set (runs d'). run_auto r = Some 50 \<and> run_status r = ''queued'')"
    if "d' = fst (update_automation_write minutely ''UTC'' 30 demo_linked demo_auto None None None None None (Some False))" for d'
    using conjunct1 [OF disable_stops_automation [of "Some False" minutely "''UTC''" 30 None None None None None "\<lambda>_. True"],
        rule_format, of demo_auto demo_linked, OF conjI [OF a(1) conjI [OF refl demo_disable_ok]]]
    unfolding a(2) Let_def that by blast
  then show ?thesis using demo_linked_runs by (simp add: Let_def)
qed

subsection \<open>Firing\<close>

text \<open>
  A cron fire is all or nothing. If it fails, the state is the one before. If the automation
  is off, runs, sessions and log are untouched and the trigger is parked. Otherwise the trigger
  has its new fire instant and there is exactly one new run, queued for the given instant with
  the automation's prompt and agent, one new session for it, and the two log entries
  \<open>triggered\<close> (with the payload) and \<open>queued\<close>.
\<close>

theorem fire_cron_atomic:
  "case fire_cron_trigger avail sid rid t1 t2 t3 d a tid sched nxt payload of
     (d', Err e) \<Rightarrow> d' = d
   | (d', Ok None) \<Rightarrow> disabled d (auto_id a) \<and> d' = park_trigger t3 d tid
   | (d', Ok (Some run)) \<Rightarrow>
       \<not> disabled d (auto_id a) \<and>
       triggers d' = map (\<lambda>t. if trg_id t = tid then t\<lparr>trg_next := Some nxt, trg_updated := t1\<rparr> else t) (triggers d) \<and>
       (\<exists>row. runs d' = runs d @ [row] \<and> run_from_row row = Ok run \<and> run_id row = rid \<and>
          run_status row = ''queued'' \<and> run_sched row = sched \<and> run_lease row = None \<and>
          run_auto row = Some (auto_id a) \<and> run_trig row = Some tid \<and> run_prompt row = auto_prompt a \<and>
          run_agent row = auto_agent a \<and> run_model row = auto_model a \<and> run_session row = sid) \<and>
       (\<exists>s. sessions d' = sessions d @ [s] \<and> ses_id s = sid \<and> ses_ws s = auto_ws a \<and>
          ses_origin s = ''automation'' \<and> ses_spec s = build_spec avail (auto_agent a) (auto_model a)) \<and>
       map (\<lambda>l. (log_run l, log_kind l, log_payload l)) (drop (length (logs d)) (logs d')) =
         [(rid, ''triggered'', Some payload), (rid, ''queued'', None)] \<and>
       prefix (logs d) (logs d') \<and> automations d' = automations d"
proof -
  let ?d1 = "d\<lparr>triggers := set_where (\<lambda>t. trg_id t = tid) (set_next_fire t1 (Some nxt)) (triggers d)\<rparr>"
  let ?ins = "insert_run_in avail sid rid t2 ?d1 (from_automation a (Some tid) None) sched (Some payload)"
  have dis: "disabled ?d1 aid = disabled d aid" for aid by (simp add: disabled_def)
  show ?thesis
  proof (cases ?ins)
    case (Inl e)
    then show ?thesis by (simp add: fire_cron_trigger_def fire_cron_tx_def Let_def)
  next
    case (Inr q)
    obtain d2 o' where q: "q = (d2, o')" by (cases q)
    show ?thesis
    proof (cases o')
      case None
      then have "?ins = Ok (d2, None)" using Inr q by simp
      moreover from this have "disabled d (auto_id a)"
        by (auto simp: insert_run_in_None from_automation_def disabled_gate dis)
      ultimately show ?thesis by (simp add: fire_cron_trigger_def fire_cron_tx_def Let_def)
    next
      case (Some run)
      then have i: "?ins = Ok (d2, Some run)" using Inr q by simp
      then have "\<not> disabled d (auto_id a)" and d2: "run = new_run_row Queued (from_automation a (Some tid) None) rid sid sched t2"
          "d2 = with_new_run avail sid rid t2 ?d1 (from_automation a (Some tid) None) sched (Some payload)"
        by (auto simp: insert_run_in_Some from_automation_def disabled_gate dis)
      moreover have "fire_cron_trigger avail sid rid t1 t2 t3 d a tid sched nxt payload = (d2, Ok (Some run))"
        using i by (simp add: fire_cron_trigger_def fire_cron_tx_def Let_def)
      ultimately show ?thesis
        by (simp add: with_new_run_def set_where_def set_next_fire_def new_run_row_def from_automation_def
            new_session_row_def run_from_row_def run_status_parse_lits)
    qed
  qed
qed

end
