(* ===== verification/Automation_Recovery.thy ===== *)
theory Automation_Recovery
  imports Automation_Behaviour
begin

section \<open>Retries, expired leases and listings\<close>

text \<open>
  The attempt number of a run and the retry that continues its chain; the reaper, which requeues
  the runs of workers that went away; and what the queries return on a store in good order.
\<close>

subsection \<open>Attempt numbers\<close>

lemma find_key:
  assumes "distinct (map key rs)" "r \<in> set rs"
  shows "find (\<lambda>x. key x = key r) rs = Some r"
  using assms by (induction rs) (auto simp: rev_image_eqI)

lemma prev_before_nth:
  assumes "prev_before (map (\<lambda>r. (run_id r, run_prev r)) rs)" "i < length rs" "run_prev (rs ! i) = Some p"
  shows "\<exists>j < i. run_id (rs ! j) = p"
proof -
  have "p \<in> run_id ` set (take i rs)"
    using assms by (force simp: prev_before_def take_map image_image)
  then show ?thesis using assms(2) by (auto simp: in_set_conv_nth) blast
qed

text \<open>The chain of a run ends, after at most as many links as there are runs before it.\<close>

lemma chain_depth_total:
  assumes "distinct (map run_id rs)" "prev_before (map (\<lambda>r. (run_id r, run_prev r)) rs)" "i < length rs"
  shows "\<exists>k \<le> i. \<forall>n. chain_depth rs (run_prev (rs ! i)) n = Some (n + int k)"
  using assms(3)
proof (induction i rule: less_induct)
  case (less i)
  show ?case
  proof (cases "run_prev (rs ! i)")
    case None
    then show ?thesis by (intro exI [of _ 0]) (simp add: chain_depth.simps)
  next
    case (Some p)
    then obtain j where j: "j < i" "run_id (rs ! j) = p" using prev_before_nth assms(2) less.prems by blast
    then have "j < length rs" using less.prems by simp
    then have f: "find (\<lambda>r. run_id r = p) rs = Some (rs ! j)"
      using find_key [OF assms(1), of "rs ! j"] j(2) by simp
    obtain k where k: "k \<le> j" "\<And>n. chain_depth rs (run_prev (rs ! j)) n = Some (n + int k)"
      using less.IH [OF j(1) \<open>j < length rs\<close>] by blast
    have "chain_depth rs (Some p) n = Some (n + int (Suc k))" for n
      using k(2) [of "n + 1"] by (simp add: chain_depth.simps [of rs "Some p"] f)
    then show ?thesis using Some k(1) j(1) by (intro exI [of _ "Suc k"]) auto
  qed
qed

text \<open>A later table that still holds the same runs gives them the same chains.\<close>

lemma chain_depth_stable:
  assumes "distinct (map run_id rs)" "distinct (map run_id rs')"
    and pb: "prev_before (map (\<lambda>r. (run_id r, run_prev r)) rs)"
    and "length rs \<le> length rs'"
    and same: "\<And>i. i < length rs \<Longrightarrow> run_id (rs' ! i) = run_id (rs ! i) \<and> run_prev (rs' ! i) = run_prev (rs ! i)"
    and "i < length rs"
  shows "chain_depth rs' (run_prev (rs ! i)) n = chain_depth rs (run_prev (rs ! i)) n"
  using assms(6)
proof (induction i arbitrary: n rule: less_induct)
  case (less i)
  show ?case
  proof (cases "run_prev (rs ! i)")
    case None
    then show ?thesis by (simp add: chain_depth.simps)
  next
    case (Some p)
    then obtain j where j: "j < i" "run_id (rs ! j) = p" using prev_before_nth pb less.prems by blast
    then have jl: "j < length rs" using less.prems by simp
    have f: "find (\<lambda>r. run_id r = p) rs = Some (rs ! j)"
      using find_key [OF assms(1), of "rs ! j"] j(2) jl by simp
    have f': "find (\<lambda>r. run_id r = p) rs' = Some (rs' ! j)"
      using find_key [OF assms(2), of "rs' ! j"] same [OF jl] j(2) jl assms(4) by simp
    show ?thesis
      using less.IH [OF j(1) jl] same [OF jl]
      by (simp add: Some chain_depth.simps [of rs "Some p"] chain_depth.simps [of rs' "Some p"] f f')
  qed
qed

lemma attempt_nth:
  assumes "store_ok d" "i < length (runs d)"
  shows "compute_run_attempt d (run_id (runs d ! i)) =
           map_option Ok (chain_depth (runs d) (run_prev (runs d ! i)) 1)"
proof -
  have "distinct (map run_id (runs d))" using assms by (simp add: store_ok_def runs_ok_def)
  from find_key [OF this, of "runs d ! i"] assms(2) show ?thesis by (simp add: compute_run_attempt_def)
qed

lemma attempt_total:
  assumes "store_ok d" "i < length (runs d)"
  shows "\<exists>k \<le> i. (\<forall>n. chain_depth (runs d) (run_prev (runs d ! i)) n = Some (n + int k)) \<and>
           compute_run_attempt d (run_id (runs d ! i)) = Some (Ok (1 + int k))"
proof -
  have ok: "distinct (map run_id (runs d))" "prev_before (map (\<lambda>r. (run_id r, run_prev r)) (runs d))"
    using assms by (simp_all add: store_ok_def runs_ok_def)
  from chain_depth_total [OF ok assms(2)]
  obtain k where k: "k \<le> i" "\<forall>n. chain_depth (runs d) (run_prev (runs d ! i)) n = Some (n + int k)" by blast
  then have "compute_run_attempt d (run_id (runs d ! i)) = Some (Ok (1 + int k))"
    by (simp add: attempt_nth [OF assms])
  then show ?thesis using k by blast
qed

lemma attempt_successor:
  assumes "store_ok d" "r \<in> set (runs d)" "run_prev r = Some p" "compute_run_attempt d p = Some (Ok n)"
  shows "compute_run_attempt d (run_id r) = Some (Ok (n + 1))"
proof -
  have dist: "distinct (map run_id (runs d))" using assms(1) by (simp add: store_ok_def runs_ok_def)
  obtain q where q: "find (\<lambda>x. run_id x = p) (runs d) = Some q"
    using assms(4) by (auto simp: compute_run_attempt_def split: option.splits)
  then obtain i where i: "i < length (runs d)" "q = runs d ! i" "run_id q = p"
    by (auto simp: find_Some_iff)
  obtain k where k: "\<And>n. chain_depth (runs d) (run_prev q) n = Some (n + int k)" "n = 1 + int k"
    using attempt_total [OF assms(1) i(1)] i(2,3) assms(4) by auto
  have "chain_depth (runs d) (Some p) 1 = Some (2 + int k)"
    using k(1) [of 2] by (simp add: chain_depth.simps [of _ "Some p"] q)
  then show ?thesis
    using find_key [OF dist assms(2)] assms(3) k(2) by (simp add: compute_run_attempt_def)
qed

lemma attempt_stable:
  assumes "store_ok d" "store_ok d'" "evolves same_run d d'" "i < length (runs d)"
  shows "compute_run_attempt d' (run_id (runs d ! i)) = compute_run_attempt d (run_id (runs d ! i))"
proof -
  have s: "run_id (runs d' ! j) = run_id (runs d ! j) \<and> run_prev (runs d' ! j) = run_prev (runs d ! j)"
    if "j < length (runs d)" for j using assms(3) that by (simp add: evolves_def same_run_def)
  have l: "length (runs d) \<le> length (runs d')" using assms(3) by (simp add: evolves_def)
  have "chain_depth (runs d') (run_prev (runs d ! i)) 1 = chain_depth (runs d) (run_prev (runs d ! i)) 1"
    using assms(1,2) s l assms(4)
    by (intro chain_depth_stable) (simp_all add: store_ok_def runs_ok_def)
  then show ?thesis
    using attempt_nth [OF assms(2), of i] attempt_nth [OF assms(1,4)] s [OF assms(4)] l assms(4) by simp
qed

subsection \<open>Retrying\<close>

lemma append_log_present:
  assumes "rid \<in> run_id ` set (runs d)"
  shows "append_log now d rid kind payload =
    (d\<lparr>logs := logs d @ [\<lparr>log_id = log_seq d, log_run = rid, log_ts = now,
          log_kind = log_kind_as_str kind, log_payload = payload\<rparr>], log_seq := Suc (log_seq d)\<rparr>, Ok ())"
  using assms by (simp add: append_log_def insert_log_def has_key_iff)

text \<open>What \<open>schedule_retry\<close> did when it returns a run.\<close>

lemma schedule_retry_Some:
  assumes "schedule_retry avail sid rid now1 now2 d prev sched n = (d', Ok (Some retry))"
    and "run_id prev \<in> run_id ` set (runs d)"
  shows "insert_run_in avail sid rid now1 d (retry_of prev) sched None =
           Ok (with_new_run avail sid rid now1 d (retry_of prev) sched None, Some retry)"
    "runs d' = runs d @ [new_run_row ''queued'' (retry_of prev) rid sid sched now1]"
    "retry = new_run_row Queued (retry_of prev) rid sid sched now1"
    "logs d' = logs (with_new_run avail sid rid now1 d (retry_of prev) sched None) @
       [\<lparr>log_id = log_seq d + 2, log_run = run_id prev, log_ts = now2, log_kind = ''retry_scheduled'',
         log_payload = Some (JObj [(''next_run_id'', JUuid rid), (''scheduled_for'', JTime sched),
                                   (''attempt'', JInt n)])\<rparr>]"
    "store_steps avail L dtz d d'"
proof -
  let ?d1 = "with_new_run avail sid rid now1 d (retry_of prev) sched None"
  have cond: "\<not> (case run_auto prev of None \<Rightarrow> False
      | Some aid \<Rightarrow> (case get_automation d aid of None \<Rightarrow> True | Some a \<Rightarrow> \<not> auto_enabled a))"
    using assms by (auto simp: schedule_retry_def append_log_present split: if_splits)
  obtain d1 where ins: "insert_run_with_session avail sid rid now1 d (retry_of prev) sched None = (d1, Ok (Some retry))"
    using assms(1) cond
    by (auto simp: schedule_retry_def split: prod.splits sum.splits option.splits if_splits)
  have i: "d1 = ?d1" "insert_run_in avail sid rid now1 d (retry_of prev) sched None = Ok (?d1, Some retry)"
    using insert_run_with_session_cases [of avail sid rid now1 d "retry_of prev" sched None] ins by auto
  show "insert_run_in avail sid rid now1 d (retry_of prev) sched None = Ok (?d1, Some retry)" by (rule i)
  show r: "retry = new_run_row Queued (retry_of prev) rid sid sched now1"
    using i(2) by (simp add: insert_run_in_Some)
  have rr: "run_id retry = rid" by (simp add: r new_run_row_def)
  have mem: "run_id prev \<in> run_id ` set (runs ?d1)" using assms(2) by (simp add: with_new_run_def)
  let ?pl = "Some (JObj [(''next_run_id'', JUuid rid), (''scheduled_for'', JTime sched), (''attempt'', JInt n)])"
  have d': "d' = fst (append_log now2 ?d1 (run_id prev) LRetryScheduled ?pl)"
    using assms(1) cond ins i(1) append_log_present [OF mem, of now2 LRetryScheduled ?pl]
    by (auto simp: schedule_retry_def rr)
  show "runs d' = runs d @ [new_run_row ''queued'' (retry_of prev) rid sid sched now1]"
    unfolding d' append_log_present [OF mem] by (simp add: with_new_run_def)
  show "logs d' = logs ?d1 @ [\<lparr>log_id = log_seq d + 2, log_run = run_id prev, log_ts = now2,
      log_kind = ''retry_scheduled'', log_payload = ?pl\<rparr>]"
    unfolding d' append_log_present [OF mem] by (simp add: with_new_run_def)
  have "store_step avail L dtz d ?d1"
    using insert_run_step [of avail L dtz d sid rid now1 "retry_of prev" sched None] ins i(1) by simp
  moreover have "store_step avail L dtz ?d1 d'" unfolding d' by (rule append_log_step)
  ultimately show "store_steps avail L dtz d d'" by simp
qed

text \<open>
  C15. Retries. On a store in good order the attempt query ends for every run, with a number
  between 1 and the number of runs. When \<open>schedule_retry\<close> returns a run, that run is queued for
  the given instant, has the previous run's snapshot (prompt, agent, model, workspace, automation,
  trigger) and its attempt number is one more than the previous run's, whose own number has not
  changed; all that was added besides is its session, its two log entries, and the entry
  \<open>retry_scheduled\<close> in the previous run's log.
\<close>

theorem retry_continues_chain:
  assumes "store_ok d" "row \<in> set (runs d)" "run_from_row row = Ok prev"
  shows "\<exists>n. compute_run_attempt d (run_id prev) = Some (Ok n) \<and> 1 \<le> n \<and> n \<le> int (length (runs d)) \<and>
     (\<forall>d' retry. schedule_retry avail sid rid now1 now2 d prev sched next = (d', Ok (Some retry)) \<longrightarrow>
        compute_run_attempt d' (run_id prev) = Some (Ok n) \<and>
        compute_run_attempt d' (run_id retry) = Some (Ok (n + 1)) \<and>
        run_status retry = Queued \<and> run_sched retry = sched \<and> run_prev retry = Some (run_id prev) \<and>
        run_prompt retry = run_prompt prev \<and> run_agent retry = run_agent prev \<and>
        run_model retry = run_model prev \<and> run_ws retry = run_ws prev \<and>
        run_auto retry = run_auto prev \<and> run_trig retry = run_trig prev \<and>
        (\<exists>r. runs d' = runs d @ [r] \<and> run_from_row r = Ok retry) \<and>
        map (\<lambda>l. (log_run l, log_kind l)) (drop (length (logs d)) (logs d')) =
          [(rid, ''triggered''), (rid, ''queued''), (run_id prev, ''retry_scheduled'')])"
proof -
  obtain i where i: "i < length (runs d)" "runs d ! i = row" using assms(2) by (auto simp: in_set_conv_nth)
  have pid: "run_id prev = run_id row" using assms(3) by (rule run_from_row_sels)
  then have mem: "run_id prev \<in> run_id ` set (runs d)" using assms(2) by simp
  obtain k where k: "k \<le> i" "\<And>n. chain_depth (runs d) (run_prev row) n = Some (n + int k)"
      "compute_run_attempt d (run_id prev) = Some (Ok (1 + int k))"
    using attempt_total [OF assms(1) i(1)] i(2) pid by auto
  have "compute_run_attempt d' (run_id prev) = Some (Ok (1 + int k)) \<and>
        compute_run_attempt d' (run_id retry) = Some (Ok (1 + int k + 1)) \<and>
        run_status retry = Queued \<and> run_sched retry = sched \<and> run_prev retry = Some (run_id prev) \<and>
        run_prompt retry = run_prompt prev \<and> run_agent retry = run_agent prev \<and>
        run_model retry = run_model prev \<and> run_ws retry = run_ws prev \<and>
        run_auto retry = run_auto prev \<and> run_trig retry = run_trig prev \<and>
        (\<exists>r. runs d' = runs d @ [r] \<and> run_from_row r = Ok retry) \<and>
        map (\<lambda>l. (log_run l, log_kind l)) (drop (length (logs d)) (logs d')) =
          [(rid, ''triggered''), (rid, ''queued''), (run_id prev, ''retry_scheduled'')]"
    if "schedule_retry avail sid rid now1 now2 d prev sched next = (d', Ok (Some retry))" for d' retry
  proof -
    note r = schedule_retry_Some [OF that mem]
    let ?row' = "new_run_row ''queued'' (retry_of prev) rid sid sched now1"
    have ok': "store_ok d'" using store_steps_ok [OF r(5) assms(1)] .
    have a: "compute_run_attempt d' (run_id prev) = Some (Ok (1 + int k))"
      using attempt_stable [OF assms(1) ok' store_steps_evolves [OF r(5)] i(1)] k(3) i(2) pid by simp
    have "compute_run_attempt d' (run_id ?row') = Some (Ok (1 + int k + 1))"
      by (rule attempt_successor [OF ok' _ _ a]) (simp_all add: r(2) new_run_row_def retry_of_def)
    then show ?thesis using a r(2,4)
      by (simp add: r(3) new_run_row_def retry_of_def with_new_run_def run_from_row_def run_status_parse_lits)
  qed
  then show ?thesis using k(1,3) i(1) by (intro exI [of _ "1 + int k"]) auto
qed

definition demo_failed :: db where
  "demo_failed = fst (finalize_run 30 demo_db 200 Failed LFailed None)"

lemma demo_failed_ok: "store_ok demo_failed"
proof -
  have "store_step (\<lambda>_. True) minutely ''UTC'' demo_db demo_failed"
    unfolding demo_failed_def by (rule finalize_step) simp
  then show ?thesis
    using store_step_ok store_steps_ok [OF demo_steps empty_db_ok] by blast
qed

definition demo_failed_row :: "string automation_run" where
  "demo_failed_row = new_run_row ''failed'' demo_run 200 100 5 10\<lparr>run_updated := 30\<rparr>"

definition demo_failed_run :: "run_status automation_run" where
  "demo_failed_run = new_run_row Failed demo_run 200 100 5 10\<lparr>run_updated := 30\<rparr>"

lemma demo_failed_runs: "runs demo_failed = [demo_failed_row]" "run_from_row demo_failed_row = Ok demo_failed_run"
  by (simp_all add: demo_failed_def demo_failed_row_def demo_failed_run_def demo_eval finalize_run_def Let_def)

theorem retry_continues_chain_witness:
  "(\<exists>d' retry. schedule_retry (\<lambda>_. True) 101 201 40 41 demo_failed demo_failed_run 70 2 = (d', Ok (Some retry)) \<and>
     compute_run_attempt d' (run_id retry) = Some (Ok 2))"
proof -
  obtain d' retry where s:
    "schedule_retry (\<lambda>_. True) 101 201 40 41 demo_failed demo_failed_run 70 2 = (d', Ok (Some retry))"
    by (simp add: demo_failed_run_def demo_failed_def demo_eval finalize_run_def Let_def schedule_retry_def
        retry_of_def append_log_def)
  have one: "compute_run_attempt demo_failed (run_id demo_failed_run) = Some (Ok 1)"
    by (simp add: compute_run_attempt_def demo_failed_runs(1))
      (simp add: demo_failed_row_def demo_failed_run_def new_run_row_def demo_run_def chain_depth.simps)
  from retry_continues_chain [OF demo_failed_ok _ demo_failed_runs(2), of "\<lambda>_. True" 101 201 40 41 70 2]
  have "compute_run_attempt d' (run_id retry) = Some (Ok 2)"
    using s one demo_failed_runs(1) by auto
  then show ?thesis using s by blast
qed

subsection \<open>Reaping\<close>

definition requeued :: "time \<Rightarrow> string automation_run \<Rightarrow> string automation_run" where
  "requeued now r = r\<lparr>run_status := ''queued'', run_lease := None, run_updated := now\<rparr>"

lemma ids_requeue: "map run_id (map (\<lambda>x. if P x then requeued now x else x) rs) = map run_id rs"
  by (induction rs) (auto simp: requeued_def)

fun lost_logs :: "time \<Rightarrow> nat \<Rightarrow> uuid list \<Rightarrow> string run_log list" where
  "lost_logs now n [] = []"
| "lost_logs now n (rid # rids) =
     \<lparr>log_id = n, log_run = rid, log_ts = now, log_kind = ''lease_lost'', log_payload = None\<rparr>
       # lost_logs now (Suc n) rids"

lemma reap_row_running:
  assumes "distinct (map run_id (runs d))" "r \<in> set (runs d)" "run_status r = ''running''"
  shows "reap_row now d (run_id r) =
    (d\<lparr>runs := map (\<lambda>x. if run_id x = run_id r then requeued now x else x) (runs d),
       logs := logs d @ lost_logs now (log_seq d) [run_id r], log_seq := Suc (log_seq d)\<rparr>, Ok True)"
proof -
  have one: "affected (\<lambda>x. run_id x = run_id r \<and> run_status x = ''running'') (runs d) = 1"
    using affected_key_one [OF assms(1), of "run_id r" "\<lambda>x. run_status x = ''running''"] assms(2,3) by auto
  have upd: "set_where (\<lambda>x. run_id x = run_id r \<and> run_status x = ''running'')
        (\<lambda>r. r\<lparr>run_status := ''queued'', run_lease := None, run_updated := now\<rparr>) (runs d) =
      map (\<lambda>x. if run_id x = run_id r then requeued now x else x) (runs d)"
    using set_where_key [OF assms(1,2), of "\<lambda>x. run_status x = ''running''"] assms(3)
    by (simp add: requeued_def)
  have "run_id r \<in> run_id ` set (map (\<lambda>x. if run_id x = run_id r then requeued now x else x) (runs d))"
    using assms(2) unfolding set_map [symmetric] ids_requeue by simp
  then show ?thesis using one by (simp add: reap_row_def Let_def upd insert_log_def has_key_iff)
qed

lemma reap_rows_running:
  assumes "distinct (map run_id (runs d))" "distinct ids"
    and "\<And>k. k \<in> set ids \<Longrightarrow> \<exists>r \<in> set (runs d). run_id r = k \<and> run_status r = ''running''"
  shows "reap_rows now d ids =
    (d\<lparr>runs := map (\<lambda>x. if run_id x \<in> set ids then requeued now x else x) (runs d),
       logs := logs d @ lost_logs now (log_seq d) ids, log_seq := log_seq d + length ids\<rparr>, Ok ids)"
  using assms
proof (induction ids arbitrary: d)
  case (Cons k ids)
  obtain r where r: "r \<in> set (runs d)" "run_id r = k" "run_status r = ''running''"
    using Cons.prems(3) [of k] by auto
  let ?d1 = "d\<lparr>runs := map (\<lambda>x. if run_id x = k then requeued now x else x) (runs d),
       logs := logs d @ lost_logs now (log_seq d) [k], log_seq := Suc (log_seq d)\<rparr>"
  have step: "reap_row now d k = (?d1, Ok True)"
    using reap_row_running [OF Cons.prems(1) r(1,3)] r(2) by simp
  have ids1: "map run_id (runs ?d1) = map run_id (runs d)" by (auto simp: requeued_def)
  have "reap_rows now ?d1 ids =
    (?d1\<lparr>runs := map (\<lambda>x. if run_id x \<in> set ids then requeued now x else x) (runs ?d1),
       logs := logs ?d1 @ lost_logs now (log_seq ?d1) ids, log_seq := log_seq ?d1 + length ids\<rparr>, Ok ids)"
  proof (rule Cons.IH)
    show "distinct (map run_id (runs ?d1))" unfolding ids1 by (rule Cons.prems(1))
    show "distinct ids" using Cons.prems(2) by simp
    fix k' assume k': "k' \<in> set ids"
    then have "k' \<noteq> k" using Cons.prems(2) by auto
    moreover obtain r' where "r' \<in> set (runs d)" "run_id r' = k'" "run_status r' = ''running''"
      using Cons.prems(3) [of k'] k' by auto
    ultimately show "\<exists>r \<in> set (runs ?d1). run_id r = k' \<and> run_status r = ''running''"
      by (auto intro!: bexI [of _ r'] simp: rev_image_eqI)
  qed
  moreover have "map (\<lambda>x. if run_id x \<in> set ids then requeued now x else x) (runs ?d1) =
      map (\<lambda>x. if run_id x \<in> set (k # ids) then requeued now x else x) (runs d)"
    using Cons.prems(2) by (auto simp: requeued_def)
  ultimately show ?case by (simp add: step)
qed simp

text \<open>
  C16. Reaping. On a store in good order \<open>reap_expired_leases\<close> requeues exactly the running runs
  whose lease ended before the given instant, or all running runs when none is given (at boot):
  each loses its lease and is queued again for its original instant, with one entry
  \<open>lease_lost\<close> in its log, no other run changes, and their identifiers are returned. After a boot
  reap no run is running.
\<close>

theorem reap_requeues_expired:
  assumes "store_ok d"
  shows "\<exists>d'. reap_expired_leases now d limit = (d', Ok (map run_id (filter (expired limit) (runs d)))) \<and>
    runs d' = map (\<lambda>r. if expired limit r then requeued now r else r) (runs d) \<and>
    map (\<lambda>l. (log_run l, log_kind l)) (drop (length (logs d)) (logs d')) =
      map (\<lambda>r. (run_id r, ''lease_lost'')) (filter (expired limit) (runs d)) \<and>
    prefix (logs d) (logs d') \<and> triggers d' = triggers d \<and> automations d' = automations d \<and>
    sessions d' = sessions d \<and> store_ok d' \<and>
    (limit = None \<longrightarrow> (\<forall>r \<in> set (runs d'). run_status r \<noteq> ''running''))"
proof -
  have dist: "distinct (map run_id (runs d))" using assms by (simp add: store_ok_def runs_ok_def)
  let ?ids = "map run_id (filter (expired limit) (runs d))"
  let ?d' = "d\<lparr>runs := map (\<lambda>x. if run_id x \<in> set ?ids then requeued now x else x) (runs d),
       logs := logs d @ lost_logs now (log_seq d) ?ids, log_seq := log_seq d + length ?ids\<rparr>"
  have r: "reap_rows now d ?ids = (?d', Ok ?ids)"
    by (rule reap_rows_running [OF dist distinct_map_filter [OF dist]]) (auto simp: expired_def)
  have mem: "run_id x \<in> set ?ids \<longleftrightarrow> expired limit x" if "x \<in> set (runs d)" for x
    using distinct_key_eq [OF dist that] that by auto
  have runs: "runs ?d' = map (\<lambda>r. if expired limit r then requeued now r else r) (runs d)"
    using mem by simp
  have ll: "map (\<lambda>l. (log_run l, log_kind l)) (lost_logs now n ids) = map (\<lambda>k. (k, ''lease_lost'')) ids" for n ids
    by (induction ids arbitrary: n) auto
  have ok: "store_ok (fst (reap_rows now d ids))" for ids
    using assms
  proof (induction ids arbitrary: d)
    case (Cons k ids)
    have "store_ok (fst (reap_row now d k))"
      using store_step_ok [OF reap_step [of "\<lambda>_. True" minutely "[]"] Cons.prems] .
    then show ?case using Cons.IH by (auto split: prod.splits sum.splits) (metis fst_conv)+
  qed simp
  have "store_ok ?d'" using ok [of ?ids] by (simp add: r)
  moreover have "map (\<lambda>l. (log_run l, log_kind l)) (drop (length (logs d)) (logs ?d')) =
      map (\<lambda>r. (run_id r, ''lease_lost'')) (filter (expired limit) (runs d))"
    by (simp add: ll)
  moreover have "limit = None \<longrightarrow> (\<forall>r \<in> set (runs ?d'). run_status r \<noteq> ''running'')"
    unfolding runs by (auto simp: expired_def requeued_def)
  ultimately show ?thesis
    using runs by (intro exI [of _ ?d']) (simp add: reap_expired_leases_def r)
qed

theorem reap_requeues_expired_witness:
  "(\<exists>d'. reap_expired_leases 300 demo_db (Some 250) = (d', Ok [200]) \<and>
     map run_status (runs d') = [''queued'']) \<and>
   (\<exists>d'. reap_expired_leases 300 demo_db (Some 150) = (d', Ok []) \<and> runs d' = runs demo_db)"
proof -
  have ok: "store_ok demo_db" using store_steps_ok [OF demo_steps empty_db_ok] .
  show ?thesis
    using reap_requeues_expired [OF ok, of 300 "Some 250"] reap_requeues_expired [OF ok, of 300 "Some 150"]
    by (auto simp: demo_runs expired_def new_run_row_def requeued_def demo_run_def)
qed

subsection \<open>Listings\<close>

lemma traverse_projr:
  "(\<And>x. x \<in> set xs \<Longrightarrow> \<exists>y. f x = Inr y) \<Longrightarrow> traverse f xs = Inr (map (\<lambda>x. projr (f x)) xs)"
  by (rule traverse_Ok) (metis sum.sel(2))

lemma trigger_decodes:
  "store_ok d \<Longrightarrow> t \<in> set (triggers d) \<Longrightarrow>
     \<exists>t'. trigger_from_row t = Inr t' \<and> trg_id t' = trg_id t \<and> trg_next t' = trg_next t"
  using store_okD(2) by (fastforce simp: triggers_ok_def trigger_from_row_def)

lemma sorted_desc_map:
  "sorted (map (\<lambda>r. - f r) xs) \<Longrightarrow> sorted_wrt (\<ge>) (map (f :: 'a \<Rightarrow> int) xs)"
  by (simp add: sorted_map sorted_wrt_map)

text \<open>
  Listings. On a store in good order no listing fails to decode. The cron ticker's list holds
  exactly the enabled cron triggers of enabled automations whose instant has come, the oldest
  first. The calendar window holds the workspace's runs scheduled in \<open>[from, to)\<close>, newest first:
  all of them for a negative limit, and otherwise the first \<open>limit\<close>.
\<close>

theorem listings_exact:
  assumes "store_ok d"
  shows "(\<exists>ts. list_due_cron_triggers d now = Ok ts \<and>
            trg_id ` set ts = trg_id ` {t \<in> set (triggers d). due_cron d now t} \<and>
            length ts = length (filter (due_cron d now) (triggers d)) \<and>
            sorted (map (\<lambda>t. the_default 0 (trg_next t)) ts)) \<and>
         (\<exists>rs. list_runs_in_window d ws frm to limit = Ok rs \<and>
            sorted_wrt (\<ge>) (map run_sched rs) \<and>
            (let sel = filter (\<lambda>r. run_ws r = ws \<and> frm \<le> run_sched r \<and> run_sched r < to) (runs d) in
             run_id ` set rs \<subseteq> run_id ` set sel \<and> distinct (map run_id rs) \<and>
             length rs = (if limit < 0 then length sel else min (nat limit) (length sel))))"
proof (intro conjI)
  let ?due = "sort_key (\<lambda>t. the_default 0 (trg_next t)) (filter (due_cron d now) (triggers d))"
  have td: "\<exists>t'. trigger_from_row t = Inr t'" and
    ts: "trg_id (projr (trigger_from_row t)) = trg_id t" "trg_next (projr (trigger_from_row t)) = trg_next t"
    if "t \<in> set ?due" for t
    using trigger_decodes [OF assms, of t] that by auto
  have s: "sorted (map (\<lambda>t. the_default 0 (trg_next t)) ?due)" by simp
  have "map (\<lambda>t. the_default 0 (trg_next t)) (map (\<lambda>t. projr (trigger_from_row t)) ?due) =
        map (\<lambda>t. the_default 0 (trg_next t)) ?due" using ts by simp
  then have "sorted (map (\<lambda>t. the_default 0 (trg_next t)) (map (\<lambda>t. projr (trigger_from_row t)) ?due))"
    using s by (simp only:)
  moreover have "trg_id ` set (map (\<lambda>t. projr (trigger_from_row t)) ?due) = trg_id ` set ?due"
    using ts by (simp add: image_image)
  moreover have "list_due_cron_triggers d now = Ok (map (\<lambda>t. projr (trigger_from_row t)) ?due)"
    unfolding list_due_cron_triggers_def by (rule traverse_projr) (rule td)
  moreover have "set ?due = {t \<in> set (triggers d). due_cron d now t}" by auto
  ultimately show "\<exists>ts. list_due_cron_triggers d now = Ok ts \<and>
            trg_id ` set ts = trg_id ` {t \<in> set (triggers d). due_cron d now t} \<and>
            length ts = length (filter (due_cron d now) (triggers d)) \<and>
            sorted (map (\<lambda>t. the_default 0 (trg_next t)) ts)"
    by (intro exI [of _ "map (\<lambda>t. projr (trigger_from_row t)) ?due"]) simp
next
  define sel where "sel = filter (\<lambda>r. run_ws r = ws \<and> frm \<le> run_sched r \<and> run_sched r < to) (runs d)"
  define xs where "xs = (if limit < 0 then id else take (nat limit)) (sort_key (\<lambda>r. - run_sched r) sel)"
  have sub: "set xs \<subseteq> set sel" by (auto simp: xs_def dest: in_set_takeD)
  have rd: "\<exists>r'. run_from_row r = Inr r'" if "r \<in> set xs" for r
    using run_ok_decodes [OF assms] that sub by (auto simp: sel_def)
  then have rs: "run_id (projr (run_from_row r)) = run_id r" "run_sched (projr (run_from_row r)) = run_sched r"
    if "r \<in> set xs" for r using that by (metis run_from_row_sels(1) sum.sel(2), metis run_from_row_sels(6) sum.sel(2))
  let ?rs = "map (\<lambda>r. projr (run_from_row r)) xs"
  have m: "map run_sched ?rs = map run_sched xs" "map run_id ?rs = map run_id xs" using rs by simp_all
  have "sorted (map (\<lambda>r. - run_sched r) xs)"
    by (auto simp: xs_def take_map [symmetric] intro!: sorted_wrt_take)
  then have "sorted_wrt (\<ge>) (map run_sched ?rs)" unfolding m by (rule sorted_desc_map)
  moreover have "run_id ` set ?rs \<subseteq> run_id ` set sel"
    using sub arg_cong [OF m(2), of set] by (auto simp: image_image)
  moreover have "distinct (map run_id xs)"
  proof -
    have "distinct (map run_id sel)"
      using assms by (auto simp: store_ok_def runs_ok_def sel_def distinct_map_filter)
    then have "distinct (map run_id (sort_key (\<lambda>r. - run_sched r) sel))"
      by (simp add: distinct_map)
    then show ?thesis by (auto simp: xs_def take_map [symmetric])
  qed
  then have "distinct (map run_id ?rs)" unfolding m .
  moreover have "length ?rs = (if limit < 0 then length sel else min (nat limit) (length sel))"
    by (simp add: xs_def min.commute)
  moreover have "list_runs_in_window d ws frm to limit = Ok ?rs"
    unfolding list_runs_in_window_def sel_def [symmetric] xs_def [symmetric]
    by (rule traverse_projr) (rule rd)
  ultimately show "\<exists>rs. list_runs_in_window d ws frm to limit = Ok rs \<and>
            sorted_wrt (\<ge>) (map run_sched rs) \<and>
            (let sel = filter (\<lambda>r. run_ws r = ws \<and> frm \<le> run_sched r \<and> run_sched r < to) (runs d) in
             run_id ` set rs \<subseteq> run_id ` set sel \<and> distinct (map run_id rs) \<and>
             length rs = (if limit < 0 then length sel else min (nat limit) (length sel)))"
    unfolding sel_def [symmetric] Let_def by blast
qed

theorem listings_exact_witness:
  "(\<exists>rs. list_runs_in_window demo_db 1 0 10 (-1) = Ok rs \<and> length rs = 1) \<and>
   (\<exists>rs. list_runs_in_window demo_db 1 0 5 50 = Ok rs \<and> length rs = 0)"
proof -
  have ok: "store_ok demo_db" using store_steps_ok [OF demo_steps empty_db_ok] .
  show ?thesis
    using listings_exact [OF ok, of 0 1 0 10 "-1"] listings_exact [OF ok, of 0 1 0 5 50]
    by (auto simp: demo_runs new_run_row_def demo_run_def)
qed

end
