(* ===== verification/Automation_Worker.thy ===== *)
theory Automation_Worker
  imports Automation_Recovery
begin

section \<open>The workers, the housekeeper and the cron ticker\<close>

text \<open>
  \<^verbatim>\<open>src/backend/src/worker.rs\<close>. A worker's pass is cut where other tasks can come in between:
  at its transactions and while the agent runs. The state of a worker says how far its pass has
  come; the agent's run (\<^verbatim>\<open>drive_prompt\<close>) is a parameter, its result. Instants are in
  nanoseconds.
\<close>

subsection \<open>Constants\<close>

definition seconds :: "int \<Rightarrow> time" where
  "seconds n = n * 10 ^ 9"

definition lease_minutes :: int where
  "lease_minutes = 3"

definition lease_from :: "time \<Rightarrow> time" where
  "lease_from now = now + seconds (60 * lease_minutes)"

definition retry_backoffs :: "time list" where
  "retry_backoffs = [seconds 30, seconds 120]"

text \<open>\<open>i64\<close> arithmetic that cannot wrap here: an attempt number counts rows.\<close>

definition retry_backoff_for :: "int \<Rightarrow> time option" where
  "retry_backoff_for current_attempt =
     (if max_attempts \<le> current_attempt then None
      else (let idx = nat (max (current_attempt - 1) 0)
            in if idx < length retry_backoffs then Some (retry_backoffs ! idx) else None))"

subsection \<open>A worker's pass\<close>

type_synonym run_rec = "run_status automation_run"

text \<open>
  \<open>Executing\<close> carries the flag \<^verbatim>\<open>lease_lost\<close> that the heartbeat sets, \<open>Finished\<close> the agent's
  result, \<open>Retrying\<close> a run this worker has finalized as failed, with its attempt number, and
  \<open>Chained\<close> the retry that was inserted.
\<close>

datatype worker =
    Ready
  | Claimed run_rec
  | Executing run_rec int bool
  | Finished run_rec int "(string, unit) res"
  | Retrying run_rec int
  | Chained run_rec run_rec int

definition worker_claim :: "time \<Rightarrow> db \<Rightarrow> db \<times> worker" where
  "worker_claim now d =
     (case claim_due_run d now (lease_from now) of
        (d', Ok (Some r)) \<Rightarrow> (d', Claimed r)
      | (d', _) \<Rightarrow> (d', Ready))"

definition worker_attempt :: "db \<Rightarrow> run_rec \<Rightarrow> worker" where
  "worker_attempt d r =
     (case compute_run_attempt d (run_id r) of
        Some (Ok n) \<Rightarrow> Executing r n False
      | _ \<Rightarrow> Ready)"

text \<open>
  \<^verbatim>\<open>execute_run\<close>: the log entry, then the agent. When the entry cannot be written the agent is
  not started and the run has failed.
\<close>

definition execute_run ::
  "time \<Rightarrow> db \<Rightarrow> run_rec \<Rightarrow> (string, unit) res \<Rightarrow> db \<times> (string, unit) res" where
  "execute_run now d r agent =
     (case append_log now d (run_id r) LStarted None of
        (d', Err _) \<Rightarrow> (d', Err ''append_log'')
      | (d', Ok _) \<Rightarrow> (d', agent))"

definition heartbeat :: "time \<Rightarrow> db \<Rightarrow> run_rec \<Rightarrow> db \<times> bool" where
  "heartbeat now d r =
     (case renew_lease now d (run_id r) (lease_from now) of (d', ok) \<Rightarrow> (d', \<not> ok))"

text \<open>Final status, log entry and payload of a result.\<close>

fun outcome :: "(string, unit) res \<Rightarrow> run_status \<times> run_log_kind \<times> json option" where
  "outcome (Inr _) = (Succeeded, LSucceeded, None)"
| "outcome (Inl e) = (Failed, LFailed, Some (JObj [(''error'', JStr e)]))"

definition worker_finalize :: "time \<Rightarrow> db \<Rightarrow> run_rec \<Rightarrow> int \<Rightarrow> (string, unit) res \<Rightarrow> db \<times> worker" where
  "worker_finalize now d r n result =
     (let (status, kind, payload) = outcome result;
          (d', fin) = finalize_run now d (run_id r) status kind payload;
          owned = (case fin of Ok b \<Rightarrow> b | Err _ \<Rightarrow> False)
      in (d', if owned \<and> status = Failed \<and> retry_backoff_for n \<noteq> None then Retrying r n else Ready))"

definition retry_at :: "time \<Rightarrow> int \<Rightarrow> time" where
  "retry_at now n = now + (case retry_backoff_for n of Some b \<Rightarrow> b | None \<Rightarrow> 0)"

text \<open>
  One pass of \<^verbatim>\<open>try_claim_and_execute\<close> when nothing else touches the store in between and the
  lease is not lost: the state it leaves and whether it found a run; \<open>clk i\<close> is the \<open>i\<close>-th
  instant that it reads.
\<close>

definition try_claim_and_execute ::
  "(string \<Rightarrow> bool) \<Rightarrow> uuid \<Rightarrow> uuid \<Rightarrow> (nat \<Rightarrow> time) \<Rightarrow> db \<Rightarrow> (run_rec \<Rightarrow> (string, unit) res) \<Rightarrow>
   db \<times> bool" where
  "try_claim_and_execute avail sid rid clk d agent =
     (case worker_claim (clk 0) d of
        (d1, Claimed r) \<Rightarrow>
          (case worker_attempt d1 r of
             Executing _ n _ \<Rightarrow>
               (let (d2, result) = execute_run (clk 1) d1 r (agent r);
                    (d3, w) = worker_finalize (clk 2) d2 r n result
                in case w of
                     Retrying _ _ \<Rightarrow>
                       (fst (schedule_retry avail sid rid (clk 4) (clk 5) d3 r (retry_at (clk 3) n) (n + 1)), True)
                   | _ \<Rightarrow> (d3, True))
           | _ \<Rightarrow> (d1, False))
      | (d1, _) \<Rightarrow> (d1, False))"

subsection \<open>The cron ticker\<close>

definition fire_payload :: "trigger_kind automation_trigger \<Rightarrow> json" where
  "fire_payload t =
     JObj [(''source'', JStr ''cron''), (''trigger_id'', JUuid (trg_id t)),
           (''fired_for'', case trg_next t of None \<Rightarrow> JNull | Some n \<Rightarrow> JTime n)]"

text \<open>The texts of the errors of the store are those of its \<^verbatim>\<open>Display\<close>; here a mark for each.\<close>

definition fire_cron_trigger_once ::
  "('z, 'c) cron_lib \<Rightarrow> string \<Rightarrow> (string \<Rightarrow> bool) \<Rightarrow> uuid \<Rightarrow> uuid \<Rightarrow> (nat \<Rightarrow> time) \<Rightarrow> time \<Rightarrow> db \<Rightarrow>
   trigger_kind automation_trigger \<Rightarrow> db \<times> (string, unit) res" where
  "fire_cron_trigger_once L dtz avail sid rid clk now d t =
     (case get_automation d (trg_auto t) of
        None \<Rightarrow> (d, Err ''automation not found'')
      | Some a \<Rightarrow>
          (case spec_from_db (trg_kind t) (trg_spec t) of
             Err e \<Rightarrow> (d, Err (''trigger spec decode: '' @ e))
           | Ok WebhookSpec \<Rightarrow> (d, Err ''trigger is not a cron trigger'')
           | Ok (CronSpec expr tz) \<Rightarrow>
               (case next_fire_after L expr (the_default dtz tz) now of
                  Err e \<Rightarrow> (d, Err e)
                | Ok nxt \<Rightarrow>
                    (case fire_cron_trigger avail sid rid (clk 0) (clk 1) (clk 2) d a (trg_id t)
                            (the_default now (trg_next t)) nxt (fire_payload t) of
                       (d', Err _) \<Rightarrow> (d', Err ''store'')
                     | (d', Ok _) \<Rightarrow> (d', Ok ())))))"

fun fire_all ::
  "('z, 'c) cron_lib \<Rightarrow> string \<Rightarrow> (string \<Rightarrow> bool) \<Rightarrow> (nat \<Rightarrow> uuid) \<Rightarrow> (nat \<Rightarrow> uuid) \<Rightarrow> (nat \<Rightarrow> nat \<Rightarrow> time) \<Rightarrow>
   nat \<Rightarrow> time \<Rightarrow> db \<Rightarrow> trigger_kind automation_trigger list \<Rightarrow> db" where
  "fire_all L dtz avail sid rid clk n now d [] = d"
| "fire_all L dtz avail sid rid clk n now d (t # ts) =
     fire_all L dtz avail sid rid clk (Suc n) now
       (fst (fire_cron_trigger_once L dtz avail (sid n) (rid n) (clk n) now d t)) ts"

text \<open>A trigger that fails to fire is logged, and the tick goes on with the next.\<close>

definition cron_tick_once ::
  "('z, 'c) cron_lib \<Rightarrow> string \<Rightarrow> (string \<Rightarrow> bool) \<Rightarrow> (nat \<Rightarrow> uuid) \<Rightarrow> (nat \<Rightarrow> uuid) \<Rightarrow> (nat \<Rightarrow> nat \<Rightarrow> time) \<Rightarrow>
   time \<Rightarrow> db \<Rightarrow> db \<times> (state_error, unit) res" where
  "cron_tick_once L dtz avail sid rid clk now d =
     (case list_due_cron_triggers d now of
        Err e \<Rightarrow> (d, Err e)
      | Ok due \<Rightarrow> (fire_all L dtz avail sid rid clk 0 now d due, Ok ()))"

subsection \<open>Any number of workers and everything else, interleaved\<close>

text \<open>
  The system: the store and the workers. A worker's steps are its transactions; \<open>elsewhere\<close> is
  any step of the store that inserts no retry, which only a worker does: the HTTP handlers, the
  ticker and the reaper. Between a failed finalization and the retry the gate may be read in any
  state, so both the skip and the insertion may follow. A worker may give up at any point: its
  task is lost with the process, or a read fails.
\<close>

type_synonym system = "db \<times> (nat \<Rightarrow> worker)"

inductive sys_step :: "(string \<Rightarrow> bool) \<Rightarrow> ('z, 'c) cron_lib \<Rightarrow> string \<Rightarrow> system \<Rightarrow> system \<Rightarrow> bool"
  for avail :: "string \<Rightarrow> bool" and L :: "('z, 'c) cron_lib" and dtz :: string
  where
  elsewhere: "store_step avail L dtz d d' \<Longrightarrow>
    (\<And>i. length (runs d) \<le> i \<Longrightarrow> i < length (runs d') \<Longrightarrow> run_prev (runs d' ! i) = None) \<Longrightarrow>
    sys_step avail L dtz (d, ws) (d', ws)"
| claim: "ws k = Ready \<Longrightarrow> worker_claim now d = (d', w) \<Longrightarrow>
    sys_step avail L dtz (d, ws) (d', ws(k := w))"
| attempt: "ws k = Claimed r \<Longrightarrow> sys_step avail L dtz (d, ws) (d, ws(k := worker_attempt d r))"
| started: "ws k = Executing r n lost \<Longrightarrow>
    sys_step avail L dtz (d, ws) (fst (append_log now d (run_id r) LStarted None), ws)"
| beat: "ws k = Executing r n lost \<Longrightarrow> heartbeat now d r = (d', l) \<Longrightarrow>
    sys_step avail L dtz (d, ws) (d', ws(k := Executing r n (lost \<or> l)))"
| agent_done: "ws k = Executing r n lost \<Longrightarrow>
    sys_step avail L dtz (d, ws) (d, ws(k := (if lost then Ready else Finished r n result)))"
| finalize: "ws k = Finished r n result \<Longrightarrow> worker_finalize now d r n result = (d', w) \<Longrightarrow>
    sys_step avail L dtz (d, ws) (d', ws(k := w))"
| retry_skip: "ws k = Retrying r n \<Longrightarrow>
    sys_step avail L dtz (d, ws) (fst (append_log now d (run_id r) LRetrySkipped payload), ws(k := Ready))"
| retry_insert: "ws k = Retrying r n \<Longrightarrow>
    insert_run_with_session avail sid rid now d (retry_of r) (retry_at now' n) None = (d', res) \<Longrightarrow>
    w = (case res of Inr (Some r') \<Rightarrow> Chained r r' (n + 1) | _ \<Rightarrow> Ready) \<Longrightarrow>
    sys_step avail L dtz (d, ws) (d', ws(k := w))"
| retry_log: "ws k = Chained r r' n \<Longrightarrow>
    sys_step avail L dtz (d, ws) (fst (append_log now d (run_id r) LRetryScheduled payload), ws(k := Ready))"
| gives_up: "sys_step avail L dtz (d, ws) (d, ws(k := Ready))"

abbreviation sys_steps ::
  "(string \<Rightarrow> bool) \<Rightarrow> ('z, 'c) cron_lib \<Rightarrow> string \<Rightarrow> system \<Rightarrow> system \<Rightarrow> bool" where
  "sys_steps avail L dtz \<equiv> (sys_step avail L dtz)\<^sup>*\<^sup>*"

subsection \<open>Quiet steps\<close>

text \<open>A step of the store that adds no retry.\<close>

definition no_retry :: "db \<Rightarrow> db \<Rightarrow> bool" where
  "no_retry d d' = (\<forall>i. length (runs d) \<le> i \<longrightarrow> i < length (runs d') \<longrightarrow> run_prev (runs d' ! i) = None)"

definition prevs :: "db \<Rightarrow> uuid list" where
  "prevs d = map the (filter (\<lambda>p. p \<noteq> None) (map run_prev (runs d)))"

definition failed_run :: "db \<Rightarrow> uuid \<Rightarrow> bool" where
  "failed_run d rid = (\<exists>q \<in> set (runs d). run_id q = rid \<and> run_status q = ''failed'')"

definition has_attempt :: "db \<Rightarrow> uuid \<Rightarrow> int \<Rightarrow> bool" where
  "has_attempt d rid n = (rid \<in> run_id ` set (runs d) \<and> compute_run_attempt d rid = Some (Ok n))"

lemma no_retry_same_runs: "map run_id (runs d') = map run_id (runs d) \<Longrightarrow> no_retry d d'"
  by (metis length_map leD no_retry_def)

lemma evolves_split:
  assumes "evolves R d d'"
  shows "\<exists>old new. runs d' = old @ new \<and> length old = length (runs d) \<and>
           (\<forall>i < length (runs d). R (runs d ! i) (old ! i))"
  using assms
  by (intro exI [of _ "take (length (runs d)) (runs d')"] exI [of _ "drop (length (runs d)) (runs d')"])
    (auto simp: evolves_def)

lemma prevs_quiet:
  assumes "evolves same_run d d'" "no_retry d d'"
  shows "prevs d' = prevs d"
proof -
  obtain old new where o: "runs d' = old @ new" "length old = length (runs d)"
    "\<forall>i < length (runs d). same_run (runs d ! i) (old ! i)" using evolves_split [OF assms(1)] by blast
  have "map run_prev old = map run_prev (runs d)"
    using o by (auto simp: list_eq_iff_nth_eq same_run_def)
  moreover have "run_prev r = None" if r: "r \<in> set new" for r
  proof -
    obtain j where "j < length new" "r = new ! j" using r by (auto simp: in_set_conv_nth)
    then have "runs d' ! (length (runs d) + j) = r" "length (runs d) + j < length (runs d')"
      using o by (auto simp: nth_append)
    then show ?thesis using assms(2) by (metis le_add1 no_retry_def)
  qed
  then have "filter (\<lambda>p. p \<noteq> None) (map run_prev new) = []" by (auto simp: filter_empty_conv)
  ultimately show ?thesis unfolding prevs_def o(1) map_append filter_append by simp
qed

lemma in_prevs: "p \<in> set (prevs d) \<longleftrightarrow> (\<exists>r \<in> set (runs d). run_prev r = Some p)"
  by (force simp: prevs_def)

lemma failed_run_kept:
  assumes "evolves same_run d d'" "failed_run d rid"
  shows "failed_run d' rid"
proof -
  obtain i where i: "i < length (runs d)" "run_id (runs d ! i) = rid" "run_status (runs d ! i) = ''failed''"
    using assms(2) by (auto simp: failed_run_def in_set_conv_nth)
  then have "same_run (runs d ! i) (runs d' ! i)" "i < length (runs d')"
    using assms(1) by (auto simp: evolves_def)
  then show ?thesis using i unfolding failed_run_def
    by (intro bexI [of _ "runs d' ! i"]) (auto simp: same_run_def)
qed

lemma has_attempt_kept:
  assumes "store_ok d" "store_ok d'" "evolves same_run d d'" "has_attempt d rid n"
  shows "has_attempt d' rid n"
proof -
  obtain i where i: "i < length (runs d)" "run_id (runs d ! i) = rid"
    using assms(4) by (auto simp: has_attempt_def in_set_conv_nth)
  have "run_id (runs d' ! i) = rid" "i < length (runs d')"
    using assms(3) i by (auto simp: evolves_def same_run_def)
  then have "rid \<in> run_id ` set (runs d')" using nth_mem by blast
  then show ?thesis
    using attempt_stable [OF assms(1-3) i(1)] assms(4) i(2) by (simp add: has_attempt_def)
qed

subsection \<open>The invariant of the system\<close>

text \<open>
  Every run's attempt number is known and at most the maximum; a run that has been retried has
  failed, and is retried once; a worker knows its run's attempt number; and a run that some
  worker is about to retry has failed, has not been retried, has an attempt left, and is no other
  worker's to retry.
\<close>

definition worker_ok :: "db \<Rightarrow> worker \<Rightarrow> bool" where
  "worker_ok d w =
     (case w of
        Ready \<Rightarrow> True
      | Claimed r \<Rightarrow> True
      | Executing r n _ \<Rightarrow> has_attempt d (run_id r) n
      | Finished r n _ \<Rightarrow> has_attempt d (run_id r) n
      | Retrying r n \<Rightarrow> has_attempt d (run_id r) n \<and> n < max_attempts \<and> failed_run d (run_id r) \<and>
                        run_id r \<notin> set (prevs d)
      | Chained _ _ _ \<Rightarrow> True)"

definition retries_ok :: "db \<Rightarrow> bool" where
  "retries_ok d =
     (store_ok d \<and>
      (\<forall>r \<in> set (runs d). \<exists>n. has_attempt d (run_id r) n \<and> 1 \<le> n \<and> n \<le> max_attempts) \<and>
      distinct (prevs d) \<and> (\<forall>p \<in> set (prevs d). failed_run d p))"

fun retrying :: "worker \<Rightarrow> uuid option" where
  "retrying (Retrying r n) = Some (run_id r)"
| "retrying _ = None"

definition sole :: "(nat \<Rightarrow> worker) \<Rightarrow> bool" where
  "sole ws = (\<forall>k k' p. retrying (ws k) = Some p \<longrightarrow> retrying (ws k') = Some p \<longrightarrow> k = k')"

definition sys_ok :: "system \<Rightarrow> bool" where
  "sys_ok s = (retries_ok (fst s) \<and> (\<forall>k. worker_ok (fst s) (snd s k)) \<and> sole (snd s))"

lemma retries_okD:
  assumes "retries_ok d"
  shows "store_ok d" "distinct (prevs d)" "\<And>p. p \<in> set (prevs d) \<Longrightarrow> failed_run d p"
    "\<And>r. r \<in> set (runs d) \<Longrightarrow> \<exists>n. has_attempt d (run_id r) n \<and> 1 \<le> n \<and> n \<le> max_attempts"
  using assms unfolding retries_ok_def by blast+

lemma sys_okD:
  assumes "sys_ok (d, ws)"
  shows "retries_ok d" "worker_ok d (ws k)" "sole ws"
  using assms by (simp_all add: sys_ok_def)

lemma worker_ok_kept:
  assumes "store_ok d" "store_ok d'" "evolves same_run d d'" "no_retry d d'" "worker_ok d w"
  shows "worker_ok d' w"
  using assms(5) has_attempt_kept [OF assms(1-3)] failed_run_kept [OF assms(3)] prevs_quiet [OF assms(3,4)]
  by (cases w) (auto simp: worker_ok_def)

text \<open>A quiet step of the store keeps everything that the invariant says, whatever the workers.\<close>

lemma store_step_same_run: "store_step avail L dtz d d' \<Longrightarrow> evolves same_run d d'"
  by (rule store_steps_evolves) (rule r_into_rtranclp)

lemma attempts_bounded_kept:
  assumes ok: "store_ok d" "store_ok d'" "evolves same_run d d'" and q: "no_retry d d'"
    and old: "\<And>r. r \<in> set (runs d) \<Longrightarrow> \<exists>n. has_attempt d (run_id r) n \<and> 1 \<le> n \<and> n \<le> max_attempts"
    and r: "r \<in> set (runs d')"
  shows "\<exists>n. has_attempt d' (run_id r) n \<and> 1 \<le> n \<and> n \<le> max_attempts"
proof -
  obtain i where i: "i < length (runs d')" "runs d' ! i = r" using r by (auto simp: in_set_conv_nth)
  show ?thesis
  proof (cases "i < length (runs d)")
    case True
    then have "run_id r = run_id (runs d ! i)" using ok(3) i by (auto simp: evolves_def same_run_def)
    then show ?thesis using old [of "runs d ! i"] True has_attempt_kept [OF ok] by force
  next
    case False
    then have "run_prev (runs d' ! i) = None" using q i(1) unfolding no_retry_def by auto
    then have "compute_run_attempt d' (run_id r) = Some (Ok 1)"
      using attempt_nth [OF ok(2) i(1)] i(2) by (simp add: chain_depth.simps)
    then show ?thesis using r by (auto simp: has_attempt_def max_attempts_def)
  qed
qed

lemma sys_ok_quiet:
  assumes "sys_ok (d, ws)" "store_step avail L dtz d d'" "no_retry d d'"
  shows "sys_ok (d', ws)"
proof -
  note sys = sys_okD [OF assms(1)]
  note ok = retries_okD [OF sys(1)]
  have ok': "store_ok d'" using store_step_ok assms(2) ok(1) by blast
  have ev: "evolves same_run d d'" using assms(2) by (rule store_step_same_run)
  have "\<forall>r \<in> set (runs d'). \<exists>n. has_attempt d' (run_id r) n \<and> 1 \<le> n \<and> n \<le> max_attempts"
    using attempts_bounded_kept [OF ok(1) ok' ev assms(3) ok(4)] by blast
  moreover have "\<forall>p \<in> set (prevs d'). failed_run d' p"
    using prevs_quiet [OF ev assms(3)] ok(3) failed_run_kept [OF ev] by simp
  moreover have "distinct (prevs d')" using prevs_quiet [OF ev assms(3)] ok(2) by simp
  moreover have "worker_ok d' (ws k)" for k
    using worker_ok_kept [OF ok(1) ok' ev assms(3) sys(2)] .
  ultimately show ?thesis using ok' sys(3) by (simp add: sys_ok_def retries_ok_def)
qed

text \<open>A worker's new state must be good, and, when it is about to retry, its run its own.\<close>

lemma sole_upd:
  assumes "sole ws" "\<And>p k'. retrying w = Some p \<Longrightarrow> retrying (ws k') \<noteq> Some p"
  shows "sole (ws(k := w))"
  unfolding sole_def
proof (intro allI impI)
  fix j j' p
  assume j: "retrying ((ws(k := w)) j) = Some p" and j': "retrying ((ws(k := w)) j') = Some p"
  show "j = j'"
  proof (cases "j = k")
    case True
    then have "retrying w = Some p" using j by simp
    then show ?thesis using j' assms(2) True by (cases "j' = k") auto
  next
    case False
    then have "retrying (ws j) = Some p" using j by simp
    then have "j' \<noteq> k \<Longrightarrow> j = j'" using j' assms(1) by (auto simp: sole_def)
    moreover have "j' \<noteq> k" using j' assms(2) \<open>retrying (ws j) = Some p\<close> by auto
    ultimately show ?thesis by blast
  qed
qed

lemma sys_ok_worker:
  assumes "sys_ok (d, ws)" "worker_ok d w"
    and "\<And>p k'. retrying w = Some p \<Longrightarrow> retrying (ws k') \<noteq> Some p"
  shows "sys_ok (d, ws(k := w))"
  using assms sole_upd by (simp add: sys_ok_def)

lemma no_retry_id [simp]: "no_retry d d"
  by (simp add: no_retry_def)

lemma append_log_runs: "runs (fst (append_log now d rid kind payload)) = runs d"
  by (auto simp: append_log_def dest: insert_log_runs split: sum.splits)

lemma no_retry_append_log: "no_retry d (fst (append_log now d rid kind payload))"
  by (simp add: no_retry_same_runs append_log_runs)

lemma no_retry_claim: "no_retry d (fst (claim_due_run d now lease))"
  by (auto simp: claim_due_run_def no_retry_def split: list.splits sum.splits)

lemma no_retry_renew: "no_retry d (fst (renew_lease now d rid lease))"
  by (simp add: renew_lease_def Let_def no_retry_def)

lemma no_retry_finalize: "no_retry d (fst (finalize_run now d rid status kind payload))"
  by (auto simp: finalize_run_def Let_def no_retry_def dest!: insert_log_runs(1) split: sum.splits)

text \<open>A finalization that reports success as failed found the run running, and leaves it failed.\<close>

lemma finalize_owned:
  assumes "store_ok d" "finalize_run now d rid Failed kind payload = (d', Ok True)"
  shows "\<not> failed_run d rid" "failed_run d' rid"
proof -
  let ?P = "\<lambda>r. run_id r = rid \<and> run_status r = ''running''"
  have dist: "distinct (map run_id (runs d))" using assms(1) by (simp add: store_ok_def runs_ok_def)
  have one: "affected ?P (runs d) = 1"
    using assms(2) by (auto simp: finalize_run_def Let_def split: if_splits)
  then obtain r where r: "r \<in> set (runs d)" "run_id r = rid" "run_status r = ''running''"
    using affected_key_one [OF dist, of rid "\<lambda>r. run_status r = ''running''"] by blast
  show "\<not> failed_run d rid"
  proof
    assume "failed_run d rid"
    then obtain q where "q \<in> set (runs d)" "run_id q = rid" "run_status q = ''failed''"
      by (auto simp: failed_run_def)
    then show False using distinct_key_eq [OF dist r(1)] r by force
  qed
  let ?f = "\<lambda>r. r\<lparr>run_status := ''failed'', run_lease := None, run_updated := now\<rparr>"
  have "runs d' = set_where ?P ?f (runs d)"
    using assms(2) one by (auto simp: finalize_run_def Let_def dest!: insert_log_runs(1) split: sum.splits)
  moreover have "?f r \<in> set (set_where ?P ?f (runs d))"
    using r unfolding in_set_where by (intro bexI [of _ r]) simp_all
  ultimately show "failed_run d' rid"
    unfolding failed_run_def using r(2) by (intro bexI [of _ "?f r"]) auto
qed

lemma attempt_present:
  assumes "compute_run_attempt d rid = Some (Ok n)"
  shows "rid \<in> run_id ` set (runs d)"
proof -
  obtain q where "find (\<lambda>r. run_id r = rid) (runs d) = Some q"
    using assms by (auto simp: compute_run_attempt_def split: option.splits)
  then show ?thesis by (auto simp: find_Some_iff)
qed

lemma prevs_with_new_run:
  "prevs (with_new_run avail sid rid now d nr sched payload) =
     prevs d @ (case nr_prev nr of None \<Rightarrow> [] | Some p \<Rightarrow> [p])"
  by (auto simp: prevs_def with_new_run_def new_run_row_def split: option.splits)

text \<open>The insertion of the retry itself.\<close>

lemma retry_insert_ok:
  assumes d: "retries_ok d" and w: "worker_ok d (Retrying r n)"
    and ins: "insert_run_in avail sid rid now d (retry_of r) sched None = Ok (d', Some r')"
  shows "retries_ok d'" "\<And>v. worker_ok d v \<Longrightarrow> retrying v \<noteq> Some (run_id r) \<Longrightarrow> worker_ok d' v"
proof -
  note ok = retries_okD [OF d]
  have d': "d' = with_new_run avail sid rid now d (retry_of r) sched None"
    using ins by (simp add: insert_run_in_Some)
  let ?row = "new_run_row ''queued'' (retry_of r) rid sid sched now"
  have runs': "runs d' = runs d @ [?row]" by (simp add: d' with_new_run_def)
  have ok': "store_ok d'" by (rule store_ok_with_new_run [OF ok(1) ins])
  have "evolves evolve d d'" by (rule evolves_with_new_run [OF ins])
  then have ev: "evolves same_run d d'"
    using evolves_same_run_trans [of d d d'] by (simp add: evolves_def)
  have pr: "prevs d' = prevs d @ [run_id r]" by (simp add: d' prevs_with_new_run retry_of_def)
  have r: "has_attempt d (run_id r) n" "n < max_attempts" "failed_run d (run_id r)" "run_id r \<notin> set (prevs d)"
    using w by (simp_all add: worker_ok_def)
  then have "compute_run_attempt d' (run_id r) = Some (Ok n)"
    using has_attempt_kept [OF ok(1) ok' ev] by (simp add: has_attempt_def)
  then have new: "has_attempt d' (run_id ?row) (n + 1)"
    using attempt_successor [OF ok', of ?row "run_id r" n] runs'
    by (simp add: has_attempt_def) (simp add: new_run_row_def retry_of_def)
  have n1: "1 \<le> n"
  proof -
    obtain q where "q \<in> set (runs d)" "run_id q = run_id r" using r(1) by (auto simp: has_attempt_def)
    then obtain m where "has_attempt d (run_id r) m" "1 \<le> m" using ok(4) by force
    then show ?thesis using r(1) by (simp add: has_attempt_def)
  qed
  have "\<exists>m. has_attempt d' (run_id x) m \<and> 1 \<le> m \<and> m \<le> max_attempts" if x: "x \<in> set (runs d')" for x
  proof (cases "x = ?row")
    case True
    then show ?thesis using new r(2) n1 by (intro exI [of _ "n + 1"]) simp
  next
    case False
    then have "x \<in> set (runs d)" using x runs' by auto
    then show ?thesis using ok(4) [of x] has_attempt_kept [OF ok(1) ok' ev] by blast
  qed
  moreover have "failed_run d' p" if "p \<in> set (prevs d')" for p
    using that pr ok(3) r(3) failed_run_kept [OF ev] by auto
  moreover have "distinct (prevs d')" using pr ok(2) r(4) by simp
  ultimately show "retries_ok d'" using ok' by (simp add: retries_ok_def)
  show "worker_ok d' v" if "worker_ok d v" "retrying v \<noteq> Some (run_id r)" for v
    using that has_attempt_kept [OF ok(1) ok' ev] failed_run_kept [OF ev] pr
    by (cases v) (auto simp: worker_ok_def)
qed

lemma backoff_below_max: "retry_backoff_for n \<noteq> None \<Longrightarrow> n < max_attempts"
  by (auto simp: retry_backoff_for_def split: if_splits)

lemma sys_ok_finalize:
  assumes s: "sys_ok (d, ws)" and k: "ws k = Finished r n result"
    and f: "worker_finalize now d r n result = (d', w)"
  shows "sys_ok (d', ws(k := w))"
proof -
  obtain status kind payload where o: "outcome result = (status, kind, payload)" by (cases "outcome result")
  let ?fin = "finalize_run now d (run_id r) status kind payload"
  have d': "d' = fst ?fin" using f by (simp add: worker_finalize_def o split: prod.splits)
  have trm: "terminal (run_status_as_str status)" using o by (cases result) auto
  have step: "store_step (\<lambda>_. True) minutely [] d d'" unfolding d' by (rule finalize_step [OF trm])
  have q: "no_retry d d'" unfolding d' by (rule no_retry_finalize)
  have s': "sys_ok (d', ws)" by (rule sys_ok_quiet [OF s step q])
  note ok = retries_okD [OF sys_okD(1) [OF s]]
  show ?thesis
  proof (cases "w = Ready")
    case True
    show ?thesis unfolding True by (rule sys_ok_worker [OF s']) (simp_all add: worker_ok_def)
  next
    case False
    then have w: "w = Retrying r n" "status = Failed" "retry_backoff_for n \<noteq> None" "snd ?fin = Ok True"
      using f by (auto simp: worker_finalize_def o split: prod.splits sum.splits if_splits)
    have fin: "finalize_run now d (run_id r) Failed kind payload = (d', Ok True)"
      using w d' by (metis prod.collapse)
    note fo = finalize_owned [OF ok(1) fin]
    have prevs: "prevs d' = prevs d" using prevs_quiet [OF store_step_same_run [OF step] q] .
    have "has_attempt d' (run_id r) n" using sys_okD(2) [OF s', of k] k by (simp add: worker_ok_def)
    moreover have "run_id r \<notin> set (prevs d')" unfolding prevs using ok(3) fo(1) by blast
    ultimately have "worker_ok d' w"
      using fo(2) backoff_below_max w(1,3) by (simp add: worker_ok_def)
    moreover have "retrying (ws k') \<noteq> Some (run_id r)" for k'
      using sys_okD(2) [OF s, of k'] fo(1) by (cases "ws k'") (auto simp: worker_ok_def)
    ultimately show ?thesis by (intro sys_ok_worker [OF s']) (simp_all add: w(1))
  qed
qed

lemma sys_ok_retry:
  assumes s: "sys_ok (d, ws)" and k: "ws k = Retrying r n"
    and i: "insert_run_with_session avail sid rid now d (retry_of r) sched None = (d', res)"
    and w: "retrying w = None" "\<And>e. worker_ok e w"
  shows "sys_ok (d', ws(k := w))"
proof -
  note c = insert_run_with_session_cases [of avail sid rid now d "retry_of r" sched None]
  show ?thesis
  proof (cases "d' = d")
    case True
    then show ?thesis using sys_ok_worker [OF s, of w k] w by simp
  next
    case False
    then obtain r' where ins: "insert_run_in avail sid rid now d (retry_of r) sched None = Ok (d', Some r')"
      using c i by auto
    have wk: "worker_ok d (Retrying r n)" using sys_okD(2) [OF s, of k] k by simp
    note ri = retry_insert_ok [OF sys_okD(1) [OF s] wk ins]
    have "worker_ok d' ((ws(k := w)) j)" for j
    proof (cases "j = k")
      case False
      then have "retrying (ws j) \<noteq> Some (run_id r)"
        using sys_okD(3) [OF s] k unfolding sole_def by (metis retrying.simps(1))
      then show ?thesis using ri(2) [OF sys_okD(2) [OF s, of j]] False by simp
    qed (simp add: w)
    moreover have "sole (ws(k := w))" by (rule sole_upd [OF sys_okD(3) [OF s]]) (simp add: w(1))
    ultimately show ?thesis using ri(1) by (simp add: sys_ok_def)
  qed
qed

lemma sys_step_ok:
  assumes "sys_step avail L dtz s s'" "sys_ok s"
  shows "sys_ok s'"
  using assms
proof (cases rule: sys_step.cases)
  case (elsewhere d d' ws)
  then have "no_retry d d'" by (simp add: no_retry_def)
  then show ?thesis using sys_ok_quiet elsewhere assms(2) by blast
next
  case (claim ws k now d d' w)
  have "store_step avail L dtz d d'" "no_retry d d'"
    using claim(4) claim_step [of avail L dtz d now "lease_from now"] no_retry_claim [of d now "lease_from now"]
    by (auto simp: worker_claim_def split: prod.splits sum.splits option.splits)
  then have "sys_ok (d', ws)" using sys_ok_quiet assms(2) claim(1) by blast
  moreover have "w = Ready \<or> (\<exists>r. w = Claimed r)"
    using claim(4) by (auto simp: worker_claim_def split: prod.splits sum.splits option.splits)
  ultimately show ?thesis unfolding claim(2) by (intro sys_ok_worker) (auto simp: worker_ok_def)
next
  case (attempt ws k r d)
  have "worker_ok d (worker_attempt d r)" "retrying (worker_attempt d r) = None"
    using attempt_present [of d "run_id r"]
    by (auto simp: worker_attempt_def worker_ok_def has_attempt_def split: option.splits sum.splits)
  then show ?thesis using assms(2) attempt by (auto intro: sys_ok_worker)
next
  case (started ws k r n lost d now)
  then show ?thesis using sys_ok_quiet [OF _ append_log_step no_retry_append_log] assms(2) by simp
next
  case (beat ws k r n lost now d d' l)
  have "d' = fst (renew_lease now d (run_id r) (lease_from now))"
    using beat(4) by (auto simp: heartbeat_def split: prod.splits)
  then have "sys_ok (d', ws)" using sys_ok_quiet [OF _ renew_step no_retry_renew] assms(2) beat(1) by simp
  then show ?thesis using beat sys_okD(2) [of d' ws k]
    by (auto intro!: sys_ok_worker simp: worker_ok_def)
next
  case (agent_done ws k r n lost d result)
  then show ?thesis using assms(2) sys_okD(2) [of d ws k]
    by (auto intro!: sys_ok_worker simp: worker_ok_def)
next
  case (finalize ws k r n result now d d' w)
  then show ?thesis using sys_ok_finalize assms(2) by blast
next
  case (retry_skip ws k r n d now payload)
  then have "sys_ok (fst (append_log now d (run_id r) LRetrySkipped payload), ws)"
    using sys_ok_quiet [OF _ append_log_step no_retry_append_log] assms(2) by simp
  then show ?thesis unfolding retry_skip(2) by (rule sys_ok_worker) (simp_all add: worker_ok_def)
next
  case (retry_insert ws k r n sid rid now d now' d' res w)
  have "retrying w = None" "\<And>e. worker_ok e w"
    using retry_insert(5) by (auto simp: worker_ok_def split: sum.splits option.splits)
  then show ?thesis using sys_ok_retry retry_insert(1-4) assms(2) by blast
next
  case (retry_log ws k r r' n d now payload)
  then have "sys_ok (fst (append_log now d (run_id r) LRetryScheduled payload), ws)"
    using sys_ok_quiet [OF _ append_log_step no_retry_append_log] assms(2) by simp
  then show ?thesis unfolding retry_log(2) by (rule sys_ok_worker) (simp_all add: worker_ok_def)
next
  case (gives_up d ws k)
  then show ?thesis using assms(2) by (auto intro!: sys_ok_worker simp: worker_ok_def)
qed

lemma sys_steps_ok: "sys_steps avail L dtz s s' \<Longrightarrow> sys_ok s \<Longrightarrow> sys_ok s'"
  by (induction rule: rtranclp_induct) (auto intro: sys_step_ok)

lemma sys_ok_start: "store_ok d \<Longrightarrow> runs d = [] \<Longrightarrow> sys_ok (d, \<lambda>_. Ready)"
  by (simp add: sys_ok_def retries_ok_def worker_ok_def sole_def prevs_def)

subsection \<open>Properties\<close>

text \<open>
  C17. Attempts. However many workers there are and however their steps interleave with each
  other, with the HTTP handlers, the ticker and the reaper, starting from a store without runs:
  the attempt number of every run is between 1 and \<open>MAX_ATTEMPTS\<close>, a run is retried at most once
  (no two runs have the same predecessor), and only a run that failed is retried. This holds
  although a lease has no owner, so that two workers may hold the same run.
\<close>

theorem attempts_bounded:
  assumes "store_ok d0" "runs d0 = []" "sys_steps avail L dtz (d0, \<lambda>_. Ready) (d, ws)"
  shows "(\<forall>r \<in> set (runs d). \<exists>n. compute_run_attempt d (run_id r) = Some (Ok n) \<and> 1 \<le> n \<and> n \<le> 3) \<and>
         (\<forall>r \<in> set (runs d). \<forall>r' \<in> set (runs d). \<forall>p.
            run_prev r = Some p \<and> run_prev r' = Some p \<longrightarrow> r = r') \<and>
         (\<forall>r \<in> set (runs d). \<forall>p. run_prev r = Some p \<longrightarrow>
            (\<exists>q \<in> set (runs d). run_id q = p \<and> run_status q = ''failed''))"
proof -
  have "sys_ok (d, ws)" using sys_steps_ok [OF assms(3) sys_ok_start [OF assms(1,2)]] .
  note ok = retries_okD [OF sys_okD(1) [OF this]]
  have one: "r = r'" if "r \<in> set (runs d)" "r' \<in> set (runs d)" "run_prev r = Some p" "run_prev r' = Some p" for r r' p
  proof -
    have "distinct (map run_prev (filter (\<lambda>r. run_prev r \<noteq> None) (runs d)))"
      using ok(2) by (simp add: prevs_def filter_map comp_def distinct_map inj_on_def)
    from distinct_key_eq [OF this, of r r'] show ?thesis using that by simp
  qed
  have "failed_run d p" if "r \<in> set (runs d)" "run_prev r = Some p" for r p
    using ok(3) that in_prevs by blast
  then show ?thesis using ok(4) one unfolding has_attempt_def failed_run_def max_attempts_def by blast
qed

end
