(* ===== verification/Automation_Runtime.thy ===== *)
theory Automation_Runtime
  imports Automation_Worker
begin

section \<open>The runtime: a whole pass and a whole tick\<close>

text \<open>
  A worker's pass as the code writes it, one function from claim to retry, implements the
  interleaved system: its effect is a sequence of the system's steps. What the pass does to the
  run it claims, and what a tick of the cron ticker does to the triggers that are due.
\<close>

subsection \<open>The pass refines the system\<close>

lemma schedule_retry_parts:
  fixes avail sid rid now1 now2 d prev sched n
  defines "ins \<equiv> insert_run_with_session avail sid rid now1 d (retry_of prev) sched None"
    and "res \<equiv> fst (schedule_retry avail sid rid now1 now2 d prev sched n)"
  shows "(\<exists>pl. res = fst (append_log now1 d (run_id prev) LRetrySkipped pl)) \<or>
         (\<exists>d' r' pl. ins = (d', Ok (Some r')) \<and> res = fst (append_log now2 d' (run_id prev) LRetryScheduled pl)) \<or>
         (res = fst ins \<and> (\<forall>r'. snd ins \<noteq> Ok (Some r')))"
proof (cases "case run_auto prev of None \<Rightarrow> False
      | Some aid \<Rightarrow> (case get_automation d aid of None \<Rightarrow> True | Some a \<Rightarrow> \<not> auto_enabled a)")
  case True
  let ?pl = "Some (JObj [(''reason'', JStr ''automation_disabled''), (''attempt'', JInt n)])"
  have "res = fst (append_log now1 d (run_id prev) LRetrySkipped ?pl)"
    using True by (simp add: res_def schedule_retry_def split: prod.splits sum.splits)
  then show ?thesis by blast
next
  case False
  obtain d' o' where i: "ins = (d', o')" by (cases ins)
  show ?thesis
  proof (cases "\<exists>r'. o' = Ok (Some r')")
    case True
    then obtain r' where r': "o' = Ok (Some r')" by blast
    let ?pl = "Some (JObj [(''next_run_id'', JUuid (run_id r')), (''scheduled_for'', JTime sched), (''attempt'', JInt n)])"
    have "res = fst (append_log now2 d' (run_id prev) LRetryScheduled ?pl)"
      using False i r' by (simp add: res_def schedule_retry_def ins_def split: prod.splits sum.splits)
    then show ?thesis using i r' by blast
  next
    case no: False
    then have "res = d'"
      using False i by (auto simp: res_def schedule_retry_def ins_def split: prod.splits sum.splits option.splits)
    then show ?thesis using i no by auto
  qed
qed

lemma retry_refines:
  assumes "ws k = Retrying r n"
  shows "sys_steps avail L dtz (d, ws)
    (fst (schedule_retry avail sid rid now now2 d r (retry_at now' n) m), ws(k := Ready))"
proof -
  let ?ins = "insert_run_with_session avail sid rid now d (retry_of r) (retry_at now' n) None"
  let ?res = "fst (schedule_retry avail sid rid now now2 d r (retry_at now' n) m)"
  consider (skip) pl where "?res = fst (append_log now d (run_id r) LRetrySkipped pl)"
    | (chain) d' r' pl where "?ins = (d', Ok (Some r'))"
        "?res = fst (append_log now2 d' (run_id r) LRetryScheduled pl)"
    | (none) "?res = fst ?ins" "\<forall>r'. snd ?ins \<noteq> Ok (Some r')"
    using schedule_retry_parts [of avail sid rid now now2 d r "retry_at now' n" m] by blast
  then show ?thesis
  proof cases
    case skip
    then show ?thesis using retry_skip [of ws k r n avail L dtz d now pl, OF assms] by simp
  next
    case chain
    have "sys_step avail L dtz (d, ws) (d', ws(k := Chained r r' (n + 1)))"
      by (rule retry_insert [where ws = ws and k = k and r = r and n = n, OF assms chain(1)]) simp
    moreover have "sys_step avail L dtz (d', ws(k := Chained r r' (n + 1))) (?res, ws(k := Ready))"
      using retry_log [of "ws(k := Chained r r' (n + 1))" k r r' "n + 1" avail L dtz d' now2 pl] chain(2) by simp
    ultimately show ?thesis by simp
  next
    case none
    obtain d' res where i: "?ins = (d', res)" by (cases ?ins)
    have "(case res of Inr (Some r') \<Rightarrow> Chained r r' (n + 1) | _ \<Rightarrow> Ready) = Ready"
      using none(2) i by (auto split: sum.splits option.splits)
    then have "sys_step avail L dtz (d, ws) (d', ws(k := Ready))"
      by (intro retry_insert [where ws = ws and k = k and r = r and n = n, OF assms i]) simp
    then show ?thesis using none(1) i by simp
  qed
qed

lemma pass_is_steps:
  assumes "ws k = Ready"
  shows "sys_steps avail L dtz (d, ws) (fst (try_claim_and_execute avail sid rid clk d agent), ws)"
proof -
  have same: "ws(k := Ready) = ws" using assms by auto
  obtain d1 w1 where c: "worker_claim (clk 0) d = (d1, w1)" by (cases "worker_claim (clk 0) d")
  have s1: "sys_step avail L dtz (d, ws) (d1, ws(k := w1))" by (rule claim [where ws = ws and k = k, OF assms c])
  have "w1 = Ready \<or> (\<exists>r. w1 = Claimed r)"
    using c by (auto simp: worker_claim_def split: prod.splits sum.splits option.splits)
  then show ?thesis
  proof (elim disjE exE)
    assume "w1 = Ready"
    then show ?thesis using s1 by (simp add: try_claim_and_execute_def c same)
  next
    fix r assume w1: "w1 = Claimed r"
    let ?w2 = "worker_attempt d1 r"
    have "sys_step avail L dtz (d1, ws(k := w1)) (d1, (ws(k := w1))(k := ?w2))"
      by (rule attempt) (simp add: w1)
    then have s2: "sys_steps avail L dtz (d, ws) (d1, ws(k := ?w2))" using s1 by simp
    have "?w2 = Ready \<or> (\<exists>n. ?w2 = Executing r n False)"
      by (auto simp: worker_attempt_def split: option.splits sum.splits)
    then show ?thesis
    proof (elim disjE exE)
      assume "?w2 = Ready"
      then show ?thesis using s2 by (simp add: try_claim_and_execute_def c w1 same)
    next
      fix n assume w2: "?w2 = Executing r n False"
      obtain d2 result where x: "execute_run (clk 1) d1 r (agent r) = (d2, result)"
        by (cases "execute_run (clk 1) d1 r (agent r)")
      have d2: "d2 = fst (append_log (clk 1) d1 (run_id r) LStarted None)"
        using x by (auto simp: execute_run_def split: prod.splits sum.splits)
      have "sys_step avail L dtz (d1, ws(k := ?w2)) (d2, ws(k := ?w2))"
        unfolding d2 by (rule started [of _ k r n False]) (simp add: w2)
      moreover have "sys_step avail L dtz (d2, ws(k := ?w2)) (d2, ws(k := Finished r n result))"
        using agent_done [of "ws(k := ?w2)" k r n False avail L dtz d2 result] w2 by simp
      ultimately have s3: "sys_steps avail L dtz (d, ws) (d2, ws(k := Finished r n result))"
        using s2 by (meson rtranclp.rtrancl_into_rtrancl)
      obtain d3 w3 where f: "worker_finalize (clk 2) d2 r n result = (d3, w3)"
        by (cases "worker_finalize (clk 2) d2 r n result")
      have "sys_step avail L dtz (d2, ws(k := Finished r n result)) (d3, ws(k := w3))"
        using finalize [of "ws(k := Finished r n result)" k r n result, OF _ f] by simp
      then have s4: "sys_steps avail L dtz (d, ws) (d3, ws(k := w3))" using s3 by simp
      have "w3 = Ready \<or> w3 = Retrying r n"
        using f by (auto simp: worker_finalize_def split: prod.splits if_splits)
      then show ?thesis
      proof
        assume "w3 = Ready"
        then show ?thesis using s4 by (simp add: try_claim_and_execute_def c w1 w2 x [unfolded One_nat_def] f same)
      next
        assume w3: "w3 = Retrying r n"
        have "sys_steps avail L dtz (d3, ws(k := w3))
          (fst (schedule_retry avail sid rid (clk 4) (clk 5) d3 r (retry_at (clk 3) n) (n + 1)), (ws(k := w3))(k := Ready))"
          by (rule retry_refines) (simp add: w3)
        then show ?thesis using s4 w3
          by (simp add: try_claim_and_execute_def c w1 w2 x [unfolded One_nat_def] f same)
      qed
    qed
  qed
qed


text \<open>A run that fails, in a store with one run: its retry, and the retry's retry.\<close>

definition failing_pass :: "uuid \<Rightarrow> time \<Rightarrow> db \<Rightarrow> db" where
  "failing_pass fresh now d =
     fst (try_claim_and_execute (\<lambda>_. True) fresh (100 + fresh) (\<lambda>_. now) d (\<lambda>_. Err ''no''))"

definition demo_pass :: db where
  "demo_pass = failing_pass 300 (seconds 60) demo_queued"


lemmas pass_eval = failing_pass_def try_claim_and_execute_def worker_claim_def worker_attempt_def
  execute_run_def worker_finalize_def schedule_retry_def append_log_def insert_log_def
  finalize_run_def retry_of_def compute_run_attempt_def chain_depth.simps retry_backoff_for_def
  retry_backoffs_def max_attempts_def retry_at_def

lemma demo_pass_runs:
  "map (\<lambda>r. (run_id r, run_status r, run_prev r)) (runs demo_pass) =
     [(200, ''failed'', None), (400, ''queued'', Some 200)]"
  by (simp add: demo_pass_def demo_queued_def demo_eval pass_eval Let_def seconds_def)

lemma demo_pass_reachable:
  "sys_steps (\<lambda>_. True) minutely ''UTC'' (empty_db, \<lambda>_. Ready) (demo_pass, \<lambda>_. Ready)"
proof -
  have "store_step (\<lambda>_. True) minutely ''UTC'' empty_db demo_queued"
    unfolding demo_queued_def by (rule run_intros)
  then have "sys_step (\<lambda>_. True) minutely ''UTC'' (empty_db, \<lambda>_. Ready) (demo_queued, \<lambda>_. Ready)"
    by (rule elsewhere) (simp add: demo_queued_runs new_run_row_def demo_run_def empty_db_def)
  moreover have "sys_steps (\<lambda>_. True) minutely ''UTC'' (demo_queued, \<lambda>_. Ready) (demo_pass, \<lambda>_. Ready)"
    unfolding demo_pass_def failing_pass_def using pass_is_steps [of "\<lambda>_. Ready" 0] by simp
  ultimately show ?thesis by simp
qed

theorem attempts_bounded_witness:
  "map (\<lambda>r. (run_id r, run_prev r)) (runs demo_pass) = [(200, None), (400, Some 200)] \<and>
   (\<exists>q \<in> set (runs demo_pass). run_id q = 200 \<and> run_status q = ''failed'')"
proof -
  have m: "map (\<lambda>r. (run_id r, run_prev r)) (runs demo_pass) = [(200, None), (400, Some 200)]"
    using arg_cong [OF demo_pass_runs, of "map (\<lambda>(i, s, p). (i, p))"] by (simp add: comp_def)
  have "(400, Some 200) \<in> set (map (\<lambda>r. (run_id r, run_prev r)) (runs demo_pass))" by (simp add: m)
  then obtain r where "r \<in> set (runs demo_pass)" "run_prev r = Some 200" by auto
  then show ?thesis
    using attempts_bounded [OF empty_db_ok _ demo_pass_reachable] m by (auto simp: empty_db_def)
qed

subsection \<open>What a pass does\<close>

definition only_runs :: "db \<Rightarrow> db \<Rightarrow> bool" where
  "only_runs d d' =
     (workspaces d' = workspaces d \<and> users d' = users d \<and> sessions d' = sessions d \<and>
      automations d' = automations d \<and> triggers d' = triggers d)"

lemma finalize_running:
  assumes "distinct (map run_id (runs d))" "r \<in> set (runs d)" "run_status r = ''running''"
  shows "\<exists>d'. finalize_run now d (run_id r) status kind payload = (d', Ok True) \<and>
    runs d' = map (\<lambda>x. if run_id x = run_id r
                then x\<lparr>run_status := run_status_as_str status, run_lease := None, run_updated := now\<rparr>
                else x) (runs d) \<and>
    only_runs d d'"
proof -
  let ?f = "\<lambda>x. x\<lparr>run_status := run_status_as_str status, run_lease := None, run_updated := now\<rparr>"
  have one: "affected (\<lambda>x. run_id x = run_id r \<and> run_status x = ''running'') (runs d) = 1"
    using affected_key_one [OF assms(1), of "run_id r" "\<lambda>x. run_status x = ''running''"] assms(2,3) by auto
  note upd = set_where_key [OF assms(1,2), of "\<lambda>x. run_status x = ''running''" ?f, OF assms(3)]
  have "has_key run_id (run_id r) (set_where (\<lambda>x. run_id x = run_id r \<and> run_status x = ''running'') ?f (runs d))"
    using assms(2) by (simp add: has_key_iff set_where_image)
  then show ?thesis using one by (simp add: finalize_run_def Let_def insert_log_def upd only_runs_def)
qed

lemma gate_get_automation:
  assumes "distinct (map auto_id (automations d))"
  shows "(case ao of None \<Rightarrow> False
            | Some aid \<Rightarrow> (case get_automation d aid of None \<Rightarrow> True | Some a \<Rightarrow> \<not> auto_enabled a))
          \<longleftrightarrow> \<not> gate_open d ao"
proof (cases ao)
  case (Some aid)
  show ?thesis
  proof (cases "get_automation d aid")
    case None
    then have "\<forall>a \<in> set (automations d). auto_id a \<noteq> aid"
      by (auto simp: get_automation_def find_None_iff)
    then show ?thesis using None \<open>ao = Some aid\<close> by (auto simp: gate_open_def list_ex_iff)
  next
    case (Some a)
    then have a: "a \<in> set (automations d)" "auto_id a = aid" by (auto simp: get_automation_def find_Some_iff)
    have "a' = a" if "a' \<in> set (automations d)" "auto_id a' = aid" for a'
      by (rule distinct_key_eq [OF assms that(1) a(1)]) (simp add: that(2) a(2))
    then have "(\<exists>x \<in> set (automations d). auto_id x = aid \<and> auto_enabled x) = auto_enabled a"
      using a by blast
    then show ?thesis using \<open>ao = Some aid\<close> Some by (simp add: gate_open_def list_ex_iff)
  qed
qed (simp add: gate_open_def)

lemma retry_blocked:
  assumes "distinct (map auto_id (automations d))" "\<not> gate_open d (run_auto prev)"
  shows "runs (fst (schedule_retry avail sid rid now1 now2 d prev sched n)) = runs d"
proof -
  let ?pl = "Some (JObj [(''reason'', JStr ''automation_disabled''), (''attempt'', JInt n)])"
  obtain d' res where a: "append_log now1 d (run_id prev) LRetrySkipped ?pl = (d', res)" by (meson surj_pair)
  have "runs d' = runs d" using append_log_runs [of now1 d "run_id prev" LRetrySkipped ?pl] by (simp add: a)
  then show ?thesis
    using gate_get_automation [OF assms(1), of "run_auto prev"] assms(2)
    by (cases res) (simp_all add: schedule_retry_def a)
qed

lemma retry_inserted:
  assumes "distinct (map auto_id (automations d))" "gate_open d (run_auto prev)"
    "\<not> has_key ses_id sid (sessions d)" "has_key id (run_ws prev) (workspaces d)"
    "run_constraints d (retry_of prev) rid sid"
  shows "runs (fst (schedule_retry avail sid rid now1 now2 d prev sched n)) =
           runs d @ [new_run_row ''queued'' (retry_of prev) rid sid sched now1]"
proof -
  let ?d1 = "with_new_run avail sid rid now1 d (retry_of prev) sched None"
  have "insert_run_in avail sid rid now1 d (retry_of prev) sched None =
      Ok (?d1, Some (new_run_row Queued (retry_of prev) rid sid sched now1))"
    using assms by (simp add: insert_run_in_Some) (simp add: retry_of_def)
  then have ins: "insert_run_with_session avail sid rid now1 d (retry_of prev) sched None =
      (?d1, Ok (Some (new_run_row Queued (retry_of prev) rid sid sched now1)))"
    by (simp add: insert_run_with_session_def)
  let ?pl = "Some (JObj [(''next_run_id'', JUuid (run_id (new_run_row Queued (retry_of prev) rid sid sched now1))),
      (''scheduled_for'', JTime sched), (''attempt'', JInt n)])"
  obtain d' res where a: "append_log now2 ?d1 (run_id prev) LRetryScheduled ?pl = (d', res)" by (meson surj_pair)
  have "runs d' = runs ?d1" using append_log_runs [of now2 ?d1 "run_id prev" LRetryScheduled ?pl] by (simp add: a)
  then have "runs (fst (schedule_retry avail sid rid now1 now2 d prev sched n)) = runs ?d1"
    using gate_get_automation [OF assms(1), of "run_auto prev"] assms(2)
    by (cases res) (simp_all add: schedule_retry_def ins a)
  then show ?thesis by (simp add: with_new_run_def)
qed

text \<open>The run as a pass leaves it, and the retry that it adds.\<close>

definition ended_row :: "time \<Rightarrow> (string, unit) res \<Rightarrow> string automation_run \<Rightarrow> string automation_run" where
  "ended_row now result r =
     r\<lparr>run_status := (if is_ok result then ''succeeded'' else ''failed''), run_lease := None,
       run_updated := now\<rparr>"

lemma runs_execute: "runs (fst (execute_run now d r agent)) = runs d"
  using append_log_runs [of now d "run_id r" LStarted None]
  by (auto simp: execute_run_def split: prod.splits sum.splits)

lemma execute_present:
  "run_id r \<in> run_id ` set (runs d) \<Longrightarrow> \<exists>d'. execute_run now d r agent = (d', agent) \<and>
     runs d' = runs d \<and> only_runs d d'"
  by (simp add: execute_run_def append_log_present only_runs_def)

lemma worker_finalize_running:
  assumes "distinct (map run_id (runs d))" "x \<in> set (runs d)" "run_status x = ''running''" "run_id x = run_id r"
  shows "\<exists>d'. worker_finalize now d r n result =
      (d', if \<not> is_ok result \<and> retry_backoff_for n \<noteq> None then Retrying r n else Ready) \<and>
    runs d' = map (\<lambda>y. if run_id y = run_id r then ended_row now result y else y) (runs d) \<and>
    only_runs d d'"
proof -
  obtain status kind payload where o: "outcome result = (status, kind, payload)" by (cases "outcome result")
  have st: "(status = Failed) = (\<not> is_ok result)"
    "run_status_as_str status = (if is_ok result then ''succeeded'' else ''failed'')"
    using o by (cases result; auto)+
  obtain d' where f: "finalize_run now d (run_id r) status kind payload = (d', Ok True)"
    and r: "runs d' = map (\<lambda>y. if run_id y = run_id r
                then y\<lparr>run_status := run_status_as_str status, run_lease := None, run_updated := now\<rparr>
                else y) (runs d)"
    and keep: "only_runs d d'"
    using finalize_running [OF assms(1-3), of now status kind payload] assms(4) by auto
  show ?thesis
    using keep by (intro exI [of _ d']) (simp add: worker_finalize_def o f st(1) r ended_row_def st(2))
qed

text \<open>The state after claim, execution and finalization, and the retry decision.\<close>

lemma pass_until_finalize:
  fixes clk :: "nat \<Rightarrow> time"
  assumes ok: "store_ok d" and due: "due_runs d (clk 0) = row # rest"
  shows "\<exists>c d1 d2 d3 n.
    worker_claim (clk 0) d = (d1, Claimed c) \<and> worker_attempt d1 c = Executing c n False \<and>
    execute_run (clk 1) d1 c result = (d2, result) \<and>
    worker_finalize (clk 2) d2 c n result =
      (d3, if \<not> is_ok result \<and> retry_backoff_for n \<noteq> None then Retrying c n else Ready) \<and>
    compute_run_attempt d (run_id row) = Some (Ok n) \<and> 1 \<le> n \<and>
    (run_id c = run_id row \<and> run_auto c = run_auto row \<and> run_trig c = run_trig row \<and>
     run_ws c = run_ws row \<and> run_prompt c = run_prompt row) \<and>
    runs d3 = map (\<lambda>r. if run_id r = run_id row then ended_row (clk 2) result r else r) (runs d) \<and>
    only_runs d d3"
proof -
  let ?lease = "lease_from (clk 0)"
  note h = due_runs_hd [OF due]
  obtain run where run: "run_from_row row = Ok run" and
    cl: "claim_due_run d (clk 0) ?lease =
      (d\<lparr>runs := map (\<lambda>x. if run_id x = run_id row
             then x\<lparr>run_status := ''running'', run_lease := Some ?lease, run_updated := clk 0\<rparr> else x) (runs d)\<rparr>,
       Ok (Some (run\<lparr>run_status := Running, run_lease := Some ?lease\<rparr>)))"
    using claim_due_first [OF ok due] by blast
  define c where "c = run\<lparr>run_status := Running, run_lease := Some ?lease\<rparr>"
  define d1 where "d1 = fst (claim_due_run d (clk 0) ?lease)"
  have wc: "worker_claim (clk 0) d = (d1, Claimed c)" by (simp add: worker_claim_def cl d1_def c_def)
  have cid: "run_id c = run_id row" "run_auto c = run_auto row" "run_trig c = run_trig row"
    "run_ws c = run_ws row" "run_prompt c = run_prompt row"
    using run by (auto simp: c_def run_from_row_def split: option.splits)
  have step: "store_step (\<lambda>_. True) minutely [] d d1" unfolding d1_def by (rule claim_step)
  have ok1: "store_ok d1" using store_step_ok [OF step ok] .
  obtain i where i: "i < length (runs d)" "runs d ! i = row" using h(1) by (auto simp: in_set_conv_nth)
  obtain n where n: "compute_run_attempt d (run_id row) = Some (Ok n)" "1 \<le> n"
    using attempt_total [OF ok i(1)] i(2) by auto
  have wa: "worker_attempt d1 c = Executing c n False"
    using attempt_stable [OF ok ok1 store_step_same_run [OF step] i(1)] i(2) n(1) cid(1)
    by (simp add: worker_attempt_def)
  have runs1: "runs d1 = map (\<lambda>x. if run_id x = run_id row
      then x\<lparr>run_status := ''running'', run_lease := Some ?lease, run_updated := clk 0\<rparr> else x) (runs d)"
    by (simp add: d1_def cl)
  let ?x = "row\<lparr>run_status := ''running'', run_lease := Some ?lease, run_updated := clk 0\<rparr>"
  have x: "?x \<in> set (runs d1)" unfolding runs1 set_map using h(1) by (intro image_eqI [of _ _ row]) simp_all
  have "run_id c \<in> run_id ` set (runs d1)"
    using imageI [OF x, of run_id] cid(1) by simp
  then obtain d2 where d2: "execute_run (clk 1) d1 c result = (d2, result)"
      "runs d2 = runs d1 \<and> only_runs d1 d2"
    using execute_present by blast
  have runs2: "runs d2 = runs d1" using d2(2) by blast
  have "distinct (map run_id (runs d2))" using ok1 runs2 by (simp add: store_ok_def runs_ok_def)
  then obtain d3 where d3: "worker_finalize (clk 2) d2 c n result =
      (d3, if \<not> is_ok result \<and> retry_backoff_for n \<noteq> None then Retrying c n else Ready)"
      "runs d3 = map (\<lambda>y. if run_id y = run_id c then ended_row (clk 2) result y else y) (runs d2)"
      "only_runs d2 d3"
    using worker_finalize_running [of d2 ?x c "clk 2" n result] x runs2 cid(1) by auto
  have "runs d3 = map (\<lambda>r. if run_id r = run_id row then ended_row (clk 2) result r else r) (runs d)"
    by (simp add: d3(2) runs2 runs1 cid(1) ended_row_def)
  moreover have "only_runs d d3"
    using d2(2) d3(3) by (simp add: only_runs_def d1_def cl)
  ultimately show ?thesis using wc wa d2(1) d3(1) n cid by blast
qed

lemma retry_adds_at_most_one:
  "\<exists>new. runs (fst (schedule_retry avail sid rid now1 now2 d prev sched n)) = runs d @ new"
proof -
  have ins: "\<exists>new. runs (fst (insert_run_with_session avail sid rid now1 d (retry_of prev) sched None)) = runs d @ new"
    using insert_run_with_session_cases [of avail sid rid now1 d "retry_of prev" sched None]
    by (auto simp: with_new_run_def)
  show ?thesis
    using schedule_retry_parts [of avail sid rid now1 now2 d prev sched n] ins append_log_runs
    by (elim disjE exE conjE) (metis append_Nil2, metis fst_conv, metis)
qed

lemma backoff_values:
  "1 \<le> n \<Longrightarrow> retry_backoff_for n = (if n = 1 then Some (seconds 30) else if n = 2 then Some (seconds 120) else None)"
  by (auto simp: retry_backoff_for_def max_attempts_def retry_backoffs_def)

text \<open>
  One pass. When no queued run is due a pass changes nothing and says so. Otherwise it takes
  the oldest due run: when it ends that run is \<open>succeeded\<close> or \<open>failed\<close>, as the agent's result was,
  without a lease, and every other run is as before. If the agent succeeded, or this was the third
  attempt, or the automation is off, no run is added. If it failed on the first or second attempt,
  and the identifiers drawn are new, exactly one run is added: queued 30 or 120 seconds later,
  with the same prompt, and linked to the run that failed.
\<close>

lemma worker_pass_outcome:
  fixes clk :: "nat \<Rightarrow> time"
  assumes ok: "store_ok d"
  shows "case due_runs d (clk 0) of
     [] \<Rightarrow> try_claim_and_execute avail sid rid clk d (\<lambda>_. result) = (d, False)
   | row # _ \<Rightarrow>
       (\<exists>d' n. try_claim_and_execute avail sid rid clk d (\<lambda>_. result) = (d', True) \<and>
          compute_run_attempt d (run_id row) = Some (Ok n) \<and>
          take (length (runs d)) (runs d') =
            map (\<lambda>r. if run_id r = run_id row then ended_row (clk 2) result r else r) (runs d) \<and>
          (is_ok result \<or> 3 \<le> n \<or> \<not> gate_open d (run_auto row) \<longrightarrow> length (runs d') = length (runs d)) \<and>
          (\<not> is_ok result \<and> n < 3 \<and> gate_open d (run_auto row) \<and>
           \<not> has_key ses_id sid (sessions d) \<and> \<not> has_key run_id rid (runs d) \<longrightarrow>
             (\<exists>new. drop (length (runs d)) (runs d') = [new] \<and> run_id new = rid \<and>
                run_status new = ''queued'' \<and> run_prev new = Some (run_id row) \<and>
                run_sched new = clk 3 + seconds (if n = 1 then 30 else 120) \<and>
                run_prompt new = run_prompt row)))"
proof (cases "due_runs d (clk 0)")
  case Nil
  then show ?thesis by (simp add: try_claim_and_execute_def worker_claim_def claim_due_run_def)
next
  case (Cons row rest)
  obtain c d1 d2 d3 n where p: "worker_claim (clk 0) d = (d1, Claimed c)"
      "worker_attempt d1 c = Executing c n False" "execute_run (clk 1) d1 c result = (d2, result)"
      "worker_finalize (clk 2) d2 c n result =
        (d3, if \<not> is_ok result \<and> retry_backoff_for n \<noteq> None then Retrying c n else Ready)"
    and n: "compute_run_attempt d (run_id row) = Some (Ok n)" "1 \<le> n"
    and c: "run_id c = run_id row" "run_auto c = run_auto row" "run_trig c = run_trig row"
      "run_ws c = run_ws row" "run_prompt c = run_prompt row"
    and r3: "runs d3 = map (\<lambda>r. if run_id r = run_id row then ended_row (clk 2) result r else r) (runs d)"
    and o3: "only_runs d d3"
    using pass_until_finalize [where clk = clk and result = result, OF ok Cons] by blast
  have len: "length (runs d3) = length (runs d)" by (simp add: r3)
  let ?sched = "retry_at (clk 3) n"
  let ?retry = "fst (schedule_retry avail sid rid (clk 4) (clk 5) d3 c ?sched (n + 1))"
  have pass: "try_claim_and_execute avail sid rid clk d (\<lambda>_. result) =
      (if \<not> is_ok result \<and> retry_backoff_for n \<noteq> None then ?retry else d3, True)"
    using p by (simp add: try_claim_and_execute_def)
  have retry: "retry_backoff_for n \<noteq> None \<longleftrightarrow> n < 3" using n(2) by (simp add: backoff_values)
  have dist: "distinct (map auto_id (automations d3))" using ok o3 by (simp add: store_ok_def only_runs_def)
  have gate: "gate_open d3 ao = gate_open d ao" for ao using o3 by (cases ao) (simp_all add: gate_open_def only_runs_def)
  show ?thesis
  proof (cases "\<not> is_ok result \<and> n < 3")
    case False
    then show ?thesis using pass retry n(1) len r3 by (auto simp: Cons)
  next
    case again: True
    then have pass': "try_claim_and_execute avail sid rid clk d (\<lambda>_. result) = (?retry, True)"
      using pass retry by simp
    obtain new where new: "runs ?retry = runs d3 @ new" using retry_adds_at_most_one by blast
    have blocked: "length (runs ?retry) = length (runs d)" if "\<not> gate_open d (run_auto row)"
      using retry_blocked [OF dist, of c] that gate c(2) len by simp
    have added: "runs ?retry = runs d3 @ [new_run_row ''queued'' (retry_of c) rid sid ?sched (clk 4)]"
      if "gate_open d (run_auto row)" "\<not> has_key ses_id sid (sessions d)" "\<not> has_key run_id rid (runs d)"
    proof (rule retry_inserted [OF dist])
      have row: "row \<in> set (runs d)" using due_runs_hd(1) [OF Cons] .
      then have rok: "run_ok d row" using store_okD(3) [OF ok] by (simp add: runs_ok_def)
      have ids: "run_id ` set (runs d3) = run_id ` set (runs d)"
        "run_session ` set (runs d3) = run_session ` set (runs d)"
        unfolding r3 set_where_def [symmetric] by (rule set_where_image; simp add: ended_row_def)+
      show "gate_open d3 (run_auto c)" using gate c(2) that(1) by simp
      show "\<not> has_key ses_id sid (sessions d3)" using that(2) o3 by (simp add: only_runs_def)
      show "has_key id (run_ws c) (workspaces d3)"
        using rok c(4) o3 by (simp add: run_ok_def only_runs_def has_key_iff)
      have "sid \<notin> run_session ` set (runs d)"
        using that(2) store_okD(3) [OF ok] by (force simp: runs_ok_def run_ok_def has_key_iff)
      then show "run_constraints d3 (retry_of c) rid sid"
        using that(3) rok row c o3 ids
        by (simp add: run_constraints_def retry_of_def has_key_iff run_ok_def only_runs_def)
    qed
    have sched: "?sched = clk 3 + seconds (if n = 1 then 30 else 120)"
      using again n(2) by (auto simp: retry_at_def backoff_values)
    show ?thesis unfolding Cons list.case
    proof (intro exI [of _ ?retry] exI [of _ n] conjI impI pass' n(1))
      show "take (length (runs d)) (runs ?retry) =
          map (\<lambda>r. if run_id r = run_id row then ended_row (clk 2) result r else r) (runs d)"
        using new len r3 by simp
      show "length (runs ?retry) = length (runs d)" if "is_ok result \<or> 3 \<le> n \<or> \<not> gate_open d (run_auto row)"
        using that again blocked by auto
      show "\<exists>new. drop (length (runs d)) (runs ?retry) = [new] \<and> run_id new = rid \<and>
                run_status new = ''queued'' \<and> run_prev new = Some (run_id row) \<and>
                run_sched new = clk 3 + seconds (if n = 1 then 30 else 120) \<and>
                run_prompt new = run_prompt row"
        if "\<not> is_ok result \<and> n < 3 \<and> gate_open d (run_auto row) \<and>
           \<not> has_key ses_id sid (sessions d) \<and> \<not> has_key run_id rid (runs d)"
        using that added len sched c by (simp add: new_run_row_def retry_of_def)
    qed
  qed
qed

lemma worker_pass_outcome_witness:
  "store_ok demo_queued \<and>
   (case try_claim_and_execute (\<lambda>_. True) 300 400 (\<lambda>_. 20) demo_queued (\<lambda>_. Err ''no'') of
      (d', found) \<Rightarrow> found \<and> length (runs d') = 2 \<and>
        run_sched (runs d' ! 1) = 20 + seconds 30 \<and> run_prev (runs d' ! 1) = Some 200)"
proof -
  have due: "due_runs demo_queued 20 = [new_run_row ''queued'' demo_run 200 100 5 10]"
    by (simp add: due_runs_def demo_queued_runs) (simp add: new_run_row_def demo_run_def)
  have s: "sessions demo_queued = [new_session_row (\<lambda>_. True) demo_run 100 10]"
    by (simp add: demo_queued_def demo_eval)
  have len: "length (runs demo_queued) = 1" by (simp add: demo_queued_runs)
  have n: "compute_run_attempt demo_queued 200 = Some (Ok 1)"
    by (simp add: compute_run_attempt_def demo_queued_runs) (simp add: new_run_row_def demo_run_def chain_depth.simps)
  obtain d' where pass: "try_claim_and_execute (\<lambda>_. True) 300 400 (\<lambda>_. 20) demo_queued (\<lambda>_. Err ''no'') = (d', True)"
    and new: "\<exists>new. drop (length (runs demo_queued)) (runs d') = [new] \<and> run_id new = 400 \<and>
        run_status new = ''queued'' \<and> run_prev new = Some 200 \<and> run_sched new = 20 + seconds 30"
    using worker_pass_outcome [OF demo_queued_ok, where clk = "\<lambda>_. 20" and avail = "\<lambda>_. True"
        and sid = 300 and rid = 400 and result = "Err ''no''"] n
    by (simp add: due s demo_queued_runs has_key_def gate_open_def)
      (auto simp: new_run_row_def demo_run_def new_session_row_def)
  then obtain x where x: "drop 1 (runs d') = [x]" "run_prev x = Some 200" "run_sched x = 20 + seconds 30"
    using len by auto
  obtain y where "runs d' = [y, x]" using x(1) by (cases "runs d'") auto
  then show ?thesis using pass x demo_queued_ok by simp
qed

end
