(* ===== verification/Automation_Ticker.thy ===== *)
theory Automation_Ticker
  imports Automation_Runtime
begin

section \<open>A tick of the cron ticker\<close>

text \<open>
  \<open>cron_tick_once\<close> over a store in good order whose due triggers have valid specifications: every
  trigger that is due fires once, and none is due afterwards.
\<close>

text \<open>The specification of a trigger is valid now, and fires next strictly later.\<close>

definition fires_later :: "('z, 'c) cron_lib \<Rightarrow> string \<Rightarrow> time \<Rightarrow> json \<Rightarrow> bool" where
  "fires_later L dtz now spec =
     (case spec_from_db Cron spec of
        Ok (CronSpec expr tz) \<Rightarrow>
          (case next_fire_after L expr (the_default dtz tz) now of Ok nxt \<Rightarrow> now < nxt | Err _ \<Rightarrow> False)
      | _ \<Rightarrow> False)"

lemma fires_later_Some:
  assumes "fires_later L dtz now spec"
  obtains expr tz nxt where "spec_from_db Cron spec = Ok (CronSpec expr tz)"
    "next_fire_after L expr (the_default dtz tz) now = Ok nxt" "now < nxt"
proof (cases "spec_from_db Cron spec")
  case (Inr sp)
  show thesis
  proof (cases sp)
    case (CronSpec expr tz)
    then show thesis using assms that Inr
      by (cases "next_fire_after L expr (the_default dtz tz) now") (simp_all add: fires_later_def)
  qed (use assms Inr in \<open>simp add: fires_later_def\<close>)
qed (use assms in \<open>simp add: fires_later_def\<close>)

definition decoded :: "string automation_trigger \<Rightarrow> trigger_kind automation_trigger" where
  "decoded t = \<lparr>trg_id = trg_id t, trg_auto = trg_auto t, trg_kind = Cron, trg_spec = trg_spec t,
     trg_enabled = trg_enabled t, trg_next = trg_next t, trg_hash = trg_hash t,
     trg_created = trg_created t, trg_updated = trg_updated t\<rparr>"

lemma decode_cron: "trg_kind t = ''cron'' \<Longrightarrow> trigger_from_row t = Ok (decoded t)"
  by (simp add: trigger_from_row_def trigger_kind_parse_def decoded_def)

text \<open>What one fire leaves.\<close>

definition fired :: "time \<Rightarrow> uuid \<Rightarrow> uuid \<Rightarrow> string automation_trigger \<Rightarrow> db \<Rightarrow> db \<Rightarrow> bool" where
  "fired now sid rid t d d' =
     (store_ok d' \<and> automations d' = automations d \<and>
      (\<exists>f. (\<forall>x. trg_id (f x) = trg_id x \<and> (\<exists>nx. trg_next (f x) = Some nx \<and> now < nx)) \<and>
           triggers d' = set_where (\<lambda>x. trg_id x = trg_id t) f (triggers d)) \<and>
      ses_id ` set (sessions d') = insert sid (ses_id ` set (sessions d)) \<and>
      (\<exists>r. runs d' = runs d @ [r] \<and> run_id r = rid \<and> run_trig r = Some (trg_id t) \<and>
           run_status r = ''queued'' \<and> Some (run_sched r) = trg_next t))"

lemma fire_once_fired:
  assumes ok: "store_ok d" and t: "t \<in> set (triggers d)" "due_cron d now t"
    and spec: "fires_later L dtz now (trg_spec t)"
    and fresh: "sid \<notin> ses_id ` set (sessions d)" "rid \<notin> run_id ` set (runs d)"
  shows "fired now sid rid t d (fst (fire_cron_trigger_once L dtz avail sid rid clk now d (decoded t)))"
proof -
  obtain expr tz nxt where s: "spec_from_db Cron (trg_spec t) = Ok (CronSpec expr tz)"
    "next_fire_after L expr (the_default dtz tz) now = Ok nxt" "now < nxt"
    using spec by (rule fires_later_Some)
  have dist: "distinct (map auto_id (automations d))" using ok by (rule store_okD)
  obtain a where a: "a \<in> set (automations d)" "auto_id a = trg_auto t" "auto_enabled a"
    using t(2) by (auto simp: due_cron_def list_ex_iff)
  have ga: "get_automation d (trg_auto t) = Some a"
    using find_key [OF dist a(1)] a(2) by (simp add: get_automation_def)
  obtain n0 where n0: "trg_next t = Some n0" using t(2) by (auto simp: due_cron_def split: option.splits)
  let ?f = "set_next_fire (clk 0) (Some nxt)"
  let ?d1 = "d\<lparr>triggers := set_where (\<lambda>x. trg_id x = trg_id t) ?f (triggers d)\<rparr>"
  let ?nr = "from_automation a (Some (trg_id t)) None"
  let ?d2 = "with_new_run avail sid rid (clk 1) ?d1 ?nr n0 (Some (fire_payload (decoded t)))"
  have "sid \<notin> run_session ` set (runs d)"
    using fresh(1) store_okD(3) [OF ok] by (force simp: runs_ok_def run_ok_def)
  moreover have "auto_ws a \<in> set (workspaces d)" using store_okD(5) [OF ok] a(1) by (simp add: autos_in_ws_def)
  moreover have "trg_id t \<in> trg_id ` set (set_where (\<lambda>x. trg_id x = trg_id t) ?f (triggers d))"
    using t(1) by (simp add: set_where_image set_next_fire_def)
  moreover have "gate_open ?d1 (Some (auto_id a))" using a by (auto simp: gate_open_def list_ex_iff)
  ultimately have ins: "insert_run_in avail sid rid (clk 1) ?d1 ?nr n0 (Some (fire_payload (decoded t))) =
      Ok (?d2, Some (new_run_row Queued ?nr rid sid n0 (clk 1)))"
    using fresh by (simp add: insert_run_in_Some has_key_iff run_constraints_def from_automation_def)
  have ok1: "store_ok ?d1" by (rule store_ok_update_triggers [OF ok]) (simp add: set_next_fire_def)
  have "fst (fire_cron_trigger_once L dtz avail sid rid clk now d (decoded t)) = ?d2"
    using ins by (simp add: fire_cron_trigger_once_def decoded_def ga s n0 fire_cron_trigger_def
        fire_cron_tx_def Let_def)
  moreover have "store_ok ?d2" by (rule store_ok_with_new_run [OF ok1 ins])
  moreover have "\<forall>x. trg_id (?f x) = trg_id x \<and> (\<exists>nx. trg_next (?f x) = Some nx \<and> now < nx)"
    using s(3) by (simp add: set_next_fire_def)
  then have "\<exists>f. (\<forall>x. trg_id (f x) = trg_id x \<and> (\<exists>nx. trg_next (f x) = Some nx \<and> now < nx)) \<and>
      triggers ?d2 = set_where (\<lambda>x. trg_id x = trg_id t) f (triggers d)"
    by (intro exI [of _ ?f]) (simp add: with_new_run_def)
  ultimately show ?thesis
    by (simp add: fired_def) (simp add: with_new_run_def new_session_row_def new_run_row_def
        from_automation_def n0)
qed

text \<open>What a whole tick leaves, for the triggers it was given.\<close>

definition all_fired :: "time \<Rightarrow> string automation_trigger list \<Rightarrow> db \<Rightarrow> db \<Rightarrow> bool" where
  "all_fired now ts d d' =
     (automations d' = automations d \<and> store_ok d' \<and>
      (\<exists>new. runs d' = runs d @ new \<and> map run_trig new = map (\<lambda>t. Some (trg_id t)) ts \<and>
         map (\<lambda>r. Some (run_sched r)) new = map trg_next ts \<and>
         (\<forall>r \<in> set new. run_status r = ''queued'')) \<and>
      (\<forall>x \<in> set (triggers d').
         (x \<in> set (triggers d) \<and> trg_id x \<notin> trg_id ` set ts) \<or> (\<exists>nx. trg_next x = Some nx \<and> now < nx)))"

lemma all_fired_step:
  assumes first: "fired now sid rid t d d1" and rest: "all_fired now ts d1 d'"
  shows "all_fired now (t # ts) d d'"
proof -
  obtain f r where f: "automations d1 = automations d"
    "\<And>x. \<exists>nx. trg_next (f x) = Some nx \<and> now < nx"
    "triggers d1 = set_where (\<lambda>x. trg_id x = trg_id t) f (triggers d)"
    and r: "runs d1 = runs d @ [r]" "run_trig r = Some (trg_id t)"
      "run_status r = ''queued''" "Some (run_sched r) = trg_next t"
    using first unfolding fired_def by blast
  obtain new where new: "runs d' = runs d1 @ new" "map run_trig new = map (\<lambda>t. Some (trg_id t)) ts"
    "map (\<lambda>r. Some (run_sched r)) new = map trg_next ts" "\<forall>r \<in> set new. run_status r = ''queued''"
    using rest unfolding all_fired_def by blast
  have older: "(x \<in> set (triggers d) \<and> trg_id x \<noteq> trg_id t) \<or> (\<exists>nx. trg_next x = Some nx \<and> now < nx)"
    if x: "x \<in> set (triggers d1)" for x
  proof -
    obtain y where y: "y \<in> set (triggers d)" "x = (if trg_id y = trg_id t then f y else y)"
      using x unfolding f(3) in_set_where by blast
    then show ?thesis using f(2) [of y] by (cases "trg_id y = trg_id t") simp_all
  qed
  have "(x \<in> set (triggers d) \<and> trg_id x \<notin> trg_id ` set (t # ts)) \<or> (\<exists>nx. trg_next x = Some nx \<and> now < nx)"
    if x: "x \<in> set (triggers d')" for x
  proof -
    have "(x \<in> set (triggers d1) \<and> trg_id x \<notin> trg_id ` set ts) \<or> (\<exists>nx. trg_next x = Some nx \<and> now < nx)"
      using rest x unfolding all_fired_def by blast
    then show ?thesis using older [of x] by fastforce
  qed
  moreover have "\<exists>n. runs d' = runs d @ n \<and> map run_trig n = map (\<lambda>t. Some (trg_id t)) (t # ts) \<and>
      map (\<lambda>r. Some (run_sched r)) n = map trg_next (t # ts) \<and> (\<forall>r \<in> set n. run_status r = ''queued'')"
    by (rule exI [of _ "r # new"]) (simp add: new r)
  moreover have "automations d' = automations d" "store_ok d'" using rest f(1) by (simp_all add: all_fired_def)
  ultimately show ?thesis unfolding all_fired_def by blast
qed

lemma fire_all_fired:
  assumes "store_ok d" "distinct (map trg_id ts)" "inj sid" "inj rid"
    and "\<And>t. t \<in> set ts \<Longrightarrow> t \<in> set (triggers d) \<and> due_cron d now t \<and> fires_later L dtz now (trg_spec t)"
    and "\<And>k. n \<le> k \<Longrightarrow> sid k \<notin> ses_id ` set (sessions d) \<and> rid k \<notin> run_id ` set (runs d)"
  shows "all_fired now ts d (fire_all L dtz avail sid rid clk n now d (map decoded ts))"
  using assms
proof (induction ts arbitrary: d n)
  case Nil
  then show ?case by (simp add: all_fired_def)
next
  case (Cons t ts)
  define d1 where "d1 = fst (fire_cron_trigger_once L dtz avail (sid n) (rid n) (clk n) now d (decoded t))"
  have first: "fired now (sid n) (rid n) t d d1"
    unfolding d1_def using Cons.prems(1,5,6) by (intro fire_once_fired) auto
  then obtain f r where f: "store_ok d1" "automations d1 = automations d"
    "triggers d1 = set_where (\<lambda>x. trg_id x = trg_id t) f (triggers d)"
    "ses_id ` set (sessions d1) = insert (sid n) (ses_id ` set (sessions d))"
    and r: "runs d1 = runs d @ [r]" "run_id r = rid n"
    unfolding fired_def by blast
  have keep: "x \<in> set (triggers d1)" if "x \<in> set (triggers d)" "trg_id x \<noteq> trg_id t" for x
    unfolding f(3) in_set_where using that by (intro bexI [of _ x]) auto
  have "all_fired now ts d1 (fire_all L dtz avail sid rid clk (Suc n) now d1 (map decoded ts))"
  proof (rule Cons.IH)
    show "store_ok d1" "distinct (map trg_id ts)" "inj sid" "inj rid" using f(1) Cons.prems by auto
    show "x \<in> set (triggers d1) \<and> due_cron d1 now x \<and> fires_later L dtz now (trg_spec x)" if x: "x \<in> set ts" for x
    proof -
      have "trg_id x \<noteq> trg_id t" using x Cons.prems(2) by (auto simp: rev_image_eqI)
      then show ?thesis using Cons.prems(5) [of x] x keep f(2) by (simp add: due_cron_def)
    qed
    show "sid k \<notin> ses_id ` set (sessions d1) \<and> rid k \<notin> run_id ` set (runs d1)" if k: "Suc n \<le> k" for k
    proof -
      have "sid k \<noteq> sid n" "rid k \<noteq> rid n" using k inj_eq [OF Cons.prems(3)] inj_eq [OF Cons.prems(4)] by simp_all
      then show ?thesis using Cons.prems(6) [of k] k f(4) r by simp
    qed
  qed
  then have "all_fired now (t # ts) d (fire_all L dtz avail sid rid clk (Suc n) now d1 (map decoded ts))"
    by (rule all_fired_step [OF first])
  then show ?case by (simp add: d1_def)
qed

text \<open>
  C19. The ticker. On a store in good order in which the due triggers have valid specifications,
  with an engine whose next instant lies after the given one, a tick succeeds; it adds one queued
  run for each trigger that was due, oldest first, scheduled for the instant the trigger was due
  at; and afterwards no trigger is due at that instant, so that the next tick does not fire it
  again.
\<close>

theorem tick_fires_each_due_once:
  assumes "store_ok d" "inj sid" "inj rid"
    and "\<forall>k. sid k \<notin> ses_id ` set (sessions d) \<and> rid k \<notin> run_id ` set (runs d)"
    and "\<forall>t \<in> set (triggers d). due_cron d now t \<longrightarrow> fires_later L dtz now (trg_spec t)"
  shows "\<exists>d' new. cron_tick_once L dtz avail sid rid clk now d = (d', Ok ()) \<and>
     runs d' = runs d @ new \<and> (\<forall>r \<in> set new. run_status r = ''queued'') \<and>
     map (\<lambda>r. (run_trig r, Some (run_sched r))) new =
       map (\<lambda>t. (Some (trg_id t), trg_next t))
         (sort_key (\<lambda>t. the_default 0 (trg_next t)) (filter (due_cron d now) (triggers d))) \<and>
     (\<forall>t \<in> set (triggers d'). \<not> due_cron d' now t) \<and> store_ok d'"
proof -
  let ?due = "sort_key (\<lambda>t. the_default 0 (trg_next t)) (filter (due_cron d now) (triggers d))"
  have dist: "distinct (map trg_id (triggers d))" using store_okD(2) [OF assms(1)] by (simp add: triggers_ok_def)
  then have dd: "distinct (map trg_id ?due)" by (auto simp: distinct_map intro: inj_on_subset)
  have list: "list_due_cron_triggers d now = Ok (map decoded ?due)"
    unfolding list_due_cron_triggers_def
    by (rule traverse_Ok) (auto intro: decode_cron simp: due_cron_def)
  have "\<And>t. t \<in> set ?due \<Longrightarrow> t \<in> set (triggers d) \<and> due_cron d now t \<and> fires_later L dtz now (trg_spec t)"
    using assms(5) by simp
  then have fired: "all_fired now ?due d (fire_all L dtz avail sid rid clk 0 now d (map decoded ?due))"
    using assms(1-4) dd by (intro fire_all_fired) simp_all
  let ?d' = "fire_all L dtz avail sid rid clk 0 now d (map decoded ?due)"
  obtain new where new: "runs ?d' = runs d @ new" "map run_trig new = map (\<lambda>t. Some (trg_id t)) ?due"
      "map (\<lambda>r. Some (run_sched r)) new = map trg_next ?due" "\<forall>r \<in> set new. run_status r = ''queued''"
      "automations ?d' = automations d" "store_ok ?d'"
    using fired unfolding all_fired_def by blast
  have later: "(x \<in> set (triggers d) \<and> trg_id x \<notin> trg_id ` set ?due) \<or> (\<exists>nx. trg_next x = Some nx \<and> now < nx)"
    if "x \<in> set (triggers ?d')" for x
    using fired that unfolding all_fired_def by blast
  have "\<not> due_cron ?d' now x" if "x \<in> set (triggers ?d')" for x
    using later [OF that]
  proof
    assume x: "x \<in> set (triggers d) \<and> trg_id x \<notin> trg_id ` set ?due"
    then have "\<not> due_cron d now x" by auto
    then show ?thesis using new(5) by (simp add: due_cron_def)
  next
    assume "\<exists>nx. trg_next x = Some nx \<and> now < nx"
    then show ?thesis by (auto simp: due_cron_def)
  qed
  moreover have "map (\<lambda>r. (run_trig r, Some (run_sched r))) new = map (\<lambda>t. (Some (trg_id t), trg_next t)) ?due"
    using new(2,3) by (simp add: list_eq_iff_nth_eq)
  moreover have "cron_tick_once L dtz avail sid rid clk now d = (?d', Ok ())"
    by (simp add: cron_tick_once_def list)
  ultimately show ?thesis using new(1,4,6) by blast
qed

definition demo_trigger :: "string automation_trigger" where
  "demo_trigger = \<lparr>trg_id = 60, trg_auto = 50, trg_kind = ''cron'',
     trg_spec = JObj [(''expr'', JStr ''* * * * *''), (''tz'', JNull)], trg_enabled = True,
     trg_next = Some 60, trg_hash = None, trg_created = 1, trg_updated = 1\<rparr>"

definition demo_cron :: db where
  "demo_cron = empty_db\<lparr>automations := [demo_auto], triggers := [demo_trigger]\<rparr>"

lemma demo_cron_ok: "store_ok demo_cron"
  by (simp add: demo_cron_def empty_db_def demo_auto_def demo_trigger_def store_ok_def autos_in_ws_def
      triggers_ok_def runs_ok_def logs_ok_def prev_before_def trigger_kind_parse_def)

lemma demo_fires_later: "fires_later minutely ''UTC'' 65 (trg_spec demo_trigger)"
proof -
  have "count_fields ''* * * * *'' = 5"
    by (simp add: count_fields_def count_fields_from.simps ws_len_def Let_def)
  then have "cron_setup minutely ''* * * * *'' ''UTC'' = Ok ((), ())"
    by (simp add: cron_setup_Ok) (simp add: minutely_def)
  then show ?thesis
    by (simp add: fires_later_def demo_trigger_def next_fire_after_def) (simp add: minutely_def)
qed

theorem tick_fires_each_due_once_witness:
  "\<exists>d' r. cron_tick_once minutely ''UTC'' (\<lambda>_. True) (\<lambda>n. 100 + n) (\<lambda>n. 200 + n) (\<lambda>_ _. 66) 65 demo_cron
            = (d', Ok ()) \<and>
     runs d' = [r] \<and> run_trig r = Some 60 \<and> run_sched r = 60"
proof -
  have due: "due_cron demo_cron 65 demo_trigger"
    by (simp add: due_cron_def demo_cron_def demo_trigger_def demo_auto_def)
  have trs: "triggers demo_cron = [demo_trigger]" "runs demo_cron = []" "sessions demo_cron = []"
    by (simp_all add: demo_cron_def empty_db_def)
  have t: "trg_id demo_trigger = 60" "trg_next demo_trigger = Some 60" by (simp_all add: demo_trigger_def)
  obtain d' new where n: "cron_tick_once minutely ''UTC'' (\<lambda>_. True) (\<lambda>n. 100 + n) (\<lambda>n. 200 + n) (\<lambda>_ _. 66) 65 demo_cron
            = (d', Ok ())" "runs d' = new"
      "map (\<lambda>r. (run_trig r, Some (run_sched r))) new = [(Some 60, Some 60)]"
    using tick_fires_each_due_once [OF demo_cron_ok, of "\<lambda>n. 100 + n" "\<lambda>n. 200 + n" 65 minutely "''UTC''"
        "\<lambda>_. True" "\<lambda>_ _. 66"] demo_fires_later
    by (auto simp: trs due t inj_def)
  then show ?thesis by (cases new) auto
qed

end
