(* ===== verification/Calc_Tokens.thy ===== *)
theory Calc_Tokens
  imports Prelude
begin

section \<open>The calculator's tokens\<close>

text \<open>
  \<^verbatim>\<open>src/agent-k/src/agents/speedwagon/tool/calculate.rs\<close>, lines 60 to 163. A \<^verbatim>\<open>char\<close> of Rust is
  its Unicode scalar value. The model is over any arithmetic: the operations of \<^verbatim>\<open>f64\<close> that the
  code calls, and the Unicode tables outside ASCII, are the fields of a record, so that what is
  proved holds for the machine's floating point numbers whatever their rounding.
\<close>

type_synonym uchar = nat

definition chars :: "string \<Rightarrow> uchar list" where
  "chars s = map of_char s"

definition one_of :: "uchar \<Rightarrow> string \<Rightarrow> bool" where
  "one_of c s = (c \<in> set (chars s))"

text \<open>The methods of \<^verbatim>\<open>f64\<close> that take one number.\<close>

datatype f64_method =
    FAbs | Fract | Sqrt | Sin | Cos | Tan | Asin | Acos | Atan | Ln | Log10 | Log2 | Exp
  | Ceil | Floor | Round | Trunc | ToDegrees | ToRadians

record 'f calc_lib =
  fl_parse :: "uchar list \<Rightarrow> 'f option"
  fl_int :: "int \<Rightarrow> 'f"
  fl_pi :: 'f
  fl_e :: 'f
  fl_inf :: 'f
  fl_neg_inf :: 'f
  fl_neg :: "'f \<Rightarrow> 'f"
  fl_add :: "'f \<Rightarrow> 'f \<Rightarrow> 'f"
  fl_sub :: "'f \<Rightarrow> 'f \<Rightarrow> 'f"
  fl_mul :: "'f \<Rightarrow> 'f \<Rightarrow> 'f"
  fl_div :: "'f \<Rightarrow> 'f \<Rightarrow> 'f"
  fl_rem :: "'f \<Rightarrow> 'f \<Rightarrow> 'f"
  fl_pow :: "'f \<Rightarrow> 'f \<Rightarrow> 'f"
  fl_atan2 :: "'f \<Rightarrow> 'f \<Rightarrow> 'f"
  fl_hypot :: "'f \<Rightarrow> 'f \<Rightarrow> 'f"
  fl_min :: "'f \<Rightarrow> 'f \<Rightarrow> 'f"
  fl_max :: "'f \<Rightarrow> 'f \<Rightarrow> 'f"
  fl_lt :: "'f \<Rightarrow> 'f \<Rightarrow> bool"
  fl_eq :: "'f \<Rightarrow> 'f \<Rightarrow> bool"
  fl_call :: "f64_method \<Rightarrow> 'f \<Rightarrow> 'f"
  fl_to_u64 :: "'f \<Rightarrow> 64 word"
  fl_of_u64 :: "64 word \<Rightarrow> 'f"
  uni_alphabetic :: "uchar \<Rightarrow> bool"
  uni_numeric :: "uchar \<Rightarrow> bool"

definition ascii_letter :: "uchar \<Rightarrow> bool" where
  "ascii_letter c = (65 \<le> c \<and> c \<le> 90 \<or> 97 \<le> c \<and> c \<le> 122)"

definition ascii_digit :: "uchar \<Rightarrow> bool" where
  "ascii_digit c = (48 \<le> c \<and> c \<le> 57)"

definition alphabetic :: "'f calc_lib \<Rightarrow> uchar \<Rightarrow> bool" where
  "alphabetic F c = (if c < 128 then ascii_letter c else uni_alphabetic F c)"

definition alphanumeric :: "'f calc_lib \<Rightarrow> uchar \<Rightarrow> bool" where
  "alphanumeric F c = (alphabetic F c \<or> (if c < 128 then ascii_digit c else uni_numeric F c))"

subsection \<open>Tokens and errors\<close>

datatype 'f token =
    TNum 'f
  | TOp char
  | LParen
  | RParen
  | TComma
  | TFunc "uchar list"

text \<open>A constructor for each error text, with what the text is formatted from.\<close>

datatype 'f calc_error =
    UnexpectedToken "'f token"
  | InvalidNumber "uchar list"
  | UnexpectedMinus
  | UnexpectedChar uchar
  | DivisionByZero
  | ModuloByZero
  | UnexpectedEnd
  | MissingClosing
  | ExpectedClosing
  | ExpectedOpenAfter "uchar list"
  | MissingCloseFor "uchar list"
  | ExpectedCloseFor "uchar list"
  | WrongArgs "uchar list" nat nat
  | TooFewArgs "uchar list" nat
  | LogArgs nat
  | DomainError string
  | UnknownFunction "uchar list"

subsection \<open>The tokenizer\<close>

text \<open>A sign that follows one of these, or nothing, is unary.\<close>

fun opens_operand :: "'f token \<Rightarrow> bool" where
  "opens_operand (TOp _) = True"
| "opens_operand LParen = True"
| "opens_operand TComma = True"
| "opens_operand _ = False"

definition is_unary :: "'f token list \<Rightarrow> bool" where
  "is_unary tokens = (tokens = [] \<or> opens_operand (last tokens))"

definition num_char :: "uchar \<Rightarrow> bool" where
  "num_char c = (ascii_digit c \<or> one_of c ''.'')"

text \<open>
  The rest of the input after the exponent of a literal, when there is one: the letter, a sign,
  and the digits.
\<close>

definition skip_exponent :: "uchar list \<Rightarrow> uchar list" where
  "skip_exponent cs =
     (case cs of
        c # r \<Rightarrow>
          (if one_of c ''eE''
           then dropWhile ascii_digit (case r of s # r' \<Rightarrow> if one_of s ''+-'' then r' else r | [] \<Rightarrow> r)
           else cs)
      | [] \<Rightarrow> cs)"

definition ident_char :: "'f calc_lib \<Rightarrow> uchar \<Rightarrow> bool" where
  "ident_char F c = (alphanumeric F c \<or> one_of c ''_'')"

definition ident_token :: "'f calc_lib \<Rightarrow> uchar list \<Rightarrow> 'f token" where
  "ident_token F name =
     (if name = chars ''pi'' then TNum (fl_pi F)
      else if name = chars ''e'' then TNum (fl_e F)
      else TFunc name)"

lemma skip_exponent_le: "length (skip_exponent cs) \<le> length cs"
proof (cases cs)
  case (Cons c r)
  have "length (dropWhile ascii_digit (case r of s # r' \<Rightarrow> if one_of s ''+-'' then r' else r | [] \<Rightarrow> r))
      \<le> length (case r of s # r' \<Rightarrow> if one_of s ''+-'' then r' else r | [] \<Rightarrow> r)"
    by (rule length_dropWhile_le)
  also have "\<dots> \<le> length r" by (auto split: list.split)
  finally show ?thesis by (simp add: skip_exponent_def Cons)
qed (simp add: skip_exponent_def)

text \<open>\<open>tokens\<close> is what was pushed so far, the last argument the characters from index \<^verbatim>\<open>i\<close> on.\<close>

function tokenize_from ::
  "'f calc_lib \<Rightarrow> 'f token list \<Rightarrow> uchar list \<Rightarrow> ('f calc_error, 'f token list) res" where
  "tokenize_from F tokens [] = Ok tokens"
| "tokenize_from F tokens (c # cs) =
     (if one_of c [CHR '' '', CHR 0x09, CHR 0x0A] then tokenize_from F tokens cs
      else if one_of c ''+-'' then
        (if is_unary tokens \<and> one_of c ''-'' then
           (case cs of
              [] \<Rightarrow> Err UnexpectedMinus
            | d # _ \<Rightarrow>
                (if num_char d then
                   (case fl_parse F (takeWhile num_char cs) of
                      None \<Rightarrow> Err (InvalidNumber (chars ''-'' @ takeWhile num_char cs))
                    | Some n \<Rightarrow> tokenize_from F (tokens @ [TNum (fl_neg F n)]) (dropWhile num_char cs))
                 else if one_of d ''('' \<or> alphabetic F d
                 then tokenize_from F (tokens @ [TNum (fl_neg F (fl_int F 1)), TOp (CHR ''*'')]) cs
                 else Err UnexpectedMinus))
         else if is_unary tokens then tokenize_from F tokens cs
         else tokenize_from F (tokens @ [TOp (char_of c)]) cs)
      else if one_of c ''*/%^'' then tokenize_from F (tokens @ [TOp (char_of c)]) cs
      else if one_of c ''('' then tokenize_from F (tokens @ [LParen]) cs
      else if one_of c '')'' then tokenize_from F (tokens @ [RParen]) cs
      else if one_of c '','' then tokenize_from F (tokens @ [TComma]) cs
      else if num_char c then
        (let r = skip_exponent (dropWhile num_char (c # cs));
             num = take (length (c # cs) - length r) (c # cs)
         in case fl_parse F num of
              None \<Rightarrow> Err (InvalidNumber num)
            | Some n \<Rightarrow> tokenize_from F (tokens @ [TNum n]) r)
      else if alphabetic F c \<or> one_of c ''_'' then
        tokenize_from F (tokens @ [ident_token F (takeWhile (ident_char F) (c # cs))])
          (dropWhile (ident_char F) (c # cs))
      else Err (UnexpectedChar c))"
  by pat_completeness auto

lemma after_number: "length (dropWhile num_char (c # cs)) < Suc (Suc (length cs))"
  using length_dropWhile_le [of num_char "c # cs"] by simp

lemma after_literal:
  "num_char c \<Longrightarrow> length (skip_exponent (dropWhile num_char (c # cs))) < Suc (length cs)"
  using skip_exponent_le [of "dropWhile num_char cs"] length_dropWhile_le [of num_char cs] by simp

lemma after_ident:
  assumes "alphabetic F c \<or> one_of c ''_''"
  shows "length (dropWhile (ident_char F) (c # cs)) < Suc (length cs)"
proof -
  have "ident_char F c" using assms by (auto simp: ident_char_def alphanumeric_def)
  then show ?thesis by (simp add: le_imp_less_Suc length_dropWhile_le)
qed

termination tokenize_from
  by (relation "measure (\<lambda>(F, tokens, cs). length cs)")
    (auto simp del: dropWhile.simps intro: after_number after_literal after_ident)

declare tokenize_from.simps(2) [simp del]

definition tokenize :: "'f calc_lib \<Rightarrow> uchar list \<Rightarrow> ('f calc_error, 'f token list) res" where
  "tokenize F expr = tokenize_from F [] expr"

end
