(* ===== verification/Calc_Parse.thy ===== *)
theory Calc_Parse
  imports Calc_Tokens
begin

section \<open>The calculator's evaluator\<close>

text \<open>
  \<^verbatim>\<open>src/agent-k/src/agents/speedwagon/tool/calculate.rs\<close>, lines 34 to 56 and 165 to 496: the
  functions of the calculator, and the recursive descent parser that evaluates as it reads. The
  position in the token list is the list of the tokens from there on.
\<close>

subsection \<open>Functions\<close>

definition ensure_args :: "uchar list \<Rightarrow> 'f list \<Rightarrow> nat \<Rightarrow> ('f calc_error, unit) res" where
  "ensure_args name args expected =
     (if length args \<noteq> expected then Err (WrongArgs name expected (length args)) else Ok ())"

text \<open>Euclid's loop on \<^verbatim>\<open>u64\<close>.\<close>

function gcd_loop :: "64 word \<Rightarrow> 64 word \<Rightarrow> 64 word" where
  "gcd_loop a b = (if b \<noteq> 0 then gcd_loop b (a mod b) else a)"
  by pat_completeness auto

termination
  by (relation "measure (\<lambda>(a, b). unat b)") (auto simp: unat_mod unat_gt_0)

declare gcd_loop.simps [simp del]

text \<open>
  \<^verbatim>\<open>a / gcd * b\<close> on \<^verbatim>\<open>u64\<close>: the product wraps in a release build (a debug build panics
  where it does).
\<close>

definition lcm_u64 :: "64 word \<Rightarrow> 64 word \<Rightarrow> 64 word" where
  "lcm_u64 a b = a div gcd_loop a b * b"

fun factorial_loop :: "'f calc_lib \<Rightarrow> 'f \<Rightarrow> nat list \<Rightarrow> 'f" where
  "factorial_loop F result [] = result"
| "factorial_loop F result (i # is) = factorial_loop F (fl_mul F result (fl_of_u64 F (of_nat i))) is"

definition arg_le_0 :: "'f calc_lib \<Rightarrow> 'f \<Rightarrow> bool" where
  "arg_le_0 F x = (fl_lt F x (fl_int F 0) \<or> fl_eq F x (fl_int F 0))"

definition is_integer :: "'f calc_lib \<Rightarrow> 'f \<Rightarrow> bool" where
  "is_integer F x = fl_eq F (fl_call F Fract x) (fl_int F 0)"

definition call1 ::
  "'f calc_lib \<Rightarrow> f64_method \<Rightarrow> uchar list \<Rightarrow> 'f list \<Rightarrow> ('f calc_error, 'f) res" where
  "call1 F m name args = and_then (ensure_args name args 1) (\<lambda>_. Ok (fl_call F m (args ! 0)))"

definition eval_func ::
  "'f calc_lib \<Rightarrow> uchar list \<Rightarrow> 'f list \<Rightarrow> ('f calc_error, 'f) res" where
  "eval_func F name args =
     (if name = chars ''sqrt'' then
        and_then (ensure_args name args 1) (\<lambda>_.
          if fl_lt F (args ! 0) (fl_int F 0) then Err (DomainError ''sqrt of negative number'')
          else Ok (fl_call F Sqrt (args ! 0)))
      else if name = chars ''abs'' then call1 F FAbs name args
      else if name = chars ''sin'' then call1 F Sin name args
      else if name = chars ''cos'' then call1 F Cos name args
      else if name = chars ''tan'' then call1 F Tan name args
      else if name = chars ''asin'' then
        and_then (ensure_args name args 1) (\<lambda>_.
          if fl_lt F (args ! 0) (fl_int F (-1)) \<or> fl_lt F (fl_int F 1) (args ! 0)
          then Err (DomainError ''asin domain error: argument must be in [-1, 1]'')
          else Ok (fl_call F Asin (args ! 0)))
      else if name = chars ''acos'' then
        and_then (ensure_args name args 1) (\<lambda>_.
          if fl_lt F (args ! 0) (fl_int F (-1)) \<or> fl_lt F (fl_int F 1) (args ! 0)
          then Err (DomainError ''acos domain error: argument must be in [-1, 1]'')
          else Ok (fl_call F Acos (args ! 0)))
      else if name = chars ''atan'' then call1 F Atan name args
      else if name = chars ''atan2'' then
        and_then (ensure_args name args 2) (\<lambda>_. Ok (fl_atan2 F (args ! 0) (args ! 1)))
      else if name = chars ''ln'' then
        and_then (ensure_args name args 1) (\<lambda>_.
          if arg_le_0 F (args ! 0) then Err (DomainError ''ln of non-positive number'')
          else Ok (fl_call F Ln (args ! 0)))
      else if name = chars ''log'' then
        (if length args = 1 then
           (if arg_le_0 F (args ! 0) then Err (DomainError ''log of non-positive number'')
            else Ok (fl_call F Ln (args ! 0)))
         else if length args = 2 then
           (if arg_le_0 F (args ! 0) then Err (DomainError ''log of non-positive number'')
            else if arg_le_0 F (args ! 1) \<or> fl_eq F (args ! 1) (fl_int F 1)
            then Err (DomainError ''log base must be positive and not 1'')
            else Ok (fl_div F (fl_call F Ln (args ! 0)) (fl_call F Ln (args ! 1))))
         else Err (LogArgs (length args)))
      else if name = chars ''log10'' then
        and_then (ensure_args name args 1) (\<lambda>_.
          if arg_le_0 F (args ! 0) then Err (DomainError ''log10 of non-positive number'')
          else Ok (fl_call F Log10 (args ! 0)))
      else if name = chars ''log2'' then
        and_then (ensure_args name args 1) (\<lambda>_.
          if arg_le_0 F (args ! 0) then Err (DomainError ''log2 of non-positive number'')
          else Ok (fl_call F Log2 (args ! 0)))
      else if name = chars ''exp'' then call1 F Exp name args
      else if name = chars ''ceil'' then call1 F Ceil name args
      else if name = chars ''floor'' then call1 F Floor name args
      else if name = chars ''round'' then call1 F Round name args
      else if name = chars ''trunc'' then call1 F Trunc name args
      else if name = chars ''sign'' then
        and_then (ensure_args name args 1) (\<lambda>_.
          Ok (if fl_lt F (fl_int F 0) (args ! 0) then fl_int F 1
              else if fl_lt F (args ! 0) (fl_int F 0) then fl_int F (-1)
              else fl_int F 0))
      else if name = chars ''degrees'' then call1 F ToDegrees name args
      else if name = chars ''radians'' then call1 F ToRadians name args
      else if name = chars ''hypot'' then
        and_then (ensure_args name args 2) (\<lambda>_. Ok (fl_hypot F (args ! 0) (args ! 1)))
      else if name = chars ''pow'' then
        and_then (ensure_args name args 2) (\<lambda>_. Ok (fl_pow F (args ! 0) (args ! 1)))
      else if name = chars ''min'' then
        (if length args < 2 then Err (TooFewArgs name (length args))
         else Ok (foldl (fl_min F) (fl_inf F) args))
      else if name = chars ''max'' then
        (if length args < 2 then Err (TooFewArgs name (length args))
         else Ok (foldl (fl_max F) (fl_neg_inf F) args))
      else if name = chars ''gcd'' then
        and_then (ensure_args name args 2) (\<lambda>_.
          if \<not> is_integer F (args ! 0) \<or> \<not> is_integer F (args ! 1)
          then Err (DomainError ''gcd requires integer arguments'')
          else Ok (fl_of_u64 F (gcd_loop (fl_to_u64 F (fl_call F FAbs (args ! 0)))
                                         (fl_to_u64 F (fl_call F FAbs (args ! 1))))))
      else if name = chars ''lcm'' then
        and_then (ensure_args name args 2) (\<lambda>_.
          if \<not> is_integer F (args ! 0) \<or> \<not> is_integer F (args ! 1)
          then Err (DomainError ''lcm requires integer arguments'')
          else if fl_eq F (args ! 0) (fl_int F 0) \<or> fl_eq F (args ! 1) (fl_int F 0)
          then Ok (fl_int F 0)
          else Ok (fl_of_u64 F (lcm_u64 (fl_to_u64 F (fl_call F FAbs (args ! 0)))
                                        (fl_to_u64 F (fl_call F FAbs (args ! 1))))))
      else if name = chars ''factorial'' then
        and_then (ensure_args name args 1) (\<lambda>_.
          if fl_lt F (args ! 0) (fl_int F 0) \<or> \<not> is_integer F (args ! 0)
          then Err (DomainError ''factorial requires a non-negative integer'')
          else if fl_lt F (fl_int F 170) (args ! 0)
          then Err (DomainError ''factorial argument too large (max 170)'')
          else Ok (factorial_loop F (fl_int F 1) [2 ..< Suc (unat (fl_to_u64 F (args ! 0)))]))
      else Err (UnknownFunction name))"

subsection \<open>The parser\<close>

type_synonym 'f parsed = "('f calc_error, 'f \<times> 'f token list) res"

text \<open>
  The loops of \<^verbatim>\<open>parse_expr\<close>, \<^verbatim>\<open>parse_term\<close> and of a function's arguments are functions of
  their own, with the value, or the arguments, so far.
\<close>

function parse_expr :: "'f calc_lib \<Rightarrow> 'f token list \<Rightarrow> 'f parsed"
  and expr_loop :: "'f calc_lib \<Rightarrow> 'f \<Rightarrow> 'f token list \<Rightarrow> 'f parsed"
  and parse_term :: "'f calc_lib \<Rightarrow> 'f token list \<Rightarrow> 'f parsed"
  and term_loop :: "'f calc_lib \<Rightarrow> 'f \<Rightarrow> 'f token list \<Rightarrow> 'f parsed"
  and parse_power :: "'f calc_lib \<Rightarrow> 'f token list \<Rightarrow> 'f parsed"
  and parse_atom :: "'f calc_lib \<Rightarrow> 'f token list \<Rightarrow> 'f parsed"
  and args_loop :: "'f calc_lib \<Rightarrow> 'f list \<Rightarrow> 'f token list \<Rightarrow> ('f calc_error, 'f list \<times> 'f token list) res"
  where
  "parse_expr F ts =
     (case parse_term F ts of Inl e \<Rightarrow> Inl e | Inr (left, r) \<Rightarrow> expr_loop F left r)"
| "expr_loop F left ts =
     (case ts of
        TOp c # r \<Rightarrow>
          (if c = CHR ''+'' then
             (case parse_term F r of Inl e \<Rightarrow> Inl e | Inr (v, r') \<Rightarrow> expr_loop F (fl_add F left v) r')
           else if c = CHR ''-'' then
             (case parse_term F r of Inl e \<Rightarrow> Inl e | Inr (v, r') \<Rightarrow> expr_loop F (fl_sub F left v) r')
           else Inr (left, ts))
      | _ \<Rightarrow> Inr (left, ts))"
| "parse_term F ts =
     (case parse_power F ts of Inl e \<Rightarrow> Inl e | Inr (left, r) \<Rightarrow> term_loop F left r)"
| "term_loop F left ts =
     (case ts of
        TOp c # r \<Rightarrow>
          (if c = CHR ''*'' then
             (case parse_power F r of Inl e \<Rightarrow> Inl e | Inr (v, r') \<Rightarrow> term_loop F (fl_mul F left v) r')
           else if c = CHR ''/'' then
             (case parse_power F r of
                Inl e \<Rightarrow> Inl e
              | Inr (v, r') \<Rightarrow>
                  (if fl_eq F v (fl_int F 0) then Inl DivisionByZero
                   else term_loop F (fl_div F left v) r'))
           else if c = CHR ''%'' then
             (case parse_power F r of
                Inl e \<Rightarrow> Inl e
              | Inr (v, r') \<Rightarrow>
                  (if fl_eq F v (fl_int F 0) then Inl ModuloByZero
                   else term_loop F (fl_rem F left v) r'))
           else Inr (left, ts))
      | _ \<Rightarrow> Inr (left, ts))"
| "parse_power F ts =
     (case parse_atom F ts of
        Inl e \<Rightarrow> Inl e
      | Inr (base, r) \<Rightarrow>
          (case r of
             TOp c # r' \<Rightarrow>
               (if c = CHR ''^'' then
                  (case parse_power F r' of
                     Inl e \<Rightarrow> Inl e
                   | Inr (x, r'') \<Rightarrow> Inr (fl_pow F base x, r''))
                else Inr (base, r))
           | _ \<Rightarrow> Inr (base, r)))"
| "parse_atom F ts =
     (case ts of
        [] \<Rightarrow> Inl UnexpectedEnd
      | TNum n # r \<Rightarrow> Inr (n, r)
      | LParen # r \<Rightarrow>
          (case parse_expr F r of
             Inl e \<Rightarrow> Inl e
           | Inr (v, r') \<Rightarrow>
               (case r' of
                  [] \<Rightarrow> Inl MissingClosing
                | RParen # r'' \<Rightarrow> Inr (v, r'')
                | _ \<Rightarrow> Inl ExpectedClosing))
      | TFunc name # r \<Rightarrow>
          (case r of
             LParen # r' \<Rightarrow>
               (case parse_expr F r' of
                  Inl e \<Rightarrow> Inl e
                | Inr (v, s) \<Rightarrow>
                    (case args_loop F [v] s of
                       Inl e \<Rightarrow> Inl e
                     | Inr (args, s') \<Rightarrow>
                         (case s' of
                            [] \<Rightarrow> Inl (MissingCloseFor name)
                          | RParen # s'' \<Rightarrow>
                              (case eval_func F name args of Inl e \<Rightarrow> Inl e | Inr w \<Rightarrow> Inr (w, s''))
                          | _ \<Rightarrow> Inl (ExpectedCloseFor name))))
           | _ \<Rightarrow> Inl (ExpectedOpenAfter name))
      | t # _ \<Rightarrow> Inl (UnexpectedToken t))"
| "args_loop F args ts =
     (case ts of
        TComma # r \<Rightarrow>
          (case parse_expr F r of
             Inl e \<Rightarrow> Inl e
           | Inr (v, r') \<Rightarrow> args_loop F (args @ [v]) r')
      | _ \<Rightarrow> Inr (args, ts))"
  by pat_completeness auto

text \<open>
  Every successful call leaves fewer tokens than it was given (the loops leave no more), which is
  proved on the functions' domain and gives their termination.
\<close>

lemmas parser_psimps =
  parse_expr.psimps expr_loop.psimps parse_term.psimps term_loop.psimps parse_power.psimps
  parse_atom.psimps args_loop.psimps

abbreviation parser_dom where
  "parser_dom \<equiv> parse_expr_expr_loop_parse_term_term_loop_parse_power_parse_atom_args_loop_dom"
lemmas parser_pinduct = parse_expr_expr_loop_parse_term_term_loop_parse_power_parse_atom_args_loop.pinduct

lemma parser_consumes:
  "parser_dom (Inl (Inl (F :: 'f calc_lib, ts))) \<Longrightarrow> parse_expr F ts = Inr (v, r) \<Longrightarrow> length r < length ts"
  "parser_dom (Inl (Inr (Inl (F :: 'f calc_lib, l, ts)))) \<Longrightarrow> expr_loop F l ts = Inr (v, r) \<Longrightarrow> length r \<le> length ts"
  "parser_dom (Inl (Inr (Inr (F :: 'f calc_lib, ts)))) \<Longrightarrow> parse_term F ts = Inr (v, r) \<Longrightarrow> length r < length ts"
  "parser_dom (Inr (Inl (Inl (F :: 'f calc_lib, l, ts)))) \<Longrightarrow> term_loop F l ts = Inr (v, r) \<Longrightarrow> length r \<le> length ts"
  "parser_dom (Inr (Inl (Inr (F :: 'f calc_lib, ts)))) \<Longrightarrow> parse_power F ts = Inr (v, r) \<Longrightarrow> length r < length ts"
  "parser_dom (Inr (Inr (Inl (F :: 'f calc_lib, ts)))) \<Longrightarrow> parse_atom F ts = Inr (v, r) \<Longrightarrow> length r < length ts"
  "parser_dom (Inr (Inr (Inr (F :: 'f calc_lib, as, ts)))) \<Longrightarrow> args_loop F as ts = Inr (vs, r) \<Longrightarrow> length r \<le> length ts"
proof (induction arbitrary: v r and v r and v r and v r and v r and v r and vs r rule: parser_pinduct)
  case (1 F ts)
  show ?case using 1(4) 1(2) 1(3) [OF _ refl]
    by (force simp: parser_psimps(1) [OF 1(1)] split: sum.splits)
next
  case (2 F left ts)
  show ?case
  proof (cases "\<exists>c s. ts = TOp c # s")
    case True
    then obtain c s where ts: "ts = TOp c # s" by blast
    note ih = 2(2) [OF ts refl] 2(3) [OF ts refl _ _ refl] 2(4) [OF ts refl] 2(5) [OF ts refl _ _ _ refl]
    show ?thesis using 2(6) unfolding ts
      by (auto simp: parser_psimps(2) [OF 2(1), unfolded ts] split: if_splits sum.splits)
        (use ih in \<open>fastforce+\<close>)
  next
    case False
    then show ?thesis using 2(6)
      by (auto simp: parser_psimps(2) [OF 2(1)] split: list.splits token.splits)
  qed
next
  case (3 F ts)
  show ?case using 3(4) 3(2) 3(3) [OF _ refl]
    by (force simp: parser_psimps(3) [OF 3(1)] split: sum.splits)
next
  case (4 F left ts)
  show ?case
  proof (cases "\<exists>c s. ts = TOp c # s")
    case True
    then obtain c s where ts: "ts = TOp c # s" by blast
    note ih = 4(2) [OF ts refl] 4(3) [OF ts refl _ _ refl] 4(4) [OF ts refl] 4(5) [OF ts refl _ _ _ refl]
      4(6) [OF ts refl] 4(7) [OF ts refl _ _ _ _ refl]
    show ?thesis using 4(8) unfolding ts
      by (auto simp: parser_psimps(4) [OF 4(1), unfolded ts] split: if_splits sum.splits)
        (use ih in \<open>fastforce+\<close>)
  next
    case False
    then show ?thesis using 4(8)
      by (auto simp: parser_psimps(4) [OF 4(1)] split: list.splits token.splits)
  qed
next
  case (5 F ts)
  show ?case
  proof (cases "parse_atom F ts")
    case (Inr p)
    obtain b s where p: "parse_atom F ts = Inr (b, s)" using Inr by (cases p) simp
    show ?thesis
    proof (cases "\<exists>c s'. s = TOp c # s'")
      case True
      then obtain c s' where s: "s = TOp c # s'" by blast
      show ?thesis using 5(4) 5(2) [OF p] 5(3) [OF p refl s refl]
        by (fastforce simp: parser_psimps(5) [OF 5(1)] p s split: if_splits sum.splits)
    next
      case False
      then show ?thesis using 5(4) 5(2) [OF p]
        by (auto simp: parser_psimps(5) [OF 5(1)] p split: list.splits token.splits)
    qed
  qed (use 5(4) in \<open>simp add: parser_psimps(5) [OF 5(1)]\<close>)
next
  case (6 F ts)
  show ?case
  proof (cases ts)
    case (Cons t s)
    show ?thesis
    proof (cases t)
      case LParen
      note ih = 6(2) [OF Cons LParen]
      show ?thesis using 6(5) unfolding Cons LParen
        by (auto simp: parser_psimps(6) [OF 6(1), unfolded Cons LParen] split: sum.splits list.splits token.splits)
        (use ih in \<open>fastforce+\<close>)
    next
      case (TFunc name)
      show ?thesis
      proof (cases "\<exists>s'. s = LParen # s'")
        case True
        then obtain s' where s: "s = LParen # s'" by blast
        note ih = 6(3) [OF Cons TFunc s refl] 6(4) [OF Cons TFunc s refl _ refl]
        show ?thesis using 6(5) unfolding Cons TFunc s
          by (auto simp: parser_psimps(6) [OF 6(1), unfolded Cons TFunc s] split: sum.splits list.splits token.splits)
        (use ih in \<open>fastforce+\<close>)
      next
        case False
        then show ?thesis using 6(5) unfolding Cons TFunc
          by (auto simp: parser_psimps(6) [OF 6(1), unfolded Cons TFunc] split: list.splits token.splits)
      qed
    qed (use 6(5) [unfolded Cons] parser_psimps(6) [OF 6(1), unfolded Cons] in \<open>auto simp: Cons\<close>)
  qed (use 6(5) parser_psimps(6) [OF 6(1)] in auto)
next
  case (7 F args ts)
  show ?case
  proof (cases "\<exists>s. ts = TComma # s")
    case True
    then obtain s where ts: "ts = TComma # s" by blast
    note ih = 7(2) [OF ts refl] 7(3) [OF ts refl _ refl]
    show ?thesis using 7(4) unfolding ts
      by (auto simp: parser_psimps(7) [OF 7(1), unfolded ts] split: sum.splits)
        (use ih in \<open>fastforce+\<close>)
  next
    case False
    then show ?thesis using 7(4)
      by (auto simp: parser_psimps(7) [OF 7(1)] split: list.splits token.splits)
  qed
qed

termination parse_expr
proof (relation "measure (case_sum
    (case_sum (\<lambda>(F, ts). 6 * length ts + 5)
       (case_sum (\<lambda>(F, l, ts). 6 * length ts + 4) (\<lambda>(F, ts). 6 * length ts + 4)))
    (case_sum
       (case_sum (\<lambda>(F, l, ts). 6 * length ts + 3) (\<lambda>(F, ts). 6 * length ts + 3))
       (case_sum (\<lambda>(F, ts). 6 * length ts + 2) (\<lambda>(F, as, ts). 6 * length ts + 2))))", goal_cases)
qed (auto dest!: parser_consumes)

declare parse_expr.simps [simp del] expr_loop.simps [simp del] parse_term.simps [simp del]
  term_loop.simps [simp del] parse_power.simps [simp del] parse_atom.simps [simp del]
  args_loop.simps [simp del]

subsection \<open>The tool\<close>

definition calculate :: "'f calc_lib \<Rightarrow> uchar list \<Rightarrow> ('f calc_error, 'f) res" where
  "calculate F expr =
     and_then (tokenize F expr) (\<lambda>tokens.
       and_then (parse_expr F tokens) (\<lambda>(v, rest).
         case rest of [] \<Rightarrow> Ok v | t # _ \<Rightarrow> Err (UnexpectedToken t)))"

text \<open>The reply to a call; the expression is echoed.\<close>

datatype 'f calc_reply =
    MissingParameter
  | Result 'f "uchar list"
  | Failure "'f calc_error" "uchar list"

definition calculate_tool :: "'f calc_lib \<Rightarrow> uchar list option \<Rightarrow> 'f calc_reply" where
  "calculate_tool F arg =
     (case arg of
        None \<Rightarrow> MissingParameter
      | Some expression \<Rightarrow>
          (case calculate F expression of
             Ok result \<Rightarrow> Result result expression
           | Err e \<Rightarrow> Failure e expression))"

end
