(* ===== verification/Calc_Grammar.thy ===== *)
theory Calc_Grammar
  imports Calc_Parse
begin

section \<open>The calculator's grammar\<close>

text \<open>
  A reference for the evaluator of \<^verbatim>\<open>calculate.rs\<close>: the usual grammar of arithmetic, as one
  inductive relation per nonterminal between a list of tokens and a value. Sums and products
  associate to the left, powers to the right; a division by zero has no value.
\<close>

inductive expr_of :: "'f calc_lib \<Rightarrow> 'f token list \<Rightarrow> 'f \<Rightarrow> bool"
  and term_of_tokens :: "'f calc_lib \<Rightarrow> 'f token list \<Rightarrow> 'f \<Rightarrow> bool"
  and power_of :: "'f calc_lib \<Rightarrow> 'f token list \<Rightarrow> 'f \<Rightarrow> bool"
  and atom_of :: "'f calc_lib \<Rightarrow> 'f token list \<Rightarrow> 'f \<Rightarrow> bool"
  and args_of :: "'f calc_lib \<Rightarrow> 'f token list \<Rightarrow> 'f list \<Rightarrow> bool"
  for F :: "'f calc_lib"
  where
  E_term: "term_of_tokens F ts v \<Longrightarrow> expr_of F ts v"
| E_add: "expr_of F ts v \<Longrightarrow> term_of_tokens F us w \<Longrightarrow> expr_of F (ts @ TOp (CHR ''+'') # us) (fl_add F v w)"
| E_sub: "expr_of F ts v \<Longrightarrow> term_of_tokens F us w \<Longrightarrow> expr_of F (ts @ TOp (CHR ''-'') # us) (fl_sub F v w)"
| T_power: "power_of F ts v \<Longrightarrow> term_of_tokens F ts v"
| T_mul: "term_of_tokens F ts v \<Longrightarrow> power_of F us w \<Longrightarrow>
    term_of_tokens F (ts @ TOp (CHR ''*'') # us) (fl_mul F v w)"
| T_div: "term_of_tokens F ts v \<Longrightarrow> power_of F us w \<Longrightarrow> \<not> fl_eq F w (fl_int F 0) \<Longrightarrow>
    term_of_tokens F (ts @ TOp (CHR ''/'') # us) (fl_div F v w)"
| T_rem: "term_of_tokens F ts v \<Longrightarrow> power_of F us w \<Longrightarrow> \<not> fl_eq F w (fl_int F 0) \<Longrightarrow>
    term_of_tokens F (ts @ TOp (CHR ''%'') # us) (fl_rem F v w)"
| P_atom: "atom_of F ts v \<Longrightarrow> power_of F ts v"
| P_pow: "atom_of F ts v \<Longrightarrow> power_of F us w \<Longrightarrow> power_of F (ts @ TOp (CHR ''^'') # us) (fl_pow F v w)"
| A_num: "atom_of F [TNum n] n"
| A_paren: "expr_of F ts v \<Longrightarrow> atom_of F (LParen # ts @ [RParen]) v"
| A_call: "args_of F ts vs \<Longrightarrow> eval_func F name vs = Inr w \<Longrightarrow>
    atom_of F (TFunc name # LParen # ts @ [RParen]) w"
| G_one: "expr_of F ts v \<Longrightarrow> args_of F ts [v]"
| G_more: "args_of F ts vs \<Longrightarrow> expr_of F us v \<Longrightarrow> args_of F (ts @ TComma # us) (vs @ [v])"

lemmas grammar_intros = expr_of_term_of_tokens_power_of_atom_of_args_of.intros

subsection \<open>What is derived is parsed\<close>

text \<open>The next token is one of these operators.\<close>

fun at_op :: "string \<Rightarrow> 'f token list \<Rightarrow> bool" where
  "at_op s (TOp c # _) = (c \<in> set s)"
| "at_op s _ = False"

lemma expr_loop_stops: "\<not> at_op ''+-'' r \<Longrightarrow> expr_loop F v r = Inr (v, r)"
  by (cases "(''+-'', r)" rule: at_op.cases) (simp_all add: expr_loop.simps)

lemma term_loop_stops: "\<not> at_op ''*/%'' r \<Longrightarrow> term_loop F v r = Inr (v, r)"
  by (cases "(''*/%'', r)" rule: at_op.cases) (simp_all add: term_loop.simps)

lemma at_op_cut:
  "\<not> at_op ''*/%^'' r \<Longrightarrow> \<not> at_op ''^'' r \<and> \<not> at_op ''*/%'' r"
  "\<not> at_op ''+-*/%^'' r \<Longrightarrow> \<not> at_op ''*/%^'' r \<and> \<not> at_op ''+-'' r"
  by (cases "(''x'', r)" rule: at_op.cases; auto)+

lemma parse_term_exact:
  assumes "parse_term F (ts @ r) = term_loop F v r" "\<not> at_op ''*/%'' r"
  shows "parse_term F (ts @ r) = Inr (v, r)"
  using assms by (simp add: term_loop_stops)

lemma derived_is_parsed:
  "expr_of F ts v \<Longrightarrow> \<not> at_op ''*/%^'' r \<Longrightarrow> parse_expr F (ts @ r) = expr_loop F v r"
  "term_of_tokens F ts v \<Longrightarrow> \<not> at_op ''^'' r \<Longrightarrow> parse_term F (ts @ r) = term_loop F v r"
  "power_of F ts v \<Longrightarrow> \<not> at_op ''^'' r \<Longrightarrow> parse_power F (ts @ r) = Inr (v, r)"
  "atom_of F ts v \<Longrightarrow> parse_atom F (ts @ r) = Inr (v, r)"
  "args_of F ts vs \<Longrightarrow> \<not> at_op ''+-*/%^'' r \<Longrightarrow>
     (case parse_expr F (ts @ r) of Inl e \<Rightarrow> Inl e | Inr (v, s) \<Rightarrow> args_loop F [v] s) = args_loop F vs r"
proof (induction arbitrary: r and r and r and r and r
    rule: expr_of_term_of_tokens_power_of_atom_of_args_of.inducts)
  case (E_term ts v)
  then have "parse_term F (ts @ r) = Inr (v, r)"
    by (intro parse_term_exact) (use at_op_cut(1) in blast)+
  then show ?case by (simp add: parse_expr.simps)
next
  case (E_add ts v us w)
  then have "parse_term F (us @ r) = Inr (w, r)"
    by (intro parse_term_exact) (use at_op_cut(1) in blast)+
  then show ?case using E_add.IH(2) [of "TOp (CHR ''+'') # us @ r"]
    by (simp add: expr_loop.simps [of F v])
next
  case (E_sub ts v us w)
  then have "parse_term F (us @ r) = Inr (w, r)"
    by (intro parse_term_exact) (use at_op_cut(1) in blast)+
  then show ?case using E_sub.IH(2) [of "TOp (CHR ''-'') # us @ r"]
    by (simp add: expr_loop.simps [of F v])
next
  case (T_power ts v)
  then show ?case by (simp add: parse_term.simps)
next
  case (T_mul ts v us w)
  then show ?case using T_mul.IH(2) [of "TOp (CHR ''*'') # us @ r"]
    by (simp add: term_loop.simps [of F v])
next
  case (T_div ts v us w)
  then show ?case using T_div.IH(2) [of "TOp (CHR ''/'') # us @ r"]
    by (simp add: term_loop.simps [of F v])
next
  case (T_rem ts v us w)
  then show ?case using T_rem.IH(2) [of "TOp (CHR ''%'') # us @ r"]
    by (simp add: term_loop.simps [of F v])
next
  case (P_atom ts v)
  show ?case unfolding parse_power.simps [of F "ts @ _"] P_atom.IH(2) using P_atom.prems
    by (cases "(''^'', r)" rule: at_op.cases) simp_all
next
  case (P_pow ts v us w)
  then show ?case by (simp add: parse_power.simps [of F "ts @ _"])
next
  case (A_num n)
  then show ?case by (simp add: parse_atom.simps)
next
  case (A_paren ts v)
  then show ?case using A_paren.IH(2) [of "RParen # r"]
    by (simp add: parse_atom.simps [of F "LParen # _"] expr_loop_stops)
next
  case (A_call ts vs name w)
  have "args_loop F vs (RParen # r) = Inr (vs, RParen # r)" by (simp add: args_loop.simps)
  then show ?case using A_call.IH(2) [of "RParen # r"] A_call.IH(3)
    by (auto simp: parse_atom.simps [of F "TFunc name # _"] split: sum.splits)
next
  case (G_one ts v)
  then have "parse_expr F (ts @ r) = expr_loop F v r" "\<not> at_op ''+-'' r"
    by (simp_all add: at_op_cut(2))
  then show ?case by (simp add: expr_loop_stops)
next
  case (G_more ts vs us v)
  then have "parse_expr F (us @ r) = expr_loop F v r" "\<not> at_op ''+-'' r"
    by (simp_all add: at_op_cut(2))
  then show ?case using G_more.IH(2) [of "TComma # us @ r"]
    by (simp add: expr_loop_stops args_loop.simps [of F vs])
qed

subsection \<open>What is parsed is derived\<close>

lemma expr_loop_Inr:
  assumes "expr_loop F left ts = Inr (v, r)"
  shows "(v = left \<and> r = ts) \<or>
     (\<exists>s w s'. ts = TOp (CHR ''+'') # s \<and> parse_term F s = Inr (w, s') \<and>
        expr_loop F (fl_add F left w) s' = Inr (v, r)) \<or>
     (\<exists>s w s'. ts = TOp (CHR ''-'') # s \<and> parse_term F s = Inr (w, s') \<and>
        expr_loop F (fl_sub F left w) s' = Inr (v, r))"
  using assms
  by (simp add: expr_loop.simps [of F left] split: list.splits token.splits if_splits sum.splits prod.splits)

lemma term_loop_Inr:
  assumes "term_loop F left ts = Inr (v, r)"
  shows "(v = left \<and> r = ts) \<or>
     (\<exists>s w s'. ts = TOp (CHR ''*'') # s \<and> parse_power F s = Inr (w, s') \<and>
        term_loop F (fl_mul F left w) s' = Inr (v, r)) \<or>
     (\<exists>s w s'. ts = TOp (CHR ''/'') # s \<and> parse_power F s = Inr (w, s') \<and> \<not> fl_eq F w (fl_int F 0) \<and>
        term_loop F (fl_div F left w) s' = Inr (v, r)) \<or>
     (\<exists>s w s'. ts = TOp (CHR ''%'') # s \<and> parse_power F s = Inr (w, s') \<and> \<not> fl_eq F w (fl_int F 0) \<and>
        term_loop F (fl_rem F left w) s' = Inr (v, r))"
  using assms
  by (simp add: term_loop.simps [of F left] split: list.splits token.splits if_splits sum.splits prod.splits)

lemma parse_power_Inr:
  assumes "parse_power F ts = Inr (v, r)"
  shows "parse_atom F ts = Inr (v, r) \<or>
     (\<exists>b s w. parse_atom F ts = Inr (b, TOp (CHR ''^'') # s) \<and> parse_power F s = Inr (w, r) \<and>
        v = fl_pow F b w)"
  using assms
  by (simp add: parse_power.simps [of F ts] split: list.splits token.splits if_splits sum.splits prod.splits)

lemma parse_atom_Inr:
  assumes "parse_atom F ts = Inr (v, r)"
  shows "ts = TNum v # r \<or>
     (\<exists>s. ts = LParen # s \<and> parse_expr F s = Inr (v, RParen # r)) \<or>
     (\<exists>name s w s' vs. ts = TFunc name # LParen # s \<and> parse_expr F s = Inr (w, s') \<and>
        args_loop F [w] s' = Inr (vs, RParen # r) \<and> eval_func F name vs = Inr v)"
  using assms
  by (auto simp: parse_atom.simps [of F ts] split: list.splits token.splits if_splits sum.splits prod.splits)

lemma args_loop_Inr:
  assumes "args_loop F args ts = Inr (vs, r)"
  shows "(vs = args \<and> r = ts) \<or>
     (\<exists>s w s'. ts = TComma # s \<and> parse_expr F s = Inr (w, s') \<and> args_loop F (args @ [w]) s' = Inr (vs, r))"
  using assms
  by (simp add: args_loop.simps [of F args] split: list.splits token.splits if_splits sum.splits prod.splits)

lemma parse_expr_Inr:
  "parse_expr F ts = Inr (v, r) \<longleftrightarrow>
     (\<exists>w s. parse_term F ts = Inr (w, s) \<and> expr_loop F w s = Inr (v, r))"
  by (simp add: parse_expr.simps split: sum.splits)

lemma parse_term_Inr:
  "parse_term F ts = Inr (v, r) \<longleftrightarrow>
     (\<exists>w s. parse_power F ts = Inr (w, s) \<and> term_loop F w s = Inr (v, r))"
  by (simp add: parse_term.simps split: sum.splits)

lemma parsed_is_derived:
  "parse_expr F ts = Inr (v, r) \<Longrightarrow> \<exists>p. ts = p @ r \<and> expr_of F p v"
  "expr_loop F left ts = Inr (v, r) \<Longrightarrow> expr_of F p0 left \<Longrightarrow> \<exists>p. ts = p @ r \<and> expr_of F (p0 @ p) v"
  "parse_term F ts = Inr (v, r) \<Longrightarrow> \<exists>p. ts = p @ r \<and> term_of_tokens F p v"
  "term_loop F left ts = Inr (v, r) \<Longrightarrow> term_of_tokens F p0 left \<Longrightarrow>
     \<exists>p. ts = p @ r \<and> term_of_tokens F (p0 @ p) v"
  "parse_power F ts = Inr (v, r) \<Longrightarrow> \<exists>p. ts = p @ r \<and> power_of F p v"
  "parse_atom F ts = Inr (v, r) \<Longrightarrow> \<exists>p. ts = p @ r \<and> atom_of F p v"
  "args_loop F args ts = Inr (vs, r) \<Longrightarrow> args_of F p0 args \<Longrightarrow> \<exists>p. ts = p @ r \<and> args_of F (p0 @ p) vs"
proof (induction F ts and F left ts and F ts and F left ts and F ts and F ts and F args ts
    arbitrary: v r and v r p0 and v r and v r p0 and v r and v r and vs r p0
    rule: parse_expr_expr_loop_parse_term_term_loop_parse_power_parse_atom_args_loop.induct)
  case (1 F ts)
  obtain w s where e: "parse_term F ts = Inr (w, s)" "expr_loop F w s = Inr (v, r)"
    using 1(3) by (auto simp: parse_expr_Inr)
  obtain p where p: "ts = p @ s" "term_of_tokens F p w" using 1(1) [OF e(1)] by blast
  show ?case using 1(2) [OF e(1) refl e(2) E_term [OF p(2)]] p(1) by auto
next
  case (2 F left ts)
  from expr_loop_Inr [OF 2(5)] consider
      "v = left" "r = ts"
    | s w s' where "ts = TOp (CHR ''+'') # s" "parse_term F s = Inr (w, s')" "expr_loop F (fl_add F left w) s' = Inr (v, r)"
    | s w s' where "ts = TOp (CHR ''-'') # s" "parse_term F s = Inr (w, s')" "expr_loop F (fl_sub F left w) s' = Inr (v, r)"
    by blast
  then show ?case
  proof cases
    case 1
    then show ?thesis using 2(6) by simp
  next
    case e: 2
    obtain p where p: "s = p @ s'" "term_of_tokens F p w" using 2(1) [OF e(1) refl refl e(2)] by blast
    show ?thesis using 2(2) [OF e(1) refl refl e(2) refl e(3) E_add [OF 2(6) p(2)]] e(1) p(1) by auto
  next
    case e: 3
    obtain p where p: "s = p @ s'" "term_of_tokens F p w" using 2(3) [OF e(1) refl _ refl e(2)] by auto
    show ?thesis using 2(4) [OF e(1) refl _ refl e(2) refl e(3) E_sub [OF 2(6) p(2)]] e(1) p(1) by auto
  qed
next
  case (3 F ts)
  obtain w s where e: "parse_power F ts = Inr (w, s)" "term_loop F w s = Inr (v, r)"
    using 3(3) by (auto simp: parse_term_Inr)
  obtain p where p: "ts = p @ s" "power_of F p w" using 3(1) [OF e(1)] by blast
  show ?case using 3(2) [OF e(1) refl e(2) T_power [OF p(2)]] p(1) by auto
next
  case (4 F left ts)
  from term_loop_Inr [OF 4(7)] consider
      "v = left" "r = ts"
    | s w s' where "ts = TOp (CHR ''*'') # s" "parse_power F s = Inr (w, s')" "term_loop F (fl_mul F left w) s' = Inr (v, r)"
    | s w s' where "ts = TOp (CHR ''/'') # s" "parse_power F s = Inr (w, s')" "term_loop F (fl_div F left w) s' = Inr (v, r)"
        "\<not> fl_eq F w (fl_int F 0)"
    | s w s' where "ts = TOp (CHR ''%'') # s" "parse_power F s = Inr (w, s')" "term_loop F (fl_rem F left w) s' = Inr (v, r)"
        "\<not> fl_eq F w (fl_int F 0)"
    by blast
  then show ?case
  proof cases
    case 1
    then show ?thesis using 4(8) by simp
  next
    case e: 2
    obtain p where p: "s = p @ s'" "power_of F p w" using 4(1) [OF e(1) refl refl e(2)] by blast
    show ?thesis using 4(2) [OF e(1) refl refl e(2) refl e(3) T_mul [OF 4(8) p(2)]] e(1) p(1) by auto
  next
    case e: 3
    obtain p where p: "s = p @ s'" "power_of F p w" using 4(3) [OF e(1) refl _ refl e(2)] by auto
    show ?thesis using 4(4) [OF e(1) refl _ refl e(2) refl e(4,3) T_div [OF 4(8) p(2) e(4)]] e(1) p(1) by auto
  next
    case e: 4
    obtain p where p: "s = p @ s'" "power_of F p w" using 4(5) [OF e(1) refl _ _ refl e(2)] by auto
    show ?thesis using 4(6) [OF e(1) refl _ _ refl e(2) refl e(4,3) T_rem [OF 4(8) p(2) e(4)]] e(1) p(1) by auto
  qed
next
  case (5 F ts)
  from parse_power_Inr [OF 5(3)] consider
      "parse_atom F ts = Inr (v, r)"
    | b s w where "parse_atom F ts = Inr (b, TOp (CHR ''^'') # s)" "parse_power F s = Inr (w, r)" "v = fl_pow F b w"
    by blast
  then show ?case
  proof cases
    case e: 1
    obtain p where p: "ts = p @ r" "atom_of F p v" using 5(1) [OF e] by blast
    show ?thesis using p(1) P_atom [OF p(2)] by blast
  next
    case e: 2
    obtain p where p: "ts = p @ TOp (CHR ''^'') # s" "atom_of F p b" using 5(1) [OF e(1)] by blast
    obtain q where q: "s = q @ r" "power_of F q w" using 5(2) [OF e(1) refl refl refl refl e(2)] by blast
    show ?thesis using P_pow [OF p(2) q(2)] p(1) q(1) e(3) by auto
  qed
next
  case (6 F ts)
  from parse_atom_Inr [OF 6(4)] consider
      "ts = TNum v # r"
    | s where "ts = LParen # s" "parse_expr F s = Inr (v, RParen # r)"
    | name s w s' vs where "ts = TFunc name # LParen # s" "parse_expr F s = Inr (w, s')"
        "args_loop F [w] s' = Inr (vs, RParen # r)" "eval_func F name vs = Inr v"
    by blast
  then show ?case
  proof cases
    case 1
    then show ?thesis using A_num [of F v] by force
  next
    case e: 2
    obtain p where p: "s = p @ RParen # r" "expr_of F p v" using 6(1) [OF e(1) refl e(2)] by blast
    show ?thesis using A_paren [OF p(2)] e(1) p(1) by force
  next
    case e: 3
    obtain p where p: "s = p @ s'" "expr_of F p w" using 6(2) [OF e(1) refl refl refl e(2)] by blast
    obtain q where q: "s' = q @ RParen # r" "args_of F (p @ q) vs"
      using 6(3) [OF e(1) refl refl refl e(2) refl e(3) G_one [OF p(2)]] by blast
    show ?thesis using A_call [OF q(2) e(4)] e(1) p(1) q(1) by force
  qed
next
  case (7 F args ts)
  from args_loop_Inr [OF 7(3)] consider
      "vs = args" "r = ts"
    | s w s' where "ts = TComma # s" "parse_expr F s = Inr (w, s')" "args_loop F (args @ [w]) s' = Inr (vs, r)"
    by blast
  then show ?case
  proof cases
    case 1
    then show ?thesis using 7(4) by simp
  next
    case e: 2
    obtain p where p: "s = p @ s'" "expr_of F p w" using 7(1) [OF e(1) refl e(2)] by blast
    show ?thesis using 7(2) [OF e(1) refl e(2) refl e(3) G_more [OF 7(4) p(2)]] e(1) p(1) by auto
  qed
qed

lemma parse_whole: "parse_expr F ts = Inr (v, []) \<longleftrightarrow> expr_of F ts v"
proof
  assume "parse_expr F ts = Inr (v, [])"
  then show "expr_of F ts v" using parsed_is_derived(1) by force
next
  assume "expr_of F ts v"
  then show "parse_expr F ts = Inr (v, [])"
    using derived_is_parsed(1) [of F ts v "[]"] by (simp add: expr_loop_stops)
qed

text \<open>The grammar is not ambiguous: a text has one value at most.\<close>

lemma expr_of_unique: "expr_of F ts v \<Longrightarrow> expr_of F ts w \<Longrightarrow> v = w"
  by (simp flip: parse_whole)

text \<open>
  C20. Equivalence. The calculator answers with a value exactly when the text splits into tokens
  that the grammar derives, and with the value the grammar gives them: the recursive descent
  parser decides the grammar, and evaluates as the grammar does, in any arithmetic.
\<close>

theorem calculate_grammar:
  "calculate F s = Ok v \<longleftrightarrow> (\<exists>ts. tokenize F s = Ok ts \<and> expr_of F ts v)"
  unfolding parse_whole [symmetric]
  by (auto simp: calculate_def and_then_Inr list.case_eq_if split: if_splits)

end
