(* ===== verification/Calc_Properties.thy ===== *)
theory Calc_Properties
  imports Calc_Grammar
begin

section \<open>Tokens, integers and the sign\<close>

text \<open>
  What the tokenizer's output satisfies, the integer functions at their width, and the value the
  calculator gives to a negated group.
\<close>

subsection \<open>The tokenizer's output\<close>

fun token_ok :: "'f calc_lib \<Rightarrow> 'f token \<Rightarrow> bool" where
  "token_ok F (TOp c) = (c \<in> set ''+-*/%^'')"
| "token_ok F (TFunc n) =
     (n \<noteq> [] \<and> list_all (ident_char F) n \<and> n \<noteq> chars ''pi'' \<and> n \<noteq> chars ''e'')"
| "token_ok F _ = True"

fun is_sign :: "'f token \<Rightarrow> bool" where
  "is_sign (TOp c) = (c \<in> set ''+-'')"
| "is_sign _ = False"

text \<open>Every sign follows a token that ends an operand.\<close>

fun signs_binary_from :: "'f token list \<Rightarrow> 'f token list \<Rightarrow> bool" where
  "signs_binary_from before [] = True"
| "signs_binary_from before (t # ts) =
     ((\<not> is_sign t \<or> \<not> is_unary before) \<and> signs_binary_from (before @ [t]) ts)"

definition signs_binary :: "'f token list \<Rightarrow> bool" where
  "signs_binary ts = signs_binary_from [] ts"

lemma signs_binary_snoc:
  "signs_binary_from before (ts @ [t]) \<longleftrightarrow>
     signs_binary_from before ts \<and> (\<not> is_sign t \<or> \<not> is_unary (before @ ts))"
  by (induction ts arbitrary: before) auto

definition tokens_ok :: "'f calc_lib \<Rightarrow> 'f token list \<Rightarrow> bool" where
  "tokens_ok F ts = (list_all (token_ok F) ts \<and> signs_binary ts)"

lemma tokens_ok_snoc:
  "tokens_ok F (ts @ [t]) \<longleftrightarrow> tokens_ok F ts \<and> token_ok F t \<and> (\<not> is_sign t \<or> \<not> is_unary ts)"
  by (auto simp: tokens_ok_def signs_binary_def signs_binary_snoc)

fun lexical :: "'f calc_error \<Rightarrow> bool" where
  "lexical (InvalidNumber _) = True"
| "lexical UnexpectedMinus = True"
| "lexical (UnexpectedChar _) = True"
| "lexical _ = False"

fun lexed :: "'f calc_lib \<Rightarrow> ('f calc_error, 'f token list) res \<Rightarrow> bool" where
  "lexed F (Inr ts) = tokens_ok F ts"
| "lexed F (Inl e) = lexical e"

lemma one_of_op: "one_of c s \<Longrightarrow> char_of c \<in> set s"
  by (auto simp: one_of_def chars_def)

lemma ident_token_ok:
  assumes "alphabetic F c \<or> one_of c ''_''"
  shows "token_ok F (ident_token F (takeWhile (ident_char F) (c # cs)))"
    "\<not> is_sign (ident_token F n)"
  using assms
  by (auto simp: ident_token_def ident_char_def alphanumeric_def list_all_iff dest: set_takeWhileD)

lemma tokenize_from_lexed: "tokens_ok F tokens \<Longrightarrow> lexed F (tokenize_from F tokens cs)"
proof (induction F tokens cs rule: tokenize_from.induct)
  case (1 F tokens)
  then show ?case by simp
next
  case (2 F tokens c cs)
  have op: "tokens_ok F (tokens @ [TOp (char_of c)])" if "one_of c ''+-'' \<and> \<not> is_unary tokens \<or> one_of c ''*/%^''"
    using that 2(12) one_of_op [of c] by (fastforce simp: tokens_ok_snoc)
  have step: "lexed F (tokenize_from F tokens (c # cs))"
  proof (cases "one_of c [CHR '' '', CHR 0x09, CHR 0x0A]")
    case ws: False
    show ?thesis
    proof (cases "one_of c ''+-''")
      case sign: True
      show ?thesis
      proof (cases "is_unary tokens \<and> one_of c ''-''")
        case minus: True
        show ?thesis
        proof (cases cs)
          case (Cons d ds)
          have eq: "tokenize_from F tokens (c # cs) =
              (if num_char d then
                 (case fl_parse F (takeWhile num_char cs) of
                    None \<Rightarrow> Err (InvalidNumber (chars ''-'' @ takeWhile num_char cs))
                  | Some n \<Rightarrow> tokenize_from F (tokens @ [TNum (fl_neg F n)]) (dropWhile num_char cs))
               else if one_of d ''('' \<or> alphabetic F d
               then tokenize_from F (tokens @ [TNum (fl_neg F (fl_int F 1)), TOp (CHR ''*'')]) cs
               else Err UnexpectedMinus)"
            by (simp add: tokenize_from.simps(2) [of F tokens c] ws sign minus)
              (simp add: Cons del: takeWhile.simps dropWhile.simps)
          have "tokens_ok F (tokens @ [TNum n, TOp (CHR ''*'')])" for n
            using tokens_ok_snoc [of F "tokens @ [TNum n]"] 2(12) by (simp add: tokens_ok_snoc)
          then show ?thesis using 2(2) [OF ws sign minus Cons] 2(3) [OF ws sign minus Cons] 2(12)
            unfolding eq by (simp add: tokens_ok_snoc split: option.split)
        qed (use ws sign minus in \<open>simp add: tokenize_from.simps(2) [of F tokens c]\<close>)
      next
        case False
        then show ?thesis using op sign ws 2(4,5,12) unfolding tokenize_from.simps(2) [of F tokens c cs]
          by auto
      qed
    next
      case sign: False
      show ?thesis
      proof (cases "one_of c ''*/%^'' \<or> one_of c ''('' \<or> one_of c '')'' \<or> one_of c '',''")
        case True
        then show ?thesis using op ws sign 2(6-9,12) unfolding tokenize_from.simps(2) [of F tokens c cs]
          by (auto simp: tokens_ok_snoc)
      next
        case False
        then show ?thesis using ws sign 2(10,11,12) ident_token_ok [of F c]
          unfolding tokenize_from.simps(2) [of F tokens c cs]
          by (auto simp: tokens_ok_snoc Let_def simp del: takeWhile.simps dropWhile.simps split: option.split)
      qed
    qed
  qed (use 2(1,12) in \<open>simp add: tokenize_from.simps(2) [of F tokens c]\<close>)
  then show ?case .
qed

text \<open>
  C21. What the tokenizer produces. Its operators are the six of the calculator, its function names
  are non-empty identifiers other than the two constants, and every sign it leaves is a binary one:
  it follows a number, a name or a closing parenthesis, never an operator, an opening parenthesis,
  a comma or the beginning. So the parser never meets a unary sign. When it fails, it is for a
  malformed number, a dangling minus or a character it does not know.
\<close>

theorem tokenizer_output: "lexed F (tokenize F s)"
  unfolding tokenize_def by (rule tokenize_from_lexed) (simp add: tokens_ok_def signs_binary_def)

subsection \<open>Integers\<close>

lemma gcd_loop_correct: "unat (gcd_loop a b) = gcd (unat a) (unat b)"
proof (induction a b rule: gcd_loop.induct)
  case (1 a b)
  show ?case
  proof (cases "b = 0")
    case False
    then have "unat (gcd_loop a b) = gcd (unat b) (unat (a mod b))"
      using 1 by (simp add: gcd_loop.simps [of a b])
    then show ?thesis by (simp add: unat_mod gcd_red_nat [symmetric])
  qed (simp add: gcd_loop.simps)
qed

lemma lcm_u64_correct: "unat (lcm_u64 a b) = lcm (unat a) (unat b) mod 2 ^ 64"
proof -
  have "lcm (unat a) (unat b) = unat a div gcd (unat a) (unat b) * unat b"
    by (simp add: lcm_nat_def div_mult_swap dvd_div_mult)
  then show ?thesis
    by (simp add: lcm_u64_def unat_word_ariths unat_div gcd_loop_correct mod_mult_left_eq)
qed

text \<open>
  The integer functions at 64 bits. Euclid's loop ends with the greatest common divisor of
  its arguments. The least common multiple is exact when it fits in 64 bits; when it does not, the
  product wraps and the result is too small.
\<close>

lemma integer_functions_bounded:
  "unat (gcd_loop a b) = gcd (unat a) (unat b) \<and>
   unat (lcm_u64 a b) = lcm (unat a) (unat b) mod 2 ^ 64 \<and>
   (unat (lcm_u64 a b) = lcm (unat a) (unat b) \<longleftrightarrow> lcm (unat a) (unat b) < 2 ^ 64)"
  using lcm_u64_correct [of a b] gcd_loop_correct [of a b] mod_less_divisor [of "2 ^ 64" "lcm (unat a) (unat b)"]
  by auto

subsection \<open>The sign before a group\<close>

text \<open>
  Whole numbers as an arithmetic, to evaluate the calculator on. A unary minus before a group or a
  name becomes the two tokens \<open>-1 *\<close>, which bind no tighter than a division before them; before a
  digit it becomes part of the literal, which binds tighter than a power. The literal of the
  second kind has no exponent.
\<close>

definition int_lib :: "int calc_lib" where
  "int_lib = \<lparr>
     fl_parse = (\<lambda>s. if s \<noteq> [] \<and> list_all ascii_digit s
                      then Some (foldl (\<lambda>n c. 10 * n + (int c - 48)) 0 s) else None),
     fl_int = (\<lambda>i. i), fl_pi = 3, fl_e = 2, fl_inf = 2 ^ 63, fl_neg_inf = - (2 ^ 63),
     fl_neg = uminus, fl_add = (+), fl_sub = (-), fl_mul = (*), fl_div = (div), fl_rem = (mod),
     fl_pow = (\<lambda>a b. a ^ nat b), fl_atan2 = (\<lambda>_ _. 0), fl_hypot = (\<lambda>_ _. 0), fl_min = min, fl_max = max,
     fl_lt = (<), fl_eq = (=), fl_call = (\<lambda>m x. if m = FAbs then \<bar>x\<bar> else if m = Fract then 0 else x),
     fl_to_u64 = word_of_int, fl_of_u64 = uint, uni_alphabetic = (\<lambda>_. False), uni_numeric = (\<lambda>_. False)\<rparr>"

lemma minus_before_a_group:
  "calculate int_lib (chars ''10/-(2)'') = Ok (-20)"
  by code_simp

lemma minus_before_a_literal:
  "calculate int_lib (chars ''-2^2'') = Ok 4"
  "calculate int_lib (chars ''-(2)^2'') = Ok (-4)"
  by code_simp+

lemma minus_before_an_exponent:
  "calculate int_lib (chars ''-1e5'') = Err (UnexpectedToken (TFunc (chars ''e5'')))"
  by code_simp

lemma lcm_overflows:
  "calculate int_lib (chars ''lcm(9223372036854775808,3)'') = Ok 9223372036854775808"
  by code_simp

lemma calculates:
  "calculate int_lib (chars ''2+3*4-6/(1+2)'') = Ok 12"
  "calculate int_lib (chars ''2^3^2 + gcd(12, 18)'') = Ok 518"
  "calculate int_lib (chars ''7 % (3 - 3)'') = Err ModuloByZero"
  "calculate int_lib (chars ''(1, 2)'') = Err ExpectedClosing"
  "calculate int_lib (chars ''factorial(5)'') = Ok 120"
  by code_simp+

end
