(* ===== verification/Chat_Store.thy ===== *)
theory Chat_Store
  imports Backend_Types
begin

section \<open>Messages, events and the event queue\<close>

text \<open>
  \<^verbatim>\<open>src/backend/src/event.rs\<close> and the message table of \<^verbatim>\<open>src/backend/src/state/session.rs\<close>.
  A message of the agent library is its role, its identifier, its parts and its tool calls; what
  the backend does not look at in a part is a parameter.
\<close>

datatype role = RSystem | RUser | RAssistant | RTool

datatype 'v part =
    PText string
  | PFunction string string 'v
  | POther 'v

fun as_text :: "'v part \<Rightarrow> string option" where
  "as_text (PText t) = Some t"
| "as_text _ = None"

fun as_function :: "'v part \<Rightarrow> (string \<times> string \<times> 'v) option" where
  "as_function (PFunction i n a) = Some (i, n, a)"
| "as_function _ = None"

record 'v message =
  msg_role :: role
  msg_id :: "string option"
  msg_contents :: "'v part list"
  msg_tool_calls :: "'v part list option"

definition new_message :: "role \<Rightarrow> 'v part list \<Rightarrow> 'v message" where
  "new_message r ps = \<lparr>msg_role = r, msg_id = None, msg_contents = ps, msg_tool_calls = None\<rparr>"

text \<open>Text is UTF-8; \<^verbatim>\<open>encode_utf16().count()\<close> counts two units for a four-byte sequence.\<close>

definition utf16_units :: "char \<Rightarrow> nat" where
  "utf16_units c =
     (let b = of_char c :: nat
      in if 128 \<le> b \<and> b < 192 then 0 else if 240 \<le> b then 2 else 1)"

definition utf16_len :: "string \<Rightarrow> nat" where
  "utf16_len s = sum_list (map utf16_units s)"

lemma utf16_len_append: "utf16_len (s @ t) = utf16_len s + utf16_len t"
  by (simp add: utf16_len_def)

subsection \<open>Events\<close>

datatype run_event = Started | Done | Stopped | RunError string

datatype 'v session_event =
    EvMessage int nat "string option" "'v message"
  | EvDelta string nat
  | EvRun run_event

fun is_message :: "'v session_event \<Rightarrow> bool" where
  "is_message (EvMessage _ _ _ _) = True"
| "is_message _ = False"

fun seq_of :: "'v session_event \<Rightarrow> int" where
  "seq_of (EvMessage seq _ _ _) = seq"
| "seq_of _ = 0"

subsection \<open>The message table\<close>

record 'v session_message =
  sm_depth :: nat
  sm_source :: "string option"
  sm_message :: "'v message"

text \<open>
  A row's content is the wrapped shape, or a bare message written before provenance was
  recorded.
\<close>

datatype 'v content = Wrapped "'v session_message" | Legacy "'v message"

fun parse_stored_message :: "'v content \<Rightarrow> 'v session_message" where
  "parse_stored_message (Wrapped s) = s"
| "parse_stored_message (Legacy m) = \<lparr>sm_depth = 0, sm_source = None, sm_message = m\<rparr>"

record 'v msg_row =
  mr_session :: uuid
  mr_seq :: int
  mr_content :: "'v content"

record 'v chat_db =
  cd_sessions :: "uuid list"
  cd_messages :: "'v msg_row list"

text \<open>The insertion: \<^verbatim>\<open>PRIMARY KEY (session_id, seq)\<close> and the reference to the session.\<close>

definition insert_message ::
  "'v chat_db \<Rightarrow> uuid \<Rightarrow> int \<Rightarrow> 'v session_message \<Rightarrow> (state_error, 'v chat_db) res" where
  "insert_message d sid seq m =
     (if sid \<notin> set (cd_sessions d) \<or>
         has_key (\<lambda>r. (mr_session r, mr_seq r)) (sid, seq) (cd_messages d)
      then Err constraint_failed
      else Ok (d\<lparr>cd_messages := cd_messages d @ [\<lparr>mr_session = sid, mr_seq = seq, mr_content = Wrapped m\<rparr>]\<rparr>))"

definition rows_since :: "'v chat_db \<Rightarrow> uuid \<Rightarrow> int \<Rightarrow> 'v msg_row list" where
  "rows_since d sid since =
     sort_key mr_seq (filter (\<lambda>r. mr_session r = sid \<and> since < mr_seq r) (cd_messages d))"

definition list_messages_since :: "'v chat_db \<Rightarrow> uuid \<Rightarrow> int \<Rightarrow> (int \<times> 'v session_message) list" where
  "list_messages_since d sid since =
     map (\<lambda>r. (mr_seq r, parse_stored_message (mr_content r))) (rows_since d sid since)"

definition list_messages :: "'v chat_db \<Rightarrow> uuid \<Rightarrow> (int \<times> 'v session_message) list" where
  "list_messages d sid = list_messages_since d sid (-1)"

definition message_event :: "int \<Rightarrow> 'v session_message \<Rightarrow> 'v session_event" where
  "message_event seq m = EvMessage seq (sm_depth m) (sm_source m) (sm_message m)"

subsection \<open>The event queue\<close>

text \<open>
  A channel is a \<^verbatim>\<open>tokio::sync::broadcast\<close> of 1024 values: a receiver that falls behind by
  more than the capacity misses the oldest values, and its next \<^verbatim>\<open>recv\<close> says how many before
  it goes on with the oldest retained one; when the sender is gone it reads what is left and then
  \<^verbatim>\<open>Closed\<close>. A receiver is its unread values, the number it missed, and whether the sender is
  gone. Channels are keyed by the session (their name is the session behind a fixed prefix).
\<close>

definition channel_capacity :: nat where
  "channel_capacity = 1024"

record 'p receiver =
  rc_unread :: "'p list"
  rc_missed :: nat
  rc_closed :: bool

record 'p event_queue =
  eq_next :: nat
  eq_channels :: "uuid \<Rightarrow> nat list option"
  eq_receivers :: "nat \<Rightarrow> 'p receiver option"

definition eq_new :: "'p event_queue" where
  "eq_new = \<lparr>eq_next = 0, eq_channels = (\<lambda>_. None), eq_receivers = (\<lambda>_. None)\<rparr>"

definition subscribe :: "uuid \<Rightarrow> 'p event_queue \<Rightarrow> 'p event_queue \<times> nat" where
  "subscribe ch q =
     (let r = eq_next q
      in (q\<lparr>eq_next := Suc r,
            eq_channels := (eq_channels q)(ch \<mapsto> the_default [] (eq_channels q ch) @ [r]),
            eq_receivers := (eq_receivers q)(r \<mapsto> \<lparr>rc_unread = [], rc_missed = 0, rc_closed = False\<rparr>)\<rparr>, r))"

definition deliver :: "'p \<Rightarrow> 'p receiver \<Rightarrow> 'p receiver" where
  "deliver p r =
     (if length (rc_unread r) < channel_capacity then r\<lparr>rc_unread := rc_unread r @ [p]\<rparr>
      else r\<lparr>rc_unread := tl (rc_unread r) @ [p], rc_missed := Suc (rc_missed r)\<rparr>)"

text \<open>Publishing reaches every receiver of the channel, and returns how many there are.\<close>

definition publish :: "uuid \<Rightarrow> 'p \<Rightarrow> 'p event_queue \<Rightarrow> 'p event_queue \<times> nat" where
  "publish ch p q =
     (case eq_channels q ch of
        None \<Rightarrow> (q, 0)
      | Some rs \<Rightarrow>
          (q\<lparr>eq_receivers := (\<lambda>k. if k \<in> set rs then map_option (deliver p) (eq_receivers q k)
                                 else eq_receivers q k)\<rparr>, length rs))"

definition remove_channel :: "uuid \<Rightarrow> 'p event_queue \<Rightarrow> 'p event_queue" where
  "remove_channel ch q =
     (case eq_channels q ch of
        None \<Rightarrow> q
      | Some rs \<Rightarrow>
          q\<lparr>eq_channels := (eq_channels q)(ch := None),
            eq_receivers := (\<lambda>k. if k \<in> set rs then map_option (\<lambda>r. r\<lparr>rc_closed := True\<rparr>) (eq_receivers q k)
                                 else eq_receivers q k)\<rparr>)"

text \<open>A receiver that is dropped leaves its channel.\<close>

definition drop_receiver :: "nat \<Rightarrow> 'p event_queue \<Rightarrow> 'p event_queue" where
  "drop_receiver r q =
     q\<lparr>eq_channels := (\<lambda>ch. map_option (removeAll r) (eq_channels q ch)),
       eq_receivers := (eq_receivers q)(r := None)\<rparr>"

datatype 'p received = Received 'p | Lagged nat | Closed | Waiting

definition recv :: "'p receiver \<Rightarrow> 'p receiver \<times> 'p received" where
  "recv r =
     (if 0 < rc_missed r then (r\<lparr>rc_missed := 0\<rparr>, Lagged (rc_missed r))
      else case rc_unread r of
        p # ps \<Rightarrow> (r\<lparr>rc_unread := ps\<rparr>, Received p)
      | [] \<Rightarrow> (r, if rc_closed r then Closed else Waiting))"

subsection \<open>Persisting a message\<close>

text \<open>
  \<^verbatim>\<open>persist_message\<close>: the row, and then the event; other tasks can come in between.
\<close>

definition persist_message ::
  "uuid \<Rightarrow> int \<Rightarrow> 'v session_message \<Rightarrow> 'v chat_db \<Rightarrow> 'v session_event event_queue \<Rightarrow>
   (state_error, 'v chat_db \<times> 'v session_event event_queue) res" where
  "persist_message sid seq m d q =
     map_ok (\<lambda>d'. (d', fst (publish sid (message_event seq m) q))) (insert_message d sid seq m)"

end
