(* ===== verification/Message_Stream.thy ===== *)
theory Message_Stream
  imports Chat_Store
begin

section \<open>The live stream of a session\<close>

text \<open>
  \<^verbatim>\<open>stream_messages\<close> of \<^verbatim>\<open>src/backend/src/router/message.rs\<close>: subscribe, catch up from the
  table, send the partial turn, then forward what the channel brings, and catch up again on lag.
  The stream is a state machine; what it has sent is the list of its events with their SSE
  identifiers.
\<close>

datatype phase = Catch_Up | Attach | Live | Ended

record 'v subscriber =
  sb_rx :: nat
  sb_last :: int
  sb_phase :: phase
  sb_out :: "(int option \<times> 'v session_event) list"

text \<open>The \<^verbatim>\<open>last-event-id\<close> header, or the query parameter, or from the start.\<close>

definition start_seq :: "int option \<Rightarrow> int option \<Rightarrow> int" where
  "start_seq header query =
     (case header of Some n \<Rightarrow> n | None \<Rightarrow> (case query of Some n \<Rightarrow> n | None \<Rightarrow> -1))"

definition open_stream ::
  "uuid \<Rightarrow> int \<Rightarrow> 'v session_event event_queue \<Rightarrow> 'v session_event event_queue \<times> 'v subscriber" where
  "open_stream sid since q =
     (let (q', r) = subscribe sid q
      in (q', \<lparr>sb_rx = r, sb_last = since, sb_phase = Catch_Up, sb_out = []\<rparr>))"

definition catch_up :: "'v chat_db \<Rightarrow> uuid \<Rightarrow> 'v subscriber \<Rightarrow> 'v subscriber" where
  "catch_up d sid sb =
     (let rows = list_messages_since d sid (sb_last sb)
      in sb\<lparr>sb_out := sb_out sb @ map (\<lambda>(seq, m). (Some seq, message_event seq m)) rows,
           sb_last := (if rows = [] then sb_last sb else fst (last rows)),
           sb_phase := Attach\<rparr>)"

definition attach :: "string option \<Rightarrow> 'v subscriber \<Rightarrow> 'v subscriber" where
  "attach live_partial sb =
     sb\<lparr>sb_out := sb_out sb @
          (case live_partial of
             None \<Rightarrow> []
           | Some partial \<Rightarrow>
               (None, EvRun Started) #
               (if partial = [] then [] else [(None, EvDelta partial (utf16_len partial))])),
       sb_phase := Live\<rparr>"

definition pump :: "'v session_event received \<Rightarrow> 'v subscriber \<Rightarrow> 'v subscriber" where
  "pump res sb =
     (case res of
        Received ev \<Rightarrow>
          (case ev of
             EvMessage seq _ _ _ \<Rightarrow>
               (if seq \<le> sb_last sb then sb
                else sb\<lparr>sb_out := sb_out sb @ [(Some seq, ev)], sb_last := seq\<rparr>)
           | _ \<Rightarrow> sb\<lparr>sb_out := sb_out sb @ [(None, ev)]\<rparr>)
      | Lagged missed \<Rightarrow> sb\<lparr>sb_phase := Catch_Up\<rparr>
      | Closed \<Rightarrow> sb\<lparr>sb_phase := Ended\<rparr>
      | Waiting \<Rightarrow> sb)"

definition pump_step ::
  "'v session_event event_queue \<Rightarrow> 'v subscriber \<Rightarrow> 'v session_event event_queue \<times> 'v subscriber" where
  "pump_step q sb =
     (case eq_receivers q (sb_rx sb) of
        None \<Rightarrow> (q, sb)
      | Some r \<Rightarrow>
          (let (r', res) = recv r
           in (q\<lparr>eq_receivers := (eq_receivers q)(sb_rx sb \<mapsto> r')\<rparr>, pump res sb)))"

subsection \<open>Everything that happens around a stream\<close>

text \<open>
  The table, the queue, the message that a run has inserted and not yet published, and one
  stream. The steps of the others come in any order between those of the stream: a run's insertion
  and its publication (\<^verbatim>\<open>persist_message\<close> is two steps), its deltas and transitions, messages
  of other sessions, other subscribers, and the removal of the channel. A run numbers its messages
  above those of the session (\<^verbatim>\<open>next_seq_start\<close>). No message of the session is deleted meanwhile.
\<close>

record 'v stream_sys =
  sy_db :: "'v chat_db"
  sy_queue :: "'v session_event event_queue"
  sy_unpublished :: "(int \<times> 'v session_message) option"
  sy_sub :: "'v subscriber"

inductive stream_step :: "uuid \<Rightarrow> 'v stream_sys \<Rightarrow> 'v stream_sys \<Rightarrow> bool" for sid :: uuid
  where
  insert: "sy_unpublished s = None \<Longrightarrow> insert_message (sy_db s) sid seq m = Inr d' \<Longrightarrow>
    (\<forall>r \<in> set (cd_messages (sy_db s)). mr_session r = sid \<longrightarrow> mr_seq r < seq) \<Longrightarrow>
    stream_step sid s (s\<lparr>sy_db := d', sy_unpublished := Some (seq, m)\<rparr>)"
| announce: "sy_unpublished s = Some (seq, m) \<Longrightarrow>
    stream_step sid s
      (s\<lparr>sy_queue := fst (publish sid (message_event seq m) (sy_queue s)), sy_unpublished := None\<rparr>)"
| ephemeral: "\<not> is_message ev \<Longrightarrow>
    stream_step sid s (s\<lparr>sy_queue := fst (publish sid ev (sy_queue s))\<rparr>)"
| other_insert: "sid' \<noteq> sid \<Longrightarrow> insert_message (sy_db s) sid' seq m = Inr d' \<Longrightarrow>
    stream_step sid s (s\<lparr>sy_db := d'\<rparr>)"
| other_publish: "ch \<noteq> sid \<Longrightarrow> stream_step sid s (s\<lparr>sy_queue := fst (publish ch ev (sy_queue s))\<rparr>)"
| other_subscribe: "stream_step sid s (s\<lparr>sy_queue := fst (subscribe ch (sy_queue s))\<rparr>)"
| removed: "stream_step sid s (s\<lparr>sy_queue := remove_channel ch (sy_queue s)\<rparr>)"
| catches_up: "sb_phase (sy_sub s) = Catch_Up \<Longrightarrow>
    stream_step sid s (s\<lparr>sy_sub := catch_up (sy_db s) sid (sy_sub s)\<rparr>)"
| attaches: "sb_phase (sy_sub s) = Attach \<Longrightarrow>
    stream_step sid s (s\<lparr>sy_sub := attach live_partial (sy_sub s)\<rparr>)"
| pumps: "sb_phase (sy_sub s) = Live \<Longrightarrow> pump_step (sy_queue s) (sy_sub s) = (q', sb') \<Longrightarrow>
    stream_step sid s (s\<lparr>sy_queue := q', sy_sub := sb'\<rparr>)"

abbreviation stream_steps :: "uuid \<Rightarrow> 'v stream_sys \<Rightarrow> 'v stream_sys \<Rightarrow> bool" where
  "stream_steps sid \<equiv> (stream_step sid)\<^sup>*\<^sup>*"

inductive_cases stream_stepE: "stream_step sid s s'"

end
