(* ===== verification/Message_Delivery.thy ===== *)
theory Message_Delivery
  imports Message_Stream
begin

section \<open>A stream delivers every message once\<close>

text \<open>
  The invariant of a session's live stream, and the property it gives: what has been sent is, in
  order and without repetition, the session's messages up to the stream's cursor.
\<close>

subsection \<open>Reading the table\<close>

definition msgs :: "'v chat_db \<Rightarrow> uuid \<Rightarrow> (int \<times> 'v session_message) set" where
  "msgs d sid = set (map (\<lambda>r. (mr_seq r, parse_stored_message (mr_content r)))
     (filter (\<lambda>r. mr_session r = sid) (cd_messages d)))"

definition chat_ok :: "'v chat_db \<Rightarrow> bool" where
  "chat_ok d = distinct (map (\<lambda>r. (mr_session r, mr_seq r)) (cd_messages d))"

lemma list_since_set: "set (list_messages_since d sid L) = {p \<in> msgs d sid. L < fst p}"
  by (auto simp: list_messages_since_def rows_since_def msgs_def)

lemma list_since_sorted:
  assumes "chat_ok d"
  shows "sorted_wrt (<) (map fst (list_messages_since d sid L))"
proof -
  have "distinct (map mr_seq (filter (\<lambda>r. mr_session r = sid \<and> L < mr_seq r) (cd_messages d)))"
    using assms by (auto simp: chat_ok_def distinct_map inj_on_def)
  then have "distinct (map mr_seq (rows_since d sid L))"
    by (simp add: rows_since_def distinct_map)
  moreover have "sorted (map mr_seq (rows_since d sid L))" by (simp add: rows_since_def)
  ultimately have "sorted_wrt (<) (map mr_seq (rows_since d sid L))"
    by (simp add: strict_sorted_iff)
  then show ?thesis by (simp add: list_messages_since_def comp_def)
qed

lemma list_since_filter:
  "L \<le> L' \<Longrightarrow> list_messages_since d sid L' = filter (\<lambda>p. L' < fst p) (list_messages_since d sid L)"
  by (auto simp: list_messages_since_def rows_since_def filter_map filter_sort comp_def
      intro!: arg_cong [of _ _ "map _"] arg_cong [of _ _ "sort_key mr_seq"] filter_cong)

lemma insort_snoc: "f a \<le> f x \<Longrightarrow> insort_key f a (l @ [x]) = insort_key f a l @ [x]"
  by (induction l) auto

lemma sort_key_snoc:
  assumes "\<forall>y \<in> set xs. f y \<le> f x"
  shows "sort_key f (xs @ [x]) = sort_key f xs @ [x]"
proof -
  have "foldr (insort_key f) xs (l @ [x]) = foldr (insort_key f) xs l @ [x]" for l
    using assms by (induction xs) (simp_all add: insort_snoc)
  from this [of "[]"] show ?thesis by (simp add: sort_key_def)
qed

lemma insert_message_Inr:
  "insert_message d sid seq m = Inr d' \<longleftrightarrow>
     sid \<in> set (cd_sessions d) \<and> \<not> has_key (\<lambda>r. (mr_session r, mr_seq r)) (sid, seq) (cd_messages d) \<and>
     d' = d\<lparr>cd_messages := cd_messages d @ [\<lparr>mr_session = sid, mr_seq = seq, mr_content = Wrapped m\<rparr>]\<rparr>"
  by (auto simp: insert_message_def)

lemma chat_ok_insert: "chat_ok d \<Longrightarrow> insert_message d sid seq m = Inr d' \<Longrightarrow> chat_ok d'"
  by (force simp: chat_ok_def insert_message_Inr has_key_iff)

lemma msgs_insert:
  "insert_message d sid' seq m = Inr d' \<Longrightarrow>
     msgs d' sid = (if sid' = sid then insert (seq, m) (msgs d sid) else msgs d sid)"
  by (simp add: insert_message_Inr msgs_def)

lemma list_since_insert:
  assumes "insert_message d sid seq m = Inr d'"
    "\<forall>r \<in> set (cd_messages d). mr_session r = sid \<longrightarrow> mr_seq r < seq"
  shows "list_messages_since d' sid L =
     list_messages_since d sid L @ (if L < seq then [(seq, m)] else [])"
  using assms
  by (simp add: insert_message_Inr list_messages_since_def rows_since_def sort_key_snoc less_imp_le)

lemma list_since_insert_other:
  "insert_message d sid' seq m = Inr d' \<Longrightarrow> sid' \<noteq> sid \<Longrightarrow>
     list_messages_since d' sid L = list_messages_since d sid L"
  by (simp add: insert_message_Inr list_messages_since_def rows_since_def)

subsection \<open>The invariant\<close>

definition messages_in :: "'v session_event list \<Rightarrow> 'v session_event list" where
  "messages_in evs = filter is_message evs"

definition as_event :: "int \<times> 'v session_message \<Rightarrow> 'v session_event" where
  "as_event p = message_event (fst p) (snd p)"

definition the_rc :: "nat \<Rightarrow> 'p event_queue \<Rightarrow> 'p receiver" where
  "the_rc r q = the (eq_receivers q r)"

text \<open>The receiver is registered under the session, and identifiers are fresh.\<close>

definition queue_ok :: "uuid \<Rightarrow> nat \<Rightarrow> 'p event_queue \<Rightarrow> bool" where
  "queue_ok sid r q =
     (r < eq_next q \<and>
      (\<forall>ch rs. eq_channels q ch = Some rs \<longrightarrow> (\<forall>k \<in> set rs. k < eq_next q)) \<and>
      (\<forall>ch rs. eq_channels q ch = Some rs \<longrightarrow> ch \<noteq> sid \<longrightarrow> r \<notin> set rs) \<and>
      eq_receivers q r \<noteq> None \<and>
      (\<not> rc_closed (the_rc r q) \<longleftrightarrow> (\<exists>rs. eq_channels q sid = Some rs \<and> r \<in> set rs)))"

text \<open>
  The unread messages are messages of the table in their order, all before the one that is not
  published; and what the cursor has not reached yet is unread, unpublished, or beyond.
\<close>

definition unread_ok ::
  "(int \<times> 'v session_message) set \<Rightarrow> (int \<times> 'v session_message) option \<Rightarrow> 'v session_event list \<Rightarrow> bool" where
  "unread_ok R w U =
     (sorted_wrt (<) (map seq_of U) \<and> set U \<subseteq> as_event ` R \<and>
      (case w of None \<Rightarrow> True
       | Some p \<Rightarrow> p \<in> R \<and> (\<forall>p' \<in> R. fst p' \<le> fst p) \<and> (\<forall>u \<in> set U. seq_of u < fst p)))"

definition covered ::
  "(int \<times> 'v session_message) set \<Rightarrow> (int \<times> 'v session_message) option \<Rightarrow> 'v session_event list \<Rightarrow> int \<Rightarrow>
   bool \<Rightarrow> bool" where
  "covered R w U cursor closed =
     (\<forall>p \<in> R. cursor < fst p \<longrightarrow>
        fst p \<in> seq_of ` set U \<or>
        (if closed then (\<forall>u \<in> set U. seq_of u < fst p) else w = Some p))"

definition sent_ok :: "'v chat_db \<Rightarrow> uuid \<Rightarrow> int \<Rightarrow> 'v subscriber \<Rightarrow> bool" where
  "sent_ok d sid L sb =
     (L \<le> sb_last sb \<and> (sb_last sb = L \<or> sb_last sb \<in> fst ` msgs d sid) \<and>
      messages_in (map snd (sb_out sb)) =
        map as_event (filter (\<lambda>p. fst p \<le> sb_last sb) (list_messages_since d sid L)) \<and>
      (\<forall>(i, e) \<in> set (sb_out sb). i = (if is_message e then Some (seq_of e) else None)))"

definition delivery_ok ::
  "uuid \<Rightarrow> int \<Rightarrow> 'v chat_db \<Rightarrow> 'v session_event event_queue \<Rightarrow> (int \<times> 'v session_message) option \<Rightarrow>
   'v subscriber \<Rightarrow> bool" where
  "delivery_ok sid L d q w sb =
     (let rc = the_rc (sb_rx sb) q; U = messages_in (rc_unread rc)
      in chat_ok d \<and> queue_ok sid (sb_rx sb) q \<and> sent_ok d sid L sb \<and> unread_ok (msgs d sid) w U \<and>
         (sb_phase sb = Catch_Up \<or> sb_phase sb = Ended \<or> 0 < rc_missed rc \<or>
          covered (msgs d sid) w U (sb_last sb) (rc_closed rc)))"

definition stream_ok :: "uuid \<Rightarrow> int \<Rightarrow> 'v stream_sys \<Rightarrow> bool" where
  "stream_ok sid L s = delivery_ok sid L (sy_db s) (sy_queue s) (sy_unpublished s) (sy_sub s)"

lemma as_event_sel [simp]: "seq_of (as_event p) = fst p" "is_message (as_event p)"
  by (simp_all add: as_event_def message_event_def)

subsection \<open>The queue's steps\<close>

lemma deliver_sel:
  "rc_closed (deliver p rc) = rc_closed rc"
  "rc_missed (deliver p rc) = 0 \<Longrightarrow> rc_missed rc = 0 \<and> rc_unread (deliver p rc) = rc_unread rc @ [p]"
  "rc_unread (deliver p rc) = rc_unread rc @ [p] \<or> rc_unread (deliver p rc) = tl (rc_unread rc) @ [p]"
  by (auto simp: deliver_def split: if_splits)

lemma rc_publish_other:
  "queue_ok sid r q \<Longrightarrow> ch \<noteq> sid \<Longrightarrow> the_rc r (fst (publish ch p q)) = the_rc r q"
  by (auto simp: queue_ok_def publish_def the_rc_def split: option.split)

lemma rc_publish:
  assumes "queue_ok sid r q"
  shows "the_rc r (fst (publish sid p q)) =
     (if rc_closed (the_rc r q) then the_rc r q else deliver p (the_rc r q))"
  using assms by (auto simp: queue_ok_def publish_def the_rc_def split: option.split)

lemma rc_subscribe: "queue_ok sid r q \<Longrightarrow> the_rc r (fst (subscribe ch q)) = the_rc r q"
  by (simp add: queue_ok_def subscribe_def the_rc_def Let_def)

lemma rc_remove:
  assumes "queue_ok sid r q"
  shows "the_rc r (remove_channel ch q) =
     (if ch = sid then (the_rc r q)\<lparr>rc_closed := True\<rparr> else the_rc r q)"
  using assms
  by (cases "eq_channels q ch") (auto simp: queue_ok_def remove_channel_def the_rc_def)

lemma queue_ok_publish:
  assumes "queue_ok sid r q"
  shows "queue_ok sid r (fst (publish ch p q))"
proof -
  have "rc_closed (the_rc r (fst (publish ch p q))) = rc_closed (the_rc r q)"
    using rc_publish [OF assms, of p] rc_publish_other [OF assms, of ch p]
    by (cases "ch = sid") (auto simp: deliver_sel)
  then show ?thesis using assms
    by (auto simp: queue_ok_def publish_def split: option.split)
qed

lemma queue_ok_subscribe:
  assumes "queue_ok sid r q"
  shows "queue_ok sid r (fst (subscribe ch q))"
  using assms rc_subscribe [OF assms, of ch] unfolding queue_ok_def subscribe_def Let_def
  by (cases "eq_channels q ch") (auto simp: less_Suc_eq)

lemma queue_ok_remove:
  assumes "queue_ok sid r q"
  shows "queue_ok sid r (remove_channel ch q)"
  using assms rc_remove [OF assms, of ch] unfolding queue_ok_def remove_channel_def
  by (cases "eq_channels q ch"; cases "ch = sid") auto

lemma queue_ok_pump:
  "queue_ok sid r q \<Longrightarrow> rc_closed rc' = rc_closed (the_rc r q) \<Longrightarrow>
     queue_ok sid r (q\<lparr>eq_receivers := (eq_receivers q)(r \<mapsto> rc')\<rparr>)"
  by (auto simp: queue_ok_def the_rc_def)

lemma messages_in_simps [simp]:
  "messages_in [] = []" "messages_in (xs @ ys) = messages_in xs @ messages_in ys"
  "messages_in (x # xs) = (if is_message x then x # messages_in xs else messages_in xs)"
  by (simp_all add: messages_in_def)

lemma messages_in_tl:
  "messages_in (tl xs) = messages_in xs \<or> (\<exists>u. messages_in xs = u # messages_in (tl xs))"
  by (cases xs) auto

lemma messages_deliver:
  assumes "messages_in (rc_unread rc) = U" "M = (if is_message p then [p] else [])"
  shows "messages_in (rc_unread (deliver p rc)) = U @ M \<or>
     (\<exists>u U'. U = u # U' \<and> messages_in (rc_unread (deliver p rc)) = U' @ M)"
  using deliver_sel(3) [of p rc] messages_in_tl [of "rc_unread rc"] assms by auto

subsection \<open>Insertion and publication\<close>

lemma unread_ok_insert:
  assumes "unread_ok R None U" "\<forall>p \<in> R. fst p < seq"
  shows "unread_ok (insert (seq, m) R) (Some (seq, m)) U"
  using assms by (fastforce simp: unread_ok_def less_imp_le)

lemma covered_insert:
  assumes "covered R None U c closed" "\<forall>p \<in> R. fst p < seq" "unread_ok R None U"
  shows "covered (insert (seq, m) R) (Some (seq, m)) U c closed"
  using assms by (fastforce simp: covered_def unread_ok_def)

lemma unread_ok_weaken:
  "unread_ok R w U \<Longrightarrow> unread_ok R None U"
  "unread_ok R w (u # U) \<Longrightarrow> unread_ok R w U"
  by (auto simp: unread_ok_def split: option.splits)

lemma unread_ok_announce:
  "unread_ok R (Some p) U \<Longrightarrow> unread_ok R None (U @ [as_event p])"
  by (auto simp: unread_ok_def sorted_wrt_append)

lemma covered_announce:
  "covered R (Some p) U c False \<Longrightarrow> covered R None (U @ [as_event p]) c False"
  by (auto simp: covered_def)

lemma covered_announce_closed: "covered R w U c True \<Longrightarrow> covered R w' U c True"
  by (auto simp: covered_def)

lemma covered_close:
  assumes "covered R w U c closed" "unread_ok R w U"
  shows "covered R w U c True"
  using assms by (auto simp: covered_def unread_ok_def split: option.splits if_splits)

lemma sent_ok_insert:
  assumes "sent_ok d sid L sb" "insert_message d sid seq m = Inr d'"
    "\<forall>r \<in> set (cd_messages d). mr_session r = sid \<longrightarrow> mr_seq r < seq"
  shows "sent_ok d' sid L sb"
proof -
  have "\<forall>p \<in> msgs d sid. fst p < seq" using assms(3) by (auto simp: msgs_def)
  then have "\<not> seq \<le> sb_last sb" if "L < seq"
    using assms(1) that by (fastforce simp: sent_ok_def)
  then show ?thesis using assms(1)
    by (auto simp: sent_ok_def list_since_insert [OF assms(2,3)] msgs_insert [OF assms(2)])
qed

subsection \<open>The stream's steps\<close>

lemma sorted_cut:
  "sorted_wrt (<) (map fst xs) \<Longrightarrow>
     filter (\<lambda>p. fst p \<le> (c::int)) xs @ filter (\<lambda>p. c < fst p) xs = xs"
proof (induction xs)
  case (Cons x xs)
  show ?case
  proof (cases "fst x \<le> c")
    case False
    then have "filter (\<lambda>p. fst p \<le> c) xs = []" using Cons.prems by (auto simp: filter_empty_conv)
    then show ?thesis using Cons False by simp
  qed (use Cons in simp)
qed simp

lemma sorted_next:
  assumes "sorted_wrt (<) (map fst xs)" "q \<in> set xs" "(c::int) < fst q"
    "\<forall>x \<in> set xs. c < fst x \<longrightarrow> fst q \<le> fst x"
  shows "filter (\<lambda>p. fst p \<le> fst q) xs = filter (\<lambda>p. fst p \<le> c) xs @ [q]"
  using assms
proof (induction xs)
  case (Cons x xs)
  show ?case
  proof (cases "x = q")
    case True
    have "filter (\<lambda>p. fst p \<le> fst q) xs = []" "filter (\<lambda>p. fst p \<le> c) xs = []"
      using Cons.prems(1,3) True by (auto simp: filter_empty_conv)
    then show ?thesis using True Cons.prems(3) by simp
  next
    case False
    then have q: "q \<in> set xs" "fst x < fst q" using Cons.prems(1,2) by auto
    then have "fst x \<le> c" using Cons.prems(4) by (auto simp: not_less [symmetric])
    then show ?thesis using Cons.IH Cons.prems q by simp
  qed
qed simp

lemma sent_ok_catch_up:
  assumes ok: "chat_ok d" and sent: "sent_ok d sid L sb"
  shows "sent_ok d sid L (catch_up d sid sb)"
    "covered (msgs d sid) w U (sb_last (catch_up d sid sb)) closed"
proof -
  let ?xs = "list_messages_since d sid L" and ?c = "sb_last sb"
  let ?rows = "filter (\<lambda>p. ?c < fst p) ?xs"
  have L: "L \<le> ?c" using sent by (simp add: sent_ok_def)
  have rows: "list_messages_since d sid ?c = ?rows" using L by (rule list_since_filter)
  have srt: "sorted_wrt (<) (map fst ?xs)" "sorted_wrt (<) (map fst ?rows)"
    using list_since_sorted [OF ok] rows by metis+
  define c' where "c' = (if ?rows = [] then ?c else fst (last ?rows))"
  have cu: "sb_last (catch_up d sid sb) = c'"
    "sb_out (catch_up d sid sb) = sb_out sb @ map (\<lambda>(seq, m). (Some seq, message_event seq m)) ?rows"
    by (simp_all add: catch_up_def rows c'_def Let_def)
  have le: "fst p \<le> c'" if "p \<in> set ?rows" for p
  proof -
    have "?rows \<noteq> []" using that by force
    then obtain ys y where ys: "?rows = ys @ [y]" by (metis rev_exhaust)
    then show ?thesis using srt(2) that by (auto simp: c'_def sorted_wrt_append less_imp_le)
  qed
  have c': "?c \<le> c'" "c' = ?c \<or> c' \<in> fst ` msgs d sid"
  proof -
    have "c' = ?c \<or> (\<exists>p \<in> set ?rows. c' = fst p)" unfolding c'_def by (metis last_in_set)
    then show "?c \<le> c'" "c' = ?c \<or> c' \<in> fst ` msgs d sid" by (force simp: list_since_set)+
  qed
  have "filter (\<lambda>p. fst p \<le> c') ?xs = ?xs"
  proof (rule filter_True, rule ballI)
    show "fst p \<le> c'" if "p \<in> set ?xs" for p
      using le [of p] that c'(1) by (cases "?c < fst p") auto
  qed
  also have "\<dots> = filter (\<lambda>p. fst p \<le> ?c) ?xs @ ?rows" using sorted_cut [OF srt(1)] by simp
  finally have all: "filter (\<lambda>p. fst p \<le> c') ?xs = filter (\<lambda>p. fst p \<le> ?c) ?xs @ ?rows" .
  have out: "messages_in (map snd (map (\<lambda>(seq, m). (Some seq, message_event seq m)) ps)) = map as_event ps" for ps
    by (induction ps) (auto simp: as_event_def message_event_def)
  show "sent_ok d sid L (catch_up d sid sb)"
    using sent c' L unfolding sent_ok_def cu map_append messages_in_simps(2) out all
    by (auto simp: message_event_def)
  show "covered (msgs d sid) w U (sb_last (catch_up d sid sb)) closed"
    unfolding covered_def cu
  proof (intro ballI impI)
    fix p assume p: "p \<in> msgs d sid" "c' < fst p"
    then have "p \<in> set ?rows" using c'(1) L by (auto simp: list_since_set)
    then show "fst p \<in> seq_of ` set U \<or> (if closed then \<forall>u \<in> set U. seq_of u < fst p else w = Some p)"
      using le p(2) by fastforce
  qed
qed

lemma sent_ok_attach: "sent_ok d sid L sb \<Longrightarrow> sent_ok d sid L (attach partial sb)"
  by (auto simp: sent_ok_def attach_def split: option.split if_splits)

text \<open>The head of the unread messages, when it is beyond the cursor, is the next row.\<close>

lemma sent_ok_receive:
  assumes ok: "chat_ok d" and sent: "sent_ok d sid L sb"
    and unread: "unread_ok (msgs d sid) w (ev # U)" "covered (msgs d sid) w (ev # U) (sb_last sb) closed"
    and new: "sb_last sb < seq_of ev" and msg: "is_message ev"
  shows "sent_ok d sid L (sb\<lparr>sb_out := sb_out sb @ [(Some (seq_of ev), ev)], sb_last := seq_of ev\<rparr>)"
proof -
  obtain q where q: "q \<in> msgs d sid" "ev = as_event q" using unread(1) by (auto simp: unread_ok_def)
  have L: "L \<le> sb_last sb" using sent by (simp add: sent_ok_def)
  have in_q: "q \<in> set (list_messages_since d sid L)" using q new L by (simp add: list_since_set)
  have "fst q \<le> fst x" if x: "x \<in> set (list_messages_since d sid L)" "sb_last sb < fst x" for x
  proof -
    have "x \<in> msgs d sid" using x(1) by (simp add: list_since_set)
    then have "fst x \<in> seq_of ` set (ev # U) \<or> (if closed then (\<forall>u \<in> set (ev # U). seq_of u < fst x) else w = Some x)"
      using unread(2) x(2) unfolding covered_def by blast
    moreover have "seq_of ev \<le> seq_of u" if "u \<in> set (ev # U)" for u
    proof (cases "u = ev")
      case False
      then show ?thesis using that unread(1) by (auto simp: unread_ok_def)
    qed simp
    moreover have "seq_of ev < fst x" if "w = Some x"
      using that unread(1) by (simp add: unread_ok_def)
    moreover have "seq_of ev = fst q" using q(2) by simp
    ultimately show ?thesis by (auto split: if_splits)
  qed
  then have "filter (\<lambda>p. fst p \<le> fst q) (list_messages_since d sid L) =
      filter (\<lambda>p. fst p \<le> sb_last sb) (list_messages_since d sid L) @ [q]"
    using sorted_next [OF list_since_sorted [OF ok] in_q] new q(2) by simp
  then show ?thesis using sent q new L by (auto simp: sent_ok_def)
qed

lemma covered_receive:
  assumes "covered R w (ev # U) c closed" "unread_ok R w (ev # U)" "c \<le> c'" "seq_of ev \<le> c'"
  shows "covered R w U c' closed"
  using assms by (fastforce simp: covered_def)

subsection \<open>Every step keeps the invariant\<close>

lemma delivery_okI:
  assumes "chat_ok d" "queue_ok sid (sb_rx sb) q" "sent_ok d sid L sb"
    "unread_ok (msgs d sid) w (messages_in (rc_unread (the_rc (sb_rx sb) q)))"
    "sb_phase sb \<noteq> Catch_Up \<Longrightarrow> sb_phase sb \<noteq> Ended \<Longrightarrow> rc_missed (the_rc (sb_rx sb) q) = 0 \<Longrightarrow>
       covered (msgs d sid) w (messages_in (rc_unread (the_rc (sb_rx sb) q))) (sb_last sb)
         (rc_closed (the_rc (sb_rx sb) q))"
  shows "delivery_ok sid L d q w sb"
  using assms by (auto simp: delivery_ok_def Let_def)

lemma delivery_okD:
  assumes "delivery_ok sid L d q w sb"
  shows "chat_ok d" "queue_ok sid (sb_rx sb) q" "sent_ok d sid L sb"
    "unread_ok (msgs d sid) w (messages_in (rc_unread (the_rc (sb_rx sb) q)))"
    "sb_phase sb \<noteq> Catch_Up \<Longrightarrow> sb_phase sb \<noteq> Ended \<Longrightarrow> rc_missed (the_rc (sb_rx sb) q) = 0 \<Longrightarrow>
       covered (msgs d sid) w (messages_in (rc_unread (the_rc (sb_rx sb) q))) (sb_last sb)
         (rc_closed (the_rc (sb_rx sb) q))"
  using assms by (auto simp: delivery_ok_def Let_def)

text \<open>Publishing to the session, when the messages published are those taken from \<open>w\<close>.\<close>

lemma unread_ok_deliver:
  assumes "unread_ok R w (messages_in (rc_unread rc))" "unread_ok R w' (messages_in (rc_unread rc) @ M)"
    "M = (if is_message p then [p] else [])"
  shows "unread_ok R w' (messages_in (rc_unread (deliver p rc)))"
  using messages_deliver [OF refl assms(3), of rc]
proof
  assume "\<exists>u U'. messages_in (rc_unread rc) = u # U' \<and> messages_in (rc_unread (deliver p rc)) = U' @ M"
  then show ?thesis using assms(2) unread_ok_weaken(2) [of R w'] by fastforce
qed (use assms(2) in simp)

lemma delivery_publish:
  assumes ok: "delivery_ok sid L d q w sb" and M: "M = (if is_message ev then [ev] else [])"
    and unread: "\<And>U. unread_ok (msgs d sid) w U \<Longrightarrow>
        unread_ok (msgs d sid) w' U \<and> unread_ok (msgs d sid) w' (U @ M)"
    and covered: "\<And>U c. covered (msgs d sid) w U c False \<Longrightarrow> covered (msgs d sid) w' (U @ M) c False"
  shows "delivery_ok sid L d (fst (publish sid ev q)) w' sb"
proof -
  note ok = delivery_okD [OF ok]
  note rc = rc_publish [OF ok(2), of ev]
  let ?rc = "the_rc (sb_rx sb) q"
  show ?thesis
  proof (rule delivery_okI)
    show "unread_ok (msgs d sid) w' (messages_in (rc_unread (the_rc (sb_rx sb) (fst (publish sid ev q)))))"
      using unread [OF ok(4)] unread_ok_deliver [OF ok(4) _ M] by (simp add: rc)
    assume p: "sb_phase sb \<noteq> Catch_Up" "sb_phase sb \<noteq> Ended" "rc_missed (the_rc (sb_rx sb) (fst (publish sid ev q))) = 0"
    show "covered (msgs d sid) w' (messages_in (rc_unread (the_rc (sb_rx sb) (fst (publish sid ev q)))))
        (sb_last sb) (rc_closed (the_rc (sb_rx sb) (fst (publish sid ev q))))"
    proof (cases "rc_closed ?rc")
      case True
      then have "covered (msgs d sid) w (messages_in (rc_unread ?rc)) (sb_last sb) True"
        using ok(5) p by (simp add: rc)
      then show ?thesis using True by (simp add: rc covered_announce_closed)
    next
      case False
      then have del: "rc_missed ?rc = 0" "rc_unread (deliver ev ?rc) = rc_unread ?rc @ [ev]"
        using deliver_sel(2) [of ev ?rc] p(3) by (simp_all add: rc)
      have "covered (msgs d sid) w (messages_in (rc_unread ?rc)) (sb_last sb) False"
        using ok(5) p(1,2) False del(1) by simp
      from covered [OF this] show ?thesis
        using False del(2) M by (cases "is_message ev") (simp_all add: rc deliver_sel(1))
    qed
  qed (use ok in \<open>simp_all add: queue_ok_publish\<close>)
qed

lemma delivery_insert:
  assumes ok: "delivery_ok sid L d q None sb" and ins: "insert_message d sid seq m = Inr d'"
    and last: "\<forall>r \<in> set (cd_messages d). mr_session r = sid \<longrightarrow> mr_seq r < seq"
  shows "delivery_ok sid L d' q (Some (seq, m)) sb"
proof (rule delivery_okI)
  note ok = delivery_okD [OF ok]
  have lt: "\<forall>p \<in> msgs d sid. fst p < seq" using last by (auto simp: msgs_def)
  show "unread_ok (msgs d' sid) (Some (seq, m)) (messages_in (rc_unread (the_rc (sb_rx sb) q)))"
    using unread_ok_insert [OF ok(4) lt] by (simp add: msgs_insert [OF ins])
  show "covered (msgs d' sid) (Some (seq, m)) (messages_in (rc_unread (the_rc (sb_rx sb) q))) (sb_last sb)
      (rc_closed (the_rc (sb_rx sb) q))"
    if "sb_phase sb \<noteq> Catch_Up" "sb_phase sb \<noteq> Ended" "rc_missed (the_rc (sb_rx sb) q) = 0"
    using covered_insert [OF ok(5) [OF that] lt ok(4)] by (simp add: msgs_insert [OF ins])
qed (use delivery_okD [OF ok] chat_ok_insert [OF _ ins] sent_ok_insert [OF _ ins last] in blast)+

lemma delivery_other_insert:
  assumes ok: "delivery_ok sid L d q w sb" and ins: "insert_message d sid' seq m = Inr d'" "sid' \<noteq> sid"
  shows "delivery_ok sid L d' q w sb"
  using delivery_okD [OF ok] chat_ok_insert [OF _ ins(1)] msgs_insert [OF ins(1), of sid] ins(2)
    list_since_insert_other [OF ins(1), of sid]
  by (intro delivery_okI) (simp_all add: sent_ok_def)

lemma delivery_same_rc:
  assumes "delivery_ok sid L d q w sb" "queue_ok sid (sb_rx sb) q'" "the_rc (sb_rx sb) q' = the_rc (sb_rx sb) q"
  shows "delivery_ok sid L d q' w sb"
  using delivery_okD [OF assms(1)] assms(2,3) by (intro delivery_okI) simp_all

lemma delivery_remove:
  assumes ok: "delivery_ok sid L d q w sb"
  shows "delivery_ok sid L d (remove_channel ch q) w sb"
proof (rule delivery_okI)
  note ok = delivery_okD [OF ok]
  show "covered (msgs d sid) w (messages_in (rc_unread (the_rc (sb_rx sb) (remove_channel ch q)))) (sb_last sb)
      (rc_closed (the_rc (sb_rx sb) (remove_channel ch q)))"
    if "sb_phase sb \<noteq> Catch_Up" "sb_phase sb \<noteq> Ended" "rc_missed (the_rc (sb_rx sb) (remove_channel ch q)) = 0"
    using that ok(5) covered_close [OF _ ok(4)] by (simp add: rc_remove [OF ok(2)] split: if_splits)
qed (use delivery_okD [OF ok] rc_remove [OF delivery_okD(2) [OF ok], of ch] in
    \<open>simp_all add: queue_ok_remove split: if_splits\<close>)

lemma delivery_catch_up:
  assumes ok: "delivery_ok sid L d q w sb"
  shows "delivery_ok sid L d q w (catch_up d sid sb)"
proof -
  have "sb_rx (catch_up d sid sb) = sb_rx sb" by (simp add: catch_up_def Let_def)
  then show ?thesis
    using delivery_okD [OF ok] sent_ok_catch_up [OF delivery_okD(1,3) [OF ok]] by (intro delivery_okI) simp_all
qed

lemma delivery_attach:
  assumes "delivery_ok sid L d q w sb" "sb_phase sb = Attach"
  shows "delivery_ok sid L d q w (attach partial sb)"
  using delivery_okD [OF assms(1)] assms(2) sent_ok_attach [of d sid L sb partial]
  by (intro delivery_okI) (simp_all add: attach_def)

lemma sent_ok_ephemeral:
  "sent_ok d sid L sb \<Longrightarrow> \<not> is_message ev \<Longrightarrow> sent_ok d sid L (sb\<lparr>sb_out := sb_out sb @ [(None, ev)]\<rparr>)"
  by (auto simp: sent_ok_def)

lemma delivery_received:
  assumes ok: "delivery_ok sid L d q w sb" and ph: "sb_phase sb = Live"
    and rc: "rc_missed (the_rc (sb_rx sb) q) = 0" "rc_unread (the_rc (sb_rx sb) q) = ev # evs"
  shows "delivery_ok sid L d
     (q\<lparr>eq_receivers := (eq_receivers q)(sb_rx sb \<mapsto> (the_rc (sb_rx sb) q)\<lparr>rc_unread := evs\<rparr>)\<rparr>) w
     (pump (Received ev) sb)"
proof -
  note ok = delivery_okD [OF ok]
  let ?rc = "the_rc (sb_rx sb) q" and ?R = "msgs d sid" and ?U = "messages_in evs"
  let ?q = "q\<lparr>eq_receivers := (eq_receivers q)(sb_rx sb \<mapsto> ?rc\<lparr>rc_unread := evs\<rparr>)\<rparr>"
  have cov: "covered ?R w (messages_in (ev # evs)) (sb_last sb) (rc_closed ?rc)"
    using ok(5) ph rc by simp
  have q': "queue_ok sid (sb_rx sb) ?q" using ok(2) by (simp add: queue_ok_pump)
  have rc': "the_rc (sb_rx sb) ?q = ?rc\<lparr>rc_unread := evs\<rparr>" by (simp add: the_rc_def)
  have unread: "unread_ok ?R w ?U"
    using ok(4) rc(2) unread_ok_weaken(2) [of ?R w ev] by (simp split: if_splits)
  show ?thesis
  proof (cases "is_message ev")
    case False
    then have "pump (Received ev) sb = sb\<lparr>sb_out := sb_out sb @ [(None, ev)]\<rparr>"
      by (cases ev) (simp_all add: pump_def)
    then show ?thesis using False cov unread q' rc' ok(1,3) sent_ok_ephemeral [OF ok(3) False]
      by (intro delivery_okI) simp_all
  next
    case True
    have p: "pump (Received ev) sb =
        (if seq_of ev \<le> sb_last sb then sb
         else sb\<lparr>sb_out := sb_out sb @ [(Some (seq_of ev), ev)], sb_last := seq_of ev\<rparr>)"
      using True by (cases ev) (simp_all add: pump_def)
    have u: "unread_ok ?R w (ev # ?U)" "covered ?R w (ev # ?U) (sb_last sb) (rc_closed ?rc)"
      using ok(4) rc(2) cov True by simp_all
    show ?thesis
    proof (cases "seq_of ev \<le> sb_last sb")
      case True
      then have "covered ?R w ?U (sb_last sb) (rc_closed ?rc)" by (intro covered_receive [OF u(2,1)]) simp_all
      then show ?thesis using True p unread q' rc' ok(1,3) by (intro delivery_okI) simp_all
    next
      case False
      then have "covered ?R w ?U (seq_of ev) (rc_closed ?rc)" by (intro covered_receive [OF u(2,1)]) simp_all
      then show ?thesis using False p unread q' rc' ok(1) sent_ok_receive [OF ok(1,3) u] True
        by (intro delivery_okI) simp_all
    qed
  qed
qed

lemma delivery_pump:
  assumes ok: "delivery_ok sid L d q w sb" and ph: "sb_phase sb = Live" and step: "pump_step q sb = (q', sb')"
  shows "delivery_ok sid L d q' w sb'"
proof -
  let ?rc = "the_rc (sb_rx sb) q"
  note d = delivery_okD [OF ok]
  have some: "eq_receivers q (sb_rx sb) = Some ?rc"
    using d(2) by (auto simp: queue_ok_def the_rc_def)
  obtain rc' res where r: "recv ?rc = (rc', res)" by (cases "recv ?rc")
  have st: "q' = q\<lparr>eq_receivers := (eq_receivers q)(sb_rx sb \<mapsto> rc')\<rparr>" "sb' = pump res sb"
    using step some r by (simp_all add: pump_step_def)
  show ?thesis
  proof (cases "0 < rc_missed ?rc")
    case True
    then have "rc' = ?rc\<lparr>rc_missed := 0\<rparr>" "sb' = sb\<lparr>sb_phase := Catch_Up\<rparr>"
      using r st by (auto simp: recv_def pump_def)
    then show ?thesis using d st(1) queue_ok_pump [OF d(2), of rc']
      by (intro delivery_okI) (simp_all add: the_rc_def sent_ok_def)
  next
    case no_miss: False
    show ?thesis
    proof (cases "rc_unread ?rc")
      case Nil
      then have "rc' = ?rc" "sb' = sb \<or> sb' = sb\<lparr>sb_phase := Ended\<rparr>"
        using r st no_miss by (auto simp: recv_def pump_def)
      then have same: "delivery_ok sid L d q' w sb"
        using queue_ok_pump [OF d(2), of rc'] st(1) by (intro delivery_same_rc [OF ok]) (simp_all add: the_rc_def)
      have "delivery_ok sid L d q' w (sb\<lparr>sb_phase := Ended\<rparr>)"
        using delivery_okD [OF same] by (intro delivery_okI) (simp_all add: sent_ok_def)
      then show ?thesis using same \<open>sb' = sb \<or> sb' = sb\<lparr>sb_phase := Ended\<rparr>\<close> by metis
    next
      case (Cons ev evs)
      then show ?thesis using r st no_miss delivery_received [OF ok ph _ Cons] by (simp add: recv_def)
    qed
  qed
qed

lemma stream_step_ok: "stream_step sid s s' \<Longrightarrow> stream_ok sid L s \<Longrightarrow> stream_ok sid L s'"
proof (induction rule: stream_step.induct)
  case (insert s seq m d')
  then show ?case using delivery_insert [OF _ insert.hyps(2,3)] by (simp add: stream_ok_def)
next
  case (announce s seq m)
  have "message_event seq m = as_event (seq, m)" by (simp add: as_event_def)
  then show ?case using announce
    by (simp add: stream_ok_def)
      (rule delivery_publish, auto intro: unread_ok_weaken(1) unread_ok_announce covered_announce)
next
  case (ephemeral ev s)
  then show ?case
    by (simp add: stream_ok_def) (rule delivery_publish, auto)
next
  case (other_insert sid' s seq m d')
  then show ?case using delivery_other_insert [OF _ other_insert.hyps(2,1)] by (simp add: stream_ok_def)
next
  case (other_publish ch s ev)
  note d = other_publish.prems [unfolded stream_ok_def]
  note q = delivery_okD(2) [OF d]
  show ?case
    using delivery_same_rc [OF d queue_ok_publish [OF q] rc_publish_other [OF q other_publish.hyps]]
    by (simp add: stream_ok_def)
next
  case (other_subscribe s ch)
  note d = other_subscribe.prems [unfolded stream_ok_def]
  note q = delivery_okD(2) [OF d]
  show ?case using delivery_same_rc [OF d queue_ok_subscribe [OF q] rc_subscribe [OF q]]
    by (simp add: stream_ok_def)
next
  case (removed s ch)
  then show ?case by (simp add: stream_ok_def delivery_remove)
next
  case (catches_up s)
  then show ?case by (simp add: stream_ok_def delivery_catch_up)
next
  case (attaches s partial)
  then show ?case by (simp add: stream_ok_def delivery_attach)
next
  case (pumps s q' sb')
  then show ?case by (simp add: stream_ok_def delivery_pump)
qed

lemma stream_steps_ok: "stream_steps sid s s' \<Longrightarrow> stream_ok sid L s \<Longrightarrow> stream_ok sid L s'"
  by (induction rule: rtranclp_induct) (auto intro: stream_step_ok)

subsection \<open>From the opening of the stream\<close>

definition fresh_ids :: "'p event_queue \<Rightarrow> bool" where
  "fresh_ids q = (\<forall>ch rs. eq_channels q ch = Some rs \<longrightarrow> (\<forall>k \<in> set rs. k < eq_next q))"

text \<open>A message being persisted when the stream opens is the session's last row.\<close>

definition unpublished_ok :: "'v chat_db \<Rightarrow> uuid \<Rightarrow> (int \<times> 'v session_message) option \<Rightarrow> bool" where
  "unpublished_ok d sid w =
     (case w of None \<Rightarrow> True | Some p \<Rightarrow> p \<in> msgs d sid \<and> (\<forall>p' \<in> msgs d sid. fst p' \<le> fst p))"

lemma queue_ok_open:
  assumes "fresh_ids q"
  shows "queue_ok sid (eq_next q) (fst (subscribe sid q))"
proof -
  have "the_default [] (eq_channels q ch) = rs \<Longrightarrow> k \<in> set rs \<Longrightarrow> k < eq_next q" for ch rs k
    using assms by (cases "eq_channels q ch") (auto simp: fresh_ids_def)
  moreover have "eq_channels q ch = Some rs \<Longrightarrow> k \<in> set rs \<Longrightarrow> k < eq_next q" for ch rs k
    using assms by (auto simp: fresh_ids_def)
  ultimately show ?thesis by (fastforce simp: queue_ok_def subscribe_def Let_def the_rc_def less_Suc_eq)
qed

lemma stream_ok_open:
  assumes "chat_ok d" "fresh_ids q" "unpublished_ok d sid w" "open_stream sid L q = (q', sb)"
  shows "stream_ok sid L \<lparr>sy_db = d, sy_queue = q', sy_unpublished = w, sy_sub = sb\<rparr>"
proof -
  have opened: "q' = fst (subscribe sid q)" "sb = \<lparr>sb_rx = eq_next q, sb_last = L, sb_phase = Catch_Up, sb_out = []\<rparr>"
    using assms(4) by (auto simp: open_stream_def subscribe_def Let_def)
  have "the_rc (eq_next q) q' = \<lparr>rc_unread = [], rc_missed = 0, rc_closed = False\<rparr>"
    by (simp add: opened(1) subscribe_def Let_def the_rc_def)
  then have q: "queue_ok sid (sb_rx sb) q'" "rc_unread (the_rc (sb_rx sb) q') = []"
    using queue_ok_open [OF assms(2)] opened by simp_all
  have "filter (\<lambda>p. fst p \<le> L) (list_messages_since d sid L) = []"
    using list_since_set [of d sid L] by (auto simp: filter_empty_conv)
  then have "sent_ok d sid L sb"
    by (simp add: sent_ok_def opened(2))
  moreover have "unread_ok (msgs d sid) w []"
    using assms(3) by (auto simp: unread_ok_def unpublished_ok_def split: option.splits)
  ultimately show ?thesis using assms(1) q unfolding stream_ok_def
    by (intro delivery_okI) (simp_all add: opened(2))
qed

text \<open>Nothing is under way: all is published and read, and the channel is there.\<close>

definition settled :: "'v stream_sys \<Rightarrow> bool" where
  "settled s =
     (sy_unpublished s = None \<and> sb_phase (sy_sub s) = Live \<and>
      (case eq_receivers (sy_queue s) (sb_rx (sy_sub s)) of
         None \<Rightarrow> False
       | Some rc \<Rightarrow> rc_unread rc = [] \<and> rc_missed rc = 0 \<and> \<not> rc_closed rc))"

lemma settled_all:
  assumes "stream_ok sid L s" "settled s"
  shows "filter (\<lambda>p. fst p \<le> sb_last (sy_sub s)) (list_messages_since (sy_db s) sid L) =
     list_messages_since (sy_db s) sid L"
proof (rule filter_True, rule ballI)
  fix p assume "p \<in> set (list_messages_since (sy_db s) sid L)"
  then have "p \<in> msgs (sy_db s) sid" by (simp add: list_since_set)
  moreover have "covered (msgs (sy_db s) sid) None [] (sb_last (sy_sub s)) False"
    using delivery_okD(5) [OF assms(1) [unfolded stream_ok_def]] assms(2)
    by (auto simp: settled_def the_rc_def split: option.splits)
  ultimately show "fst p \<le> sb_last (sy_sub s)" by (force simp: covered_def)
qed


subsection \<open>A stream opened during a run\<close>

definition demo_msg :: "string \<Rightarrow> unit session_message" where
  "demo_msg t = \<lparr>sm_depth = 0, sm_source = None, sm_message = new_message RAssistant [PText t]\<rparr>"

definition demo_row :: "int \<Rightarrow> string \<Rightarrow> unit msg_row" where
  "demo_row n t = \<lparr>mr_session = 7, mr_seq = n, mr_content = Wrapped (demo_msg t)\<rparr>"

definition demo_chat :: "unit chat_db" where
  "demo_chat = \<lparr>cd_sessions = [7], cd_messages = [demo_row 0 ''a'', demo_row 1 ''b'']\<rparr>"

text \<open>The second message is stored and not yet published when the client, which has the first, attaches.\<close>

definition demo_open :: "unit stream_sys" where
  "demo_open = \<lparr>sy_db = demo_chat, sy_queue = fst (open_stream 7 0 eq_new),
     sy_unpublished = Some (1, demo_msg ''b''), sy_sub = snd (open_stream 7 0 (eq_new :: unit session_event event_queue))\<rparr>"

lemma demo_chat_list: "list_messages_since demo_chat 7 0 = [(1, demo_msg ''b'')]"
  by (simp add: list_messages_since_def rows_since_def demo_chat_def demo_row_def)

lemma demo_chat_ok: "chat_ok demo_chat" "msgs demo_chat 7 = {(0, demo_msg ''a''), (1, demo_msg ''b'')}"
  by (simp_all add: chat_ok_def msgs_def demo_chat_def demo_row_def)

text \<open>The stream catches up, the run publishes, and the stream drops what it has already sent.\<close>

lemma demo_stream:
  "\<exists>s. stream_steps 7 demo_open s \<and> settled s \<and> sy_db s = demo_chat"
proof -
  define s1 where "s1 = demo_open\<lparr>sy_sub := catch_up (sy_db demo_open) 7 (sy_sub demo_open)\<rparr>"
  define s2 where "s2 = s1\<lparr>sy_queue := fst (publish 7 (message_event 1 (demo_msg ''b'')) (sy_queue s1)),
    sy_unpublished := None\<rparr>"
  define s3 where "s3 = s2\<lparr>sy_sub := attach None (sy_sub s2)\<rparr>"
  define s4 where "s4 = s3\<lparr>sy_queue := fst (pump_step (sy_queue s3) (sy_sub s3)),
    sy_sub := snd (pump_step (sy_queue s3) (sy_sub s3))\<rparr>"
  have sub0: "sy_sub demo_open = \<lparr>sb_rx = 0, sb_last = 0, sb_phase = Catch_Up, sb_out = []\<rparr>"
    by (simp add: demo_open_def open_stream_def subscribe_def eq_new_def Let_def)
  have sub1: "sy_sub s1 = \<lparr>sb_rx = 0, sb_last = 1, sb_phase = Attach, sb_out = [(Some 1, message_event 1 (demo_msg ''b''))]\<rparr>"
    by (simp add: s1_def sub0 catch_up_def demo_chat_list Let_def) (simp add: demo_open_def demo_chat_list)
  have q2: "eq_receivers (sy_queue s2) 0 =
      Some \<lparr>rc_unread = [message_event 1 (demo_msg ''b'')], rc_missed = 0, rc_closed = False\<rparr>"
    by (simp add: s2_def s1_def demo_open_def open_stream_def subscribe_def eq_new_def publish_def deliver_def
        channel_capacity_def Let_def)
  have sub3: "sy_sub s3 = \<lparr>sb_rx = 0, sb_last = 1, sb_phase = Live, sb_out = [(Some 1, message_event 1 (demo_msg ''b''))]\<rparr>"
    by (simp add: s3_def s2_def sub1 attach_def)
  have q3: "sy_queue s3 = sy_queue s2" by (simp add: s3_def)
  have "stream_step 7 demo_open s1" unfolding s1_def by (rule catches_up) (simp add: sub0)
  moreover have "stream_step 7 s1 s2" unfolding s2_def by (rule announce) (simp add: s1_def demo_open_def)
  moreover have "stream_step 7 s2 s3" unfolding s3_def by (rule attaches) (simp add: s2_def sub1)
  moreover have "stream_step 7 s3 s4" unfolding s4_def by (rule pumps) (simp_all add: sub3)
  ultimately have "stream_steps 7 demo_open s4" by (meson rtranclp.rtrancl_into_rtrancl rtranclp.rtrancl_refl)
  moreover have "settled s4"
    by (simp add: settled_def s4_def pump_step_def sub3 q3 q2 recv_def pump_def message_event_def)
      (simp add: s3_def s2_def)
  moreover have "sy_db s4 = demo_chat" by (simp add: s4_def s3_def s2_def s1_def demo_open_def)
  ultimately show ?thesis by blast
qed


end
