(* ===== verification/Agent_Stream.thy ===== *)
theory Agent_Stream
  imports Chat_Store
begin

section \<open>From deltas to messages\<close>

text \<open>
  \<^verbatim>\<open>src/backend/src/agent_stream.rs\<close>. The library's deltas are what the assembler reads of them
  (role, contents, depth, finish reason) and a rest; its operations on them are parameters: the
  empty delta, the accumulation of a delta into the running message, which may refuse, and the
  message that an accumulated delta amounts to.
\<close>

datatype finish_reason = FinishStop | FinishOther string

datatype 'x part_delta = TextDelta string | OtherDelta 'x

record 'x delta_output =
  dl_role :: "role option"
  dl_contents :: "'x part_delta list"
  dl_depth :: "nat option"
  dl_finish :: "finish_reason option"
  dl_rest :: 'x

record 'v message_output =
  mo_depth :: "nat option"
  mo_source :: "string option"
  mo_finish :: finish_reason
  mo_message :: "'v message"

record ('x, 'v) ailoy =
  al_empty :: "'x delta_output"
  al_accumulate :: "'x delta_output \<Rightarrow> 'x delta_output \<Rightarrow> (string, 'x delta_output) res"
  al_finish :: "'x delta_output \<Rightarrow> (string, 'v message_output) res"

datatype 'v stream_item = Fragment string | Completed "'v message_output"

fun delta_text :: "'x part_delta list \<Rightarrow> string" where
  "delta_text [] = []"
| "delta_text (TextDelta t # ps) = t @ delta_text ps"
| "delta_text (OtherDelta _ # ps) = delta_text ps"

definition top_level :: "nat option \<Rightarrow> bool" where
  "top_level depth = (depth = None \<or> depth = Some 0)"

definition or_else :: "'a option \<Rightarrow> 'a option \<Rightarrow> 'a option" where
  "or_else a b = (case a of None \<Rightarrow> b | Some x \<Rightarrow> Some x)"

definition live_text :: "'x delta_output \<Rightarrow> 'x delta_output \<Rightarrow> 'v stream_item list" where
  "live_text acc delta =
     (let role = or_else (dl_role delta) (dl_role acc);
          fragment = delta_text (dl_contents delta)
      in if top_level (or_else (dl_depth delta) (dl_depth acc)) \<and> role \<noteq> Some RTool \<and> fragment \<noteq> []
         then [Fragment fragment] else [])"

text \<open>
  \<^verbatim>\<open>push\<close>: the running message after it, and the items, or the error. On an error the running
  message has been taken.
\<close>

definition assembler_push ::
  "('x, 'v) ailoy \<Rightarrow> 'x delta_output \<Rightarrow> 'x delta_output \<Rightarrow> 'x delta_output \<times> (string, 'v stream_item list) res" where
  "assembler_push A acc delta =
     (case al_accumulate A acc delta of
        Inl e \<Rightarrow> (al_empty A, Inl e)
      | Inr acc' \<Rightarrow>
          (if dl_finish acc' \<noteq> None then
             (al_empty A, map_ok (\<lambda>out. live_text acc delta @ [Completed out]) (al_finish A acc'))
           else (acc', Inr (live_text acc delta))))"

text \<open>\<^verbatim>\<open>finish\<close>: what is still accumulating when the stream ends, finalized as a stop.\<close>

definition assembler_finish ::
  "('x, 'v) ailoy \<Rightarrow> 'x delta_output \<Rightarrow> 'x delta_output \<times> (string, 'v message_output option) res" where
  "assembler_finish A acc =
     (if dl_role acc = None then (acc, Inr None)
      else (al_empty A, map_ok Some (al_finish A
        (case dl_finish acc of None \<Rightarrow> acc\<lparr>dl_finish := Some FinishStop\<rparr> | Some _ \<Rightarrow> acc))))"

end
