(* ===== verification/Session_Run.thy ===== *)
theory Session_Run
  imports Agent_Stream
begin

section \<open>A run of a session\<close>

text \<open>
  \<^verbatim>\<open>run\<close>, \<^verbatim>\<open>cancel\<close>, \<^verbatim>\<open>live_partial\<close> and \<^verbatim>\<open>drive_prompt\<close> of
  \<^verbatim>\<open>src/backend/src/state/session.rs\<close>. The task's loop is a function of what it polls: the
  cancellation, the items of the agent's stream, its end, nothing ready, and the deletion of the
  session's row by another task. Loading the session, its mounts and its sandbox, and building the
  agent, are parameters: what they result in.
\<close>

subsection \<open>The loop\<close>

text \<open>The published events are kept in their order.\<close>

record ('x, 'v) drive =
  dr_db :: "'v chat_db"
  dr_events :: "'v session_event list"
  dr_shared :: string
  dr_seq :: int
  dr_partial :: string
  dr_pending :: "string list"
  dr_natural :: bool
  dr_acc :: "'x delta_output"

datatype 'x poll =
    Cancelled
  | Item "(string, 'x delta_output) res"
  | EndOfStream
  | NotReady
  | RowDeleted

definition delete_session_row :: "uuid \<Rightarrow> 'v chat_db \<Rightarrow> 'v chat_db" where
  "delete_session_row sid d =
     d\<lparr>cd_sessions := removeAll sid (cd_sessions d),
       cd_messages := filter (\<lambda>r. mr_session r \<noteq> sid) (cd_messages d)\<rparr>"

text \<open>
  \<^verbatim>\<open>persist_message\<close>, and the next sequence number. A step that can fail gives the state it
  leaves and the error, if any.
\<close>

type_synonym ('x, 'v) attempt = "('x, 'v) drive \<times> string option"

definition persist :: "uuid \<Rightarrow> 'v session_message \<Rightarrow> ('x, 'v) drive \<Rightarrow> ('x, 'v) attempt" where
  "persist sid m s =
     (case insert_message (dr_db s) sid (dr_seq s) m of
        Inl e \<Rightarrow> (s, Some ''database'')
      | Inr d \<Rightarrow>
          (s\<lparr>dr_db := d, dr_events := dr_events s @ [message_event (dr_seq s) m], dr_seq := dr_seq s + 1\<rparr>, None))"

fun in_turn :: "('a \<Rightarrow> ('x, 'v) drive \<Rightarrow> ('x, 'v) attempt) \<Rightarrow> 'a list \<Rightarrow> ('x, 'v) drive \<Rightarrow> ('x, 'v) attempt" where
  "in_turn f [] s = (s, None)"
| "in_turn f (a # as) s =
     (case f a s of (s', Some e) \<Rightarrow> (s', Some e) | (s', None) \<Rightarrow> in_turn f as s')"

definition call_ids :: "'v message \<Rightarrow> string list" where
  "call_ids m = (case msg_tool_calls m of None \<Rightarrow> [] | Some ps \<Rightarrow> List.map_filter (\<lambda>p. map_option fst (as_function p)) ps)"

definition note_fragment :: "string \<Rightarrow> ('x, 'v) drive \<Rightarrow> ('x, 'v) drive" where
  "note_fragment f s =
     (let t = dr_partial s @ f
      in s\<lparr>dr_partial := t, dr_shared := t, dr_events := dr_events s @ [EvDelta f (utf16_len t)]\<rparr>)"

text \<open>The book-keeping for a stop, on a top-level message.\<close>

definition note_completed :: "'v message_output \<Rightarrow> ('x, 'v) drive \<Rightarrow> ('x, 'v) drive" where
  "note_completed out s =
     (if top_level (mo_depth out) then
        (case msg_role (mo_message out) of
           RAssistant \<Rightarrow>
             s\<lparr>dr_partial := [], dr_shared := [], dr_natural := (mo_finish out = FinishStop),
               dr_pending := dr_pending s @ call_ids (mo_message out)\<rparr>
         | RTool \<Rightarrow>
             s\<lparr>dr_natural := False,
               dr_pending := (case msg_id (mo_message out) of
                                None \<Rightarrow> dr_pending s
                              | Some i \<Rightarrow> filter (\<lambda>c. c \<noteq> i) (dr_pending s))\<rparr>
         | _ \<Rightarrow> s\<lparr>dr_natural := False\<rparr>)
      else s)"

definition stored_output :: "'v message_output \<Rightarrow> 'v session_message" where
  "stored_output out =
     \<lparr>sm_depth = the_default 0 (mo_depth out), sm_source = mo_source out, sm_message = mo_message out\<rparr>"

fun commit_item :: "uuid \<Rightarrow> 'v stream_item \<Rightarrow> ('x, 'v) drive \<Rightarrow> ('x, 'v) attempt" where
  "commit_item sid (Fragment f) s = (note_fragment f s, None)"
| "commit_item sid (Completed out) s = persist sid (stored_output out) (note_completed out s)"

text \<open>
  How the loop stands: still running, with its \<^verbatim>\<open>stopped\<close> flag; left, with the flag and the
  error of the stream; or given up because a message could not be stored.
\<close>

datatype ('x, 'v) loop_end =
    Running "('x, 'v) drive" bool
  | Left "('x, 'v) drive" bool "string option"
  | GaveUp "('x, 'v) drive" string

fun drive_loop ::
  "('x, 'v) ailoy \<Rightarrow> uuid \<Rightarrow> bool \<Rightarrow> ('x, 'v) drive \<Rightarrow> 'x poll list \<Rightarrow> ('x, 'v) loop_end" where
  "drive_loop A sid stopped s [] = Running s stopped"
| "drive_loop A sid stopped s (RowDeleted # ps) =
     drive_loop A sid stopped (s\<lparr>dr_db := delete_session_row sid (dr_db s)\<rparr>) ps"
| "drive_loop A sid stopped s (Cancelled # ps) = drive_loop A sid True s ps"
| "drive_loop A sid stopped s (NotReady # ps) =
     (if stopped then Left s True None else drive_loop A sid False s ps)"
| "drive_loop A sid stopped s (EndOfStream # ps) =
     (if stopped then Left s True None
      else case assembler_finish A (dr_acc s) of
        (acc, Inr (Some out)) \<Rightarrow>
          (case commit_item sid (Completed out) (s\<lparr>dr_acc := acc\<rparr>) of
             (s', Some e) \<Rightarrow> GaveUp s' e
           | (s', None) \<Rightarrow> Left s' False None)
      | (acc, _) \<Rightarrow> Left (s\<lparr>dr_acc := acc\<rparr>) False None)"
| "drive_loop A sid stopped s (Item (Inl e) # ps) = Left s stopped (Some e)"
| "drive_loop A sid stopped s (Item (Inr delta) # ps) =
     (case assembler_push A (dr_acc s) delta of
        (acc, Inl e) \<Rightarrow> Left (s\<lparr>dr_acc := acc\<rparr>) stopped (Some e)
      | (acc, Inr items) \<Rightarrow>
          (case in_turn (commit_item sid) items (s\<lparr>dr_acc := acc\<rparr>) of
             (s', Some e) \<Rightarrow> GaveUp s' e
           | (s', None) \<Rightarrow> drive_loop A sid stopped s' ps))"

subsection \<open>After the loop\<close>

definition interrupt_note :: string where
  "interrupt_note = ''[Interrupted: the user manually stopped response generation here]''"

definition stub_text :: string where
  "stub_text = ''[Interrupted: the user stopped response generation before this tool call completed]''"

definition top_message :: "'v message \<Rightarrow> 'v session_message" where
  "top_message m = \<lparr>sm_depth = 0, sm_source = None, sm_message = m\<rparr>"

definition stub :: "string \<Rightarrow> 'v session_message" where
  "stub call = top_message ((new_message RTool [PText stub_text])\<lparr>msg_id := Some call\<rparr>)"

definition closing_note :: "string \<Rightarrow> 'v session_message" where
  "closing_note partial =
     top_message (new_message RAssistant
       [PText (if partial = [] then interrupt_note else partial @ [CHR 0x0A, CHR 0x0A] @ interrupt_note)])"

text \<open>The result: whether the run was stopped, or the error.\<close>

definition after_loop ::
  "uuid \<Rightarrow> ('x, 'v) drive \<Rightarrow> bool \<Rightarrow> string option \<Rightarrow> ('x, 'v) drive \<times> (string, bool) res" where
  "after_loop sid s stopped run_error =
     (if \<not> stopped \<and> run_error \<noteq> None then (s, Inl (the run_error))
      else if stopped \<and> \<not> dr_natural s then
        (case in_turn (persist sid) (map stub (dr_pending s) @ [closing_note (dr_partial s)]) (s\<lparr>dr_pending := []\<rparr>) of
           (s', Some e) \<Rightarrow> (s', Inl e)
         | (s', None) \<Rightarrow> (s'\<lparr>dr_shared := []\<rparr>, Inr True))
      else (s, Inr False))"

subsection \<open>The task\<close>

text \<open>All the session's rows, whatever their number.\<close>

definition session_rows :: "'v chat_db \<Rightarrow> uuid \<Rightarrow> 'v msg_row list" where
  "session_rows d sid = sort_key mr_seq (filter (\<lambda>r. mr_session r = sid) (cd_messages d))"

definition next_seq_start :: "'v chat_db \<Rightarrow> uuid \<Rightarrow> int" where
  "next_seq_start d sid =
     (let rows = session_rows d sid in if rows = [] then 0 else mr_seq (last rows) + 1)"

definition replayed_history :: "'v chat_db \<Rightarrow> uuid \<Rightarrow> 'v message list" where
  "replayed_history d sid =
     map sm_message (filter (\<lambda>m. sm_depth m = 0) (map (\<lambda>r. parse_stored_message (mr_content r)) (session_rows d sid)))"

definition drive_start :: "('x, 'v) ailoy \<Rightarrow> 'v chat_db \<Rightarrow> uuid \<Rightarrow> ('x, 'v) drive" where
  "drive_start A d sid =
     \<lparr>dr_db = d, dr_events = [EvRun Started], dr_shared = [], dr_seq = next_seq_start d sid, dr_partial = [],
      dr_pending = [], dr_natural = False, dr_acc = al_empty A\<rparr>"

text \<open>
  The task from its spawning: \<open>loaded\<close> is the result of loading the session, its mounts and its
  sandbox, \<open>agent\<close> that of building the agent on the replayed history. \<open>None\<close> as the result is a
  run in flight.
\<close>

definition run_status_of :: "(string, bool) res \<Rightarrow> run_event" where
  "run_status_of result =
     (case result of Inr False \<Rightarrow> Done | Inr True \<Rightarrow> Stopped | Inl e \<Rightarrow> RunError e)"

definition run_drive ::
  "('x, 'v) ailoy \<Rightarrow> ('v message list \<Rightarrow> (string, unit) res) \<Rightarrow> uuid \<Rightarrow> 'v part list \<Rightarrow> 'v chat_db \<Rightarrow>
   'x poll list \<Rightarrow> ('x, 'v) drive \<times> (string, bool) res option" where
  "run_drive A agent sid query d polls =
     (let s = drive_start A d sid
      in case agent (replayed_history d sid) of
        Inl e \<Rightarrow> (s, Some (Inl e))
      | Inr _ \<Rightarrow>
          (case persist sid (top_message (new_message RUser query)) s of
             (s', Some e) \<Rightarrow> (s', Some (Inl e))
           | (s', None) \<Rightarrow>
               (case drive_loop A sid False s' polls of
                  Running s'' _ \<Rightarrow> (s'', None)
                | Left s'' stopped run_error \<Rightarrow> map_prod id Some (after_loop sid s'' stopped run_error)
                | GaveUp s'' e \<Rightarrow> (s'', Some (Inl e)))))"

definition run_task ::
  "('x, 'v) ailoy \<Rightarrow> (string, unit) res \<Rightarrow> ('v message list \<Rightarrow> (string, unit) res) \<Rightarrow> uuid \<Rightarrow> 'v part list \<Rightarrow>
   'v chat_db \<Rightarrow> 'x poll list \<Rightarrow> ('x, 'v) drive \<times> run_event option" where
  "run_task A loaded agent sid query d polls =
     (let (s, result) =
        (case loaded of
           Inl e \<Rightarrow> (drive_start A d sid, Some (Inl e))
         | Inr _ \<Rightarrow> run_drive A agent sid query d polls)
      in case result of
        None \<Rightarrow> (s, None)
      | Some r \<Rightarrow> (s\<lparr>dr_events := dr_events s @ [EvRun (run_status_of r)]\<rparr>, Some (run_status_of r)))"

subsection \<open>The table of runs\<close>

record active_run =
  ar_cancelled :: bool
  ar_partial :: string

type_synonym run_slots = "uuid \<Rightarrow> active_run option"

definition new_slot :: active_run where
  "new_slot = \<lparr>ar_cancelled = False, ar_partial = []\<rparr>"

text \<open>\<^verbatim>\<open>run\<close> up to the spawning of its task.\<close>

definition reserve_run :: "uuid \<Rightarrow> run_slots \<Rightarrow> (state_error, run_slots) res" where
  "reserve_run sid slots =
     (if slots sid \<noteq> None then Err (AlreadyRunning sid) else Ok (slots(sid \<mapsto> new_slot)))"

definition cancel_slot :: "uuid \<Rightarrow> run_slots \<Rightarrow> run_slots \<times> bool" where
  "cancel_slot sid slots =
     (case slots sid of
        None \<Rightarrow> (slots, False)
      | Some r \<Rightarrow> (slots(sid \<mapsto> r\<lparr>ar_cancelled := True\<rparr>), True))"

definition live_partial :: "uuid \<Rightarrow> run_slots \<Rightarrow> string option" where
  "live_partial sid slots = map_option ar_partial (slots sid)"

text \<open>\<^verbatim>\<open>drive_prompt\<close> registers without looking, and unregisters at its end.\<close>

definition register_prompt :: "uuid \<Rightarrow> run_slots \<Rightarrow> run_slots" where
  "register_prompt sid slots = slots(sid \<mapsto> new_slot)"

definition release_run :: "uuid \<Rightarrow> run_slots \<Rightarrow> run_slots" where
  "release_run sid slots = slots(sid := None)"

subsection \<open>A prompt driven by the automation worker\<close>

text \<open>
  \<^verbatim>\<open>drive_prompt_inner\<close>: the session's messages are deleted, and the user's message and each
  output are stored at depth 0 whatever the output's depth is.
\<close>

datatype 'v prompt_poll = PromptCancelled | Output "(string, 'v message_output) res"

fun prompt_loop :: "uuid \<Rightarrow> ('x, 'v) drive \<Rightarrow> 'v prompt_poll list \<Rightarrow> ('x, 'v) drive \<times> (string, unit) res" where
  "prompt_loop sid s [] = (s, Ok ())"
| "prompt_loop sid s (PromptCancelled # ps) = (s, Err ''cancelled'')"
| "prompt_loop sid s (Output (Inl e) # ps) = (s, Err (''agent run: '' @ e))"
| "prompt_loop sid s (Output (Inr out) # ps) =
     (case persist sid (top_message (mo_message out)) s of
        (s', Some e) \<Rightarrow> (s', Err e)
      | (s', None) \<Rightarrow> prompt_loop sid s' ps)"

definition drive_prompt_inner ::
  "('x, 'v) ailoy \<Rightarrow> bool \<Rightarrow> (string, unit) res \<Rightarrow> uuid \<Rightarrow> 'v part list \<Rightarrow> 'v prompt_poll list \<Rightarrow> 'v chat_db \<Rightarrow>
   ('x, 'v) drive \<times> (string, unit) res" where
  "drive_prompt_inner A has_runenv agent sid query polls d =
     (let s = (drive_start A d sid)\<lparr>dr_events := [], dr_seq := 0\<rparr>
      in if sid \<notin> set (cd_sessions d) then (s, Err ''not found'')
         else if has_runenv then (s, Err ''drive_prompt does not support runenv sessions'')
         else let s = s\<lparr>dr_db := d\<lparr>cd_messages := filter (\<lambda>r. mr_session r \<noteq> sid) (cd_messages d)\<rparr>\<rparr>
              in case agent of
                   Inl e \<Rightarrow> (s, Err (''agent init: '' @ e))
                 | Inr _ \<Rightarrow>
                     (case persist sid (top_message (new_message RUser query)) s of
                        (s', Some e) \<Rightarrow> (s', Err e)
                      | (s', None) \<Rightarrow> prompt_loop sid s' polls))"

end
