(* ===== verification/Session_Trace.thy ===== *)
theory Session_Trace
  imports Session_Run
begin

section \<open>What a run publishes and stores\<close>

text \<open>
  The events of a run as a trace, the rows it adds, and the state of its loop that they determine.
\<close>

fun is_run :: "'v session_event \<Rightarrow> bool" where
  "is_run (EvRun _) = True"
| "is_run _ = False"

fun ends_turn :: "'v session_event \<Rightarrow> bool" where
  "ends_turn (EvMessage _ depth _ m) = (depth = 0 \<and> msg_role m = RAssistant)"
| "ends_turn _ = False"

text \<open>The text streamed since the last top-level message of the assistant.\<close>

fun turn_text :: "string \<Rightarrow> 'v session_event list \<Rightarrow> string" where
  "turn_text t [] = t"
| "turn_text t (EvDelta f n # es) = turn_text (t @ f) es"
| "turn_text t (e # es) = turn_text (if ends_turn e then [] else t) es"

text \<open>Every delta carries the length of its turn's text so far.\<close>

fun deltas_ok :: "string \<Rightarrow> 'v session_event list \<Rightarrow> bool" where
  "deltas_ok t [] = True"
| "deltas_ok t (EvDelta f n # es) = (n = utf16_len (t @ f) \<and> deltas_ok (t @ f) es)"
| "deltas_ok t (e # es) = deltas_ok (if ends_turn e then [] else t) es"

lemma turn_text_append: "turn_text t (xs @ ys) = turn_text (turn_text t xs) ys"
  by (induction t xs rule: turn_text.induct) simp_all

lemma deltas_ok_append: "deltas_ok t (xs @ ys) \<longleftrightarrow> deltas_ok t xs \<and> deltas_ok (turn_text t xs) ys"
  by (induction t xs rule: deltas_ok.induct) simp_all

lemma message_event_step:
  "turn_text t [message_event n m] = (if sm_depth m = 0 \<and> msg_role (sm_message m) = RAssistant then [] else t)"
  "deltas_ok t [message_event n m]"
  "\<not> is_run (message_event n m)" "is_message (message_event n m)" "seq_of (message_event n m) = n"
  by (simp_all add: message_event_def)

text \<open>The rows that the messages of a trace are.\<close>

fun rows_of :: "uuid \<Rightarrow> 'v session_event list \<Rightarrow> 'v msg_row list" where
  "rows_of sid [] = []"
| "rows_of sid (EvMessage seq depth source m # es) =
     \<lparr>mr_session = sid, mr_seq = seq,
      mr_content = Wrapped \<lparr>sm_depth = depth, sm_source = source, sm_message = m\<rparr>\<rparr> # rows_of sid es"
| "rows_of sid (_ # es) = rows_of sid es"

lemma rows_of_append: "rows_of sid (xs @ ys) = rows_of sid xs @ rows_of sid ys"
  by (induction sid xs rule: rows_of.induct) simp_all

lemma rows_of_event:
  "rows_of sid [message_event n m] = [\<lparr>mr_session = sid, mr_seq = n, mr_content = Wrapped m\<rparr>]"
  by (simp add: message_event_def)

definition numbers :: "int \<Rightarrow> nat \<Rightarrow> int list" where
  "numbers start n = map (\<lambda>i. start + int i) [0 ..< n]"

lemma numbers_Suc: "numbers start (Suc n) = numbers start n @ [start + int n]"
  by (simp add: numbers_def)

subsection \<open>The invariant of the loop\<close>

text \<open>\<open>mid\<close> is the trace since the start, \<open>kept\<close> says that the session's row was not deleted.\<close>

definition trace_ok ::
  "uuid \<Rightarrow> 'v chat_db \<Rightarrow> bool \<Rightarrow> ('x, 'v) drive \<Rightarrow> 'v session_event list \<Rightarrow> bool" where
  "trace_ok sid d kept s mid =
     (dr_events s = EvRun Started # mid \<and> list_all (\<lambda>e. \<not> is_run e) mid \<and> deltas_ok [] mid \<and>
      (\<exists>n. map seq_of (filter is_message mid) = numbers (next_seq_start d sid) n \<and>
           dr_seq s = next_seq_start d sid + int n) \<and>
      (\<not> kept \<or> cd_messages (dr_db s) = cd_messages d @ rows_of sid mid))"

lemma trace_ok_start: "trace_ok sid d True (drive_start A d sid) []"
  by (simp add: trace_ok_def drive_start_def numbers_def exI [of _ 0])

lemma trace_ok_acc: "trace_ok sid d kept (s\<lparr>dr_acc := acc\<rparr>) mid = trace_ok sid d kept s mid"
  by (simp add: trace_ok_def)

lemma persist_None:
  "persist sid m s = (s', None) \<longleftrightarrow>
     (\<exists>d. insert_message (dr_db s) sid (dr_seq s) m = Inr d \<and>
        s' = s\<lparr>dr_db := d, dr_events := dr_events s @ [message_event (dr_seq s) m], dr_seq := dr_seq s + 1\<rparr>)"
  by (auto simp: persist_def split: sum.splits)

lemma persist_Some: "persist sid m s = (s', Some e) \<Longrightarrow> s' = s"
  by (auto simp: persist_def split: sum.splits)

lemma trace_ok_persist:
  assumes "trace_ok sid d kept s mid" "persist sid m s = (s', None)"
  shows "trace_ok sid d kept s' (mid @ [message_event (dr_seq s) m])"
proof -
  obtain d' where d': "insert_message (dr_db s) sid (dr_seq s) m = Inr d'"
    "s' = s\<lparr>dr_db := d', dr_events := dr_events s @ [message_event (dr_seq s) m], dr_seq := dr_seq s + 1\<rparr>"
    using assms(2) by (auto simp: persist_None)
  obtain n where n: "map seq_of (filter is_message mid) = numbers (next_seq_start d sid) n"
    "dr_seq s = next_seq_start d sid + int n" using assms(1) by (auto simp: trace_ok_def)
  have "cd_messages d' = cd_messages (dr_db s) @ rows_of sid [message_event (dr_seq s) m]"
    using d'(1) by (auto simp: insert_message_def rows_of_event split: if_splits)
  moreover have "map seq_of (filter is_message (mid @ [message_event (dr_seq s) m])) = numbers (next_seq_start d sid) (Suc n)"
    using n by (simp add: message_event_step numbers_Suc)
  ultimately show ?thesis using assms(1) n(2) d'(2)
    by (auto simp: trace_ok_def deltas_ok_append message_event_step rows_of_append intro!: exI [of _ "Suc n"])
qed

text \<open>The loop's own state: the partial text, its snapshot, and the calls without a result.\<close>

fun open_calls :: "string list \<Rightarrow> 'v session_event list \<Rightarrow> string list" where
  "open_calls cs [] = cs"
| "open_calls cs (EvMessage _ depth _ m # es) =
     open_calls
       (if depth \<noteq> 0 then cs
        else case msg_role m of
               RAssistant \<Rightarrow> cs @ call_ids m
             | RTool \<Rightarrow> (case msg_id m of None \<Rightarrow> cs | Some i \<Rightarrow> filter (\<lambda>c. c \<noteq> i) cs)
             | _ \<Rightarrow> cs) es"
| "open_calls cs (_ # es) = open_calls cs es"

lemma open_calls_append: "open_calls cs (xs @ ys) = open_calls (open_calls cs xs) ys"
  by (induction cs xs rule: open_calls.induct) simp_all

definition loop_ok :: "('x, 'v) drive \<Rightarrow> 'v session_event list \<Rightarrow> bool" where
  "loop_ok s mid =
     (dr_partial s = turn_text [] mid \<and> dr_shared s = dr_partial s \<and> dr_pending s = open_calls [] mid)"

lemma fragment_ok:
  assumes "trace_ok sid d kept s mid" "loop_ok s mid"
  shows "trace_ok sid d kept (note_fragment f s) (mid @ [EvDelta f (utf16_len (dr_partial s @ f))])"
    "loop_ok (note_fragment f s) (mid @ [EvDelta f (utf16_len (dr_partial s @ f))])"
  using assms
  by (auto simp: trace_ok_def loop_ok_def note_fragment_def Let_def deltas_ok_append turn_text_append
      open_calls_append rows_of_append)

lemma completed_ok:
  assumes t: "trace_ok sid d kept s mid" and l: "loop_ok s mid"
    and p: "persist sid (stored_output out) (note_completed out s) = (s', None)"
  shows "trace_ok sid d kept s' (mid @ [message_event (dr_seq s) (stored_output out)])"
    "loop_ok s' (mid @ [message_event (dr_seq s) (stored_output out)])"
proof -
  have t': "trace_ok sid d kept (note_completed out s) mid"
    using t by (auto simp: trace_ok_def note_completed_def split: role.split)
  have q: "dr_seq (note_completed out s) = dr_seq s" by (simp add: note_completed_def split: role.split)
  show "trace_ok sid d kept s' (mid @ [message_event (dr_seq s) (stored_output out)])"
    using trace_ok_persist [OF t' p] by (simp add: q)
  have depth: "sm_depth (stored_output out) = 0 \<longleftrightarrow> top_level (mo_depth out)"
    by (cases "mo_depth out") (auto simp: stored_output_def top_level_def)
  have s': "dr_partial s' = dr_partial (note_completed out s)" "dr_shared s' = dr_shared (note_completed out s)"
    "dr_pending s' = dr_pending (note_completed out s)" using p by (auto simp: persist_None)
  have m: "sm_message (stored_output out) = mo_message out" by (simp add: stored_output_def)
  have "dr_pending (note_completed out s) = open_calls (open_calls [] mid) [message_event (dr_seq s) (stored_output out)]"
    using l depth by (cases "top_level (mo_depth out)"; cases "msg_role (mo_message out)")
      (auto simp: loop_ok_def note_completed_def message_event_def m split: option.split)
  moreover have "dr_partial (note_completed out s) = turn_text (turn_text [] mid) [message_event (dr_seq s) (stored_output out)]"
    using l depth by (cases "top_level (mo_depth out)"; cases "msg_role (mo_message out)")
      (simp_all add: loop_ok_def note_completed_def message_event_step m)
  moreover have "dr_shared (note_completed out s) = dr_partial (note_completed out s)"
    using l by (simp add: loop_ok_def note_completed_def split: role.split)
  ultimately show "loop_ok s' (mid @ [message_event (dr_seq s) (stored_output out)])"
    by (simp add: loop_ok_def s' turn_text_append open_calls_append)
qed

subsection \<open>The loop keeps it\<close>

lemma commit_item_ok:
  assumes "trace_ok sid d kept s mid" "loop_ok s mid" "commit_item sid i s = (s', err)"
  shows "\<exists>mid'. trace_ok sid d kept s' mid' \<and> (err \<noteq> None \<or> loop_ok s' mid')"
proof (cases i)
  case (Fragment f)
  then show ?thesis using fragment_ok [OF assms(1,2), of f] assms(3) by auto
next
  case (Completed out)
  show ?thesis
  proof (cases err)
    case None
    then show ?thesis using completed_ok [OF assms(1,2), of out s'] assms(3) Completed by auto
  next
    case (Some e)
    then have "s' = note_completed out s" using assms(3) Completed persist_Some by fastforce
    then have "trace_ok sid d kept s' mid"
      using assms(1) by (auto simp: trace_ok_def note_completed_def split: role.split)
    then show ?thesis using Some by blast
  qed
qed

lemma commit_items_ok:
  assumes "trace_ok sid d kept s mid" "loop_ok s mid" "in_turn (commit_item sid) items s = (s', err)"
  shows "\<exists>mid'. trace_ok sid d kept s' mid' \<and> (err \<noteq> None \<or> loop_ok s' mid')"
  using assms
proof (induction items arbitrary: s mid)
  case (Cons i items)
  obtain s1 e1 where 1: "commit_item sid i s = (s1, e1)" by (cases "commit_item sid i s")
  obtain mid1 where mid1: "trace_ok sid d kept s1 mid1" "e1 \<noteq> None \<or> loop_ok s1 mid1"
    using commit_item_ok [OF Cons.prems(1,2) 1] by blast
  show ?case
  proof (cases e1)
    case None
    then show ?thesis using Cons.IH [OF mid1(1)] mid1(2) Cons.prems(3) 1 by simp
  next
    case (Some e)
    then show ?thesis using Cons.prems(3) 1 mid1(1) by auto
  qed
qed auto

fun end_ok :: "uuid \<Rightarrow> 'v chat_db \<Rightarrow> bool \<Rightarrow> ('x, 'v) loop_end \<Rightarrow> bool" where
  "end_ok sid d kept (Running s _) = (\<exists>mid. trace_ok sid d kept s mid \<and> loop_ok s mid)"
| "end_ok sid d kept (Left s _ _) = (\<exists>mid. trace_ok sid d kept s mid \<and> loop_ok s mid)"
| "end_ok sid d kept (GaveUp s _) = (\<exists>mid. trace_ok sid d kept s mid)"

lemma trace_ok_kept: "trace_ok sid d kept s mid \<Longrightarrow> trace_ok sid d (kept \<and> b) s mid"
  by (auto simp: trace_ok_def)

lemma loop_ok_acc: "loop_ok (s\<lparr>dr_acc := acc\<rparr>) mid = loop_ok s mid"
  by (simp add: loop_ok_def)

lemma drive_loop_ok:
  "trace_ok sid d kept s mid \<Longrightarrow> loop_ok s mid \<Longrightarrow>
     end_ok sid d (kept \<and> RowDeleted \<notin> set ps) (drive_loop A sid stopped s ps)"
proof (induction A sid stopped s ps arbitrary: kept mid rule: drive_loop.induct)
  case (1 A sid stopped s)
  then show ?case by auto
next
  case (2 A sid stopped s ps)
  have "trace_ok sid d False (s\<lparr>dr_db := delete_session_row sid (dr_db s)\<rparr>) mid"
    "loop_ok (s\<lparr>dr_db := delete_session_row sid (dr_db s)\<rparr>) mid"
    using 2(2,3) by (simp_all add: trace_ok_def loop_ok_def)
  from 2(1) [OF this] show ?case by simp
next
  case (3 A sid stopped s ps)
  then show ?case by simp
next
  case (4 A sid stopped s ps)
  show ?case
  proof (cases stopped)
    case True
    then show ?thesis using 4(2,3) trace_ok_kept [OF 4(2)] by auto
  next
    case False
    then show ?thesis using 4(1) [OF False 4(2,3)] by simp
  qed
next
  case (5 A sid stopped s ps)
  have base: "trace_ok sid d (kept \<and> RowDeleted \<notin> set (EndOfStream # ps)) (s\<lparr>dr_acc := acc\<rparr>) mid"
    "loop_ok (s\<lparr>dr_acc := acc\<rparr>) mid" "trace_ok sid d (kept \<and> RowDeleted \<notin> set (EndOfStream # ps)) s mid" for acc
    using trace_ok_kept [OF 5(1)] 5(2) by (simp_all add: trace_ok_acc loop_ok_acc)
  obtain acc res where fin: "assembler_finish A (dr_acc s) = (acc, res)" by (cases "assembler_finish A (dr_acc s)")
  show ?case
  proof (cases "\<not> stopped \<and> (\<exists>out. res = Inr (Some out))")
    case True
    then obtain out where out: "res = Inr (Some out)" "\<not> stopped" by blast
    obtain s' err where c: "commit_item sid (Completed out) (s\<lparr>dr_acc := acc\<rparr>) = (s', err)"
      by (cases "commit_item sid (Completed out) (s\<lparr>dr_acc := acc\<rparr>)")
    show ?thesis using commit_item_ok [OF base(1,2) c] out fin c
      by (cases err) (auto simp del: commit_item.simps)
  next
    case False
    then have "drive_loop A sid stopped s (EndOfStream # ps) =
        (if stopped then Left s True None else Left (s\<lparr>dr_acc := acc\<rparr>) False None)"
      using fin by (auto split: sum.split option.split)
    then show ?thesis using base 5(2) by auto
  qed
next
  case (6 A sid stopped s e ps)
  then show ?case using trace_ok_kept [OF 6(1)] by auto
next
  case (7 A sid stopped s delta ps)
  obtain acc res where push: "assembler_push A (dr_acc s) delta = (acc, res)"
    by (cases "assembler_push A (dr_acc s) delta")
  have base: "trace_ok sid d kept (s\<lparr>dr_acc := acc\<rparr>) mid" "loop_ok (s\<lparr>dr_acc := acc\<rparr>) mid"
    using 7(2,3) by (simp_all add: trace_ok_acc loop_ok_acc)
  show ?case
  proof (cases res)
    case (Inl e)
    then show ?thesis using trace_ok_kept [OF base(1)] base(2) push by auto
  next
    case (Inr items)
    obtain s' err where c: "in_turn (commit_item sid) items (s\<lparr>dr_acc := acc\<rparr>) = (s', err)"
      by (cases "in_turn (commit_item sid) items (s\<lparr>dr_acc := acc\<rparr>)")
    obtain mid' where mid': "trace_ok sid d kept s' mid'" "err \<noteq> None \<or> loop_ok s' mid'"
      using commit_items_ok [OF base c] by blast
    show ?thesis
    proof (cases err)
      case None
      then show ?thesis using 7(1) [OF push [symmetric] Inr c [symmetric] None mid'(1)] mid'(2) push Inr c by simp
    next
      case (Some e)
      then show ?thesis using trace_ok_kept [OF mid'(1)] push Inr c by auto
    qed
  qed
qed

end
