(* ===== verification/Session_Properties.thy ===== *)
theory Session_Properties
  imports Session_Trace
begin

section \<open>A run's trace, and what a stop leaves\<close>

subsection \<open>The closing messages\<close>

fun numbered :: "int \<Rightarrow> 'v session_message list \<Rightarrow> 'v session_event list" where
  "numbered n [] = []"
| "numbered n (m # ms) = message_event n m # numbered (n + 1) ms"

lemma numbered_append: "numbered n (xs @ ys) = numbered n xs @ numbered (n + int (length xs)) ys"
  by (induction xs arbitrary: n) (simp_all add: add.assoc)

lemma persist_seq: "persist sid m s = (s', None) \<Longrightarrow> dr_seq s' = dr_seq s + 1"
  by (auto simp: persist_None)

lemma persist_list_ok:
  assumes "trace_ok sid d kept s mid" "in_turn (persist sid) ms s = (s', err)"
  shows "\<exists>mid'. trace_ok sid d kept s' mid' \<and> (err \<noteq> None \<or> mid' = mid @ numbered (dr_seq s) ms)"
  using assms
proof (induction ms arbitrary: s mid)
  case (Cons m ms)
  obtain s1 e1 where 1: "persist sid m s = (s1, e1)" by (cases "persist sid m s")
  show ?case
  proof (cases e1)
    case None
    then have p: "persist sid m s = (s1, None)" using 1 by simp
    show ?thesis using Cons.IH [OF trace_ok_persist [OF Cons.prems(1) p]] Cons.prems(2) p
      by (simp add: persist_seq [OF p])
  next
    case (Some e)
    then show ?thesis using 1 Cons.prems persist_Some [of sid m s s1 e] by auto
  qed
qed auto

lemma after_loop_ok:
  assumes t: "trace_ok sid d kept s mid" and l: "loop_ok s mid" and a: "after_loop sid s stopped err = (s', res)"
  shows "\<exists>mid'. trace_ok sid d kept s' mid' \<and>
     (res \<noteq> Inr True \<or>
      mid' = mid @ numbered (dr_seq s) (map stub (open_calls [] mid) @ [closing_note (turn_text [] mid)]))"
proof (cases "stopped \<and> \<not> dr_natural s")
  case True
  let ?ms = "map stub (dr_pending s) @ [closing_note (dr_partial s)]"
  obtain s1 e1 where 1: "in_turn (persist sid) ?ms (s\<lparr>dr_pending := []\<rparr>) = (s1, e1)"
    by (cases "in_turn (persist sid) ?ms (s\<lparr>dr_pending := []\<rparr>)")
  have "trace_ok sid d kept (s\<lparr>dr_pending := []\<rparr>) mid" using t by (simp add: trace_ok_def)
  from persist_list_ok [OF this 1] obtain mid' where mid':
    "trace_ok sid d kept s1 mid'" "e1 \<noteq> None \<or> mid' = mid @ numbered (dr_seq s) ?ms" by auto
  have eqs: "dr_pending s = open_calls [] mid" "dr_partial s = turn_text [] mid" using l by (simp_all add: loop_ok_def)
  have res: "(s', res) = (case e1 of Some e \<Rightarrow> (s1, Inl e) | None \<Rightarrow> (s1\<lparr>dr_shared := []\<rparr>, Inr True))"
    using a True 1 by (simp add: after_loop_def split: option.splits)
  have "trace_ok sid d kept (s1\<lparr>dr_shared := []\<rparr>) mid'" using mid'(1) by (simp add: trace_ok_def)
  then show ?thesis using mid' res eqs by (cases e1) auto
next
  case False
  then have "s' = s" "res \<noteq> Inr True" using a by (auto simp: after_loop_def split: if_splits)
  then show ?thesis using t by blast
qed

subsection \<open>The trace of a run\<close>

lemma run_drive_ok:
  assumes "run_drive A agent sid query d polls = (s, r)"
  shows "\<exists>mid. trace_ok sid d (RowDeleted \<notin> set polls) s mid \<and> (r \<noteq> None \<or> dr_shared s = turn_text [] mid) \<and>
     (r \<noteq> Some (Inr True) \<or>
      (\<exists>mid0 n. mid = mid0 @ numbered n (map stub (open_calls [] mid0) @ [closing_note (turn_text [] mid0)])))"
proof -
  let ?K = "RowDeleted \<notin> set polls" and ?s0 = "drive_start A d sid"
  have start: "trace_ok sid d True ?s0 []" by (rule trace_ok_start)
  then have startK: "trace_ok sid d ?K ?s0 []" using trace_ok_kept [OF start, of ?K] by simp
  show ?thesis
  proof (cases "agent (replayed_history d sid)")
    case (Inl e)
    then show ?thesis using assms startK by (auto simp: run_drive_def Let_def)
  next
    case agent: (Inr u)
    let ?m = "top_message (new_message RUser query)"
    obtain s1 e1 where 1: "persist sid ?m ?s0 = (s1, e1)" by (cases "persist sid ?m ?s0")
    show ?thesis
    proof (cases e1)
      case (Some e)
      then have "s1 = ?s0" using 1 persist_Some by blast
      then show ?thesis using assms startK agent 1 Some by (auto simp: run_drive_def Let_def)
    next
      case None
      let ?mid = "[message_event (dr_seq ?s0) ?m]"
      have p: "persist sid ?m ?s0 = (s1, None)" using 1 None by simp
      have t1: "trace_ok sid d True s1 ?mid" using trace_ok_persist [OF start p] by simp
      have l1: "loop_ok s1 ?mid"
        using p by (auto simp: persist_None loop_ok_def drive_start_def message_event_def top_message_def new_message_def)
      have e: "end_ok sid d ?K (drive_loop A sid False s1 polls)"
        using drive_loop_ok [OF t1 l1, of polls A False] by simp
      have r: "run_drive A agent sid query d polls =
          (case drive_loop A sid False s1 polls of
             Running s'' _ \<Rightarrow> (s'', None)
           | Left s'' stopped run_error \<Rightarrow> map_prod id Some (after_loop sid s'' stopped run_error)
           | GaveUp s'' e \<Rightarrow> (s'', Some (Inl e)))"
        using agent p by (simp add: run_drive_def Let_def)
      show ?thesis
      proof (cases "drive_loop A sid False s1 polls")
        case (Running s2 b)
        then show ?thesis using e r assms by (auto simp: loop_ok_def)
      next
        case (Left s2 stopped err)
        obtain mid where mid: "trace_ok sid d ?K s2 mid" "loop_ok s2 mid" using e Left by auto
        obtain res where a: "after_loop sid s2 stopped err = (s, res)" "r = Some res"
          using r assms Left by (cases "after_loop sid s2 stopped err") auto
        show ?thesis using after_loop_ok [OF mid a(1)] a(2) by blast
      next
        case (GaveUp s2 e')
        then show ?thesis using e r assms by auto
      qed
    qed
  qed
qed

lemma run_task_ok:
  assumes "run_task A loaded agent sid query d polls = (s, r)"
  shows "\<exists>evs mid. trace_ok sid d (RowDeleted \<notin> set polls) (s\<lparr>dr_events := evs\<rparr>) mid \<and>
     dr_events s = evs @ (case r of None \<Rightarrow> [] | Some status \<Rightarrow> [EvRun status]) \<and>
     r \<noteq> Some Started \<and> (r \<noteq> None \<or> dr_shared s = turn_text [] mid) \<and>
     (r \<noteq> Some Stopped \<or>
      (\<exists>mid0 n. mid = mid0 @ numbered n (map stub (open_calls [] mid0) @ [closing_note (turn_text [] mid0)])))"
proof (cases loaded)
  case (Inl e)
  have "trace_ok sid d (RowDeleted \<notin> set polls) (drive_start A d sid) []"
    using trace_ok_kept [OF trace_ok_start [of sid d A], of "RowDeleted \<notin> set polls"] by simp
  then show ?thesis using assms Inl
    by - (intro exI [of _ "[EvRun Started]"] exI [of _ "[]"],
        auto simp: run_task_def run_status_of_def trace_ok_def)
next
  case (Inr u)
  obtain s0 r0 where d: "run_drive A agent sid query d polls = (s0, r0)" by (cases "run_drive A agent sid query d polls")
  have res: "(s, r) = (case r0 of None \<Rightarrow> (s0, None)
      | Some q \<Rightarrow> (s0\<lparr>dr_events := dr_events s0 @ [EvRun (run_status_of q)]\<rparr>, Some (run_status_of q)))"
    using assms Inr d by (simp add: run_task_def Let_def)
  obtain mid where mid: "trace_ok sid d (RowDeleted \<notin> set polls) s0 mid" "r0 \<noteq> None \<or> dr_shared s0 = turn_text [] mid"
     "r0 \<noteq> Some (Inr True) \<or>
      (\<exists>mid0 n. mid = mid0 @ numbered n (map stub (open_calls [] mid0) @ [closing_note (turn_text [] mid0)]))"
    using run_drive_ok [OF d] by blast
  have "run_status_of q = Stopped \<longleftrightarrow> q = Inr True" "run_status_of q \<noteq> Started" for q
    by (auto simp: run_status_of_def split: sum.splits bool.splits)
  then show ?thesis using mid res
    by - (intro exI [of _ "dr_events s0"] exI [of _ mid], auto split: option.splits simp: trace_ok_def)
qed

text \<open>
  C23. The trace of a run. Whatever the task polls, the events it publishes are \<open>Started\<close>, then
  messages and deltas, then exactly one terminal status, or none while it runs. The messages are
  numbered one after another from the number after the session's last row; every delta carries the
  length of its turn's text so far, in UTF-16 units; while the run is in flight the snapshot that a
  late client gets is the text of the turn; and the rows the run adds are the messages it publishes,
  in that order, unless another task deletes the session meanwhile.
\<close>

theorem run_trace:
  "case run_task A loaded agent sid query d polls of (s, r) \<Rightarrow>
     \<exists>mid n. dr_events s = EvRun Started # mid @ (case r of None \<Rightarrow> [] | Some status \<Rightarrow> [EvRun status]) \<and>
       list_all (\<lambda>e. \<not> is_run e) mid \<and>
       (case r of None \<Rightarrow> dr_shared s = turn_text [] mid | Some status \<Rightarrow> status \<noteq> Started) \<and>
       map seq_of (filter is_message mid) = numbers (next_seq_start d sid) n \<and>
       deltas_ok [] mid \<and>
       (RowDeleted \<in> set polls \<or> cd_messages (dr_db s) = cd_messages d @ rows_of sid mid)"
proof (cases "run_task A loaded agent sid query d polls")
  case (Pair s r)
  obtain evs mid where t: "trace_ok sid d (RowDeleted \<notin> set polls) (s\<lparr>dr_events := evs\<rparr>) mid"
    "dr_events s = evs @ (case r of None \<Rightarrow> [] | Some status \<Rightarrow> [EvRun status])"
    "r \<noteq> Some Started" "r \<noteq> None \<or> dr_shared s = turn_text [] mid"
    using run_task_ok [OF Pair] by blast
  obtain n where "map seq_of (filter is_message mid) = numbers (next_seq_start d sid) n"
    using t(1) by (auto simp: trace_ok_def)
  then show ?thesis unfolding Pair prod.case using t
    by - (intro exI [of _ mid] exI [of _ n], auto simp: trace_ok_def split: option.split)
qed

subsection \<open>What a stop leaves\<close>

text \<open>Every call of a top-level assistant message has its result in a later top-level tool message.\<close>

fun answers :: "string \<Rightarrow> 'v session_event \<Rightarrow> bool" where
  "answers c (EvMessage _ depth _ m) = (depth = 0 \<and> msg_role m = RTool \<and> msg_id m = Some c)"
| "answers c _ = False"

fun asked :: "'v session_event \<Rightarrow> string list" where
  "asked (EvMessage _ depth _ m) = (if depth = 0 \<and> msg_role m = RAssistant then call_ids m else [])"
| "asked _ = []"

fun calls_answered :: "'v session_event list \<Rightarrow> bool" where
  "calls_answered [] = True"
| "calls_answered (e # es) = (list_all (\<lambda>c. list_ex (answers c) es) (asked e) \<and> calls_answered es)"

lemma open_calls_Cons:
  "open_calls cs (e # es) = open_calls (filter (\<lambda>c. \<not> answers c e) cs @ asked e) es"
proof (cases e)
  case (EvMessage n depth src m)
  have "filter (\<lambda>c. c \<noteq> i) cs = filter (\<lambda>c. i \<noteq> c) cs" for i by (rule filter_cong) auto
  then show ?thesis using EvMessage
    by (cases "depth = 0"; cases "msg_role m"; cases "msg_id m") simp_all
qed simp_all

lemma open_calls_answered:
  "c \<in> set cs \<Longrightarrow> c \<in> set (open_calls cs es) \<or> list_ex (answers c) es"
proof (induction es arbitrary: cs)
  case (Cons e es)
  show ?case
  proof (cases "answers c e")
    case False
    then show ?thesis using Cons.IH [of "filter (\<lambda>c. \<not> answers c e) cs @ asked e"] Cons.prems
      by (auto simp: open_calls_Cons)
  qed simp
qed simp

lemma calls_answered_or_open:
  assumes "\<And>c. c \<in> set (open_calls cs es) \<Longrightarrow> list_ex (answers c) fs" "calls_answered fs"
  shows "calls_answered (es @ fs)"
  using assms
proof (induction es arbitrary: cs)
  case (Cons e es)
  have "list_ex (answers c) (es @ fs)" if "c \<in> set (asked e)" for c
    using open_calls_answered [of c "filter (\<lambda>c. \<not> answers c e) cs @ asked e" es] that Cons.prems(1) [of c]
    by (auto simp: open_calls_Cons)
  then show ?case using Cons.IH [of "filter (\<lambda>c. \<not> answers c e) cs @ asked e"] Cons.prems
    by (simp add: open_calls_Cons list_all_iff)
qed simp

lemma asked_closing:
  "asked (message_event n (stub c)) = []" "asked (message_event n (closing_note t)) = []"
  "answers c (message_event n (stub c))"
  by (simp_all add: message_event_def stub_def closing_note_def top_message_def new_message_def call_ids_def)

lemma nothing_asked: "list_all (\<lambda>e. asked e = []) es \<Longrightarrow> calls_answered es"
  by (induction es) simp_all

lemma numbered_list_all: "(\<And>m n. m \<in> set ms \<Longrightarrow> P (message_event n m)) \<Longrightarrow> list_all P (numbered n ms)"
  by (induction ms arbitrary: n) simp_all

lemma stubs_answer: "stub c \<in> set ms \<Longrightarrow> list_ex (answers c) (numbered n ms)"
  by (induction ms arbitrary: n) (auto simp: asked_closing)

text \<open>
  C24. A stop. A run that ends as \<open>Stopped\<close> leaves a history that can be replayed: every tool
  call of its top-level assistant messages has a result, a stub for each call that had none when
  the run was stopped. Its last message is the assistant's closing note, which carries the text
  that was streamed and not yet committed, so that no text the client saw is lost.
\<close>

theorem stop_closes_history:
  assumes "run_task A loaded agent sid query d polls = (s, Some Stopped)"
  shows "\<exists>mid n. dr_events s =
       EvRun Started # mid @ numbered n (map stub (open_calls [] mid)) @
         [message_event (n + int (length (open_calls [] mid))) (closing_note (turn_text [] mid)), EvRun Stopped] \<and>
     calls_answered (dr_events s)"
proof -
  obtain evs mid mid0 n where t: "trace_ok sid d (RowDeleted \<notin> set polls) (s\<lparr>dr_events := evs\<rparr>) mid"
    "dr_events s = evs @ [EvRun Stopped]"
    "mid = mid0 @ numbered n (map stub (open_calls [] mid0) @ [closing_note (turn_text [] mid0)])"
    using run_task_ok [OF assms] by auto
  let ?ms = "map stub (open_calls [] mid0) @ [closing_note (turn_text [] mid0)]"
  let ?tail = "numbered n ?ms @ [EvRun Stopped]"
  have ev: "dr_events s = (EvRun Started # mid0) @ ?tail"
    using t by (simp add: trace_ok_def)
  have "list_all (\<lambda>e. asked e = []) (numbered n ?ms)"
    by (rule numbered_list_all) (auto simp: asked_closing)
  then have "calls_answered ?tail" by (intro nothing_asked) simp
  moreover have "list_ex (answers c) ?tail" if "c \<in> set (open_calls [] (EvRun Started # mid0))" for c
    using that stubs_answer [of c ?ms n] by (auto simp: list_ex_append)
  ultimately have "calls_answered ((EvRun Started # mid0) @ ?tail)"
    by (rule calls_answered_or_open [rotated])
  moreover have "dr_events s = EvRun Started # mid0 @ numbered n (map stub (open_calls [] mid0)) @
         [message_event (n + int (length (open_calls [] mid0))) (closing_note (turn_text [] mid0)), EvRun Stopped]"
    using ev by (simp add: numbered_append)
  ultimately show ?thesis using ev by metis
qed

subsection \<open>A run stopped in the middle\<close>

text \<open>
  A library whose deltas carry one tool call at most, as their rest: the running message takes the
  new delta's role, depth and finish reason where it has them, and its contents and call.
\<close>

definition demo_ailoy :: "(string option, unit) ailoy" where
  "demo_ailoy =
     \<lparr>al_empty = \<lparr>dl_role = None, dl_contents = [], dl_depth = None, dl_finish = None, dl_rest = None\<rparr>,
      al_accumulate = (\<lambda>a d. Inr \<lparr>dl_role = or_else (dl_role d) (dl_role a), dl_contents = dl_contents a @ dl_contents d,
        dl_depth = or_else (dl_depth d) (dl_depth a), dl_finish = dl_finish d, dl_rest = or_else (dl_rest d) (dl_rest a)\<rparr>),
      al_finish = (\<lambda>a. Inr \<lparr>mo_depth = dl_depth a, mo_source = None, mo_finish = the_default FinishStop (dl_finish a),
        mo_message = \<lparr>msg_role = the_default RAssistant (dl_role a), msg_id = None,
          msg_contents = [PText (delta_text (dl_contents a))],
          msg_tool_calls = map_option (\<lambda>i. [PFunction i ''bash'' ()]) (dl_rest a)\<rparr>\<rparr>)\<rparr>"

definition demo_call :: "string option delta_output" where
  "demo_call = \<lparr>dl_role = Some RAssistant, dl_contents = [], dl_depth = Some 0,
     dl_finish = Some (FinishOther ''tool_call''), dl_rest = Some ''c1''\<rparr>"

definition demo_text :: "string option delta_output" where
  "demo_text = \<lparr>dl_role = Some RAssistant, dl_contents = [TextDelta ''Hel''], dl_depth = Some 0,
     dl_finish = None, dl_rest = None\<rparr>"

definition demo_table :: "unit chat_db" where
  "demo_table = \<lparr>cd_sessions = [7], cd_messages = []\<rparr>"

definition demo_stop ::
  "string option poll list \<Rightarrow> (string option, unit) drive \<times> run_event option" where
  "demo_stop polls = run_task demo_ailoy (Inr ()) (\<lambda>_. Inr ()) 7 [PText ''hi''] demo_table polls"

lemma demo_stop_result:
  "snd (demo_stop [Item (Inr demo_call), Item (Inr demo_text), Cancelled, NotReady]) = Some Stopped"
  by code_simp

lemma demo_stop_messages:
  "map sm_message (map (\<lambda>r. parse_stored_message (mr_content r))
     (cd_messages (dr_db (fst (demo_stop [Item (Inr demo_call), Item (Inr demo_text), Cancelled, NotReady]))))) =
   [new_message RUser [PText ''hi''],
    \<lparr>msg_role = RAssistant, msg_id = None, msg_contents = [PText []], msg_tool_calls = Some [PFunction ''c1'' ''bash'' ()]\<rparr>,
    sm_message (stub ''c1''), sm_message (closing_note ''Hel'')]"
  by code_simp

theorem stop_closes_history_witness:
  "calls_answered (dr_events (fst (demo_stop [Item (Inr demo_call), Item (Inr demo_text), Cancelled, NotReady])))"
proof -
  let ?polls = "[Item (Inr demo_call), Item (Inr demo_text), Cancelled, NotReady]"
  have "run_task demo_ailoy (Inr ()) (\<lambda>_. Inr ()) 7 [PText ''hi''] demo_table ?polls =
      (fst (demo_stop ?polls), Some Stopped)"
    using demo_stop_result unfolding demo_stop_def by (metis prod.collapse)
  from stop_closes_history [OF this] show ?thesis by blast
qed

subsection \<open>What a run does not do\<close>

text \<open>A run that fails leaves its calls without a result: only a stop writes the stubs.\<close>

lemma failure_leaves_call_open:
  "snd (demo_stop [Item (Inr demo_call), Item (Inl ''network'')]) = Some (RunError ''network'')"
  "\<not> calls_answered (dr_events (fst (demo_stop [Item (Inr demo_call), Item (Inl ''network'')])))"
  by code_simp+

text \<open>
  A prompt of the automation worker registers over the run that holds the slot, and frees it when
  it ends: the other run can then be neither stopped nor seen, and a further one can start.
\<close>

lemma prompt_frees_other_slot:
  assumes "reserve_run sid slots = Ok slots'"
  shows "cancel_slot sid (release_run sid (register_prompt sid slots')) =
      (release_run sid (register_prompt sid slots'), False)"
    "is_ok (reserve_run sid (release_run sid (register_prompt sid slots')))"
  by (simp_all add: cancel_slot_def release_run_def reserve_run_def)

text \<open>Reserving is exclusive.\<close>

lemma reserve_exclusive:
  "reserve_run sid slots = Ok slots' \<Longrightarrow> reserve_run sid slots' = Err (AlreadyRunning sid)"
  by (auto simp: reserve_run_def split: if_splits)

text \<open>An output of a sub-agent is stored by a prompt as one of the conversation.\<close>

lemma prompt_flattens_depth:
  "map (\<lambda>r. sm_depth (parse_stored_message (mr_content r)))
     (cd_messages (dr_db (fst (drive_prompt_inner demo_ailoy False (Inr ()) 7 [PText ''hi'']
        [Output (Inr \<lparr>mo_depth = Some 1, mo_source = Some ''researcher'', mo_finish = FinishStop,
           mo_message = new_message RAssistant [PText ''found'']\<rparr>)] demo_table)))) = [0, 0]"
  by code_simp

end
