(* ===== verification/Verify_Report.thy ===== *)
theory Verify_Report
  imports Chat_Store Calc_Tokens "HOL-Library.Multiset"
begin

section \<open>The verify pass over an agent's turn\<close>

text \<open>
  \<^verbatim>\<open>src/reflect-agent/src/verify.rs\<close>. Text is a list of characters, since the pass reads it by
  character classes; a byte length is the length of its UTF-8 form. The tables of Unicode
  (\<^verbatim>\<open>\s\<close>, which is also what \<^verbatim>\<open>trim\<close> removes, and \<^verbatim>\<open>\d\<close>), the three parsers of chrono, the
  JSON text of a value, the reading of a number as an \<^verbatim>\<open>i64\<close> and the order in which a hash map is
  walked are parameters. The one regular expression of the file is written out as a matcher.
\<close>

subsection \<open>Data\<close>

type_synonym utext = "uchar list"

text \<open>The agent library's JSON value. Numbers are the library's.\<close>

datatype 'n jvalue =
    JNull
  | JBool bool
  | JNum 'n
  | JStr utext
  | JArr "'n jvalue list"
  | JObj "(utext \<times> 'n jvalue) list"

datatype 'n vpart =
    VText utext
  | VFunction (call_id: utext) (call_name: utext) (call_args: "'n jvalue")
  | VValue "'n jvalue"
  | VMedia

fun vpart_text :: "'n vpart \<Rightarrow> utext option" where
  "vpart_text (VText t) = Some t"
| "vpart_text _ = None"

fun vpart_function :: "'n vpart \<Rightarrow> (utext \<times> utext \<times> 'n jvalue) option" where
  "vpart_function (VFunction i n a) = Some (i, n, a)"
| "vpart_function _ = None"

fun vpart_value :: "'n vpart \<Rightarrow> 'n jvalue option" where
  "vpart_value (VValue v) = Some v"
| "vpart_value _ = None"

record 'n vmessage =
  vm_role :: role
  vm_id :: "utext option"
  vm_contents :: "'n vpart list"
  vm_calls :: "'n vpart list option"

record 'n verify_lib =
  vl_white :: "uchar \<Rightarrow> bool"
  vl_digit :: "uchar \<Rightarrow> bool"
  vl_rfc3339 :: "utext \<Rightarrow> bool"
  vl_datetime :: "utext \<Rightarrow> bool"
  vl_date :: "utext \<Rightarrow> bool"
  vl_json :: "'n jvalue \<Rightarrow> utext option"
  vl_integer :: "'n \<Rightarrow> int option"
  vl_hash_order :: "((utext \<times> utext) \<times> nat) list \<Rightarrow> ((utext \<times> utext) \<times> nat) list"

record verify_config =
  loop_threshold :: nat

definition default_verify_config :: verify_config where
  "default_verify_config = \<lparr>loop_threshold = 3\<rparr>"

datatype bash_failure = NonZeroExit int | BashTimedOut | ValidationError

datatype issue =
    EmptyResult utext
  | LoopDetected utext nat nat
  | UnverifiedCitation utext
  | BashFailure bash_failure

text \<open>\<^verbatim>\<open>impl Display for Issue\<close> and \<^verbatim>\<open>VerifyReport::format\<close>. A report is the list of its issues.\<close>

fun dec_nat :: "nat \<Rightarrow> utext" where
  "dec_nat n = (if n < 10 then [48 + n] else dec_nat (n div 10) @ [48 + n mod 10])"

declare dec_nat.simps [simp del]

definition dec_int :: "int \<Rightarrow> utext" where
  "dec_int i = (if i < 0 then 45 # dec_nat (nat (- i)) else dec_nat (nat i))"

fun issue_text :: "issue \<Rightarrow> utext" where
  "issue_text (EmptyResult t) = chars ''empty result from `'' @ t @ chars ''`''"
| "issue_text (LoopDetected t n k) =
     chars ''`'' @ t @ chars ''` invoked '' @ dec_nat n
       @ chars '' times with identical args (threshold '' @ dec_nat k @ chars '')''"
| "issue_text (UnverifiedCitation c) = chars ''citation not found in tool log: `'' @ c @ chars ''`''"
| "issue_text (BashFailure (NonZeroExit n)) = chars ''bash exited with code '' @ dec_int n"
| "issue_text (BashFailure BashTimedOut) = chars ''bash timed out''"
| "issue_text (BashFailure ValidationError) = chars ''bash received invalid arguments''"

definition report_text :: "issue list \<Rightarrow> utext" where
  "report_text is = concat (map (\<lambda>i. chars ''- '' @ issue_text i @ [10]) is)"

subsection \<open>The tool log\<close>

record 'n tool_call =
  tc_name :: utext
  tc_args :: "'n jvalue"
  tc_result :: "'n jvalue option"

definition message_calls :: "'n vmessage \<Rightarrow> (utext \<times> utext \<times> 'n jvalue) list" where
  "message_calls m =
     (if vm_role m \<noteq> RAssistant then []
      else (case vm_calls m of None \<Rightarrow> [] | Some ps \<Rightarrow> List.map_filter vpart_function ps))"

text \<open>The first pass: the map by call id, and the ids in the order met.\<close>

definition record_call ::
  "utext \<times> utext \<times> 'n jvalue \<Rightarrow> (utext \<rightharpoonup> 'n tool_call) \<times> utext list
    \<Rightarrow> (utext \<rightharpoonup> 'n tool_call) \<times> utext list" where
  "record_call c s =
     (case c of (i, n, a) \<Rightarrow>
        ((fst s)(i \<mapsto> \<lparr>tc_name = n, tc_args = a, tc_result = None\<rparr>), snd s @ [i]))"

definition calls_pass :: "'n vmessage list \<Rightarrow> (utext \<rightharpoonup> 'n tool_call) \<times> utext list" where
  "calls_pass h = fold record_call (concat (map message_calls h)) (Map.empty, [])"

text \<open>The second pass: a tool message's first value becomes the result of the call it names.\<close>

definition message_answer :: "'n vmessage \<Rightarrow> (utext \<times> 'n jvalue) option" where
  "message_answer m =
     (if vm_role m \<noteq> RTool then None
      else (case vm_id m of
              None \<Rightarrow> None
            | Some i \<Rightarrow> (case List.map_filter vpart_value (vm_contents m) of
                           [] \<Rightarrow> None | v # _ \<Rightarrow> Some (i, v))))"

definition record_answer :: "utext \<times> 'n jvalue \<Rightarrow> (utext \<rightharpoonup> 'n tool_call) \<Rightarrow> (utext \<rightharpoonup> 'n tool_call)" where
  "record_answer a m =
     (case a of (i, v) \<Rightarrow>
        (case m i of None \<Rightarrow> m | Some c \<Rightarrow> m(i \<mapsto> c\<lparr>tc_result := Some v\<rparr>)))"

definition answers_pass :: "'n vmessage list \<Rightarrow> (utext \<rightharpoonup> 'n tool_call) \<Rightarrow> (utext \<rightharpoonup> 'n tool_call)" where
  "answers_pass h m = fold record_answer (List.map_filter message_answer h) m"

text \<open>The result: each id removes its entry, so that a repeated id gives one call.\<close>

fun take_entries :: "utext list \<Rightarrow> (utext \<rightharpoonup> 'n tool_call) \<Rightarrow> 'n tool_call list" where
  "take_entries [] m = []"
| "take_entries (i # is) m =
     (case m i of None \<Rightarrow> take_entries is m | Some c \<Rightarrow> c # take_entries is (m(i := None)))"

definition collect_tool_log :: "'n vmessage list \<Rightarrow> 'n tool_call list" where
  "collect_tool_log h = (case calls_pass h of (m, order) \<Rightarrow> take_entries order (answers_pass h m))"

subsection \<open>Empty results, loops, failures of bash\<close>

definition utrim_with :: "(uchar \<Rightarrow> bool) \<Rightarrow> utext \<Rightarrow> utext" where
  "utrim_with w s = rev (dropWhile w (rev (dropWhile w s)))"

fun content_field :: "'n jvalue \<Rightarrow> bool" where
  "content_field (JNum _) = False"
| "content_field (JBool _) = False"
| "content_field _ = True"

fun is_empty_value :: "'n verify_lib \<Rightarrow> 'n jvalue \<Rightarrow> bool" where
  "is_empty_value L JNull = True"
| "is_empty_value L (JStr s) = (utrim_with (vl_white L) s = [])"
| "is_empty_value L (JArr vs) = (vs = [])"
| "is_empty_value L (JObj fs) =
     (fs = [] \<or> (\<exists>f \<in> set fs. content_field (snd f)) \<and>
                (\<forall>f \<in> set fs. content_field (snd f) \<longrightarrow> is_empty_value L (snd f)))"
| "is_empty_value L (JBool _) = False"
| "is_empty_value L (JNum _) = False"

definition check_empty_results :: "'n verify_lib \<Rightarrow> 'n tool_call list \<Rightarrow> issue list" where
  "check_empty_results L log =
     map (\<lambda>c. EmptyResult (tc_name c))
       (filter (\<lambda>c. case tc_result c of None \<Rightarrow> False | Some v \<Rightarrow> is_empty_value L v) log)"

definition args_key :: "'n verify_lib \<Rightarrow> 'n tool_call \<Rightarrow> utext" where
  "args_key L c = the_default [] (vl_json L (tc_args c))"

fun count_in :: "'k \<Rightarrow> ('k \<times> nat) list \<Rightarrow> ('k \<times> nat) list" where
  "count_in k [] = [(k, 1)]"
| "count_in k ((k', n) # es) = (if k' = k then (k, n + 1) # es else (k', n) # count_in k es)"

definition check_loops :: "'n verify_lib \<Rightarrow> nat \<Rightarrow> 'n tool_call list \<Rightarrow> issue list" where
  "check_loops L threshold log =
     map (\<lambda>((tool, _), n). LoopDetected tool n threshold)
       (filter (\<lambda>(_, n). threshold \<le> n)
         (vl_hash_order L (fold count_in (map (\<lambda>c. (tc_name c, args_key L c)) log) [])))"

text \<open>\<^verbatim>\<open>Value::pointer\<close> on a pointer of one name: the field of an object, nothing on other values.\<close>

fun field :: "string \<Rightarrow> 'n jvalue \<Rightarrow> 'n jvalue option" where
  "field k (JObj fs) = map_of fs (chars k)"
| "field k _ = None"

definition bash_failure_reason :: "'n verify_lib \<Rightarrow> 'n jvalue \<Rightarrow> bash_failure option" where
  "bash_failure_reason L r =
     (if field ''phase'' r = Some (JStr (chars ''validation'')) then Some ValidationError
      else if field ''timed_out'' r = Some (JBool True) then Some BashTimedOut
      else (case field ''exit_code'' r of
              Some (JNum n) \<Rightarrow>
                (case vl_integer L n of
                   Some code \<Rightarrow> if code \<noteq> 0 then Some (NonZeroExit code) else None
                 | None \<Rightarrow> None)
            | _ \<Rightarrow> None))"

definition check_bash_failures :: "'n verify_lib \<Rightarrow> 'n tool_call list \<Rightarrow> issue list" where
  "check_bash_failures L log =
     List.map_filter
       (\<lambda>c. case tc_result c of None \<Rightarrow> None
            | Some r \<Rightarrow> map_option BashFailure (bash_failure_reason L r))
       (filter (\<lambda>c. tc_name c = chars ''bash'') log)"

end
