(* ===== verification/Verify_Citations.thy ===== *)
theory Verify_Citations
  imports Verify_Report
begin

section \<open>Citations\<close>

text \<open>
  The citations of \<^verbatim>\<open>src/reflect-agent/src/verify.rs\<close>: what the regular expression picks out of
  the final text, what is kept of it, and which variants of a citation the tool log justifies.
\<close>

subsection \<open>Prefixes, suffixes and searches on text\<close>

definition uprefix :: "string \<Rightarrow> utext \<Rightarrow> bool" where
  "uprefix p t = (take (length p) t = chars p)"

definition ustrip_prefix :: "string \<Rightarrow> utext \<Rightarrow> utext option" where
  "ustrip_prefix p t = (if uprefix p t then Some (drop (length p) t) else None)"

definition utrim_end :: "(uchar \<Rightarrow> bool) \<Rightarrow> utext \<Rightarrow> utext" where
  "utrim_end p t = rev (dropWhile p (rev t))"

text \<open>\<^verbatim>\<open>str::trim_start_matches\<close> on a string of two characters: each time it is there.\<close>

fun utrim_start2 :: "uchar \<Rightarrow> uchar \<Rightarrow> utext \<Rightarrow> utext" where
  "utrim_start2 a b (x # y # t) = (if x = a \<and> y = b then utrim_start2 a b t else x # y # t)"
| "utrim_start2 a b t = t"

fun occurs_in :: "utext \<Rightarrow> utext \<Rightarrow> bool" where
  "occurs_in p [] = (p = [])"
| "occurs_in p (c # t) = (take (length p) (c # t) = p \<or> occurs_in p t)"

definition utf8_width :: "uchar \<Rightarrow> nat" where
  "utf8_width c = (if c < 128 then 1 else if c < 2048 then 2 else if c < 65536 then 3 else 4)"

definition utf8_length :: "utext \<Rightarrow> nat" where
  "utf8_length t = sum_list (map utf8_width t)"

text \<open>\<^verbatim>\<open>&s[..n]\<close>: nothing where Rust panics, which is off a character's boundary.\<close>

fun byte_take :: "nat \<Rightarrow> utext \<Rightarrow> utext option" where
  "byte_take 0 t = Some []"
| "byte_take (Suc n) [] = None"
| "byte_take (Suc n) (c # t) =
     (if utf8_width c \<le> Suc n then map_option ((#) c) (byte_take (Suc n - utf8_width c) t) else None)"

text \<open>\<^verbatim>\<open>find\<close> and \<^verbatim>\<open>rfind\<close> of a character, and \<^verbatim>\<open>find\<close> of a text.\<close>

definition ufind :: "uchar \<Rightarrow> utext \<Rightarrow> nat option" where
  "ufind c s = (if c \<in> set s then Some (length (takeWhile (\<lambda>x. x \<noteq> c) s)) else None)"

definition urfind :: "uchar \<Rightarrow> utext \<Rightarrow> nat option" where
  "urfind c s =
     (if c \<in> set s then Some (length s - 1 - length (takeWhile (\<lambda>x. x \<noteq> c) (rev s))) else None)"

fun ufind_text :: "utext \<Rightarrow> utext \<Rightarrow> nat option" where
  "ufind_text p [] = (if p = [] then Some 0 else None)"
| "ufind_text p (c # t) =
     (if take (length p) (c # t) = p then Some 0 else map_option Suc (ufind_text p t))"

subsection \<open>The regular expression\<close>

text \<open>
  Each alternative is anchored at the head of the text; the classes are greedy and nothing follows
  them, so that a match takes all it can. The scheme's \<^verbatim>\<open>s?\<close> takes an \<^verbatim>\<open>s\<close> when there is one.
\<close>

definition url_char :: "'n verify_lib \<Rightarrow> uchar \<Rightarrow> bool" where
  "url_char L c = (\<not> vl_white L c \<and> \<not> one_of c ''<>\",)'' \<and> c \<noteq> 39)"

definition path_char :: "'n verify_lib \<Rightarrow> uchar \<Rightarrow> bool" where
  "path_char L c = (\<not> vl_white L c \<and> \<not> one_of c '',;\"`'' \<and> c \<noteq> 39)"

definition after_marker :: "(uchar \<Rightarrow> bool) \<Rightarrow> string \<Rightarrow> utext \<Rightarrow> nat option" where
  "after_marker ok p t =
     (case ustrip_prefix p t of
        None \<Rightarrow> None
      | Some r \<Rightarrow> (case takeWhile ok r of [] \<Rightarrow> None | w \<Rightarrow> Some (length p + length w)))"

definition or_else_match :: "nat option \<Rightarrow> nat option \<Rightarrow> nat option" where
  "or_else_match a b = (case a of None \<Rightarrow> b | Some n \<Rightarrow> Some n)"

definition url_match :: "'n verify_lib \<Rightarrow> utext \<Rightarrow> nat option" where
  "url_match L t =
     or_else_match (after_marker (url_char L) ''https://'' t) (after_marker (url_char L) ''http://'' t)"

definition path_match :: "'n verify_lib \<Rightarrow> utext \<Rightarrow> nat option" where
  "path_match L t =
     or_else_match (after_marker (path_char L) ''/'' t)
       (or_else_match (after_marker (path_char L) ''./'' t) (after_marker (path_char L) ''~/'' t))"

text \<open>A pattern of digits and given characters, one for each position.\<close>

datatype slot = Digit | OneOf string

fun slot_ok :: "'n verify_lib \<Rightarrow> slot \<Rightarrow> uchar \<Rightarrow> bool" where
  "slot_ok L Digit c = vl_digit L c"
| "slot_ok L (OneOf s) c = one_of c s"

fun fits :: "'n verify_lib \<Rightarrow> slot list \<Rightarrow> utext \<Rightarrow> bool" where
  "fits L [] t = True"
| "fits L (s # ss) [] = False"
| "fits L (s # ss) (c # t) = (slot_ok L s c \<and> fits L ss t)"

definition date_slots :: "slot list" where
  "date_slots =
     [Digit, Digit, Digit, Digit, OneOf ''-'', Digit, Digit, OneOf ''-'', Digit, Digit]"

definition time_slots :: "slot list" where
  "time_slots =
     [OneOf ''T'', Digit, Digit, OneOf '':'', Digit, Digit, OneOf '':'', Digit, Digit]"

definition offset_slots :: "slot list" where
  "offset_slots = [OneOf ''+-'', Digit, Digit, OneOf '':'', Digit, Digit]"

definition ts_match :: "'n verify_lib \<Rightarrow> utext \<Rightarrow> nat option" where
  "ts_match L t =
     (if \<not> fits L date_slots t then None
      else if \<not> fits L time_slots (drop 10 t) then Some 10
      else if fits L [OneOf ''Z''] (drop 19 t) then Some 20
      else if fits L offset_slots (drop 19 t) then Some 25
      else Some 19)"

datatype capture = Url utext | Path utext | Ts utext

fun captured :: "capture \<Rightarrow> utext" where
  "captured (Url t) = t" | "captured (Path t) = t" | "captured (Ts t) = t"

definition match_here :: "'n verify_lib \<Rightarrow> utext \<Rightarrow> (capture \<times> nat) option" where
  "match_here L t =
     (case url_match L t of
        Some n \<Rightarrow> Some (Url (take n t), n)
      | None \<Rightarrow>
          (case path_match L t of
             Some n \<Rightarrow> Some (Path (take n t), n)
           | None \<Rightarrow>
               (case ts_match L t of
                  Some n \<Rightarrow> Some (Ts (take n t), n)
                | None \<Rightarrow> None)))"

text \<open>\<^verbatim>\<open>captures_iter\<close>: leftmost matches that do not overlap, each with its position.\<close>

function captures_from :: "'n verify_lib \<Rightarrow> nat \<Rightarrow> utext \<Rightarrow> (nat \<times> capture) list" where
  "captures_from L p [] = []"
| "captures_from L p (c # t) =
     (case match_here L (c # t) of
        None \<Rightarrow> captures_from L (Suc p) t
      | Some (m, n) \<Rightarrow> (p, m) # captures_from L (p + max 1 n) (drop (max 1 n) (c # t)))"
  by pat_completeness auto
termination captures_from
  by (relation "measure (\<lambda>(L, p, t). length t)") auto

subsection \<open>What is kept of a match\<close>

definition trailing_punct :: "uchar \<Rightarrow> bool" where
  "trailing_punct c = one_of c ''.,;:)]?!''"

definition trim_trailing_punct :: "utext \<Rightarrow> utext" where
  "trim_trailing_punct t = utrim_end trailing_punct t"

definition is_valid_iso_timestamp :: "'n verify_lib \<Rightarrow> utext \<Rightarrow> bool" where
  "is_valid_iso_timestamp L t = (vl_rfc3339 L t \<or> vl_datetime L t \<or> vl_date L t)"

fun kept :: "'n verify_lib \<Rightarrow> capture \<Rightarrow> utext option" where
  "kept L (Url t) = Some (trim_trailing_punct t)"
| "kept L (Path t) =
     (let s = trim_trailing_punct t
      in if utf8_length s \<le> 1 \<or> \<not> (\<exists>c \<in> set (tl s). one_of c ''/.'') then None else Some s)"
| "kept L (Ts t) = (if is_valid_iso_timestamp L t then Some t else None)"

fun first_occurrences :: "'a list \<Rightarrow> 'a list \<Rightarrow> 'a list" where
  "first_occurrences seen [] = []"
| "first_occurrences seen (x # xs) =
     (if x \<in> set seen then first_occurrences seen xs else x # first_occurrences (x # seen) xs)"

definition extract_citations :: "'n verify_lib \<Rightarrow> utext \<Rightarrow> utext list" where
  "extract_citations L t =
     first_occurrences []
       (filter (\<lambda>s. s \<noteq> []) (List.map_filter (\<lambda>(_, m). kept L m) (captures_from L 0 t)))"

subsection \<open>Which citations the tool log justifies\<close>

definition is_url_citation :: "utext \<Rightarrow> bool" where
  "is_url_citation c = (uprefix ''http://'' c \<or> uprefix ''https://'' c)"

definition is_path_citation :: "utext \<Rightarrow> bool" where
  "is_path_citation c = (uprefix ''/'' c \<or> uprefix ''./'' c \<or> uprefix ''~/'' c)"

definition uslash :: uchar where "uslash = 47"

definition url_variants :: "utext \<Rightarrow> utext list" where
  "url_variants c =
     (let trimmed = utrim_end (\<lambda>x. x = uslash) c
      in (if trimmed \<noteq> c then [trimmed] else [c @ [uslash]]) @
         (case ustrip_prefix ''https://'' c of
            Some rest \<Rightarrow> [chars ''http://'' @ rest]
          | None \<Rightarrow> (case ustrip_prefix ''http://'' c of
                        Some rest \<Rightarrow> [chars ''https://'' @ rest]
                      | None \<Rightarrow> [])))"

definition normalize_cited_path :: "utext \<Rightarrow> utext" where
  "normalize_cited_path c =
     utrim_end (\<lambda>x. x = uslash) (utrim_start2 126 uslash (utrim_start2 46 uslash c))"

text \<open>The date prefix is a slice by bytes: nothing when the slice panics.\<close>

definition timestamp_prefixes :: "'n verify_lib \<Rightarrow> utext \<Rightarrow> utext list option" where
  "timestamp_prefixes L c =
     (let stripped = utrim_end (\<lambda>x. one_of x ''+-Z'') (utrim_end (\<lambda>x. ascii_digit x \<or> x = 58) c);
          out = (if utf8_length stripped < utf8_length c \<and> is_valid_iso_timestamp L stripped
                 then [stripped] else [])
      in if utf8_length c \<le> 10 then Some out
         else map_option
           (\<lambda>d. if is_valid_iso_timestamp L d \<and> d \<notin> set out then out @ [d] else out) (byte_take 10 c))"

definition appears_in_haystack :: "'n verify_lib \<Rightarrow> utext \<Rightarrow> utext \<Rightarrow> bool option" where
  "appears_in_haystack L c hay =
     (if occurs_in c hay then Some True
      else if is_url_citation c \<and> (\<exists>v \<in> set (url_variants c). occurs_in v hay) then Some True
      else if is_path_citation c \<and> normalize_cited_path c \<noteq> [] \<and> occurs_in (normalize_cited_path c) hay
        then Some True
      else if is_valid_iso_timestamp L c
        then map_option (\<lambda>ps. \<exists>p \<in> set ps. p \<noteq> [] \<and> occurs_in p hay) (timestamp_prefixes L c)
      else Some False)"

definition vlast_assistant_text :: "'n vmessage list \<Rightarrow> utext option" where
  "vlast_assistant_text h =
     (case filter (\<lambda>m. vm_role m = RAssistant \<and> vm_contents m \<noteq> []) (rev h) of
        [] \<Rightarrow> None
      | m # _ \<Rightarrow>
          (let t = concat (List.map_filter vpart_text (vm_contents m))
           in if t = [] then None else Some t))"

definition build_tool_log_haystack :: "'n verify_lib \<Rightarrow> 'n tool_call list \<Rightarrow> utext" where
  "build_tool_log_haystack L log =
     concat (map (\<lambda>c. args_key L c @ [10] @
       (case tc_result c of None \<Rightarrow> [] | Some r \<Rightarrow> the_default [] (vl_json L r) @ [10])) log)"

text \<open>A filter whose test may panic.\<close>

fun filter_try :: "('a \<Rightarrow> bool option) \<Rightarrow> 'a list \<Rightarrow> 'a list option" where
  "filter_try p [] = Some []"
| "filter_try p (x # xs) =
     (case p x of
        None \<Rightarrow> None
      | Some b \<Rightarrow> map_option (\<lambda>ys. if b then x # ys else ys) (filter_try p xs))"

definition check_citations :: "'n verify_lib \<Rightarrow> 'n vmessage list \<Rightarrow> 'n tool_call list \<Rightarrow> issue list option" where
  "check_citations L h log =
     (case vlast_assistant_text h of
        None \<Rightarrow> Some []
      | Some t \<Rightarrow>
          (let hay = build_tool_log_haystack L log
           in map_option (map UnverifiedCitation)
                (filter_try (\<lambda>c. map_option Not (appears_in_haystack L c hay)) (extract_citations L t))))"

text \<open>\<^verbatim>\<open>verify_run\<close>: the report, or nothing when it panics.\<close>

definition verify_run :: "'n verify_lib \<Rightarrow> 'n vmessage list \<Rightarrow> verify_config \<Rightarrow> issue list option" where
  "verify_run L h cfg =
     (let log = collect_tool_log h
      in map_option
           (\<lambda>cs. check_empty_results L log @ check_loops L (loop_threshold cfg) log
                   @ check_bash_failures L log @ cs)
           (check_citations L h log))"

end
