(* ===== verification/Reflect_Gate.thy ===== *)
theory Reflect_Gate
  imports Verify_Citations
begin

section \<open>The reflect gate\<close>

text \<open>
  \<^verbatim>\<open>src/reflect-agent/src/reflect.rs\<close> and the runs of \<^verbatim>\<open>src/reflect-agent/src/agent.rs\<close>. A verdict
  is read from a judge's reply, and a turn of the agent is judged, perhaps by a second judge, and
  perhaps repeated. The agent, the judges and what they remember are a world that is passed through
  every call; \<^verbatim>\<open>f32\<close> is known by the three tests the code makes; the parser of JSON and the quoting
  of a string (\<^verbatim>\<open>{:?}\<close>) are parameters.
\<close>

subsection \<open>Modes and verdicts\<close>

datatype reflect_mode = ModeOff | ModeForced

fun mode_as_str :: "reflect_mode \<Rightarrow> utext" where
  "mode_as_str ModeOff = chars ''off''"
| "mode_as_str ModeForced = chars ''forced''"

datatype gate_error = UnknownMode utext | GateFailed string | GatePanicked

definition mode_parse :: "utext \<Rightarrow> (gate_error, reflect_mode) res" where
  "mode_parse s =
     (if s = chars ''off'' then Ok ModeOff
      else if s = chars ''forced'' then Ok ModeForced
      else Err (UnknownMode s))"

datatype 'f verdict =
    Stop (vd_rationale: utext) (vd_confidence: "'f option")
  | Retry (vd_rationale: utext) (vd_next: utext) (vd_confidence: "'f option")

fun is_retry :: "'f verdict \<Rightarrow> bool" where
  "is_retry (Retry _ _ _) = True"
| "is_retry (Stop _ _) = False"

record 'f wire_verdict =
  wv_verdict :: utext
  wv_rationale :: utext
  wv_next_query :: utext
  wv_confidence :: "'f option"

record 'f judge_lib =
  jl_white :: "uchar \<Rightarrow> bool"
  jl_wire :: "utext \<Rightarrow> 'f wire_verdict option"
  jl_quote :: "utext \<Rightarrow> utext"
  jl_finite :: "'f \<Rightarrow> bool"
  jl_unit :: "'f \<Rightarrow> bool"
  jl_low :: "'f \<Rightarrow> bool"

definition jtrim :: "'f judge_lib \<Rightarrow> utext \<Rightarrow> utext" where
  "jtrim J s = utrim_with (jl_white J) s"

definition ascii_lower :: "utext \<Rightarrow> utext" where
  "ascii_lower s = map (\<lambda>c. if 65 \<le> c \<and> c \<le> 90 then c + 32 else c) s"

definition trim_or_default :: "'f judge_lib \<Rightarrow> utext \<Rightarrow> utext \<Rightarrow> utext" where
  "trim_or_default J s d = (let t = jtrim J s in if t = [] then d else t)"

definition sanitize_confidence :: "'f judge_lib \<Rightarrow> 'f option \<Rightarrow> 'f option" where
  "sanitize_confidence J c =
     (case c of None \<Rightarrow> None | Some v \<Rightarrow> if jl_finite J v \<and> jl_unit J v then Some v else None)"

definition fallback_stop :: "string \<Rightarrow> 'f verdict" where
  "fallback_stop reason = Stop (chars reason) None"

text \<open>From the first opening brace to the last closing one.\<close>

definition json_block :: "utext \<Rightarrow> utext option" where
  "json_block s =
     (case (ufind 123 s, urfind 125 s) of
        (Some l, Some r) \<Rightarrow> if l < r then Some (take (Suc r - l) (drop l s)) else None
      | _ \<Rightarrow> None)"

definition read_wire :: "'f judge_lib \<Rightarrow> 'f wire_verdict \<Rightarrow> 'f verdict" where
  "read_wire J w =
     (let confidence = sanitize_confidence J (wv_confidence w);
          label = ascii_lower (jtrim J (wv_verdict w))
      in if label = chars ''stop'' then
           Stop (trim_or_default J (wv_rationale w) (chars ''ok'')) confidence
         else if label = chars ''retry'' then
           (let next_query = jtrim J (wv_next_query w)
            in if next_query = [] then
                 Stop (chars ''verifier asked for retry without next_query; coerced to stop (''
                       @ trim_or_default J (wv_rationale w) (chars ''no rationale'') @ chars '')'')
                   confidence
               else Retry (trim_or_default J (wv_rationale w) (chars ''needs another attempt''))
                      next_query confidence)
         else Stop (chars ''unknown verdict '' @ jl_quote J label @ chars ''; coerced to stop'') confidence)"

definition parse_verdict :: "'f judge_lib \<Rightarrow> utext \<Rightarrow> 'f verdict" where
  "parse_verdict J raw =
     (case json_block (jtrim J raw) of
        None \<Rightarrow> fallback_stop ''verifier produced no JSON''
      | Some s \<Rightarrow>
          (case jl_wire J s of
             None \<Rightarrow> fallback_stop ''verifier produced malformed JSON''
           | Some w \<Rightarrow> read_wire J w))"

subsection \<open>The judge's call\<close>

definition user_text :: "'n vpart list \<Rightarrow> 'n vmessage" where
  "user_text ps = \<lparr>vm_role = RUser, vm_id = None, vm_contents = ps, vm_calls = None\<rparr>"

definition collect_assistant_text :: "'n vmessage \<Rightarrow> utext" where
  "collect_assistant_text m = concat (List.map_filter vpart_text (vm_contents m))"

text \<open>
  The world: a turn of the agent gives the outputs of its stream and the error that ended it, if
  one did; a judge, named by its model, gives a message or an error.
\<close>

record ('w, 'n, 'o, 'f) gate_lib =
  gl_turn :: "'w \<Rightarrow> 'n vmessage \<Rightarrow> 'w \<times> 'o list \<times> string option"
  gl_history :: "'w \<Rightarrow> 'n vmessage list"
  gl_judge :: "'w \<Rightarrow> string \<Rightarrow> 'n vmessage list \<Rightarrow> 'w \<times> (string, 'n vmessage) res"
  gl_verify :: "'n verify_lib"
  gl_lib :: "'f judge_lib"

definition hint_lines :: "utext list \<Rightarrow> utext" where
  "hint_lines hints = concat (map (\<lambda>h. chars ''- '' @ h @ [10]) hints)"

definition reflect_text :: "'f judge_lib \<Rightarrow> utext \<Rightarrow> utext list \<Rightarrow> utext" where
  "reflect_text J draft hints =
     (if hints = [] then chars ''Draft answer to verify:'' @ [10, 10] @ draft
      else chars ''A deterministic pre-checker has already flagged the following potential issues with this turn ''
        @ [8212] @ chars '' weigh them when judging the draft, but remember they can be false positives (e.g. when the user explicitly asked for a failing command). Use them as inputs, not verdicts.''
        @ [10, 10] @ chars ''Verifier flags:'' @ [10] @ utrim_end (jl_white J) (hint_lines hints)
        @ [10] @ chars ''Draft answer to verify:'' @ [10, 10] @ draft)"

definition reflect_call ::
  "('w, 'n, 'o, 'f) gate_lib \<Rightarrow> 'n vmessage \<Rightarrow> 'w \<Rightarrow> string \<Rightarrow> utext \<Rightarrow> utext list
    \<Rightarrow> 'w \<times> (gate_error, 'f verdict) res" where
  "reflect_call G sys w model draft hints =
     (case gl_judge G w model [sys, user_text [VText (reflect_text (gl_lib G) draft hints)]] of
        (w', Inl e) \<Rightarrow> (w', Err (GateFailed e))
      | (w', Inr m) \<Rightarrow> (w', Ok (parse_verdict (gl_lib G) (collect_assistant_text m))))"

subsection \<open>Runs\<close>

text \<open>\<^verbatim>\<open>&history[before..]\<close>, nothing where it panics, and the report over it.\<close>

definition since :: "nat \<Rightarrow> 'a list \<Rightarrow> 'a list option" where
  "since n xs = (if n \<le> length xs then Some (drop n xs) else None)"

definition report_since ::
  "('w, 'n, 'o, 'f) gate_lib \<Rightarrow> nat \<Rightarrow> verify_config \<Rightarrow> 'w \<Rightarrow> issue list option" where
  "report_since G before cfg w =
     (case since before (gl_history G w) of None \<Rightarrow> None | Some h \<Rightarrow> verify_run (gl_verify G) h cfg)"

definition run_with_verify ::
  "('w, 'n, 'o, 'f) gate_lib \<Rightarrow> 'w \<Rightarrow> 'n vmessage \<Rightarrow> verify_config
    \<Rightarrow> 'w \<times> (gate_error, 'o list \<times> issue list) res" where
  "run_with_verify G w query cfg =
     (let before = length (gl_history G w) in
      case gl_turn G w query of
        (w', outs, Some e) \<Rightarrow> (w', Err (GateFailed e))
      | (w', outs, None) \<Rightarrow>
          (w', case report_since G before cfg w' of
                 None \<Rightarrow> Err GatePanicked
               | Some r \<Rightarrow> Ok (outs, r)))"

definition RETRY_BUDGET :: nat where "RETRY_BUDGET = 1"

record ('o, 'f) gate_state =
  gs_outputs :: "'o list"
  gs_verdicts :: "'f verdict list"
  gs_retry_count :: nat
  gs_escalations :: nat

text \<open>
  The verdict on a draft: the first judge's, unless that is a stop whose stated confidence is low
  and the second judge's is a stop too. The state gets the verdicts and the escalation.
\<close>

definition judge_draft ::
  "('w, 'n, 'o, 'f) gate_lib \<Rightarrow> 'n vmessage \<Rightarrow> string \<Rightarrow> string \<Rightarrow> utext \<Rightarrow> 'w
    \<Rightarrow> ('o, 'f) gate_state \<Rightarrow> 'w \<times> (gate_error, 'f verdict \<times> ('o, 'f) gate_state) res" where
  "judge_draft G sys reflect_model escalate_model draft w s =
     (case reflect_call G sys w reflect_model draft [] of
        (w1, Inl e) \<Rightarrow> (w1, Err e)
      | (w1, Inr v) \<Rightarrow>
          (let s1 = s\<lparr>gs_verdicts := gs_verdicts s @ [v]\<rparr> in
           case v of
             Stop _ (Some c) \<Rightarrow>
               (if jl_low (gl_lib G) c then
                  (let s2 = s1\<lparr>gs_escalations := gs_escalations s1 + 1\<rparr> in
                   case reflect_call G sys w1 escalate_model draft [] of
                     (w2, Inl e) \<Rightarrow> (w2, Err e)
                   | (w2, Inr strong) \<Rightarrow>
                       (w2, Ok (if is_retry strong then v else strong,
                                s2\<lparr>gs_verdicts := gs_verdicts s2 @ [strong]\<rparr>)))
                else (w1, Ok (v, s1)))
           | _ \<Rightarrow> (w1, Ok (v, s1))))"

function forced_loop ::
  "('w, 'n, 'o, 'f) gate_lib \<Rightarrow> 'n vmessage \<Rightarrow> string \<Rightarrow> string \<Rightarrow> nat \<Rightarrow> 'n vmessage \<Rightarrow> 'w
    \<Rightarrow> ('o, 'f) gate_state \<Rightarrow> 'w \<times> (gate_error, ('o, 'f) gate_state) res" where
  "forced_loop G sys rm em before query w s =
     (case gl_turn G w query of
        (w1, outs, Some e) \<Rightarrow> (w1, Err (GateFailed e))
      | (w1, outs, None) \<Rightarrow>
          (let s1 = s\<lparr>gs_outputs := gs_outputs s @ outs\<rparr> in
           case since before (gl_history G w1) of
             None \<Rightarrow> (w1, Err GatePanicked)
           | Some h \<Rightarrow>
               (case vlast_assistant_text h of
                  None \<Rightarrow> (w1, Ok s1)
                | Some draft \<Rightarrow>
                    (case judge_draft G sys rm em draft w1 s1 of
                       (w2, Inl e) \<Rightarrow> (w2, Err e)
                     | (w2, Inr (Stop _ _, s2)) \<Rightarrow> (w2, Ok s2)
                     | (w2, Inr (Retry _ nq _, s2)) \<Rightarrow>
                         (if RETRY_BUDGET \<le> gs_retry_count s then (w2, Ok s2)
                          else forced_loop G sys rm em before (user_text [VText nq]) w2
                                 (s2\<lparr>gs_retry_count := gs_retry_count s + 1\<rparr>))))))"
  by pat_completeness auto
termination forced_loop
  by (relation "measure (\<lambda>(G, sys, rm, em, before, query, w, s). RETRY_BUDGET - gs_retry_count s)") auto

declare forced_loop.simps [simp del]

definition run_with_forced_reflect ::
  "('w, 'n, 'o, 'f) gate_lib \<Rightarrow> 'n vmessage \<Rightarrow> 'w \<Rightarrow> 'n vmessage \<Rightarrow> verify_config \<Rightarrow> string \<Rightarrow> string
    \<Rightarrow> 'w \<times> (gate_error, ('o, 'f) gate_state \<times> issue list) res" where
  "run_with_forced_reflect G sys w query cfg rm em =
     (let before = length (gl_history G w) in
      case forced_loop G sys rm em before query w
             \<lparr>gs_outputs = [], gs_verdicts = [], gs_retry_count = 0, gs_escalations = 0\<rparr> of
        (w', Inl e) \<Rightarrow> (w', Err e)
      | (w', Inr s) \<Rightarrow>
          (w', case report_since G before cfg w' of
                 None \<Rightarrow> Err GatePanicked
               | Some r \<Rightarrow> Ok (s, r)))"

end
