(* ===== verification/Verify_Properties.thy ===== *)
theory Verify_Properties
  imports Verify_Citations
begin

section \<open>What the verify pass reports\<close>

text \<open>
  The tool log in terms of the history it is read from; the count of the loop check; the leftmost
  matches of the regular expression; and the exact meaning of every issue of a report.
\<close>

subsection \<open>The tool log\<close>

definition turn_calls :: "'n vmessage list \<Rightarrow> (utext \<times> utext \<times> 'n jvalue) list" where
  "turn_calls h = concat (map message_calls h)"

text \<open>The last answer to a call id, and the last call under it.\<close>

definition answer_to :: "'n vmessage list \<Rightarrow> utext \<Rightarrow> 'n jvalue option" where
  "answer_to h i = map_of (rev (List.map_filter message_answer h)) i"

definition last_call :: "'n vmessage list \<Rightarrow> utext \<Rightarrow> utext \<times> 'n jvalue" where
  "last_call h i = the (map_of (rev (turn_calls h)) i)"

definition logged_call :: "'n vmessage list \<Rightarrow> utext \<Rightarrow> 'n tool_call" where
  "logged_call h i =
     \<lparr>tc_name = fst (last_call h i), tc_args = snd (last_call h i), tc_result = answer_to h i\<rparr>"

definition turn_ids :: "'n vmessage list \<Rightarrow> utext list" where
  "turn_ids h = first_occurrences [] (map fst (turn_calls h))"

lemma first_occurrences_set: "set (first_occurrences seen xs) = set xs - set seen"
  by (induction xs arbitrary: seen) auto

lemma first_occurrences_distinct: "distinct (first_occurrences seen xs)"
  by (induction xs arbitrary: seen) (auto simp: first_occurrences_set)

lemma first_occurrences_id:
  "distinct xs \<Longrightarrow> set xs \<inter> set seen = {} \<Longrightarrow> first_occurrences seen xs = xs"
  by (induction xs arbitrary: seen) auto

lemma turn_ids_distinct: "distinct (map fst (turn_calls h)) \<Longrightarrow> turn_ids h = map fst (turn_calls h)"
  by (simp add: turn_ids_def first_occurrences_id)

lemma record_call_step:
  "record_call (i, n, a) (m, is) =
     (m(i \<mapsto> \<lparr>tc_name = n, tc_args = a, tc_result = None\<rparr>), is @ [i])"
  by (simp add: record_call_def)

lemma record_calls:
  "fold record_call cs (m, is) =
     (\<lambda>i. case map_of (rev cs) i of
            Some na \<Rightarrow> Some \<lparr>tc_name = fst na, tc_args = snd na, tc_result = None\<rparr>
          | None \<Rightarrow> m i,
      is @ map fst cs)"
proof (induction cs arbitrary: m "is")
  case (Cons c cs)
  obtain i n a where c: "c = (i, n, a)" by (cases c)
  show ?case
    by (auto simp: c Cons.IH record_call_step fun_eq_iff map_add_def split: option.splits)
qed (simp add: fun_eq_iff)

lemma record_answer_step:
  "record_answer (i, v) m =
     (case m i of None \<Rightarrow> m | Some c \<Rightarrow> m(i \<mapsto> c\<lparr>tc_result := Some v\<rparr>))"
  by (simp add: record_answer_def)

lemma record_answers:
  "fold record_answer as m i =
     (case m i of
        None \<Rightarrow> None
      | Some c \<Rightarrow> Some (case map_of (rev as) i of None \<Rightarrow> c | Some v \<Rightarrow> c\<lparr>tc_result := Some v\<rparr>))"
proof (induction as arbitrary: m)
  case (Cons a as)
  obtain j v where a: "a = (j, v)" by (cases a)
  show ?case
    by (auto simp: a Cons.IH record_answer_step map_add_def split: option.splits)
qed (auto split: option.splits)

lemma take_entries_map:
  "set is \<subseteq> dom m \<Longrightarrow>
    take_entries is (m |` (- set seen)) = map (\<lambda>i. the (m i)) (first_occurrences seen is)"
proof (induction "is" arbitrary: seen)
  case (Cons i "is")
  show ?case
  proof (cases "i \<in> set seen")
    case True
    with Cons show ?thesis by simp
  next
    case False
    from Cons.prems obtain c where c: "m i = Some c" by auto
    have "(m |` (- set seen))(i := None) = m |` (- set (i # seen))"
      by (auto simp: restrict_map_def fun_eq_iff)
    with Cons.IH [of "i # seen"] Cons.prems False c show ?thesis by simp
  qed
qed simp

text \<open>One entry for each call id, in the order of their first calls.\<close>

lemma collect_tool_log_exact: "collect_tool_log h = map (logged_call h) (turn_ids h)"
proof -
  let ?m = "answers_pass h (fst (calls_pass h))"
  have order: "snd (calls_pass h) = map fst (turn_calls h)"
    by (simp add: calls_pass_def record_calls turn_calls_def)
  have entry: "?m i = Some (logged_call h i)" if i: "i \<in> fst ` set (turn_calls h)" for i
  proof -
    from i obtain na where "map_of (rev (turn_calls h)) i = Some na"
      by (metis image_set map_of_eq_None_iff not_None_eq rev_map set_rev)
    then show ?thesis
      by (auto simp: answers_pass_def calls_pass_def record_calls record_answers logged_call_def
          last_call_def answer_to_def turn_calls_def split: option.splits)
  qed
  have "set (map fst (turn_calls h)) \<subseteq> dom ?m" using entry by auto
  from take_entries_map [OF this, of "[]"]
  have "collect_tool_log h = map (\<lambda>i. the (?m i)) (turn_ids h)"
    by (simp add: collect_tool_log_def case_prod_beta order turn_ids_def restrict_map_def)
  also have "\<dots> = map (logged_call h) (turn_ids h)"
    by (intro map_cong refl) (auto simp: turn_ids_def first_occurrences_set entry)
  finally show ?thesis .
qed

subsection \<open>Counting calls\<close>

lemma count_in_keys: "fst ` set (count_in k es) = insert k (fst ` set es)"
proof (induction es)
  case (Cons e es)
  obtain k' n where "e = (k', n)" by (cases e)
  with Cons show ?case by (cases "k' = k") auto
qed simp

lemma count_in_distinct: "distinct (map fst es) \<Longrightarrow> distinct (map fst (count_in k es))"
proof (induction es)
  case (Cons e es)
  then show ?case
    by (cases e) (auto simp: count_in_keys)
qed simp

lemma count_in_map_of:
  "map_of (count_in k es) k' =
     (if k' = k then Some (the_default 0 (map_of es k) + 1) else map_of es k')"
  by (induction es) auto

lemma counts_fold:
  "distinct (map fst es) \<Longrightarrow>
    distinct (map fst (fold count_in ks es)) \<and>
    (\<forall>k. map_of (fold count_in ks es) k =
       (if k \<in> set ks then Some (the_default 0 (map_of es k) + count_list ks k) else map_of es k))"
proof (induction ks arbitrary: es)
  case (Cons x ks)
  from Cons.IH [OF count_in_distinct [OF Cons.prems, of x]] show ?case
    by (auto simp: count_in_map_of)
qed simp

lemma counts_exact:
  "(k, n) \<in> set (fold count_in ks []) \<longleftrightarrow> k \<in> set ks \<and> n = count_list ks k"
proof -
  from counts_fold [of "[]" ks] have "distinct (map fst (fold count_in ks []))"
    and "map_of (fold count_in ks []) k = (if k \<in> set ks then Some (count_list ks k) else None)"
    by auto
  then show ?thesis by (metis map_of_eq_Some_iff option.distinct(1) option.inject)
qed

lemma check_loops_exact:
  assumes order: "\<And>es. mset (vl_hash_order L es) = mset es"
  shows "i \<in> set (check_loops L k log) \<longleftrightarrow>
    (\<exists>c \<in> set log. i = LoopDetected (tc_name c)
        (length (filter (\<lambda>d. tc_name d = tc_name c \<and> args_key L d = args_key L c) log)) k \<and>
      k \<le> length (filter (\<lambda>d. tc_name d = tc_name c \<and> args_key L d = args_key L c) log))"
proof -
  let ?key = "\<lambda>c. (tc_name c, args_key L c)"
  have cnt: "count_list (map ?key log) (?key c) =
      length (filter (\<lambda>d. tc_name d = tc_name c \<and> args_key L d = args_key L c) log)" for c
    by (induction log) auto
  have "set (vl_hash_order L es) = set es" for es
    by (rule mset_eq_setD) (rule order)
  then have "i \<in> set (check_loops L k log) \<longleftrightarrow>
      (\<exists>x n. (x, n) \<in> set (fold count_in (map ?key log) []) \<and> k \<le> n \<and> i = LoopDetected (fst x) n k)"
    unfolding check_loops_def set_map set_filter
    by (simp add: image_iff case_prod_beta Bex_def)
  also have "\<dots> \<longleftrightarrow> (\<exists>c \<in> set log. i = LoopDetected (tc_name c) (count_list (map ?key log) (?key c)) k
      \<and> k \<le> count_list (map ?key log) (?key c))"
    by (auto simp: counts_exact)
  finally show ?thesis by (simp only: cnt)
qed

subsection \<open>Leftmost matches\<close>

lemma fits_length: "fits L ss t \<Longrightarrow> length ss \<le> length t"
  by (induction L ss t rule: fits.induct) auto

lemma uprefix_length: "uprefix p t \<Longrightarrow> length p \<le> length t"
  by (metis chars_def length_map length_take min.cobounded1 min.commute uprefix_def)

lemma after_marker_bounds: "after_marker ok p t = Some n \<Longrightarrow> 1 \<le> n \<and> n \<le> length t"
proof -
  assume m: "after_marker ok p t = Some n"
  then have p: "uprefix p t" and n: "n = length p + length (takeWhile ok (drop (length p) t))"
    and "takeWhile ok (drop (length p) t) \<noteq> []"
    by (auto simp: after_marker_def ustrip_prefix_def split: option.splits if_splits list.splits)
  moreover have "length (takeWhile ok (drop (length p) t)) \<le> length t - length p"
    by (metis length_drop length_takeWhile_le)
  ultimately show ?thesis using uprefix_length [OF p] by (cases "takeWhile ok (drop (length p) t)") auto
qed

lemma ts_match_bounds: "ts_match L t = Some n \<Longrightarrow> 10 \<le> n \<and> n \<le> length t"
  by (auto simp: ts_match_def date_slots_def time_slots_def offset_slots_def
      dest!: fits_length split: if_splits)

lemma match_here_bounds:
  "match_here L t = Some (m, n) \<Longrightarrow> 1 \<le> n \<and> n \<le> length t \<and> captured m = take n t"
  by (auto simp: match_here_def url_match_def path_match_def or_else_match_def
      split: option.splits dest: after_marker_bounds ts_match_bounds)

lemma captures_sound:
  "(q, m) \<in> set (captures_from L p t) \<Longrightarrow>
    \<exists>k n. q = p + k \<and> k < length t \<and> match_here L (drop k t) = Some (m, n)"
proof (induction L p t rule: captures_from.induct)
  case (2 L p c t)
  show ?case
  proof (cases "match_here L (c # t)")
    case None
    with 2 obtain k n where "q = Suc p + k" "k < length t" "match_here L (drop k t) = Some (m, n)"
      by fastforce
    then show ?thesis by - (rule exI [of _ "Suc k"], auto)
  next
    case (Some x)
    obtain m' n' where x: "x = (m', n')" by (cases x)
    show ?thesis
    proof (cases "(q, m) = (p, m')")
      case True
      then show ?thesis using Some x by - (rule exI [of _ 0], auto)
    next
      case False
      with 2 Some x obtain k n where k: "q = p + max 1 n' + k" "k < length (drop (max 1 n') (c # t))"
          "match_here L (drop k (drop (max 1 n') (c # t))) = Some (m, n)"
        by fastforce
      then show ?thesis by - (rule exI [of _ "max 1 n' + k"], auto simp: add.commute)
    qed
  qed
qed simp

lemma captures_complete:
  "k < length t \<Longrightarrow> match_here L (drop k t) = Some (m, n) \<Longrightarrow>
    (\<And>j m' n'. j < k \<Longrightarrow> match_here L (drop j t) = Some (m', n') \<Longrightarrow> j + n' \<le> k) \<Longrightarrow>
    (p + k, m) \<in> set (captures_from L p t)"
proof (induction L p t arbitrary: k rule: captures_from.induct)
  case (2 L p c t)
  show ?case
  proof (cases k)
    case 0
    with 2 show ?thesis by simp
  next
    case (Suc k')
    show ?thesis
    proof (cases "match_here L (c # t)")
      case None
      have "(Suc p + k', m) \<in> set (captures_from L (Suc p) t)"
        using 2(1) [OF None] "2.prems" Suc by (metis Suc_less_eq Suc_le_mono add_Suc drop_Suc_Cons length_Cons)
      with None Suc show ?thesis by simp
    next
      case (Some x)
      obtain m' n' where x: "x = (m', n')" by (cases x)
      have n': "1 \<le> n'" "n' \<le> k"
        using match_here_bounds Some x "2.prems"(3) [of 0 m' n'] Suc by fastforce+
      let ?t = "drop n' (c # t)"
      have "(p + n' + (k - n'), m) \<in> set (captures_from L (p + n') ?t)"
      proof (rule 2(2) [OF Some x [symmetric], simplified max_absorb2 [OF n'(1)]])
        show "k - n' < length ?t" using "2.prems"(1) n'(2) by (simp del: drop_Cons)
        show "match_here L (drop (k - n') ?t) = Some (m, n)"
          using "2.prems"(2) n'(2) by (simp del: drop_Cons add: drop_drop)
        fix j m'' n'' assume "j < k - n'" "match_here L (drop j ?t) = Some (m'', n'')"
        then have "j + n' + n'' \<le> k"
          using "2.prems"(3) [of "j + n'" m'' n''] by (simp del: drop_Cons add: drop_drop)
        then show "j + n'' \<le> k - n'" by simp
      qed
      with Some x n' show ?thesis by (simp add: max_absorb2)
    qed
  qed
qed simp

subsection \<open>Citations are pieces of the text, and reading them never panics\<close>

lemma occurs_in_iff: "occurs_in p t \<longleftrightarrow> (\<exists>a b. t = a @ p @ b)"
proof (induction p t rule: occurs_in.induct)
  case (2 p c t)
  have "take (length p) (c # t) = p \<longleftrightarrow> (\<exists>b. c # t = p @ b)"
    by (metis append_eq_conv_conj append_take_drop_id)
  moreover have "(\<exists>a b. c # t = a @ p @ b) \<longleftrightarrow> (\<exists>b. c # t = p @ b) \<or> (\<exists>a b. t = a @ p @ b)"
    by (metis append_Cons append_Nil list.exhaust list.sel(3))
  ultimately show ?case using 2 by simp
qed simp

lemma occurs_in_infix: "occurs_in c x \<Longrightarrow> occurs_in c (a @ x @ b)"
  unfolding occurs_in_iff by (metis append.assoc)

lemma utrim_end_prefix: "\<exists>r. t = utrim_end p t @ r"
proof -
  have "t = rev (dropWhile p (rev t)) @ rev (takeWhile p (rev t))"
    by (metis rev_append rev_rev_ident takeWhile_dropWhile_id)
  then show ?thesis unfolding utrim_end_def by metis
qed

lemma kept_prefix: "kept L m = Some c \<Longrightarrow> \<exists>r. captured m = c @ r"
  using utrim_end_prefix
  by (cases m) (auto simp: trim_trailing_punct_def Let_def split: if_splits)

lemma extracted:
  "c \<in> set (extract_citations L t) \<longleftrightarrow>
    c \<noteq> [] \<and> (\<exists>q m. (q, m) \<in> set (captures_from L 0 t) \<and> kept L m = Some c)"
  by (force simp: extract_citations_def first_occurrences_set in_map_filter)

lemma extracted_piece:
  assumes "c \<in> set (extract_citations L t)"
  shows "\<exists>m n r k. match_here L (drop k t) = Some (m, n) \<and> captured m = c @ r \<and> occurs_in c t"
proof -
  from assms obtain q m where "(q, m) \<in> set (captures_from L 0 t)" and k: "kept L m = Some c"
    by (auto simp: extracted)
  from captures_sound [OF this(1)] obtain n k' where m: "match_here L (drop k' t) = Some (m, n)" by auto
  from kept_prefix [OF k] obtain r where r: "captured m = c @ r" by auto
  from match_here_bounds [OF m] r have "drop k' t = (c @ r) @ drop n (drop k' t)"
    by (metis append_take_drop_id)
  then have "t = take k' t @ c @ r @ drop n (drop k' t)"
    by (metis append.assoc append_take_drop_id)
  then have "occurs_in c t" unfolding occurs_in_iff by blast
  with m r show ?thesis by blast
qed

text \<open>The characters of a match are ASCII or not white space.\<close>

definition plain :: "'n verify_lib \<Rightarrow> uchar \<Rightarrow> bool" where
  "plain L c = (c < 128 \<or> \<not> vl_white L c)"

lemma chars_ascii: "\<forall>c \<in> set p. of_char c < (128 :: nat) \<Longrightarrow> c \<in> set (chars p) \<Longrightarrow> c < 128"
  by (auto simp: chars_def)

lemma after_marker_plain:
  assumes "after_marker ok p t = Some n" and "\<And>c. ok c \<Longrightarrow> plain L c"
    and "\<forall>c \<in> set p. of_char c < (128 :: nat)"
  shows "\<forall>c \<in> set (take n t). plain L c"
proof -
  let ?w = "takeWhile ok (drop (length p) t)"
  from assms(1) have p: "take (length p) t = chars p" and n: "n = length p + length ?w"
    by (auto simp: after_marker_def ustrip_prefix_def uprefix_def
        split: option.splits if_splits list.splits)
  have "take n t = take (length p) t @ take (length ?w) (drop (length p) t)"
    by (simp add: n take_add)
  also have "take (length ?w) (drop (length p) t) = ?w"
    by (metis takeWhile_eq_take)
  finally show ?thesis
    using assms(2) chars_ascii [OF assms(3)] by (auto simp: p plain_def dest: set_takeWhileD)
qed

fun ascii_slot :: "slot \<Rightarrow> bool" where
  "ascii_slot Digit = True"
| "ascii_slot (OneOf s) = (\<forall>c \<in> set s. of_char c < (128 :: nat))"

lemma slot_plain:
  "slot_ok L s c \<Longrightarrow> ascii_slot s \<Longrightarrow> (\<And>c. vl_digit L c \<Longrightarrow> \<not> vl_white L c) \<Longrightarrow> plain L c"
  by (cases s) (auto simp: plain_def one_of_def dest: chars_ascii)

lemma fits_plain:
  "fits L ss t \<Longrightarrow> list_all ascii_slot ss \<Longrightarrow> (\<And>c. vl_digit L c \<Longrightarrow> \<not> vl_white L c) \<Longrightarrow>
    length ss = n \<Longrightarrow> \<forall>c \<in> set (take n t). plain L c"
proof (induction L ss t arbitrary: n rule: fits.induct)
  case (3 L s ss c t)
  from 3 have "plain L c" using slot_plain [of L s c] by simp
  with 3 show ?case by auto
qed auto

lemma slots_ascii:
  "list_all ascii_slot date_slots" "list_all ascii_slot time_slots" "list_all ascii_slot offset_slots"
  "list_all ascii_slot [OneOf ''Z'']"
  "length date_slots = 10" "length time_slots = 9" "length offset_slots = 6"
  by (simp_all add: date_slots_def time_slots_def offset_slots_def)

lemma ts_match_plain:
  assumes m: "ts_match L t = Some n" and digit: "\<And>c. vl_digit L c \<Longrightarrow> \<not> vl_white L c"
  shows "\<forall>c \<in> set (take n t). plain L c"
proof -
  have date: "fits L date_slots t \<Longrightarrow> \<forall>c \<in> set (take 10 t). plain L c"
    by (rule fits_plain [OF _ slots_ascii(1) digit slots_ascii(5)])
  have time: "fits L time_slots t' \<Longrightarrow> \<forall>c \<in> set (take 9 t'). plain L c" for t'
    by (rule fits_plain [OF _ slots_ascii(2) digit slots_ascii(6)])
  have off: "fits L offset_slots t' \<Longrightarrow> \<forall>c \<in> set (take 6 t'). plain L c" for t'
    by (rule fits_plain [OF _ slots_ascii(3) digit slots_ascii(7)])
  have z: "fits L [OneOf ''Z''] t' \<Longrightarrow> \<forall>c \<in> set (take 1 t'). plain L c" for t'
    by (rule fits_plain [OF _ slots_ascii(4) digit]) simp_all
  have split: "set (take 19 t) = set (take 10 t) \<union> set (take 9 (drop 10 t))"
      "set (take 20 t) = set (take 19 t) \<union> set (take 1 (drop 19 t))"
      "set (take 25 t) = set (take 19 t) \<union> set (take 6 (drop 19 t))"
    by (simp_all flip: set_append take_add)
  from m consider "n = 10" "fits L date_slots t"
    | "n = 20" "fits L date_slots t" "fits L time_slots (drop 10 t)" "fits L [OneOf ''Z''] (drop 19 t)"
    | "n = 25" "fits L date_slots t" "fits L time_slots (drop 10 t)" "fits L offset_slots (drop 19 t)"
    | "n = 19" "fits L date_slots t" "fits L time_slots (drop 10 t)"
    by (auto simp: ts_match_def split: if_splits)
  then show ?thesis
    by cases (simp_all only: split ball_Un, (intro conjI date time off z; assumption)+)
qed

lemma match_here_plain:
  assumes "match_here L t = Some (m, n)" and "\<And>c. vl_digit L c \<Longrightarrow> \<not> vl_white L c"
  shows "\<forall>c \<in> set (captured m). plain L c"
proof -
  note after = after_marker_plain [where L = L]
  show ?thesis
    using assms(1) ts_match_plain [OF _ assms(2), of t]
    by (auto simp: match_here_def url_match_def path_match_def or_else_match_def
        dest!: after split: option.splits)
      (auto simp: url_char_def path_char_def plain_def)
qed

lemma byte_take_ascii:
  "\<forall>c \<in> set t. c < 128 \<Longrightarrow> n \<le> length t \<Longrightarrow> byte_take n t = Some (take n t)"
  by (induction n t rule: byte_take.induct) (auto simp: utf8_width_def)

lemma utf8_length_ascii: "\<forall>c \<in> set t. c < 128 \<Longrightarrow> utf8_length t = length t"
  by (induction t) (auto simp: utf8_length_def utf8_width_def)

lemma plain_timestamp_ascii:
  assumes "is_valid_iso_timestamp L c" and "\<forall>x \<in> set c. plain L x"
    and "\<And>t. is_valid_iso_timestamp L t \<Longrightarrow> \<forall>x \<in> set t. x < 128 \<or> vl_white L x"
  shows "\<forall>x \<in> set c. x < 128"
  using assms by (force simp: plain_def)

lemma appears_total:
  assumes c: "c \<in> set (extract_citations L t)"
    and chrono: "\<And>t. is_valid_iso_timestamp L t \<Longrightarrow> \<forall>x \<in> set t. x < 128 \<or> vl_white L x"
    and digit: "\<And>x. vl_digit L x \<Longrightarrow> \<not> vl_white L x"
  shows "appears_in_haystack L c hay \<noteq> None"
proof (cases "is_valid_iso_timestamp L c \<and> 10 < utf8_length c")
  case True
  from extracted_piece [OF c] obtain m n r k
    where "match_here L (drop k t) = Some (m, n)" "captured m = c @ r" by blast
  with match_here_plain [OF _ digit] have "\<forall>x \<in> set c. plain L x"
    by (metis Un_iff set_append)
  then have a: "\<forall>x \<in> set c. x < 128" using True chrono by (intro plain_timestamp_ascii) auto
  with True have "byte_take 10 c = Some (take 10 c)"
    by (simp add: byte_take_ascii utf8_length_ascii)
  then have "timestamp_prefixes L c \<noteq> None" by (simp add: timestamp_prefixes_def Let_def)
  then show ?thesis by (auto simp: appears_in_haystack_def)
next
  case False
  then show ?thesis by (auto simp: appears_in_haystack_def timestamp_prefixes_def Let_def)
qed

lemma filter_try_total:
  "(\<And>x. x \<in> set xs \<Longrightarrow> p x \<noteq> None) \<Longrightarrow>
    filter_try p xs = Some (filter (\<lambda>x. p x = Some True) xs)"
  by (induction xs) (auto split: option.splits)

lemma check_citations_total:
  assumes "\<And>t. is_valid_iso_timestamp L t \<Longrightarrow> \<forall>x \<in> set t. x < 128 \<or> vl_white L x"
    and "\<And>x. vl_digit L x \<Longrightarrow> \<not> vl_white L x"
  shows "check_citations L h log =
    Some (case vlast_assistant_text h of
      None \<Rightarrow> []
    | Some t \<Rightarrow> map UnverifiedCitation (filter (\<lambda>c. appears_in_haystack L c
        (build_tool_log_haystack L log) = Some False) (extract_citations L t)))"
proof (cases "vlast_assistant_text h")
  case (Some t)
  let ?hay = "build_tool_log_haystack L log"
  have neg: "map_option Not x = Some True \<longleftrightarrow> x = Some False" for x
    by (cases x) auto
  have "filter_try (\<lambda>c. map_option Not (appears_in_haystack L c ?hay)) (extract_citations L t) =
      Some (filter (\<lambda>c. map_option Not (appears_in_haystack L c ?hay) = Some True) (extract_citations L t))"
    by (rule filter_try_total) (simp add: appears_total [OF _ assms])
  then have "filter_try (\<lambda>c. map_option Not (appears_in_haystack L c ?hay)) (extract_citations L t) =
      Some (filter (\<lambda>c. appears_in_haystack L c ?hay = Some False) (extract_citations L t))"
    by (simp only: neg)
  with Some show ?thesis by (simp add: check_citations_def Let_def)
qed (simp add: check_citations_def)

lemma occurs_in_haystack:
  assumes "d \<in> set log"
    and "occurs_in c (args_key L d) \<or>
      (\<exists>v. tc_result d = Some v \<and> occurs_in c (the_default [] (vl_json L v)))"
  shows "occurs_in c (build_tool_log_haystack L log)"
proof -
  define part where "part = (\<lambda>c. args_key L c @ [10] @
       (case tc_result c of None \<Rightarrow> [] | Some r \<Rightarrow> the_default [] (vl_json L r) @ [10]))"
  have "occurs_in c (part d)"
    using assms(2) occurs_in_infix [of c _ "[]"] occurs_in_infix [of c _ "args_key L d @ [10]" "[10]"]
    by (auto simp: part_def)
  moreover from assms(1) obtain xs ys where "log = xs @ d # ys" by (auto dest: split_list)
  ultimately show ?thesis
    using occurs_in_infix [of c "part d" "concat (map part xs)" "concat (map part ys)"]
    by (simp add: build_tool_log_haystack_def part_def)
qed

subsection \<open>The report\<close>

lemma tool_log_of_distinct:
  assumes "distinct (map fst (turn_calls h))"
  shows "collect_tool_log h =
    map (\<lambda>(i, n, a). \<lparr>tc_name = n, tc_args = a, tc_result = answer_to h i\<rparr>) (turn_calls h)"
proof -
  have "last_call h i = (n, a)" if "(i, n, a) \<in> set (turn_calls h)" for i n a
    using that assms by (simp add: last_call_def rev_map [symmetric] distinct_rev flip: rev_map)
  then show ?thesis
    by (auto simp: collect_tool_log_exact turn_ids_distinct [OF assms] logged_call_def)
qed

text \<open>
  Two calls under one id are one call: a loop of three calls whose ids repeat is not seen.
\<close>

lemma repeated_id_is_one_call:
  "turn_calls h = [(i, n, a), (i, n, a), (i, n, a)] \<Longrightarrow> length (collect_tool_log h) = 1"
  by (simp add: collect_tool_log_exact turn_ids_def)

text \<open>A date is justified by a tool's precise instant of that day: it is a piece of it.\<close>

lemma vague_date_is_justified:
  "appears_in_haystack L d (pre @ d @ chars ''T10:30:00'' @ post) = Some True"
  by (simp add: appears_in_haystack_def occurs_in_iff) blast

text \<open>The bare home directory, which the gate's comment excludes, is kept as a citation.\<close>

lemma bare_home_is_cited: "kept L (Path (chars ''~/.'')) = Some (chars ''~/'')"
  by (simp add: trim_trailing_punct_def utrim_end_def trailing_punct_def one_of_def chars_def
      utf8_length_def utf8_width_def)

lemma citations_only: "check_citations L h log = Some cs \<Longrightarrow> set cs \<subseteq> range UnverifiedCitation"
  by (auto simp: check_citations_def Let_def split: option.splits)

lemma empty_results_exact:
  assumes "distinct (map fst (turn_calls h))"
  shows "EmptyResult t \<in> set (check_empty_results L (collect_tool_log h)) \<longleftrightarrow>
      (\<exists>i a v. (i, t, a) \<in> set (turn_calls h) \<and> answer_to h i = Some v \<and> is_empty_value L v)"
  by (force simp: check_empty_results_def tool_log_of_distinct [OF assms] split: option.splits)

lemma bash_failures_exact:
  assumes "distinct (map fst (turn_calls h))"
  shows "BashFailure w \<in> set (check_bash_failures L (collect_tool_log h)) \<longleftrightarrow>
      (\<exists>i a v. (i, chars ''bash'', a) \<in> set (turn_calls h) \<and> answer_to h i = Some v \<and>
        bash_failure_reason L v = Some w)"
  by (force simp: check_bash_failures_def tool_log_of_distinct [OF assms] in_map_filter
      split: option.splits)

lemma loops_exact:
  assumes "\<And>es. mset (vl_hash_order L es) = mset es" and "distinct (map fst (turn_calls h))"
  shows "LoopDetected t n k \<in> set (check_loops L k' (collect_tool_log h)) \<longleftrightarrow> k = k' \<and> k \<le> n \<and>
      (\<exists>i a. (i, t, a) \<in> set (turn_calls h) \<and>
        n = length (filter (\<lambda>(_, t', b). t' = t \<and>
              the_default [] (vl_json L b) = the_default [] (vl_json L a)) (turn_calls h)))"
  by (force simp: check_loops_exact [OF assms(1)] tool_log_of_distinct [OF assms(2)]
      args_key_def filter_map comp_def case_prod_unfold)

lemma only_own_issues:
  "BashFailure w \<notin> set (check_empty_results L log)" "LoopDetected t n k \<notin> set (check_empty_results L log)"
  "UnverifiedCitation c \<notin> set (check_empty_results L log)"
  "EmptyResult t \<notin> set (check_loops L k' log)" "BashFailure w \<notin> set (check_loops L k' log)"
  "UnverifiedCitation c \<notin> set (check_loops L k' log)"
  "EmptyResult t \<notin> set (check_bash_failures L log)" "LoopDetected t n k \<notin> set (check_bash_failures L log)"
  "UnverifiedCitation c \<notin> set (check_bash_failures L log)"
  by (auto simp: check_empty_results_def check_loops_def check_bash_failures_def in_map_filter
      split: option.splits)

text \<open>
  C25. The findings of a report, for a turn whose call ids are distinct: an empty result for each call
  whose last answer is empty, a loop for each name and arguments called at least the threshold's
  times, with the number of those calls, and a failure of bash for each of its calls whose last
  answer says so; the calls of a turn are read off the history directly.
\<close>

theorem verify_findings_exact:
  assumes order: "\<And>es. mset (vl_hash_order L es) = mset es"
    and ids: "distinct (map fst (turn_calls h))"
    and run: "verify_run L h cfg = Some r"
  shows "(EmptyResult t \<in> set r \<longleftrightarrow>
      (\<exists>i a v. (i, t, a) \<in> set (turn_calls h) \<and> answer_to h i = Some v \<and> is_empty_value L v)) \<and>
    (LoopDetected t n k \<in> set r \<longleftrightarrow> k = loop_threshold cfg \<and> k \<le> n \<and>
      (\<exists>i a. (i, t, a) \<in> set (turn_calls h) \<and>
        n = length (filter (\<lambda>(_, t', b). t' = t \<and>
              the_default [] (vl_json L b) = the_default [] (vl_json L a)) (turn_calls h)))) \<and>
    (BashFailure w \<in> set r \<longleftrightarrow>
      (\<exists>i a v. (i, chars ''bash'', a) \<in> set (turn_calls h) \<and> answer_to h i = Some v \<and>
        bash_failure_reason L v = Some w))"
proof -
  let ?log = "collect_tool_log h"
  from run obtain cs where cs: "check_citations L h ?log = Some cs"
    and r: "r = check_empty_results L ?log @ check_loops L (loop_threshold cfg) ?log
      @ check_bash_failures L ?log @ cs"
    by (auto simp: verify_run_def Let_def)
  have own: "(EmptyResult t \<in> set r) = (EmptyResult t \<in> set (check_empty_results L ?log))"
      "(LoopDetected t n k \<in> set r) = (LoopDetected t n k \<in> set (check_loops L (loop_threshold cfg) ?log))"
      "(BashFailure w \<in> set r) = (BashFailure w \<in> set (check_bash_failures L ?log))"
    using citations_only [OF cs] by (auto simp: r only_own_issues)
  show ?thesis
    unfolding own empty_results_exact [OF ids] loops_exact [OF order ids] bash_failures_exact [OF ids]
    by (intro conjI refl)
qed

text \<open>The report of a small turn, for a library that knows ASCII.\<close>

definition ascii_lib :: "int verify_lib" where
  "ascii_lib = \<lparr>vl_white = (\<lambda>c. c \<in> {9, 10, 11, 12, 13, 32}), vl_digit = ascii_digit,
     vl_rfc3339 = (\<lambda>_. False), vl_datetime = (\<lambda>_. False),
     vl_date = (\<lambda>t. t = chars ''2024-01-15''),
     vl_json = (\<lambda>v. case v of JStr s \<Rightarrow> Some s | _ \<Rightarrow> None), vl_integer = Some,
     vl_hash_order = rev\<rparr>"

definition sample_turn :: "int vmessage list" where
  "sample_turn =
     [\<lparr>vm_role = RAssistant, vm_id = None, vm_contents = [],
        vm_calls = Some [VFunction [1] (chars ''bash'') (JStr (chars ''ls'')),
                         VFunction [2] (chars ''bash'') (JStr (chars ''ls''))]\<rparr>,
      \<lparr>vm_role = RTool, vm_id = Some [1], vm_contents = [VValue (JObj [(chars ''exit_code'', JNum 2)])],
        vm_calls = None\<rparr>,
      \<lparr>vm_role = RTool, vm_id = Some [2], vm_contents = [VValue (JStr (chars '' ''))], vm_calls = None\<rparr>,
      \<lparr>vm_role = RAssistant, vm_id = None, vm_contents = [VText (chars ''See https://e.co/x.'')],
        vm_calls = None\<rparr>]"

definition sample_report :: "issue list" where
  "sample_report =
     [EmptyResult (chars ''bash''), LoopDetected (chars ''bash'') 2 2, BashFailure (NonZeroExit 2),
      UnverifiedCitation (chars ''https://e.co/x'')]"

lemma sample_run:
  "verify_run ascii_lib sample_turn \<lparr>loop_threshold = 2\<rparr> = Some sample_report"
  by code_simp

lemma ascii_lib_laws:
  "mset (vl_hash_order ascii_lib es) = mset es"
  "is_valid_iso_timestamp ascii_lib t \<Longrightarrow> \<forall>x \<in> set t. x < 128 \<or> vl_white ascii_lib x"
  "vl_digit ascii_lib x \<Longrightarrow> \<not> vl_white ascii_lib x"
  by (auto simp: ascii_lib_def is_valid_iso_timestamp_def ascii_digit_def chars_def)

theorem verify_findings_exact_witness:
  "\<exists>i a v. (i, chars ''bash'', a) \<in> set (turn_calls sample_turn) \<and>
     answer_to sample_turn i = Some v \<and> bash_failure_reason ascii_lib v = Some (NonZeroExit 2)"
proof -
  have d: "distinct (map fst (turn_calls sample_turn))" by code_simp
  have "BashFailure (NonZeroExit 2) \<in> set sample_report" by (simp add: sample_report_def)
  with verify_findings_exact [OF ascii_lib_laws(1) d sample_run] show ?thesis by blast
qed



end
