(* ===== verification/Reflect_Properties.thy ===== *)
theory Reflect_Properties
  imports Reflect_Gate Verify_Properties
begin

section \<open>What the reflect gate guarantees\<close>

text \<open>The reading of a verdict, the chain of verdicts of a run, and its bound.\<close>

subsection \<open>Reading a mode and a verdict\<close>

lemma mode_roundtrip: "mode_parse (mode_as_str m) = Ok m"
  by (cases m) (simp_all add: mode_parse_def chars_def)

lemma mode_parse_only: "mode_parse s = Ok m \<Longrightarrow> s = mode_as_str m"
  by (cases m) (auto simp: mode_parse_def split: if_splits)

definition usable :: "'f judge_lib \<Rightarrow> 'f option \<Rightarrow> bool" where
  "usable J c = (case c of None \<Rightarrow> True | Some v \<Rightarrow> jl_finite J v \<and> jl_unit J v)"

lemma sanitize_usable: "usable J (sanitize_confidence J c)"
  by (auto simp: usable_def sanitize_confidence_def split: option.splits)

text \<open>A verdict that may be acted on: its confidence is in range and a retry has a query.\<close>

definition sound_verdict :: "'f judge_lib \<Rightarrow> 'f verdict \<Rightarrow> bool" where
  "sound_verdict J v =
     (usable J (vd_confidence v) \<and> (is_retry v \<longrightarrow> vd_next v \<noteq> [] \<and> vd_rationale v \<noteq> []))"

lemma trim_or_default_ne: "d \<noteq> [] \<Longrightarrow> trim_or_default J s d \<noteq> []"
  by (simp add: trim_or_default_def Let_def)

lemma read_wire_sound: "sound_verdict J (read_wire J w)"
  by (auto simp: read_wire_def Let_def sound_verdict_def sanitize_usable trim_or_default_ne chars_def)

lemma parse_verdict_sound: "sound_verdict J (parse_verdict J raw)"
  by (auto simp: parse_verdict_def fallback_stop_def read_wire_sound
      intro: read_wire_sound split: option.splits)
    (simp_all add: sound_verdict_def usable_def)

text \<open>A retry is read exactly from a readable object that says so and has a query.\<close>

lemma parse_verdict_retry:
  "is_retry (parse_verdict J raw) \<longleftrightarrow>
    (\<exists>b w. json_block (jtrim J raw) = Some b \<and> jl_wire J b = Some w \<and>
       ascii_lower (jtrim J (wv_verdict w)) = chars ''retry'' \<and> jtrim J (wv_next_query w) \<noteq> [])"
  by (auto simp: parse_verdict_def fallback_stop_def read_wire_def Let_def chars_def
      split: option.splits)

definition unreadable :: "'f judge_lib \<Rightarrow> utext \<Rightarrow> bool" where
  "unreadable J raw =
     (case json_block (jtrim J raw) of None \<Rightarrow> True | Some b \<Rightarrow> jl_wire J b = None)"

lemma unreadable_stops:
  "unreadable J raw \<Longrightarrow> \<exists>r. parse_verdict J raw = Stop r None"
  by (auto simp: unreadable_def parse_verdict_def fallback_stop_def split: option.splits)

subsection \<open>The chain of verdicts\<close>

definition low_stop :: "'f judge_lib \<Rightarrow> 'f verdict \<Rightarrow> bool" where
  "low_stop J v =
     (\<not> is_retry v \<and> (case vd_confidence v of None \<Rightarrow> False | Some c \<Rightarrow> jl_low J c))"

text \<open>The verdicts on one draft, the number of escalations and the verdict in effect.\<close>

inductive judged :: "'f judge_lib \<Rightarrow> 'f verdict list \<Rightarrow> nat \<Rightarrow> 'f verdict \<Rightarrow> bool" where
  first: "\<not> low_stop J v \<Longrightarrow> judged J [v] 0 v"
| escalated: "low_stop J v \<Longrightarrow> judged J [v, strong] 1 (if is_retry strong then v else strong)"

text \<open>The verdicts of a run, its retries and its escalations.\<close>

inductive verdict_chain :: "'f judge_lib \<Rightarrow> 'f verdict list \<Rightarrow> nat \<Rightarrow> nat \<Rightarrow> bool" where
  no_draft: "verdict_chain J [] 0 0"
| accepted: "judged J vs e v \<Longrightarrow> \<not> is_retry v \<Longrightarrow> verdict_chain J vs 0 e"
| retried_no_draft: "is_retry v \<Longrightarrow> verdict_chain J [v] 1 0"
| retried: "is_retry v \<Longrightarrow> judged J vs e v' \<Longrightarrow> verdict_chain J (v # vs) 1 e"

lemma judged_length: "judged J vs e v \<Longrightarrow> length vs = e + 1 \<and> e \<le> 1"
  by (induction rule: judged.induct) auto

lemma judged_retry: "judged J vs e v \<Longrightarrow> is_retry v \<Longrightarrow> vs = [v] \<and> e = 0"
  by (induction rule: judged.induct) (auto simp: low_stop_def split: if_splits)

lemma verdict_chain_length:
  "verdict_chain J vs n e \<Longrightarrow> n \<le> 1 \<and> e \<le> 1 \<and> length vs \<le> n + e + 1 \<and> n + e \<le> length vs"
  by (induction rule: verdict_chain.induct) (auto dest: judged_length)

lemma reflect_call_sound:
  "reflect_call G sys w m d hs = (w', Inr v) \<Longrightarrow> sound_verdict (gl_lib G) v"
  by (auto simp: reflect_call_def parse_verdict_sound split: prod.splits sum.splits)

lemma judge_draft_judged:
  assumes "judge_draft G sys rm em d w s = (w', Inr (v, s'))"
  shows "\<exists>vs e. judged (gl_lib G) vs e v \<and> (\<forall>x \<in> set vs. sound_verdict (gl_lib G) x) \<and>
    s' = s\<lparr>gs_verdicts := gs_verdicts s @ vs, gs_escalations := gs_escalations s + e\<rparr>"
proof -
  obtain w1 v1 where c1: "reflect_call G sys w rm d [] = (w1, Inr v1)"
    using assms by (auto simp: judge_draft_def split: prod.splits sum.splits)
  note sound1 = reflect_call_sound [OF c1]
  show ?thesis
  proof (cases "low_stop (gl_lib G) v1")
    case True
    then obtain r c where v1: "v1 = Stop r (Some c)" and low: "jl_low (gl_lib G) c"
      by (cases v1) (auto simp: low_stop_def split: option.splits)
    obtain w2 strong where c2: "reflect_call G sys w1 em d [] = (w2, Inr strong)"
      and v: "v = (if is_retry strong then v1 else strong)"
      and s': "s' = s\<lparr>gs_verdicts := gs_verdicts s @ [v1, strong], gs_escalations := gs_escalations s + 1\<rparr>"
      using assms by (auto simp: judge_draft_def c1 v1 low split: prod.splits sum.splits)
    from escalated [OF True, of strong] v have "judged (gl_lib G) [v1, strong] 1 v" by simp
    with sound1 reflect_call_sound [OF c2] s' show ?thesis by fastforce
  next
    case False
    then have "v = v1 \<and> s' = s\<lparr>gs_verdicts := gs_verdicts s @ [v1]\<rparr>"
      using assms
      by (cases v1) (auto simp: judge_draft_def c1 low_stop_def Let_def split: option.splits if_splits)
    with first [OF False] sound1 show ?thesis by (intro exI [of _ "[v1]"] exI [of _ 0]) simp
  qed
qed

text \<open>The end of one turn: no draft, an accepted draft, or a retry.\<close>

lemma forced_loop_turn:
  assumes "forced_loop G sys rm em before query w s = (w', Inr s')"
  shows "\<exists>s1. gs_verdicts s1 = gs_verdicts s \<and> gs_retry_count s1 = gs_retry_count s \<and>
      gs_escalations s1 = gs_escalations s \<and>
    (s' = s1 \<or>
     (\<exists>vs e v s2. judged (gl_lib G) vs e v \<and> (\<forall>x \<in> set vs. sound_verdict (gl_lib G) x) \<and>
       s2 = s1\<lparr>gs_verdicts := gs_verdicts s @ vs, gs_escalations := gs_escalations s + e\<rparr> \<and>
       ((\<not> is_retry v \<or> RETRY_BUDGET \<le> gs_retry_count s) \<and> s' = s2 \<or>
        is_retry v \<and> gs_retry_count s < RETRY_BUDGET \<and>
        (\<exists>q w2. forced_loop G sys rm em before q w2
                  (s2\<lparr>gs_retry_count := gs_retry_count s + 1\<rparr>) = (w', Inr s')))))"
proof -
  obtain w1 outs h where t: "gl_turn G w query = (w1, outs, None)"
    and h: "since before (gl_history G w1) = Some h"
    using assms by (auto simp: forced_loop.simps [of G] Let_def split: prod.splits option.splits)
  let ?s1 = "s\<lparr>gs_outputs := gs_outputs s @ outs\<rparr>"
  show ?thesis
  proof (cases "vlast_assistant_text h")
    case None
    then show ?thesis using assms by (auto simp: forced_loop.simps [of G] t h intro!: exI [of _ ?s1])
  next
    case (Some draft)
    obtain w2 v s2 where j: "judge_draft G sys rm em draft w1 ?s1 = (w2, Inr (v, s2))"
      using assms by (auto simp: forced_loop.simps [of G] t h Some split: prod.splits sum.splits)
    from judge_draft_judged [OF j] obtain vs e where "judged (gl_lib G) vs e v"
        "\<forall>x \<in> set vs. sound_verdict (gl_lib G) x"
      and "s2 = ?s1\<lparr>gs_verdicts := gs_verdicts s @ vs, gs_escalations := gs_escalations s + e\<rparr>" by auto
    moreover have "(\<not> is_retry v \<or> RETRY_BUDGET \<le> gs_retry_count s) \<and> s' = s2 \<or>
        is_retry v \<and> gs_retry_count s < RETRY_BUDGET \<and>
        (\<exists>q w2. forced_loop G sys rm em before q w2
                  (s2\<lparr>gs_retry_count := gs_retry_count s + 1\<rparr>) = (w', Inr s'))"
      using assms
      by (cases v) (auto simp: forced_loop.simps [of G sys rm em before query] t h Some j split: if_splits)
    ultimately show ?thesis
      by (intro exI [of _ ?s1] conjI) (simp, simp, simp, blast)
  qed
qed

lemma forced_loop_chain:
  assumes run: "forced_loop G sys rm em before query w s = (w', Inr s')"
    and fresh: "gs_verdicts s = []" "gs_retry_count s = 0" "gs_escalations s = 0"
  shows "verdict_chain (gl_lib G) (gs_verdicts s') (gs_retry_count s') (gs_escalations s') \<and>
    (\<forall>v \<in> set (gs_verdicts s'). sound_verdict (gl_lib G) v)"
proof -
  from forced_loop_turn [OF run] fresh consider
      "gs_verdicts s' = []" "gs_retry_count s' = 0" "gs_escalations s' = 0"
    | vs e v where "judged (gl_lib G) vs e v" "\<forall>x \<in> set vs. sound_verdict (gl_lib G) x" "\<not> is_retry v"
        "gs_verdicts s' = vs" "gs_retry_count s' = 0" "gs_escalations s' = e"
    | vs e v q w2 s2 where "judged (gl_lib G) vs e v" "\<forall>x \<in> set vs. sound_verdict (gl_lib G) x" "is_retry v"
        "forced_loop G sys rm em before q w2 s2 = (w', Inr s')"
        "gs_verdicts s2 = vs" "gs_retry_count s2 = 1" "gs_escalations s2 = e"
    by (force simp: RETRY_BUDGET_def)
  then show ?thesis
  proof cases
    case 1
    then show ?thesis by (auto intro: verdict_chain.intros)
  next
    case 2
    then show ?thesis by (auto intro: verdict_chain.intros)
  next
    case 3
    with judged_retry have v: "vs = [v]" "e = 0" by auto
    from forced_loop_turn [OF 3(4)] 3(5-7) v consider
        "gs_verdicts s' = [v]" "gs_retry_count s' = 1" "gs_escalations s' = 0"
      | vs' e' v' where "judged (gl_lib G) vs' e' v'" "\<forall>x \<in> set vs'. sound_verdict (gl_lib G) x"
          "gs_verdicts s' = v # vs'" "gs_retry_count s' = 1" "gs_escalations s' = e'"
      by (force simp: RETRY_BUDGET_def)
    then show ?thesis
    proof cases
      case 1
      with retried_no_draft [OF 3(3)] show ?thesis using 3(2) v by simp
    next
      case 2
      with retried [OF 3(3)] show ?thesis using 3(2) v by simp
    qed
  qed
qed

text \<open>
  C27. A judged run always ends, after at most one retry and one escalation: its verdicts are those of
  one draft, or a first judge's retry followed by those of one more draft; a second judge is asked
  exactly after a first judge's stop of low confidence; every verdict has a confidence in range or
  none, and a retry has a query; and the report is the verify pass over the whole of the run's history.
\<close>

theorem forced_reflect_bounded:
  assumes "run_with_forced_reflect G sys w query cfg rm em = (w', Inr (s, r))"
  shows "verdict_chain (gl_lib G) (gs_verdicts s) (gs_retry_count s) (gs_escalations s) \<and>
    gs_retry_count s \<le> RETRY_BUDGET \<and> gs_escalations s \<le> 1 \<and> length (gs_verdicts s) \<le> 3 \<and>
    (\<forall>v \<in> set (gs_verdicts s). sound_verdict (gl_lib G) v) \<and>
    length (gl_history G w) \<le> length (gl_history G w') \<and>
    verify_run (gl_verify G) (drop (length (gl_history G w)) (gl_history G w')) cfg = Some r"
proof -
  from assms have run: "forced_loop G sys rm em (length (gl_history G w)) query w
      \<lparr>gs_outputs = [], gs_verdicts = [], gs_retry_count = 0, gs_escalations = 0\<rparr> = (w', Inr s)"
    and r: "report_since G (length (gl_history G w)) cfg w' = Some r"
    by (auto simp: run_with_forced_reflect_def Let_def split: prod.splits sum.splits option.splits)
  from forced_loop_chain [OF run] have
    chain: "verdict_chain (gl_lib G) (gs_verdicts s) (gs_retry_count s) (gs_escalations s)"
    and sound: "\<forall>v \<in> set (gs_verdicts s). sound_verdict (gl_lib G) v" by auto
  from r have "length (gl_history G w) \<le> length (gl_history G w')"
    "verify_run (gl_verify G) (drop (length (gl_history G w)) (gl_history G w')) cfg = Some r"
    by (auto simp: report_since_def since_def split: option.splits if_splits)
  with verdict_chain_length [OF chain] chain sound show ?thesis by (auto simp: RETRY_BUDGET_def)
qed

text \<open>A judge of a small world, the agent's history: it asks for a retry, or replies without JSON.\<close>

definition sample_gate :: "utext \<Rightarrow> (int vmessage list, int, nat, nat) gate_lib" where
  "sample_gate reply =
     \<lparr>gl_turn = (\<lambda>w q. (w @ [q, (user_text [VText (chars ''It is 4'')])\<lparr>vm_role := RAssistant\<rparr>],
                         [length w], None)),
      gl_history = (\<lambda>w. w),
      gl_judge = (\<lambda>w _ _. (w, Ok (user_text [VText reply]))),
      gl_verify = ascii_lib,
      gl_lib = \<lparr>jl_white = (\<lambda>c. c = 32), jl_wire = (\<lambda>t. if t = chars ''{again}''
          then Some \<lparr>wv_verdict = chars '' Retry'', wv_rationale = [], wv_next_query = chars ''2+2?'',
                     wv_confidence = Some 5\<rparr> else None),
        jl_quote = (\<lambda>t. t), jl_finite = (\<lambda>_. True), jl_unit = (\<lambda>f. f \<le> 1), jl_low = (\<lambda>f. f < 1)\<rparr>\<rparr>"

definition sample_query :: "int vmessage" where
  "sample_query = user_text [VText (chars ''What is 2+2?'')]"

lemma sample_retry_run:
  "map_prod (\<lambda>_. ()) (map_ok (\<lambda>(s, r). (gs_outputs s, map is_retry (gs_verdicts s), gs_retry_count s, r)))
     (run_with_forced_reflect (sample_gate (chars ''so {again}.'')) sample_query [] sample_query
        default_verify_config ''a'' ''b'')
   = ((), Inr ([0, 2], [True, True], 1, []))"
  by code_simp

theorem forced_reflect_bounded_witness:
  "\<exists>w s r. run_with_forced_reflect (sample_gate (chars ''so {again}.'')) sample_query [] sample_query
       default_verify_config ''a'' ''b'' = (w, Inr (s, r)) \<and>
     gs_retry_count s = 1 \<and> gs_retry_count s \<le> RETRY_BUDGET \<and> length (gs_verdicts s) \<le> 3"
proof -
  obtain w s r where run: "run_with_forced_reflect (sample_gate (chars ''so {again}.'')) sample_query []
      sample_query default_verify_config ''a'' ''b'' = (w, Inr (s, r))" and n: "gs_retry_count s = 1"
    using sample_retry_run by (auto simp: map_prod_def map_ok_Inr split: prod.splits)
  from forced_reflect_bounded [OF run] run n show ?thesis by blast
qed



end
