(* ===== verification/Gmail_Names.thy ===== *)
theory Gmail_Names
  imports Verify_Citations
begin

section \<open>Names and dates of mirrored mail\<close>

text \<open>
  The helpers of \<^verbatim>\<open>src/workspace/src/vfs/resource/gmail.rs\<close> that make file names out of subjects,
  identifiers and attachments, and the civil date out of a message's time. Text is a list of
  characters; a name on disk is its UTF-8 bytes, a HOL \<open>string\<close>. The Unicode tables are
  parameters; \<^verbatim>\<open>char::is_control\<close> is the category Cc, which is fixed.
\<close>

record uni_lib =
  un_white :: "uchar \<Rightarrow> bool"
  un_alnum :: "uchar \<Rightarrow> bool"

subsection \<open>UTF-8\<close>

definition byte_char :: "nat \<Rightarrow> char" where
  "byte_char n = char_of n"

definition utf8_char :: "uchar \<Rightarrow> string" where
  "utf8_char c =
     (if c < 128 then [byte_char c]
      else if c < 2048 then [byte_char (192 + c div 64), byte_char (128 + c mod 64)]
      else if c < 65536 then
        [byte_char (224 + c div 4096), byte_char (128 + c div 64 mod 64), byte_char (128 + c mod 64)]
      else
        [byte_char (240 + c div 262144 mod 8), byte_char (128 + c div 4096 mod 64),
         byte_char (128 + c div 64 mod 64), byte_char (128 + c mod 64)])"

definition utf8 :: "utext \<Rightarrow> string" where
  "utf8 t = concat (map utf8_char t)"

subsection \<open>Subjects\<close>

definition TITLE_MAX :: nat where "TITLE_MAX = 80"
definition TITLE_MAX_BYTES :: nat where "TITLE_MAX_BYTES = 200"

definition underscore :: uchar where "underscore = 95"

definition title_char :: "uni_lib \<Rightarrow> uchar \<Rightarrow> uchar" where
  "title_char U c = (if un_alnum U c \<or> one_of c ''_-.'' then c else underscore)"

text \<open>The squeezing loop, with the flag it carries.\<close>

fun squeeze :: "bool \<Rightarrow> utext \<Rightarrow> utext" where
  "squeeze prev_us [] = []"
| "squeeze prev_us (c # t) =
     (if c = underscore then (if prev_us then squeeze True t else c # squeeze True t)
      else c # squeeze False t)"

definition cap_chars :: "utext \<Rightarrow> utext" where
  "cap_chars s = (if length s > TITLE_MAX then take (TITLE_MAX - 3) s @ chars ''...'' else s)"

text \<open>
  \<^verbatim>\<open>char_indices\<close>: the byte at which each character starts; the last of those within the bound is
  where the text is cut.
\<close>

fun char_starts :: "nat \<Rightarrow> utext \<Rightarrow> nat list" where
  "char_starts n [] = []"
| "char_starts n (c # t) = n # char_starts (n + utf8_width c) t"

fun cut_at :: "nat \<Rightarrow> utext \<Rightarrow> utext" where
  "cut_at n [] = []"
| "cut_at n (c # t) = (if n = 0 then [] else c # cut_at (n - utf8_width c) t)"

definition cap_bytes :: "utext \<Rightarrow> utext" where
  "cap_bytes s =
     (if utf8_length s > TITLE_MAX_BYTES then
        (let starts = takeWhile (\<lambda>i. i \<le> TITLE_MAX_BYTES - 3) (char_starts 0 s);
             cut = (if starts = [] then 0 else last starts)
         in cut_at cut s @ chars ''...'')
      else s)"

definition sanitize :: "uni_lib \<Rightarrow> utext \<Rightarrow> utext" where
  "sanitize U text =
     (if utrim_with (un_white U) text = [] then chars ''No_Subject''
      else (let squeezed = squeeze False (map (title_char U) text);
                out = cap_bytes (cap_chars (utrim_with (\<lambda>c. c = underscore) squeezed))
            in if out = [] then chars ''No_Subject'' else out))"

definition GMAIL_SUFFIX :: string where "GMAIL_SUFFIX = ''.json''"

definition attach_dir_name :: "uni_lib \<Rightarrow> utext \<Rightarrow> string \<Rightarrow> string" where
  "attach_dir_name U subject i = utf8 (sanitize U subject) @ ''__'' @ i"

definition msg_filename :: "uni_lib \<Rightarrow> utext \<Rightarrow> string \<Rightarrow> string" where
  "msg_filename U subject i = utf8 (sanitize U subject) @ ''__'' @ i @ GMAIL_SUFFIX"

text \<open>\<^verbatim>\<open>rsplit_once("__")\<close>: what follows the last occurrence of the separator.\<close>

fun after_last_sep :: "string \<Rightarrow> string option" where
  "after_last_sep [] = None"
| "after_last_sep (c # s) =
     (case after_last_sep s of
        Some r \<Rightarrow> Some r
      | None \<Rightarrow> if prefix ''__'' (c # s) then Some (drop 2 (c # s)) else None)"

definition id_from_name :: "string \<Rightarrow> string" where
  "id_from_name name = (case after_last_sep name of Some i \<Rightarrow> i | None \<Rightarrow> name)"

definition strip_suffix :: "string \<Rightarrow> string \<Rightarrow> string option" where
  "strip_suffix s x = (if suffix x s then Some (take (length s - length x) s) else None)"

subsection \<open>Attachments\<close>

definition is_control :: "uchar \<Rightarrow> bool" where
  "is_control c = (c < 32 \<or> 127 \<le> c \<and> c < 160)"

definition sanitize_filename :: "uni_lib \<Rightarrow> utext \<Rightarrow> utext" where
  "sanitize_filename U name =
     (let cleaned = map (\<lambda>c. if c = uslash \<or> c = 92 \<or> is_control c then underscore else c)
                      (utrim_with (un_white U) name)
      in if cleaned \<in> {[], chars ''.'', chars ''..''} then chars ''attachment'' else cleaned)"

definition dot :: uchar where "dot = 46"

text \<open>\<^verbatim>\<open>rfind('.')\<close>, as the text before the last dot and the text from it.\<close>

definition split_ext :: "utext \<Rightarrow> (utext \<times> utext) option" where
  "split_ext name =
     (let after = takeWhile (\<lambda>c. c \<noteq> dot) (rev name);
          cut = length name - length after - 1
      in if dot \<in> set name \<and> 0 < cut then Some (take cut name, drop cut name) else None)"

definition suffix_before_ext :: "utext \<Rightarrow> nat \<Rightarrow> utext" where
  "suffix_before_ext name n =
     (case split_ext name of
        Some (stem, ext) \<Rightarrow> stem @ chars '' ('' @ dec_nat n @ chars '')'' @ ext
      | None \<Rightarrow> name @ chars '' ('' @ dec_nat n @ chars '')'')"

text \<open>
  The loop that looks for a free name: the file's own name, then the name with 2, 3, and so on. It
  is given one more step than there are names in use, which is enough since they all differ.
\<close>

fun free_name :: "utext \<Rightarrow> utext list \<Rightarrow> nat \<Rightarrow> nat \<Rightarrow> utext \<Rightarrow> utext option" where
  "free_name file_name used 0 n name = None"
| "free_name file_name used (Suc fuel) n name =
     (if name \<notin> set used then Some name
      else free_name file_name used fuel (n + 1) (suffix_before_ext file_name (n + 1)))"

fun unique_names :: "utext list \<Rightarrow> utext list \<Rightarrow> utext list option" where
  "unique_names used [] = Some []"
| "unique_names used (f # fs) =
     (case free_name f used (Suc (length used)) 1 f of
        None \<Rightarrow> None
      | Some name \<Rightarrow> map_option ((#) name) (unique_names (name # used) fs))"

subsection \<open>Dates\<close>

text \<open>\<^verbatim>\<open>str::parse::<i64>\<close> and \<^verbatim>\<open>parse::<u64>\<close>: a sign, then digits, within the width.\<close>

definition all_digits :: "utext \<Rightarrow> bool" where
  "all_digits t = (t \<noteq> [] \<and> list_all ascii_digit t)"

definition digits_value :: "utext \<Rightarrow> int" where
  "digits_value t = foldl (\<lambda>n c. 10 * n + int (c - 48)) 0 t"

definition parse_i64 :: "utext \<Rightarrow> int option" where
  "parse_i64 t =
     (let (neg, ds) = (case t of c # r \<Rightarrow> if c = 45 then (True, r) else if c = 43 then (False, r) else (False, t)
                       | [] \<Rightarrow> (False, []))
      in if \<not> all_digits ds then None
         else (let v = (if neg then - digits_value ds else digits_value ds)
               in if - (2 ^ 63) \<le> v \<and> v < 2 ^ 63 then Some v else None))"

definition parse_u64 :: "utext \<Rightarrow> nat option" where
  "parse_u64 t =
     (let ds = (case t of c # r \<Rightarrow> if c = 43 then r else t | [] \<Rightarrow> [])
      in if all_digits ds \<and> digits_value ds < 2 ^ 64 then Some (nat (digits_value ds)) else None)"

text \<open>
  Days since 1970-01-01 to year, month and day. The divisions of \<^verbatim>\<open>i64\<close> round towards zero; except
  for the era, whose sign the code handles, every dividend is non-negative.
\<close>

definition quot :: "int \<Rightarrow> int \<Rightarrow> int" where
  "quot a b = (if 0 \<le> a then a div b else - ((- a) div b))"

definition civil_from_days :: "int \<Rightarrow> int \<times> int \<times> int" where
  "civil_from_days z0 =
     (let z = z0 + 719468;
          era = quot (if z \<ge> 0 then z else z - 146096) 146097;
          doe = z - era * 146097;
          yoe = quot (doe - quot doe 1460 + quot doe 36524 - quot doe 146096) 365;
          y = yoe + era * 400;
          doy = doe - (365 * yoe + quot yoe 4 - quot yoe 100);
          mp = quot (5 * doy + 2) 153;
          d = doy - quot (153 * mp + 2) 5 + 1;
          m = (if mp < 10 then mp + 3 else mp - 9)
      in (if m \<le> 2 then y + 1 else y, m, d))"

text \<open>\<^verbatim>\<open>{y:04}\<close>: zeros up to four places, of which a sign takes one.\<close>

definition pad_to :: "nat \<Rightarrow> utext \<Rightarrow> utext" where
  "pad_to n t = replicate (n - length t) 48 @ t"

definition dec_padded :: "nat \<Rightarrow> int \<Rightarrow> utext" where
  "dec_padded n i =
     (if i < 0 then 45 # pad_to (n - 1) (dec_nat (nat (- i))) else pad_to n (dec_nat (nat i)))"

definition epoch_ms_to_date :: "utext \<Rightarrow> utext" where
  "epoch_ms_to_date ms =
     (let n = the_default 0 (parse_i64 ms);
          (y, m, d) = civil_from_days (quot n 1000 div 86400)
      in dec_padded 4 y @ chars ''-'' @ dec_padded 2 m @ chars ''-'' @ dec_padded 2 d)"

end
