(* ===== verification/Gmail_Calendar.thy ===== *)
theory Gmail_Calendar
  imports Gmail_Names
begin

section \<open>The civil calendar\<close>

text \<open>
  The reference is the Gregorian calendar as it is defined: leap years, the lengths of the months,
  and the number of a day counted from 1970-01-01. A day of the 400-year era is split by the
  centuries, the four-year cycles and the years before it, which is what the divisions of
  \<^verbatim>\<open>civil_from_days\<close> compute in years that begin in March.
\<close>

definition leap_year :: "int \<Rightarrow> bool" where
  "leap_year y = (4 dvd y \<and> (\<not> 100 dvd y \<or> 400 dvd y))"

definition month_length :: "int \<Rightarrow> int \<Rightarrow> int" where
  "month_length y m =
     (if m = 2 then if leap_year y then 29 else 28 else if m \<in> {4, 6, 9, 11} then 30 else 31)"

definition valid_date :: "int \<times> int \<times> int \<Rightarrow> bool" where
  "valid_date t = (case t of (y, m, d) \<Rightarrow> 1 \<le> m \<and> m \<le> 12 \<and> 1 \<le> d \<and> d \<le> month_length y m)"

definition days_before_year :: "int \<Rightarrow> int" where
  "days_before_year y = 365 * (y - 1) + (y - 1) div 4 - (y - 1) div 100 + (y - 1) div 400"

text \<open>Days since 1970-01-01; 719162 days lie between 0001-01-01 and that day.\<close>

definition day_number :: "int \<times> int \<times> int \<Rightarrow> int" where
  "day_number t =
     (case t of (y, m, d) \<Rightarrow>
        days_before_year y + sum_list (map (month_length y) [1..m - 1]) + d - 1 - 719162)"

lemma div_eq: "(k :: int) * n \<le> a \<Longrightarrow> a < (k + 1) * n \<Longrightarrow> a div n = k"
  by (rule int_div_pos_eq [where r = "a - k * n"]) (auto simp: algebra_simps)

subsection \<open>A day of the era\<close>

definition march_year :: "int \<Rightarrow> int \<Rightarrow> int \<Rightarrow> int \<Rightarrow> bool" where
  "march_year c q t doy =
     (0 \<le> c \<and> c \<le> 3 \<and> 0 \<le> q \<and> q \<le> 24 \<and> 0 \<le> t \<and> t \<le> 3 \<and> 0 \<le> doy \<and>
      (doy \<le> 364 \<or> doy = 365 \<and> t = 3 \<and> (q \<le> 23 \<or> c = 3)))"

lemma march_year_exists:
  assumes "0 \<le> doe" "doe < 146097"
  obtains c q t doy where "march_year c q t doy" "doe = 36524 * c + 1461 * q + 365 * t + doy"
proof -
  define c where "c = min 3 (doe div 36524)"
  define r where "r = doe - 36524 * c"
  define q where "q = r div 1461"
  define s where "s = r - 1461 * q"
  define t where "t = min 3 (s div 365)"
  have c: "0 \<le> c" "c \<le> 3" "0 \<le> r" "r \<le> 36524" "r = 36524 \<Longrightarrow> c = 3"
    using assms unfolding r_def c_def by auto
  have r: "c = 3 \<or> r \<le> 36523" using c(4,5) by auto
  have s: "0 \<le> s" "s \<le> 1460" unfolding s_def q_def by auto
  have q: "0 \<le> q" "q \<le> 24" using c unfolding q_def by auto
  have t: "0 \<le> t" "t \<le> 3" "0 \<le> s - 365 * t" "s - 365 * t \<le> 364 \<or> s - 365 * t = 365 \<and> t = 3"
    using s unfolding t_def by auto
  have "march_year c q t (s - 365 * t)"
    using c(1,2) q t r unfolding march_year_def s_def by auto
  then show thesis by (rule that) (simp add: r_def s_def)
qed

text \<open>The divisions of the code, on a day so split.\<close>

lemma yoe_of_march_year:
  assumes m: "march_year c q t doy"
    and doe: "doe = 36524 * c + 1461 * q + 365 * t + doy"
  shows "(doe - doe div 1460 + doe div 36524 - doe div 146096) div 365 = 100 * c + 4 * q + t"
proof -
  note b = m [unfolded march_year_def]
  define e where "e = (if 1460 \<le> 24 * c + q + 365 * t + doy then 1 else 0 :: int)"
  have d1: "doe div 1460 = 25 * c + q + e"
    by (rule div_eq) (use b in \<open>auto simp: doe e_def\<close>)
  have d2: "doe div 36524 - doe div 146096 = c"
  proof (cases "doe = 146096")
    case True
    with b show ?thesis by (auto simp: doe)
  next
    case False
    have "doe div 36524 = c" by (rule div_eq) (use b False in \<open>auto simp: doe\<close>)
    moreover have "doe div 146096 = 0" by (rule div_eq) (use b False in \<open>auto simp: doe\<close>)
    ultimately show ?thesis by simp
  qed
  have "(doe - doe div 1460 + doe div 36524 - doe div 146096) =
      365 * (100 * c + 4 * q + t) + (doy - e)"
    using d1 d2 by (simp add: doe)
  moreover have "0 \<le> doy - e" "doy - e < 365" using b by (auto simp: e_def)
  ultimately show ?thesis by (intro div_eq) auto
qed

lemma quarters_of_march_year:
  assumes "march_year c q t doy"
  shows "(100 * c + 4 * q + t) div 4 = 25 * c + q" "(100 * c + 4 * q + t) div 100 = c"
  using assms unfolding march_year_def by (auto intro!: div_eq)

subsection \<open>A day of the year that begins in March\<close>

definition march_month :: "int \<Rightarrow> int" where
  "march_month doy = (5 * doy + 2) div 153"

text \<open>The days before the month in a year of 365 days that begins in March.\<close>

definition march_days :: "int \<Rightarrow> int" where
  "march_days mp = (153 * mp + 2) div 5"

lemma march_month_range:
  assumes "0 \<le> doy" "doy \<le> 365"
  shows "0 \<le> march_month doy" "march_month doy \<le> 11"
    "march_days (march_month doy) \<le> doy" "doy < march_days (march_month doy + 1)"
proof -
  have k: "153 * march_month doy \<le> 5 * doy + 2" "5 * doy + 2 < 153 * march_month doy + 153"
    unfolding march_month_def by auto
  with assms show "0 \<le> march_month doy" "march_month doy \<le> 11" by auto
  show "march_days (march_month doy) \<le> doy" "doy < march_days (march_month doy + 1)"
    using k unfolding march_days_def by auto
qed

lemma month_from_march:
  assumes "0 \<le> k" "k \<le> 9"
  shows "sum_list (map (month_length y) [1..2 + k]) =
      59 + (if leap_year y then 1 else 0) + march_days k \<and>
    month_length y (k + 3) = march_days (k + 1) - march_days k"
proof -
  from assms have "k = 0 \<or> k = 1 \<or> k = 2 \<or> k = 3 \<or> k = 4 \<or> k = 5 \<or> k = 6 \<or> k = 7 \<or> k = 8 \<or> k = 9"
    by arith
  then show ?thesis
    by (elim disjE) (simp_all add: march_days_def month_length_def upto.simps)
qed

lemma month_before_march:
  "sum_list (map (month_length y) [1..0]) = march_days 10 - 306"
  "sum_list (map (month_length y) [1..1]) = march_days 11 - 306"
  "month_length y 1 = march_days 11 - march_days 10"
  by (simp_all add: march_days_def month_length_def upto.simps)

subsection \<open>The date of a day\<close>

lemma div_step:
  assumes "0 < n"
  shows "(y :: int) div n = (y - 1) div n + (if n dvd y then 1 else 0)"
proof (cases "n dvd y")
  case True
  then obtain k where y: "y = n * k" ..
  have "(y - 1) div n = k - 1" by (rule div_eq) (use assms in \<open>auto simp: y algebra_simps\<close>)
  with assms True show ?thesis by (simp add: y)
next
  case False
  then have "y mod n \<noteq> 0" by (simp add: dvd_eq_mod_eq_0)
  moreover have "0 \<le> y mod n" "y mod n < n" using assms by auto
  moreover have "y = y div n * n + y mod n" by simp
  ultimately have "y div n * n \<le> y - 1" "y - 1 < (y div n + 1) * n"
    by (simp_all only: ring_distribs mult_1)
  then have "(y - 1) div n = y div n" by (rule div_eq)
  with False show ?thesis by simp
qed

lemma leap_count:
  "(p100 \<longrightarrow> p4) \<Longrightarrow> (p400 \<longrightarrow> p100) \<Longrightarrow>
    365 * (y - 1) + a - b + c + 59 + (if p4 \<and> (\<not> p100 \<or> p400) then 1 else 0) =
    365 * y + (a + (if p4 then 1 else 0)) - (b + (if p100 then 1 else 0)) + (c + (if p400 then 1 else 0)) - (306 :: int)"
  by (cases p4; cases p100; cases p400) simp_all

lemma first_of_march:
  "days_before_year y + 59 + (if leap_year y then 1 else 0) =
     365 * y + y div 4 - y div 100 + y div 400 - 306"
proof -
  have i: "100 dvd y \<Longrightarrow> 4 dvd y" "400 dvd y \<Longrightarrow> 100 dvd y" by (auto elim: dvd_trans [rotated])
  have s: "y div 4 = (y - 1) div 4 + (if 4 dvd y then 1 else 0)"
      "y div 100 = (y - 1) div 100 + (if 100 dvd y then 1 else 0)"
      "y div 400 = (y - 1) div 400 + (if 400 dvd y then 1 else 0)"
    by (rule div_step, simp)+
  show ?thesis
    unfolding days_before_year_def leap_year_def s by (rule leap_count) (use i in blast)+
qed

text \<open>The first of March of the year \<open>100 * c + 4 * q + t\<close> of an era, as a day.\<close>

lemma march_first:
  assumes "march_year c q t doy" and y: "y = 400 * era + 100 * c + 4 * q + t"
  shows "365 * y + y div 4 - y div 100 + y div 400 = 146097 * era + 36524 * c + 1461 * q + 365 * t"
    and "t = 3 \<Longrightarrow> q \<le> 23 \<or> c = 3 \<Longrightarrow> leap_year (y + 1)"
proof -
  note b = assms(1) [unfolded march_year_def]
  have "y div 4 = 100 * era + 25 * c + q" "y div 100 = 4 * era + c" "y div 400 = era"
    by (rule div_eq; use b in \<open>auto simp: y\<close>)+
  then show "365 * y + y div 4 - y div 100 + y div 400 = 146097 * era + 36524 * c + 1461 * q + 365 * t"
    by (simp add: y)
  assume t: "t = 3" and q: "q \<le> 23 \<or> c = 3"
  show "leap_year (y + 1)"
  proof (cases "q \<le> 23")
    case True
    have y1: "y + 1 = 4 * (100 * era + 25 * c + q + 1)" by (simp add: y t)
    have "(y + 1) mod 100 = 4 * (q + 1)"
      by (rule int_mod_pos_eq [where q = "4 * era + c"]) (use b True in \<open>auto simp: y t\<close>)
    then have "\<not> 100 dvd y + 1" using b by (simp add: dvd_eq_mod_eq_0)
    moreover have "4 dvd y + 1" unfolding y1 by (rule dvd_triv_left)
    ultimately show ?thesis by (simp add: leap_year_def)
  next
    case False
    with b q have y1: "y + 1 = 400 * (era + 1)" by (auto simp: y t)
    then have "400 dvd y + 1" by simp
    moreover have "4 dvd y + 1" unfolding y1 by (rule dvd_mult2) simp
    ultimately show ?thesis by (simp add: leap_year_def)
  qed
qed

lemma quot_nonneg: "0 \<le> a \<Longrightarrow> quot a b = a div b"
  by (simp add: quot_def)

text \<open>The era's division rounds towards zero; the code corrects it for days before the first era.\<close>

lemma era_quot: "quot (if z \<ge> 0 then z else z - 146096) 146097 = z div 146097"
proof (cases "z \<ge> 0")
  case False
  define k r where "k = z div 146097" and "r = z mod 146097"
  have "z = k * 146097 + r" "0 \<le> r" "r < 146097" by (simp_all add: k_def r_def)
  then have "(146096 - z) div 146097 = - k"
    by (intro div_eq) (auto simp: algebra_simps)
  with False show ?thesis by (simp add: quot_def k_def)
qed (simp add: quot_def)

text \<open>What the code computes, in terms of the split day.\<close>

lemma civil_from_march_year:
  assumes m: "march_year c q t doy"
    and z: "z + 719468 = 146097 * era + (36524 * c + 1461 * q + 365 * t + doy)"
  shows "civil_from_days z =
    (let y = 400 * era + 100 * c + 4 * q + t; k = march_month doy;
         month = (if k < 10 then k + 3 else k - 9)
     in (if month \<le> 2 then y + 1 else y, month, doy - march_days k + 1))"
proof -
  note b = m [unfolded march_year_def]
  define doe where "doe = 36524 * c + 1461 * q + 365 * t + doy"
  have d: "0 \<le> doe" "doe < 146097" using b by (auto simp: doe_def)
  have era: "(z + 719468) div 146097 = era"
    by (rule div_eq) (use d in \<open>auto simp: z doe_def\<close>)
  have rest: "z + 719468 - era * 146097 = doe" using z by (simp add: doe_def)
  have small: "0 \<le> doe - doe div 1460 + doe div 36524 - doe div 146096"
  proof (cases "doe = 146096")
    case False
    then have "doe div 146096 = 0" by (intro div_eq) (use d in auto)
    moreover have "doe div 1460 * 1460 \<le> doe" "0 \<le> doe div 1460" "0 \<le> doe div 36524"
      using d by auto
    ultimately show ?thesis by linarith
  qed simp
  have yoe: "quot (doe - quot doe 1460 + quot doe 36524 - quot doe 146096) 365 = 100 * c + 4 * q + t"
    using yoe_of_march_year [OF m doe_def] small d by (simp add: quot_nonneg)
  have doy: "doe - (365 * (100 * c + 4 * q + t) + quot (100 * c + 4 * q + t) 4
      - quot (100 * c + 4 * q + t) 100) = doy"
    using quarters_of_march_year [OF m] b by (simp add: quot_nonneg doe_def)
  have mp: "quot (5 * doy + 2) 153 = march_month doy"
    using b by (simp add: quot_nonneg march_month_def)
  have "0 \<le> march_month doy" by (rule march_month_range(1)) (use b in auto)
  then have days: "quot (153 * march_month doy + 2) 5 = march_days (march_month doy)"
    by (simp add: quot_nonneg march_days_def)
  show ?thesis
    unfolding civil_from_days_def Let_def era_quot era rest yoe doy mp days
    by (simp add: algebra_simps)
qed

text \<open>
  C31. The civil date of a day: for every day number, \<open>civil_from_days\<close> gives a date of the Gregorian
  calendar, with a month of twelve and a day within the length of that month in that year, and it is
  the date whose number, counted from 1970-01-01 by whole years and months, is that day.
\<close>

theorem civil_from_days_correct:
  "valid_date (civil_from_days z) \<and> day_number (civil_from_days z) = z"
proof -
  define era where "era = (z + 719468) div 146097"
  define doe where "doe = (z + 719468) mod 146097"
  have "0 \<le> doe" "doe < 146097" by (simp_all add: doe_def)
  then obtain c q t doy where m: "march_year c q t doy" and doe: "doe = 36524 * c + 1461 * q + 365 * t + doy"
    by (rule march_year_exists)
  have z: "z + 719468 = 146097 * era + (36524 * c + 1461 * q + 365 * t + doy)"
    unfolding doe [symmetric] era_def doe_def by simp
  define y where "y = 400 * era + 100 * c + 4 * q + t"
  define k where "k = march_month doy"
  note b = m [unfolded march_year_def]
  have k: "0 \<le> k" "k \<le> 11" "march_days k \<le> doy" "doy < march_days (k + 1)"
    unfolding k_def by (rule march_month_range; use b in auto)+
  note civil = civil_from_march_year [OF m z, folded y_def k_def]
  note first = march_first [OF m y_def]
  have march1: "days_before_year y + 59 + (if leap_year y then 1 else 0) - 719162 + doy = z"
    using first_of_march [of y] first(1) z by simp
  show ?thesis
  proof (cases "k \<le> 9")
    case True
    with civil k(1) have civ: "civil_from_days z = (y, k + 3, doy - march_days k + 1)"
      by (simp add: Let_def)
    from month_from_march [OF k(1) True, of y] k march1 True show ?thesis
      by (simp add: civ valid_date_def day_number_def)
  next
    case False
    with k(2) have k': "k = 10 \<or> k = 11" by linarith
    with civil have civ: "civil_from_days z = (y + 1, k - 9, doy - march_days k + 1)"
      by (auto simp: Let_def)
    have next_year: "days_before_year (y + 1) = z + 719468 - doy"
      using first(1) z by (simp add: days_before_year_def)
    have sum: "sum_list (map (month_length (y + 1)) [1..k - 9 - 1]) = march_days k - 306"
      using k' month_before_march(1,2) by auto
    have "doy - march_days k + 1 \<le> month_length (y + 1) (k - 9)"
      using k' k month_before_march(3) first(2) b by (auto simp: march_days_def month_length_def)
    with k k' next_year sum show ?thesis by (auto simp: civ valid_date_def day_number_def)
  qed
qed

end
