(* ===== verification/Gmail_Name_Properties.thy ===== *)
theory Gmail_Name_Properties
  imports Gmail_Calendar
begin

section \<open>Names that are safe and tell their message\<close>

text \<open>
  A message's file name is one path segment of bounded length from which its id is read back; the
  attachments of a message get distinct safe names.
\<close>

subsection \<open>UTF-8 lengths and bytes\<close>

lemma utf8_simps [simp]: "utf8 [] = []" "utf8 (c # t) = utf8_char c @ utf8 t" "utf8 (s @ t) = utf8 s @ utf8 t"
  by (simp_all add: utf8_def)

lemma utf8_length_simps [simp]:
  "utf8_length [] = 0" "utf8_length (c # t) = utf8_width c + utf8_length t"
  "utf8_length (s @ t) = utf8_length s + utf8_length t"
  by (simp_all add: utf8_length_def)

lemma utf8_width_pos: "1 \<le> utf8_width c" "utf8_width c \<le> 4"
  by (simp_all add: utf8_width_def)

lemma length_utf8: "length (utf8 t) = utf8_length t"
  by (induction t) (simp_all add: utf8_char_def utf8_width_def)

lemma of_byte_char: "n < 256 \<Longrightarrow> of_char (byte_char n) = n"
  by (simp add: byte_char_def)

text \<open>An ASCII byte in the UTF-8 form is that character of the text.\<close>

lemma utf8_char_ascii:
  assumes "b \<in> set (utf8_char c)" and "of_char b < (128 :: nat)" and "c < 2097152"
  shows "of_char b = c"
proof -
  have "c div 64 < 32" if "c < 2048" using that by auto
  moreover have "c div 4096 < 16" if "c < 65536" using that by auto
  ultimately show ?thesis
    using assms by (auto simp: utf8_char_def of_byte_char split: if_splits)
qed

lemma utf8_ascii:
  assumes "b \<in> set (utf8 t)" and "of_char b < (128 :: nat)" and "\<forall>c \<in> set t. c < 2097152"
  shows "of_char b \<in> set t"
  using assms by (induction t) (auto dest: utf8_char_ascii)

subsection \<open>Subjects\<close>

lemma char_starts_bound: "i \<in> set (char_starts n t) \<Longrightarrow> n \<le> i \<and> i < n + utf8_length t"
proof (induction t arbitrary: n)
  case (Cons c t)
  from Cons.prems Cons.IH [of "n + utf8_width c"] show ?case
    using utf8_width_pos [of c] by auto
qed simp

lemma cut_at_start:
  "n + k \<in> set (char_starts n t) \<Longrightarrow> utf8_length (cut_at k t) = k \<and> length (cut_at k t) < length t"
proof (induction t arbitrary: n k)
  case (Cons c t)
  show ?case
  proof (cases "k = 0")
    case False
    with Cons.prems have s: "n + k \<in> set (char_starts (n + utf8_width c) t)" by auto
    from char_starts_bound [OF this] have "utf8_width c \<le> k" by auto
    with s Cons.IH [of "n + utf8_width c" "k - utf8_width c"] False show ?thesis by simp
  qed simp
qed simp

lemma cut_at_subset: "set (cut_at n t) \<subseteq> set t"
  by (induction n t rule: cut_at.induct) auto

lemma dots_length [simp]: "utf8_length (chars ''...'') = 3" "length (chars ''...'') = 3"
  by (simp_all add: chars_def utf8_width_def)

lemma cap_bytes_bounds:
  "utf8_length (cap_bytes s) \<le> TITLE_MAX_BYTES \<and> length (cap_bytes s) \<le> length s + 2 \<and>
    set (cap_bytes s) \<subseteq> set s \<union> {46}"
proof (cases "TITLE_MAX_BYTES < utf8_length s")
  case True
  define starts where "starts = takeWhile (\<lambda>i. i \<le> TITLE_MAX_BYTES - 3) (char_starts 0 s)"
  from True obtain c t where s: "s = c # t" by (cases s) auto
  then have ne: "starts \<noteq> []" by (simp add: starts_def)
  then have "last starts \<in> set starts" by simp
  then have "last starts \<in> set (char_starts 0 s)" "last starts \<le> TITLE_MAX_BYTES - 3"
    unfolding starts_def by (blast dest: set_takeWhileD)+
  with cut_at_start [of 0 "last starts" s]
  have "utf8_length (cut_at (last starts) s) \<le> TITLE_MAX_BYTES - 3" "length (cut_at (last starts) s) < length s"
    by auto
  moreover have "cap_bytes s = cut_at (last starts) s @ chars ''...''"
    using True ne by (simp add: cap_bytes_def Let_def starts_def)
  moreover have "set (chars ''...'') = {46}" by (simp add: chars_def)
  ultimately show ?thesis using cut_at_subset by (auto simp: TITLE_MAX_BYTES_def)
qed (auto simp: cap_bytes_def)

lemma cap_chars_bounds: "length (cap_chars s) \<le> TITLE_MAX \<and> set (cap_chars s) \<subseteq> set s \<union> {46}"
  by (auto simp: cap_chars_def TITLE_MAX_def chars_def dest: in_set_takeD)

lemma squeeze_subset: "set (squeeze b t) \<subseteq> set t"
  by (induction b t rule: squeeze.induct) auto

lemma utrim_with_subset: "set (utrim_with p t) \<subseteq> set t"
  by (auto simp: utrim_with_def) (metis set_dropWhileD set_rev)

lemma no_subject: "set (chars ''No_Subject'') \<subseteq> {78, 111, 95, 83, 117, 98, 106, 101, 99, 116}"
    "utf8_length (chars ''No_Subject'') = 10" "length (chars ''No_Subject'') = 10"
  by (simp_all add: chars_def utf8_width_def)

text \<open>The characters a sanitized subject can have, and its lengths.\<close>

lemma sanitize_bounds:
  "sanitize U t \<noteq> [] \<and> length (sanitize U t) \<le> TITLE_MAX + 2 \<and>
    utf8_length (sanitize U t) \<le> TITLE_MAX_BYTES"
proof -
  define s where "s = cap_chars (utrim_with (\<lambda>c. c = underscore) (squeeze False (map (title_char U) t)))"
  have "length s \<le> TITLE_MAX" using cap_chars_bounds by (simp add: s_def)
  with cap_bytes_bounds [of s] show ?thesis
    by (simp add: sanitize_def s_def [symmetric] no_subject Let_def TITLE_MAX_def TITLE_MAX_BYTES_def chars_def utf8_width_def)
qed

lemma sanitize_chars:
  assumes "c \<in> set (sanitize U t)"
  shows "c \<in> {45, 46, 95} \<or> ascii_letter c \<or> un_alnum U c \<and> c \<in> set t"
proof -
  let ?u = "squeeze False (map (title_char U) t)"
  have "set ?u \<subseteq> title_char U ` set t" using squeeze_subset by (metis list.set_map)
  then have u: "x \<in> {45, 46, 95} \<or> un_alnum U x \<and> x \<in> set t" if "x \<in> set ?u" for x
    using that by (auto simp: title_char_def underscore_def one_of_def chars_def split: if_splits)
  let ?o = "cap_bytes (cap_chars (utrim_with (\<lambda>c. c = underscore) ?u))"
  have "set ?o \<subseteq> set ?u \<union> {46}"
    using cap_bytes_bounds cap_chars_bounds utrim_with_subset by blast
  then have o: "x \<in> {45, 46, 95} \<or> un_alnum U x \<and> x \<in> set t" if "x \<in> set ?o" for x
    using u that by blast
  from assms consider "c \<in> set (chars ''No_Subject'')" | "c \<in> set ?o"
    by (auto simp: sanitize_def Let_def split: if_splits)
  then show ?thesis
  proof cases
    case 1
    with no_subject(1) have "c \<in> {78, 111, 95, 83, 117, 98, 106, 101, 99, 116}" by blast
    then show ?thesis by (auto simp: ascii_letter_def)
  next
    case 2
    with o show ?thesis by blast
  qed
qed

subsection \<open>Identifiers read back\<close>

lemma after_last_sep_none: "CHR ''_'' \<notin> set s \<Longrightarrow> after_last_sep s = None"
  by (induction s) auto

lemma after_last_sep_here: "CHR ''_'' \<notin> set i \<Longrightarrow> after_last_sep (s @ ''__'' @ i) = Some i"
proof (induction s)
  case Nil
  then have "after_last_sep i = None" by (rule after_last_sep_none)
  then have "after_last_sep (CHR ''_'' # i) = None"
    using Nil by (cases i) auto
  then show ?case using Nil by simp
qed (simp split: option.splits)

lemma id_of_attach_dir: "CHR ''_'' \<notin> set i \<Longrightarrow> id_from_name (attach_dir_name U subject i) = i"
  by (simp add: id_from_name_def attach_dir_name_def after_last_sep_here [of i, simplified])

lemma stem_of_message: "strip_suffix (msg_filename U subject i) GMAIL_SUFFIX = Some (attach_dir_name U subject i)"
  by (simp add: strip_suffix_def msg_filename_def attach_dir_name_def suffix_def)

lemma msg_filename_stem: "msg_filename U subject i = attach_dir_name U subject i @ GMAIL_SUFFIX"
  by (simp add: msg_filename_def attach_dir_name_def)

text \<open>A name the file system takes as one segment.\<close>

definition path_segment :: "string \<Rightarrow> bool" where
  "path_segment s = (s \<noteq> [] \<and> s \<noteq> ''.'' \<and> s \<noteq> ''..'' \<and> CHR ''/'' \<notin> set s \<and> char_of (0 :: nat) \<notin> set s)"

text \<open>
  C29. A message's file name. Whatever the subject, the name is one path segment of at most 255
  bytes when its id is at most 48 bytes of letters and digits, the name without its suffix is that
  of its attachment directory, and the id is read back from it.
\<close>

theorem message_name_roundtrip:
  assumes unicode: "\<And>c. c < 128 \<Longrightarrow> un_alnum U c \<Longrightarrow> ascii_letter c \<or> ascii_digit c"
    and scalar: "\<forall>c \<in> set subject. c < 1114112"
    and ident: "\<forall>b \<in> set i. ascii_letter (of_char b) \<or> ascii_digit (of_char b)" "length i \<le> 48"
  shows "strip_suffix (msg_filename U subject i) GMAIL_SUFFIX = Some (attach_dir_name U subject i) \<and>
    id_from_name (attach_dir_name U subject i) = i \<and>
    path_segment (msg_filename U subject i) \<and> length (msg_filename U subject i) \<le> 255"
proof -
  let ?s = "sanitize U subject"
  have no_sep: "CHR ''_'' \<notin> set i" using ident(1) by (auto simp: ascii_letter_def ascii_digit_def)
  have small: "\<forall>c \<in> set ?s. c < 2097152" using sanitize_chars scalar by (fastforce simp: ascii_letter_def)
  have safe: "of_char b \<noteq> (47 :: nat) \<and> of_char b \<noteq> (0 :: nat)" if "b \<in> set (utf8 ?s)" for b
  proof (cases "of_char b < (128 :: nat)")
    case True
    from utf8_ascii [OF that True small] sanitize_chars [of "of_char b" U subject] unicode [OF True]
    show ?thesis by (auto simp: ascii_letter_def ascii_digit_def)
  qed auto
  have "b \<in> set (utf8 ?s) \<union> {CHR ''_'', CHR ''.'', CHR ''j'', CHR ''s'', CHR ''o'', CHR ''n''} \<union> set i"
    if "b \<in> set (msg_filename U subject i)" for b
    using that by (auto simp: msg_filename_def GMAIL_SUFFIX_def)
  with safe ident(1) have "of_char b \<noteq> (47 :: nat) \<and> of_char b \<noteq> (0 :: nat)"
    if "b \<in> set (msg_filename U subject i)" for b
    using that by (fastforce simp: ascii_letter_def ascii_digit_def)
  then have "CHR ''/'' \<notin> set (msg_filename U subject i)" "char_of (0 :: nat) \<notin> set (msg_filename U subject i)"
    by force+
  moreover have "length (msg_filename U subject i) = utf8_length ?s + 2 + length i + 5"
    by (simp add: msg_filename_def GMAIL_SUFFIX_def length_utf8)
  moreover have "utf8_length ?s \<le> 200" using sanitize_bounds [of U subject] by (simp add: TITLE_MAX_BYTES_def)
  ultimately show ?thesis
    using ident(2) by (auto simp: stem_of_message id_of_attach_dir [OF no_sep] path_segment_def)
qed

text \<open>Small mail: the tables of ASCII.\<close>

definition ascii_uni :: uni_lib where
  "ascii_uni = \<lparr>un_white = (\<lambda>c. c \<in> {9, 10, 11, 12, 13, 32}),
     un_alnum = (\<lambda>c. ascii_letter c \<or> ascii_digit c)\<rparr>"

theorem message_name_roundtrip_witness:
  "id_from_name (attach_dir_name ascii_uni (chars ''Re: a__b / c'') ''18c2f'') = ''18c2f'' \<and>
   msg_filename ascii_uni (chars ''Re: a__b / c'') ''18c2f'' = ''Re_a_b_c__18c2f.json'' \<and>
   length (msg_filename ascii_uni (chars ''Re: a__b / c'') ''18c2f'') \<le> 255"
proof -
  have "\<forall>c \<in> set (chars ''Re: a__b / c''). c < 1114112"
    "\<forall>b \<in> set ''18c2f''. ascii_letter (of_char b) \<or> ascii_digit (of_char b)"
    by (simp_all add: chars_def ascii_letter_def ascii_digit_def)
  moreover have "msg_filename ascii_uni (chars ''Re: a__b / c'') ''18c2f'' = ''Re_a_b_c__18c2f.json''"
    by code_simp
  ultimately show ?thesis
    using message_name_roundtrip [of ascii_uni "chars ''Re: a__b / c''" "''18c2f''"]
    by (auto simp: ascii_uni_def)
qed

subsection \<open>Attachments\<close>

lemma digits_value_snoc: "digits_value (t @ [c]) = 10 * digits_value t + int (c - 48)"
  by (simp add: digits_value_def)

lemma dec_nat_value: "digits_value (dec_nat n) = int n \<and> all_digits (dec_nat n)"
proof (induction n rule: dec_nat.induct)
  case (1 n)
  show ?case
  proof (cases "n < 10")
    case True
    then show ?thesis
      by (simp add: dec_nat.simps [of n] digits_value_def all_digits_def ascii_digit_def)
  next
    case False
    have "10 * int (n div 10) + int (n mod 10) = int n" "n mod 10 \<le> 9" by presburger+
    with 1 False show ?thesis
      by (simp add: dec_nat.simps [of n] digits_value_snoc all_digits_def ascii_digit_def)
  qed
qed

lemma dec_nat_inj: "dec_nat a = dec_nat b \<longleftrightarrow> a = b"
  by (metis dec_nat_value of_nat_eq_iff)

text \<open>The names tried for a file: its own, then with 2, 3, and so on.\<close>

definition candidate :: "utext \<Rightarrow> nat \<Rightarrow> utext" where
  "candidate f k = (if k = 1 then f else suffix_before_ext f k)"

lemma split_ext_append: "split_ext f = Some (a, b) \<Longrightarrow> f = a @ b"
  by (auto simp: split_ext_def Let_def split: if_splits)

lemma suffix_length: "length f < length (suffix_before_ext f k)"
  using split_ext_append by (fastforce simp: suffix_before_ext_def chars_def split: option.splits)

lemma suffix_inj: "suffix_before_ext f j = suffix_before_ext f k \<longleftrightarrow> j = k"
  by (auto simp: suffix_before_ext_def dec_nat_inj split: option.splits)

lemma candidate_inj: "candidate f j = candidate f k \<longleftrightarrow> j = k"
  using suffix_length [of f j] suffix_length [of f k]
  by (auto simp: candidate_def suffix_inj)

lemma free_name_finds:
  "k < fuel \<Longrightarrow> 1 \<le> n \<Longrightarrow> candidate f (n + k) \<notin> set used \<Longrightarrow>
    \<exists>m \<ge> n. free_name f used fuel n (candidate f n) = Some (candidate f m) \<and>
      candidate f m \<notin> set used \<and> (\<forall>j. n \<le> j \<and> j < m \<longrightarrow> candidate f j \<in> set used)"
proof (induction fuel arbitrary: n k)
  case (Suc fuel)
  show ?case
  proof (cases "candidate f n \<in> set used")
    case True
    with Suc.prems(3) have "k \<noteq> 0" by (metis add.right_neutral)
    then have "k - 1 < fuel" "candidate f (n + 1 + (k - 1)) \<notin> set used"
      using Suc.prems by auto
    from Suc.IH [OF this(1) _ this(2)] obtain m where m: "n + 1 \<le> m"
        "free_name f used fuel (n + 1) (candidate f (n + 1)) = Some (candidate f m)"
        "candidate f m \<notin> set used" "\<forall>j. n + 1 \<le> j \<and> j < m \<longrightarrow> candidate f j \<in> set used" by auto
    have "free_name f used (Suc fuel) n (candidate f n) = Some (candidate f m)"
      using True Suc.prems(2) m(2) by (simp add: candidate_def)
    moreover have "\<forall>j. n \<le> j \<and> j < m \<longrightarrow> candidate f j \<in> set used"
      using True m(4) by (metis Suc_eq_plus1 Suc_leI le_neq_implies_less)
    ultimately show ?thesis using m(1,3) by (intro exI [of _ m]) auto
  qed auto
qed simp

lemma free_candidate:
  "\<exists>k < Suc (length used). candidate f (1 + k) \<notin> set used"
proof (rule ccontr)
  assume "\<not> ?thesis"
  then have "(\<lambda>k. candidate f (1 + k)) ` {..length used} \<subseteq> set used" by auto
  moreover have "inj_on (\<lambda>k. candidate f (1 + k)) {..length used}"
    by (rule inj_onI) (simp add: candidate_inj)
  ultimately have "card {..length used} \<le> card (set used)"
    by (metis List.finite_set card_inj_on_le)
  then show False using card_length [of used] by simp
qed

lemma free_name_total:
  "\<exists>m \<ge> 1. free_name f used (Suc (length used)) 1 f = Some (candidate f m) \<and>
    candidate f m \<notin> set used \<and> (\<forall>j. 1 \<le> j \<and> j < m \<longrightarrow> candidate f j \<in> set used)"
proof -
  obtain k where "k < Suc (length used)" "candidate f (1 + k) \<notin> set used"
    using free_candidate by blast
  from free_name_finds [OF this(1) _ this(2)] show ?thesis by (simp add: candidate_def)
qed

text \<open>A safe attachment name.\<close>

definition safe_name :: "utext \<Rightarrow> bool" where
  "safe_name t = (t \<noteq> [] \<and> t \<noteq> chars ''.'' \<and> t \<noteq> chars ''..'' \<and>
     (\<forall>c \<in> set t. c \<noteq> uslash \<and> c \<noteq> 92 \<and> \<not> is_control c))"

lemma sanitize_filename_safe: "safe_name (sanitize_filename U t)"
proof -
  have "\<forall>c \<in> set (chars ''attachment''). c \<noteq> uslash \<and> c \<noteq> 92 \<and> \<not> is_control c"
    by (simp add: chars_def uslash_def is_control_def)
  then show ?thesis
    by (auto simp: sanitize_filename_def Let_def safe_name_def underscore_def uslash_def is_control_def
        chars_def)
qed

lemma candidate_chars: "set (candidate f k) \<subseteq> set f \<union> {32, 40, 41} \<union> {48..57}"
proof -
  have "set (dec_nat k) \<subseteq> {48..57}"
    using dec_nat_value [of k] by (auto simp: all_digits_def list_all_iff ascii_digit_def)
  moreover have "set a \<subseteq> set f \<and> set b \<subseteq> set f" if "split_ext f = Some (a, b)" for a b
    using split_ext_append [OF that] by auto
  ultimately show ?thesis
    by (auto simp: candidate_def suffix_before_ext_def chars_def split: option.splits)
qed

lemma candidate_safe: "safe_name f \<Longrightarrow> safe_name (candidate f k)"
proof (cases "k = 1")
  case False
  assume f: "safe_name f"
  then have "1 \<le> length f" by (cases f) (auto simp: safe_name_def)
  with False have "3 < length (candidate f k)"
    using split_ext_append [of f]
    by (auto simp: candidate_def suffix_before_ext_def chars_def split: option.splits)
  moreover have "\<forall>c \<in> set (candidate f k). c \<noteq> uslash \<and> c \<noteq> 92 \<and> \<not> is_control c"
    using candidate_chars [of f k] f by (fastforce simp: safe_name_def uslash_def is_control_def)
  ultimately show ?thesis by (auto simp: safe_name_def chars_def)
qed (simp add: candidate_def)

lemma unique_names_total:
  "\<exists>ns. unique_names used fs = Some ns \<and> length ns = length fs \<and> distinct ns \<and>
    set ns \<inter> set used = {} \<and>
    (\<forall>i < length fs. \<exists>m \<ge> 1. ns ! i = candidate (fs ! i) m \<and>
       (\<forall>j. 1 \<le> j \<and> j < m \<longrightarrow> candidate (fs ! i) j \<in> set used \<union> set (take i ns)))"
proof (induction fs arbitrary: used)
  case (Cons f fs)
  obtain m where m: "1 \<le> m" "free_name f used (Suc (length used)) 1 f = Some (candidate f m)"
    "candidate f m \<notin> set used" "\<forall>j. 1 \<le> j \<and> j < m \<longrightarrow> candidate f j \<in> set used"
    using free_name_total by blast
  let ?n = "candidate f m"
  obtain ns where ns: "unique_names (?n # used) fs = Some ns" "length ns = length fs" "distinct ns"
      "set ns \<inter> set (?n # used) = {}"
    and each: "\<forall>i < length fs. \<exists>m \<ge> 1. ns ! i = candidate (fs ! i) m \<and>
       (\<forall>j. 1 \<le> j \<and> j < m \<longrightarrow> candidate (fs ! i) j \<in> set (?n # used) \<union> set (take i ns))"
    using Cons.IH [of "?n # used"] by blast
  have "\<exists>m' \<ge> 1. (?n # ns) ! i = candidate ((f # fs) ! i) m' \<and>
       (\<forall>j. 1 \<le> j \<and> j < m' \<longrightarrow> candidate ((f # fs) ! i) j \<in> set used \<union> set (take i (?n # ns)))"
    if "i < length (f # fs)" for i
  proof (cases i)
    case 0
    with m show ?thesis by auto
  next
    case (Suc i')
    with that each show ?thesis by auto
  qed
  moreover have "unique_names used (f # fs) = Some (?n # ns)" using m(2) ns(1) by simp
  ultimately show ?case using m(3) ns(2-4) by (intro exI [of _ "?n # ns"]) auto
qed simp

text \<open>
  C30. The names of a message's attachments. Whatever the senders called them, the loop that looks for
  a free name always ends, and gives each attachment a name of its own that is a safe path segment:
  its sanitized name when no earlier attachment has it, else that name with the least number from 2
  on that no earlier attachment has.
\<close>

theorem attachment_names_unique:
  "\<exists>ns. unique_names [] (map (sanitize_filename U) files) = Some ns \<and> length ns = length files \<and>
    distinct ns \<and> (\<forall>n \<in> set ns. safe_name n) \<and>
    (\<forall>i < length files. let f = sanitize_filename U (files ! i) in
       if f \<in> set (take i ns)
       then \<exists>m \<ge> 2. ns ! i = suffix_before_ext f m \<and>
              {suffix_before_ext f j |j. 2 \<le> j \<and> j < m} \<subseteq> set (take i ns)
       else ns ! i = f)"
proof -
  let ?fs = "map (sanitize_filename U) files"
  obtain ns where ns: "unique_names [] ?fs = Some ns" "length ns = length files" "distinct ns"
    and each: "\<forall>i < length files. \<exists>m \<ge> 1. ns ! i = candidate (?fs ! i) m \<and>
       (\<forall>j. 1 \<le> j \<and> j < m \<longrightarrow> candidate (?fs ! i) j \<in> set (take i ns))"
    using unique_names_total [of "[]" ?fs] by auto
  have "safe_name n" if "n \<in> set ns" for n
    using that each ns(2) by (metis candidate_safe in_set_conv_nth nth_map sanitize_filename_safe)
  moreover have "let f = sanitize_filename U (files ! i) in
       if f \<in> set (take i ns)
       then \<exists>m \<ge> 2. ns ! i = suffix_before_ext f m \<and>
              {suffix_before_ext f j |j. 2 \<le> j \<and> j < m} \<subseteq> set (take i ns)
       else ns ! i = f" if i: "i < length files" for i
  proof -
    define f where "f = sanitize_filename U (files ! i)"
    from each i obtain m where m: "1 \<le> m" "ns ! i = candidate f m"
        "\<forall>j. 1 \<le> j \<and> j < m \<longrightarrow> candidate f j \<in> set (take i ns)"
      by (auto simp: f_def)
    have own: "ns ! i \<notin> set (take i ns)"
      using ns(2,3) i by (simp add: in_set_conv_nth nth_eq_iff_index_eq)
    show ?thesis
    proof (cases "m = 1")
      case True
      with m own show ?thesis by (simp add: f_def [symmetric] candidate_def)
    next
      case False
      with m have "f \<in> set (take i ns)" "2 \<le> m" by (force simp: candidate_def)+
      moreover have "suffix_before_ext f j \<in> set (take i ns)" if "2 \<le> j" "j < m" for j
        using m(3) that by (auto simp: candidate_def dest!: spec [of _ j])
      ultimately show ?thesis using m(2) False
        by (auto simp: f_def [symmetric] candidate_def Let_def intro!: exI [of _ m])
    qed
  qed
  ultimately show ?thesis using ns by blast
qed

theorem attachment_names_unique_witness:
  "\<exists>ns. unique_names [] (map (sanitize_filename ascii_uni) [chars ''a.png'', chars ''../a.png'', chars ''a.png'']) =
     Some ns \<and> ns = [chars ''a.png'', chars ''.._a.png'', chars ''a (2).png''] \<and> distinct ns \<and>
     safe_name (ns ! 1)"
proof -
  let ?files = "[chars ''a.png'', chars ''../a.png'', chars ''a.png'']"
  obtain ns where ns: "unique_names [] (map (sanitize_filename ascii_uni) ?files) = Some ns"
    and d: "distinct ns" and l: "length ns = length ?files" and safe: "\<forall>n \<in> set ns. safe_name n"
    using attachment_names_unique [of ascii_uni ?files] by blast
  have "unique_names [] (map (sanitize_filename ascii_uni) ?files) =
     Some [chars ''a.png'', chars ''.._a.png'', chars ''a (2).png'']"
    by code_simp
  with ns have "ns = [chars ''a.png'', chars ''.._a.png'', chars ''a (2).png'']"
    by (simp only: option.inject)
  moreover from safe l have "safe_name (ns ! 1)" by auto
  ultimately show ?thesis using ns d by blast
qed

end
