(* ===== verification/Gmail_Message.thy ===== *)
theory Gmail_Message
  imports Gmail_Names Resource_Api
begin

section \<open>A message as the agent sees it\<close>

text \<open>
  The message processing of \<^verbatim>\<open>src/workspace/src/vfs/resource/gmail.rs\<close>: from the API's JSON to the
  JSON of the message file, and from a command to the mail that is sent. The rendering of HTML, the
  two forms of base64, lower case and the numbers of JSON are parameters.
\<close>

record 'n mail_lib =
  ml_uni :: uni_lib
  ml_lower :: "utext \<Rightarrow> utext"
  ml_render_html :: "utext \<Rightarrow> utext"
  ml_b64url_text :: "utext \<Rightarrow> utext option"
  ml_b64 :: "string \<Rightarrow> utext"
  ml_u64 :: "'n \<Rightarrow> nat option"
  ml_num :: "nat \<Rightarrow> 'n"

abbreviation mtrim :: "'n mail_lib \<Rightarrow> utext \<Rightarrow> utext" where
  "mtrim M \<equiv> utrim_with (un_white (ml_uni M))"

subsection \<open>Reading JSON\<close>

fun jv_str :: "'n jvalue \<Rightarrow> utext option" where
  "jv_str (JStr s) = Some s"
| "jv_str _ = None"

fun jv_arr :: "'n jvalue \<Rightarrow> 'n jvalue list option" where
  "jv_arr (JArr vs) = Some vs"
| "jv_arr _ = None"

definition str_field :: "string \<Rightarrow> 'n jvalue \<Rightarrow> utext option" where
  "str_field k v = Option.bind (field k v) jv_str"

text \<open>\<^verbatim>\<open>.and_then(|a| a.as_array()).into_iter().flatten()\<close>.\<close>

definition arr_field :: "string \<Rightarrow> 'n jvalue \<Rightarrow> 'n jvalue list" where
  "arr_field k v = the_default [] (Option.bind (field k v) jv_arr)"

lemma field_size: "field k v = Some x \<Longrightarrow> size x < size v"
proof (cases v)
  case (JObj fs)
  assume "field k v = Some x"
  with JObj have "(chars k, x) \<in> set fs" by (auto dest: map_of_SomeD)
  then have "size_prod (\<lambda>_. 0) size (chars k, x) \<le> size_list (size_prod (\<lambda>_. 0) size) fs"
    by (rule size_list_estimation' [OF _ order_refl])
  with JObj show ?thesis by simp
qed auto

lemma arr_field_size:
  assumes "x \<in> set (arr_field k v)"
  shows "size x < size v"
proof -
  from assms obtain vs where f: "field k v = Some (JArr vs)" and x: "x \<in> set vs"
    by (cases "field k v"; cases "the (field k v)") (auto simp: arr_field_def)
  from x have "size x \<le> size_list size vs" by (rule size_list_estimation' [OF _ order_refl])
  with field_size [OF f] show ?thesis by simp
qed

subsection \<open>Headers and bodies\<close>

definition eq_ignore_ascii_case :: "utext \<Rightarrow> utext \<Rightarrow> bool" where
  "eq_ignore_ascii_case a b =
     (map (\<lambda>c. if 65 \<le> c \<and> c \<le> 90 then c + 32 else c) a =
      map (\<lambda>c. if 65 \<le> c \<and> c \<le> 90 then c + 32 else c) b)"

definition header :: "'n jvalue \<Rightarrow> string \<Rightarrow> utext" where
  "header raw name =
     (let hs = (case field ''payload'' raw of None \<Rightarrow> [] | Some p \<Rightarrow> arr_field ''headers'' p)
      in case filter (\<lambda>h. case str_field ''name'' h of
                            None \<Rightarrow> False | Some n \<Rightarrow> eq_ignore_ascii_case n (chars name)) hs of
           [] \<Rightarrow> []
         | h # _ \<Rightarrow> the_default [] (str_field ''value'' h))"

definition decode_b64url_str :: "'n mail_lib \<Rightarrow> utext \<Rightarrow> utext option" where
  "decode_b64url_str M data = ml_b64url_text M (utrim_end (\<lambda>c. c = 61) data)"

definition own_part :: "'n mail_lib \<Rightarrow> string \<Rightarrow> 'n jvalue \<Rightarrow> utext option" where
  "own_part M mime payload =
     (if str_field ''mimeType'' payload = Some (chars mime) then
        (case Option.bind (field ''body'' payload) (str_field ''data'') of
           None \<Rightarrow> None
         | Some data \<Rightarrow>
             (if data = [] then None
              else (case decode_b64url_str M data of
                      None \<Rightarrow> None
                    | Some t \<Rightarrow> if mtrim M t = [] then None else Some t)))
      else None)"

fun first_some :: "'a option list \<Rightarrow> 'a option" where
  "first_some [] = None"
| "first_some (x # xs) = (case x of Some a \<Rightarrow> Some a | None \<Rightarrow> first_some xs)"

function find_part :: "'n mail_lib \<Rightarrow> string \<Rightarrow> 'n jvalue \<Rightarrow> utext option" where
  "find_part M mime payload =
     (case own_part M mime payload of
        Some t \<Rightarrow> Some t
      | None \<Rightarrow> first_some (map (find_part M mime) (arr_field ''parts'' payload)))"
  by pat_completeness auto
termination find_part
  by (relation "measure (\<lambda>(M, mime, v). size v)") (simp_all add: arr_field_size)

declare find_part.simps [simp del]

text \<open>
  \<^verbatim>\<open>str::lines\<close>: the pieces between line feeds, without a carriage return before them; what follows
  the last line feed is a line of its own unless it is empty.
\<close>

fun split_char :: "uchar \<Rightarrow> utext \<Rightarrow> utext list" where
  "split_char c [] = [[]]"
| "split_char c (x # xs) =
     (if x = c then [] # split_char c xs
      else (case split_char c xs of [] \<Rightarrow> [[x]] | w # ws \<Rightarrow> (x # w) # ws))"

definition drop_return :: "utext \<Rightarrow> utext" where
  "drop_return l = (if l \<noteq> [] \<and> last l = 13 then butlast l else l)"

definition ulines :: "utext \<Rightarrow> utext list" where
  "ulines t =
     (let ps = split_char 10 t
      in map drop_return (butlast ps) @ (if last ps = [] then [] else [last ps]))"

fun tidy_onto :: "'n mail_lib \<Rightarrow> utext \<Rightarrow> bool \<Rightarrow> utext list \<Rightarrow> utext" where
  "tidy_onto M out pending [] = out"
| "tidy_onto M out pending (l # ls) =
     (let line = utrim_end (un_white (ml_uni M)) l
      in if line = [] then tidy_onto M out True ls
         else tidy_onto M (out @ (if pending \<and> out \<noteq> [] then [10] else []) @ line @ [10]) False ls)"

definition tidy_lines :: "'n mail_lib \<Rightarrow> utext \<Rightarrow> utext" where
  "tidy_lines M s = utrim_end (un_white (ml_uni M)) (tidy_onto M [] False (ulines s))"

definition html_to_text :: "'n mail_lib \<Rightarrow> utext \<Rightarrow> utext" where
  "html_to_text M html = tidy_lines M (map (\<lambda>c. if c = 160 then 32 else c) (ml_render_html M html))"

definition decode_body :: "'n mail_lib \<Rightarrow> 'n jvalue \<Rightarrow> utext" where
  "decode_body M payload =
     (case find_part M ''text/plain'' payload of
        Some plain \<Rightarrow> plain
      | None \<Rightarrow> (case find_part M ''text/html'' payload of
                    Some html \<Rightarrow> html_to_text M html
                  | None \<Rightarrow> []))"

subsection \<open>Addresses\<close>

definition jobj :: "(string \<times> 'n jvalue) list \<Rightarrow> 'n jvalue" where
  "jobj fs = JObj (map (\<lambda>(k, v). (chars k, v)) fs)"

definition address :: "utext \<Rightarrow> utext \<Rightarrow> 'n jvalue" where
  "address name email = jobj [(''name'', JStr name), (''email'', JStr email)]"

definition parse_address :: "'n mail_lib \<Rightarrow> utext \<Rightarrow> 'n jvalue" where
  "parse_address M raw0 =
     (let raw = mtrim M raw0 in
      case (ufind 60 raw, ufind 62 raw) of
        (Some lt, Some gt) \<Rightarrow>
          (if lt < gt then
             address (utrim_with (\<lambda>c. c = 34) (mtrim M (take lt raw)))
               (mtrim M (take (gt - (lt + 1)) (drop (lt + 1) raw)))
           else address [] raw)
      | _ \<Rightarrow> address [] raw)"

definition parse_address_list :: "'n mail_lib \<Rightarrow> utext \<Rightarrow> 'n jvalue" where
  "parse_address_list M raw =
     (if mtrim M raw = [] then JArr []
      else JArr (map (\<lambda>a. parse_address M (mtrim M a)) (split_char 44 raw)))"

subsection \<open>Attachments\<close>

record attachment =
  at_filename :: utext
  at_id :: utext
  at_size :: nat
  at_mime :: utext

definition push_part :: "'n mail_lib \<Rightarrow> 'n jvalue \<Rightarrow> attachment list" where
  "push_part M part =
     (let filename = the_default [] (str_field ''filename'' part);
          body = field ''body'' part;
          aid = the_default [] (Option.bind body (str_field ''attachmentId''))
      in if filename \<noteq> [] \<and> aid \<noteq> [] then
           [\<lparr>at_filename = sanitize_filename (ml_uni M) filename, at_id = aid,
             at_size = the_default 0 (Option.bind (Option.bind body (field ''size''))
               (\<lambda>s. case s of JNum n \<Rightarrow> ml_u64 M n | _ \<Rightarrow> None)),
             at_mime = the_default [] (str_field ''mimeType'' part)\<rparr>]
         else [])"

definition attachments :: "'n mail_lib \<Rightarrow> 'n jvalue \<Rightarrow> attachment list" where
  "attachments M raw =
     (case field ''payload'' raw of
        None \<Rightarrow> []
      | Some p \<Rightarrow> concat (map (\<lambda>part. push_part M part @ concat (map (push_part M) (arr_field ''parts'' part)))
                      (arr_field ''parts'' p)))"

definition unique_attachment_names :: "attachment list \<Rightarrow> utext list option" where
  "unique_attachment_names atts = unique_names [] (map at_filename atts)"

subsection \<open>Links\<close>

definition MAX_LINKS :: nat where "MAX_LINKS = 50"

text \<open>\<^verbatim>\<open>str::replace\<close>: the occurrences that do not overlap, from the left.\<close>

function replace_all :: "utext \<Rightarrow> utext \<Rightarrow> utext \<Rightarrow> utext" where
  "replace_all p r [] = []"
| "replace_all p r (c # t) =
     (if p \<noteq> [] \<and> take (length p) (c # t) = p then r @ replace_all p r (drop (length p) (c # t))
      else c # replace_all p r t)"
  by pat_completeness auto
termination replace_all
  by (relation "measure (\<lambda>(p, r, t). length t)") (auto simp: length_greater_0_conv [symmetric] simp del: length_greater_0_conv)

definition decode_entities :: "utext \<Rightarrow> utext" where
  "decode_entities s =
     fold (\<lambda>(p, r). replace_all (chars p) (chars r))
       [(''&amp;'', ''&''), (''&#38;'', ''&''), (''&quot;'', ''\"''), (''&#39;'', [CHR 0x27]),
        (''&lt;'', ''<''), (''&gt;'', ''>'')] s"

text \<open>The value at the head of what follows an attribute's name.\<close>

definition attr_value :: "'n mail_lib \<Rightarrow> utext \<Rightarrow> utext option" where
  "attr_value M s =
     (let white = un_white (ml_uni M) in
      case ustrip_prefix ''='' (dropWhile white s) of
        None \<Rightarrow> None
      | Some r0 \<Rightarrow>
          (case dropWhile white r0 of
             [] \<Rightarrow> None
           | c # rest \<Rightarrow>
               Some (decode_entities (mtrim M
                 (if c = 34 \<or> c = 39 then takeWhile (\<lambda>x. x \<noteq> c) rest
                  else takeWhile (\<lambda>x. \<not> (x = 32 \<or> x = 62 \<or> white x)) (c # rest))))))"

text \<open>\<^verbatim>\<open>match_indices\<close>: what follows the start of each occurrence that overlaps no earlier one.\<close>

function matches_of :: "utext \<Rightarrow> utext \<Rightarrow> utext list" where
  "matches_of p [] = []"
| "matches_of p (c # t) =
     (if p \<noteq> [] \<and> take (length p) (c # t) = p then (c # t) # matches_of p (drop (length p) (c # t))
      else matches_of p t)"
  by pat_completeness auto
termination matches_of
  by (relation "measure (\<lambda>(p, t). length t)") (auto simp: length_greater_0_conv [symmetric] simp del: length_greater_0_conv)

fun collect_links :: "'n mail_lib \<Rightarrow> utext list \<Rightarrow> utext list \<Rightarrow> utext list" where
  "collect_links M out [] = out"
| "collect_links M out (m # ms) =
     (case attr_value M (drop 4 m) of
        None \<Rightarrow> collect_links M out ms
      | Some url \<Rightarrow>
          (if is_url_citation url \<and> url \<notin> set out then
             (if MAX_LINKS \<le> length out + 1 then out @ [url] else collect_links M (out @ [url]) ms)
           else collect_links M out ms))"

definition body_links :: "'n mail_lib \<Rightarrow> 'n jvalue \<Rightarrow> utext list" where
  "body_links M payload =
     (case find_part M ''text/html'' payload of
        None \<Rightarrow> []
      | Some html \<Rightarrow> collect_links M [] (matches_of (chars ''href'') html))"

definition attr_in :: "'n mail_lib \<Rightarrow> utext \<Rightarrow> string \<Rightarrow> utext option" where
  "attr_in M s name =
     (case ufind_text (chars name) s of
        None \<Rightarrow> None
      | Some at \<Rightarrow> attr_value M (drop (at + length name) s))"

definition span_text :: "'n mail_lib \<Rightarrow> utext \<Rightarrow> utext option" where
  "span_text M s =
     (case ufind_text (chars ''<span'') s of
        None \<Rightarrow> None
      | Some start \<Rightarrow>
          (case ufind 62 (drop start s) of
             None \<Rightarrow> None
           | Some k \<Rightarrow>
               (let inner = drop (start + k + 1) s in
                case ufind_text (chars ''</span>'') inner of
                  None \<Rightarrow> None
                | Some n \<Rightarrow>
                    (let t = decode_entities (mtrim M (take n inner)) in if t = [] then None else Some t))))"

definition chip_file :: "'n mail_lib \<Rightarrow> utext \<Rightarrow> (utext \<times> utext) option" where
  "chip_file M m =
     (let chip = (case ufind_text (chars ''</a>'') m of Some n \<Rightarrow> take n m | None \<Rightarrow> m) in
      case attr_in M chip ''href'' of
        None \<Rightarrow> None
      | Some url \<Rightarrow>
          (if \<not> uprefix ''https://'' url then None
           else Some
             (the_default []
                (case attr_in M chip ''aria-label'' of
                   Some n \<Rightarrow> if n \<noteq> [] then Some n else span_text M chip
                 | None \<Rightarrow> span_text M chip), url)))"

definition drive_files :: "'n mail_lib \<Rightarrow> 'n jvalue \<Rightarrow> (utext \<times> utext) list" where
  "drive_files M payload =
     (case find_part M ''text/html'' payload of
        None \<Rightarrow> []
      | Some html \<Rightarrow>
          take MAX_LINKS (List.map_filter (chip_file M) (matches_of (chars ''gmail_drive_chip'') html)))"

subsection \<open>The message file\<close>

definition process_message :: "'n mail_lib \<Rightarrow> 'n jvalue \<Rightarrow> 'n jvalue option" where
  "process_message M raw =
     (let payload = the_default JNull (field ''payload'' raw);
          drive = drive_files M payload;
          links = filter (\<lambda>u. u \<notin> snd ` set drive) (body_links M payload);
          atts = attachments M raw;
          text = (\<lambda>k. JStr (the_default [] (str_field k raw)))
      in map_option (\<lambda>names.
           jobj [(''id'', text ''id''), (''thread_id'', text ''threadId''),
             (''from'', parse_address M (header raw ''From'')),
             (''to'', parse_address_list M (header raw ''To'')),
             (''cc'', parse_address_list M (header raw ''Cc'')),
             (''subject'', JStr (header raw ''Subject'')),
             (''date'', JStr (header raw ''Date'')),
             (''body_text'', JStr (decode_body M payload)),
             (''links'', JArr (map JStr links)),
             (''drive_files'', JArr (map (\<lambda>(f, u). jobj [(''filename'', JStr f), (''url'', JStr u)]) drive)),
             (''snippet'', text ''snippet''),
             (''labels'', the_default (JArr []) (field ''labelIds'' raw)),
             (''attachments'', JArr (map (\<lambda>(a, name).
                jobj [(''id'', JStr (at_id a)), (''filename'', JStr name),
                      (''mime_type'', JStr (at_mime a)), (''size'', JNum (ml_num M (at_size a)))])
                (zip atts names)))])
         (unique_attachment_names atts))"

definition msg_time :: "'n jvalue \<Rightarrow> systime option" where
  "msg_time raw =
     map_option (\<lambda>ms. int ms * 1000000) (Option.bind (str_field ''internalDate'' raw) parse_u64)"

subsection \<open>Mail to be sent\<close>

definition encode_header :: "'n mail_lib \<Rightarrow> utext \<Rightarrow> utext" where
  "encode_header M v =
     (if \<forall>c \<in> set v. c < 128 then v
      else chars ''=?UTF-8?B?'' @ ml_b64 M (utf8 v) @ chars ''?='')"

definition crlf :: utext where "crlf = [13, 10]"

definition build_mime ::
  "'n mail_lib \<Rightarrow> utext \<Rightarrow> utext option \<Rightarrow> utext \<Rightarrow> utext \<Rightarrow> (string \<times> utext) list \<Rightarrow> string" where
  "build_mime M to from subject body extra =
     utf8 ((case from of None \<Rightarrow> [] | Some f \<Rightarrow> chars ''From: '' @ f @ crlf)
       @ chars ''To: '' @ to @ crlf
       @ chars ''Subject: '' @ encode_header M subject @ crlf
       @ concat (map (\<lambda>(k, v). chars k @ chars '': '' @ v @ crlf) extra)
       @ chars ''MIME-Version: 1.0'' @ crlf
       @ chars ''Content-Type: text/plain; charset=\"utf-8\"'' @ crlf
       @ chars ''Content-Transfer-Encoding: 8bit'' @ crlf
       @ crlf)
     @ utf8 body"

end
