(* ===== verification/Gmail_Mirror.thy ===== *)
theory Gmail_Mirror
  imports Gmail_Message Local_Resource
begin

section \<open>The mailbox mirror on disk\<close>

text \<open>
  The disk side of \<^verbatim>\<open>src/workspace/src/vfs/resource/gmail_sync.rs\<close>, on the disk of
  \<^theory_text>\<open>Local_Resource\<close>: where a message is placed, how it is found again and how it is removed.
  A hard link is a copy of the file (the branch the code takes where there are no hard links):
  what a link shares is never changed after it is made but by replacing the file.
\<close>

subsection \<open>Paths\<close>

text \<open>
  \<^verbatim>\<open>Path::join\<close>, with the dots as the system resolves them: an absolute path replaces the base.
\<close>

fun join_onto :: "string list \<Rightarrow> string list \<Rightarrow> string list" where
  "join_onto base [] = base"
| "join_onto base (s # ss) =
     (if s = [] \<or> s = ''.'' then join_onto base ss
      else if s = ''..'' then join_onto (butlast base) ss
      else join_onto (base @ [s]) ss)"

definition path_join :: "string list \<Rightarrow> string \<Rightarrow> string list" where
  "path_join base s = join_onto (if prefix ''/'' s then [] else base) (split_on CHR ''/'' s)"

definition TREE_DIR :: string where "TREE_DIR = ''tree''"

definition mirror_tree :: "string list \<Rightarrow> string list" where
  "mirror_tree root = root @ [TREE_DIR]"

definition account_char :: "uchar \<Rightarrow> uchar" where
  "account_char c = (if ascii_letter c \<or> ascii_digit c \<or> one_of c ''@._-+'' then c else underscore)"

definition account_mirror_dir :: "'n mail_lib \<Rightarrow> string list \<Rightarrow> utext \<Rightarrow> string list" where
  "account_mirror_dir M mirror_root email =
     path_join (path_join mirror_root ''gmail'') (utf8 (map account_char (ml_lower M (mtrim M email))))"

definition digit_name :: "nat \<Rightarrow> string \<Rightarrow> bool" where
  "digit_name n s = (length s = n \<and> list_all (\<lambda>b. ascii_digit (of_char b)) s)"

definition is_month_dir :: "string list \<Rightarrow> bool" where
  "is_month_dir d =
     (2 \<le> length d \<and> digit_name 2 (last d) \<and> digit_name 4 (last (butlast d)))"

subsection \<open>Steps that may fail\<close>

text \<open>A step gives the disk it leaves and the error that stopped it, if one did.\<close>

type_synonym disk_step = "disk \<Rightarrow> disk \<times> io_error option"

definition then_do :: "disk_step \<Rightarrow> disk_step \<Rightarrow> disk_step" where
  "then_do f g d = (case f d of (d', Some e) \<Rightarrow> (d', Some e) | (d', None) \<Rightarrow> g d')"

fun do_each :: "('a \<Rightarrow> disk_step) \<Rightarrow> 'a list \<Rightarrow> disk_step" where
  "do_each f [] = (\<lambda>d. (d, None))"
| "do_each f (a # as) = then_do (f a) (do_each f as)"

fun stepped :: "disk \<Rightarrow> (io_error, disk) res \<Rightarrow> disk \<times> io_error option" where
  "stepped d (Inl e) = (d, Some e)"
| "stepped d (Inr d') = (d', None)"

definition ignoring :: "(disk \<Rightarrow> (io_error, disk) res) \<Rightarrow> disk \<Rightarrow> disk" where
  "ignoring f d = (case f d of Inl _ \<Rightarrow> d | Inr d' \<Rightarrow> d')"

text \<open>\<^verbatim>\<open>create_dir_all\<close>: each ancestor that is missing, from the root.\<close>

definition create_missing :: "string list \<Rightarrow> disk_step" where
  "create_missing p d = (if is_dir_at (dk_nodes d) p then (d, None) else stepped d (sys_create_dir d p))"

definition create_dir_all :: "string list \<Rightarrow> disk_step" where
  "create_dir_all p = do_each create_missing (map (\<lambda>i. take i p) [1..<Suc (length p)])"

definition sys_remove_dir_all :: "disk \<Rightarrow> string list \<Rightarrow> (io_error, disk) res" where
  "sys_remove_dir_all d p =
     (if is_dir_at (dk_nodes d) p \<and> p \<noteq> []
      then Inr (d\<lparr>dk_nodes := filter (\<lambda>(k, _). \<not> prefix p k) (dk_nodes d)\<rparr>)
      else Inl (missing_err (dk_nodes d) p))"

definition set_modified :: "string list \<Rightarrow> systime option \<Rightarrow> disk \<Rightarrow> disk" where
  "set_modified p t d =
     (case t of None \<Rightarrow> d
      | Some t \<Rightarrow>
          (case map_of (dk_nodes d) p of
             Some (FFile b m) \<Rightarrow> d\<lparr>dk_nodes := AList.update p (FFile b (m\<lparr>md_mtime := t\<rparr>)) (dk_nodes d)\<rparr>
           | _ \<Rightarrow> d))"

definition write_file :: "string list \<Rightarrow> bytes \<Rightarrow> systime option \<Rightarrow> disk_step" where
  "write_file p b mtime d =
     (case sys_write_new d p b of
        Inl e \<Rightarrow> (d, Some e)
      | Inr d' \<Rightarrow> (set_modified p mtime d', None))"

text \<open>\<^verbatim>\<open>fs::copy\<close>: the content of a file under a new name.\<close>

definition sys_copy :: "disk \<Rightarrow> string list \<Rightarrow> string list \<Rightarrow> (io_error, disk) res" where
  "sys_copy d src dst =
     (case map_of (dk_nodes d) src of
        Some (FFile b m) \<Rightarrow> sys_write_new d dst b
      | Some (FDir _) \<Rightarrow> Inl (IoOther ''EISDIR'')
      | None \<Rightarrow> Inl (missing_err (dk_nodes d) src))"

definition link_or_copy :: "string list \<Rightarrow> string list \<Rightarrow> disk_step" where
  "link_or_copy src dst =
     then_do
       (\<lambda>d. if map_of (dk_nodes d) dst \<noteq> None then stepped d (sys_remove_file d dst) else (d, None))
       (\<lambda>d. stepped d (sys_copy d src dst))"

text \<open>\<^verbatim>\<open>prune_empty\<close>: remove directories from \<open>cur\<close> upwards while they are empty and below the root.\<close>

lemma below_root_shorter: "cur \<noteq> root \<Longrightarrow> prefix root cur \<Longrightarrow> length (butlast cur) < length cur"
  by (cases cur rule: rev_cases) auto

function prune_empty :: "string list \<Rightarrow> string list \<Rightarrow> disk \<Rightarrow> disk" where
  "prune_empty root cur d =
     (if cur = root \<or> \<not> prefix root cur then d
      else (case sys_remove_dir d cur of
              Inl _ \<Rightarrow> d
            | Inr d' \<Rightarrow> prune_empty root (butlast cur) d'))"
  by pat_completeness auto
termination prune_empty
  by (relation "measure (\<lambda>(root, cur, d). length cur)")
    (auto simp del: length_butlast intro: below_root_shorter)

declare prune_empty.simps [simp del]

subsection \<open>Finding and removing messages\<close>

definition stem_of :: "string list \<Rightarrow> string option" where
  "stem_of p = (if p = [] then None else strip_suffix (last p) GMAIL_SUFFIX)"

text \<open>
  \<^verbatim>\<open>find_message_files\<close>: the stack of directories to read; what is found is the pairs of an id and a
  path, in the order they are met. A directory is read once, so that a step for each node is enough.
\<close>

definition found_in :: "disk_nodes \<Rightarrow> string list \<Rightarrow> (string \<times> string list) list" where
  "found_in ns dir =
     (if \<not> is_month_dir dir then []
      else List.map_filter
        (\<lambda>(p, n). if node_is_dir n then None
                  else map_option (\<lambda>stem. (id_from_name stem, p)) (stem_of p))
        (children ns dir))"

definition dirs_in :: "disk_nodes \<Rightarrow> string list \<Rightarrow> string list list" where
  "dirs_in ns dir =
     (if is_month_dir dir then []
      else map fst (filter (\<lambda>(p, n). node_is_dir n) (children ns dir)))"

fun walk :: "nat \<Rightarrow> disk_nodes \<Rightarrow> string list list \<Rightarrow> (string \<times> string list) list" where
  "walk 0 ns stack = []"
| "walk (Suc fuel) ns [] = []"
| "walk (Suc fuel) ns (dir # stack) =
     found_in ns dir @ walk fuel ns (rev (dirs_in ns dir) @ stack)"

definition find_message_files ::
  "disk \<Rightarrow> string list \<Rightarrow> (string \<Rightarrow> bool) \<Rightarrow> (string \<times> string list) list" where
  "find_message_files d tree wanted =
     (if is_dir_at (dk_nodes d) tree
      then filter (\<lambda>(i, _). wanted i) (walk (Suc (length (dk_nodes d))) (dk_nodes d) [tree])
      else [])"

definition paths_of :: "string \<Rightarrow> (string \<times> string list) list \<Rightarrow> string list list" where
  "paths_of i found = map snd (filter (\<lambda>(j, _). j = i) found)"

definition remove_message_file :: "string list \<Rightarrow> string list \<Rightarrow> disk \<Rightarrow> disk" where
  "remove_message_file tree p d =
     (let d1 = ignoring (\<lambda>d. sys_remove_file d p) d;
          d2 = (case stem_of p of
                  None \<Rightarrow> d1
                | Some stem \<Rightarrow> ignoring (\<lambda>d. sys_remove_dir_all d (butlast p @ [stem])) d1)
      in prune_empty tree (butlast p) d2)"

definition remove_message_files :: "string list \<Rightarrow> string list list \<Rightarrow> disk \<Rightarrow> disk" where
  "remove_message_files tree ps d = fold (remove_message_file tree) ps d"

text \<open>The label a located path stands for: what is above its last three components.\<close>

fun join_slash :: "string list \<Rightarrow> string" where
  "join_slash [] = []"
| "join_slash [s] = s"
| "join_slash (s # t # ss) = s @ ''/'' @ join_slash (t # ss)"

definition label_of :: "string list \<Rightarrow> string list \<Rightarrow> string option" where
  "label_of tree p =
     (if \<not> prefix tree p then None
      else (let parts = drop (length tree) p in
            if length parts < 3 then None
            else (let label = take (length parts - 3) parts in
                  if label = [] then None else Some (join_slash label))))"

definition labels_on_disk :: "string list \<Rightarrow> string list list \<Rightarrow> string set" where
  "labels_on_disk tree ps = set (List.map_filter (label_of tree) ps)"

subsection \<open>Placing a message\<close>

definition month_of :: "'n jvalue \<Rightarrow> (string \<times> string) option" where
  "month_of raw =
     map_option (\<lambda>ms. let date = epoch_ms_to_date ms in (utf8 (take 4 date), utf8 (take 2 (drop 5 date))))
       (str_field ''internalDate'' raw)"

definition subject_of :: "'n jvalue \<Rightarrow> utext" where
  "subject_of raw = (let s = header raw ''Subject'' in if s = [] then chars ''No Subject'' else s)"

definition message_labels :: "(string \<rightharpoonup> string) \<Rightarrow> 'n jvalue \<Rightarrow> string list" where
  "message_labels labels raw =
     List.map_filter (\<lambda>l. Option.bind (jv_str l) (\<lambda>s. labels (utf8 s))) (arr_field ''labelIds'' raw)"

definition label_dirs ::
  "string list \<Rightarrow> (string \<rightharpoonup> string) \<Rightarrow> 'n jvalue \<Rightarrow> string \<times> string \<Rightarrow> string list list" where
  "label_dirs base labels raw ym =
     map (\<lambda>display. path_join (path_join (path_join base display) (fst ym)) (snd ym))
       (message_labels labels raw)"

datatype sync_error = SyncIo io_error | SyncApi string | SyncNoId | SyncNoDate string | SyncJson

definition place_first ::
  "string list \<Rightarrow> string \<Rightarrow> string \<Rightarrow> bytes \<Rightarrow> systime option \<Rightarrow> (string \<times> bytes) list \<Rightarrow> disk_step" where
  "place_first first fname adir body mtime atts =
     then_do (create_dir_all first)
       (then_do (write_file (first @ [fname]) body mtime)
         (if atts = [] then (\<lambda>d. (d, None))
          else then_do (create_dir_all (first @ [adir]))
            (do_each (\<lambda>(name, bytes). write_file (first @ [adir, name]) bytes mtime) atts)))"

definition place_link ::
  "string list \<Rightarrow> string \<Rightarrow> string \<Rightarrow> (string \<times> bytes) list \<Rightarrow> string list \<Rightarrow> disk_step" where
  "place_link first fname adir atts dir =
     then_do (create_dir_all dir)
       (then_do (link_or_copy (first @ [fname]) (dir @ [fname]))
         (if atts = [] then (\<lambda>d. (d, None))
          else then_do (create_dir_all (dir @ [adir]))
            (do_each (\<lambda>(name, _). link_or_copy (first @ [adir, name]) (dir @ [adir, name])) atts)))"

definition place_in ::
  "string \<Rightarrow> string \<Rightarrow> bytes \<Rightarrow> systime option \<Rightarrow> (string \<times> bytes) list \<Rightarrow> string list list \<Rightarrow> disk_step" where
  "place_in fname adir body mtime atts dirs =
     (case dirs of
        [] \<Rightarrow> (\<lambda>d. (d, None))
      | first # rest \<Rightarrow>
          then_do (place_first first fname adir body mtime atts)
            (do_each (place_link first fname adir atts) rest))"

text \<open>
  \<^verbatim>\<open>place_message\<close>. The JSON text of the processed message is a parameter; attachment names are
  those of \<^verbatim>\<open>fetch_attachments\<close>.
\<close>

definition place_message ::
  "'n mail_lib \<Rightarrow> ('n jvalue \<Rightarrow> bytes option) \<Rightarrow> string list \<Rightarrow> 'n jvalue \<Rightarrow> (string \<rightharpoonup> string)
    \<Rightarrow> (string \<times> bytes) list \<Rightarrow> disk \<Rightarrow> disk \<times> sync_error option" where
  "place_message M json base raw labels atts d =
     (case str_field ''id'' raw of
        None \<Rightarrow> (d, Some SyncNoId)
      | Some ident \<Rightarrow>
          (let i = utf8 ident in
           case month_of raw of
             None \<Rightarrow> (d, Some (SyncNoDate i))
           | Some ym \<Rightarrow>
               (let dirs = label_dirs base labels raw ym in
                if dirs = [] then (d, None)
                else (case Option.bind (process_message M raw) json of
                        None \<Rightarrow> (d, Some SyncJson)
                      | Some body \<Rightarrow>
                          (case place_in (msg_filename (ml_uni M) (subject_of raw) i)
                                  (attach_dir_name (ml_uni M) (subject_of raw) i) body (msg_time raw) atts dirs d
                           of (d', e) \<Rightarrow> (d', map_option SyncIo e))))))"

end
