(* ===== verification/Gmail_Sync.thy ===== *)
theory Gmail_Sync
  imports Gmail_Mirror
begin

section \<open>Mirroring a mailbox\<close>

text \<open>
  \<^verbatim>\<open>sync_gmail_mirror\<close> and \<^verbatim>\<open>sync_gmail_incremental\<close> of
  \<^verbatim>\<open>src/workspace/src/vfs/resource/gmail_sync.rs\<close>. The Gmail API is a record of calls on a world
  that each call may change; a call answers or fails. The mirror is the disk, the log of the ids
  written (\<^verbatim>\<open>done.ids\<close>) and the saved state (\<^verbatim>\<open>state.json\<close>), both kept as values. The order in
  which a hash map or set is walked is a parameter.
\<close>

record ('w, 'n) gmail_api =
  ga_labels :: "'w \<Rightarrow> 'w \<times> (string, 'n jvalue list) res"
  ga_list_ids :: "'w \<Rightarrow> nat \<Rightarrow> 'w \<times> (string, string list) res"
  ga_batch :: "'w \<Rightarrow> string list \<Rightarrow> string \<Rightarrow> 'w \<times> (string, 'n jvalue list) res"
  ga_attachment :: "'w \<Rightarrow> string \<Rightarrow> utext \<Rightarrow> 'w \<times> (string, bytes) res"
  ga_history_id :: "'w \<Rightarrow> string \<Rightarrow> 'w \<times> (string, string option) res"
  ga_history :: "'w \<Rightarrow> string \<Rightarrow> string option \<Rightarrow> 'w \<times> (string, 'n jvalue option) res"

record ('w, 'n) sync_env =
  se_api :: "('w, 'n) gmail_api"
  se_mail :: "'n mail_lib"
  se_json :: "'n jvalue \<Rightarrow> bytes option"
  se_order :: "string list \<Rightarrow> string list"
  se_cap :: "nat option"
  se_root :: "string list"

record sync_state =
  sy_total :: nat
  sy_fetched :: nat
  sy_completed :: bool
  sy_history :: "string option"

record 'w mirror =
  mi_disk :: disk
  mi_done :: "string list"
  mi_saved :: "sync_state option"
  mi_world :: 'w

datatype sync_failure = SyncFailed sync_error | SyncPanicked

text \<open>A step of a sync gives the mirror it leaves and the failure that stopped it, if one did.\<close>

type_synonym 'w sync_step = "'w mirror \<Rightarrow> 'w mirror \<times> sync_failure option"

definition sthen :: "'w sync_step \<Rightarrow> 'w sync_step \<Rightarrow> 'w sync_step" where
  "sthen f g m = (case f m of (m', Some e) \<Rightarrow> (m', Some e) | (m', None) \<Rightarrow> g m')"

fun seach :: "('a \<Rightarrow> 'w sync_step) \<Rightarrow> 'a list \<Rightarrow> 'w sync_step" where
  "seach f [] = (\<lambda>m. (m, None))"
| "seach f (a # as) = sthen (f a) (seach f as)"

text \<open>A call of the API, and what follows when it answers.\<close>

definition call ::
  "('w \<Rightarrow> 'w \<times> (string, 'a) res) \<Rightarrow> ('a \<Rightarrow> 'w mirror \<Rightarrow> 'w mirror \<times> (sync_failure, 'b) res)
    \<Rightarrow> 'w mirror \<Rightarrow> 'w mirror \<times> (sync_failure, 'b) res" where
  "call f g m =
     (case f (mi_world m) of
        (w, Inl e) \<Rightarrow> (m\<lparr>mi_world := w\<rparr>, Inl (SyncFailed (SyncApi e)))
      | (w, Inr a) \<Rightarrow> g a (m\<lparr>mi_world := w\<rparr>))"

definition call_step ::
  "('w \<Rightarrow> 'w \<times> (string, 'a) res) \<Rightarrow> ('a \<Rightarrow> 'w sync_step) \<Rightarrow> 'w sync_step" where
  "call_step f g m =
     (case f (mi_world m) of
        (w, Inl e) \<Rightarrow> (m\<lparr>mi_world := w\<rparr>, Some (SyncFailed (SyncApi e)))
      | (w, Inr a) \<Rightarrow> g a (m\<lparr>mi_world := w\<rparr>))"

definition on_disk :: "(disk \<Rightarrow> disk \<times> sync_error option) \<Rightarrow> 'w sync_step" where
  "on_disk f m = (case f (mi_disk m) of (d, e) \<Rightarrow> (m\<lparr>mi_disk := d\<rparr>, map_option SyncFailed e))"

definition WINDOW :: nat where "WINDOW = 100"
definition STATE_EVERY :: nat where "STATE_EVERY = 25"

text \<open>\<^verbatim>\<open>slice::chunks\<close>.\<close>

fun chunks_of :: "nat \<Rightarrow> nat \<Rightarrow> 'a list \<Rightarrow> 'a list list" where
  "chunks_of 0 n xs = []"
| "chunks_of (Suc fuel) n xs = (if xs = [] then [] else take n xs # chunks_of fuel n (drop n xs))"

definition windows :: "'a list \<Rightarrow> 'a list list" where
  "windows xs = chunks_of (length xs) WINDOW xs"

subsection \<open>Labels and attachments\<close>

definition label_entry :: "'n jvalue \<Rightarrow> (string \<times> string) option" where
  "label_entry lb =
     map_option (\<lambda>i. (utf8 i,
         utf8 (if str_field ''type'' lb = Some (chars ''system'') then i
               else the_default i (str_field ''name'' lb))))
       (str_field ''id'' lb)"

definition label_map :: "'n jvalue list \<Rightarrow> string \<rightharpoonup> string" where
  "label_map lbs = map_of (rev (List.map_filter label_entry lbs))"

fun fetch_each ::
  "('w, 'n) gmail_api \<Rightarrow> string \<Rightarrow> (attachment \<times> utext) list \<Rightarrow> 'w \<Rightarrow> 'w \<times> (string \<times> bytes) list \<times> nat" where
  "fetch_each A i [] w = (w, [], 0)"
| "fetch_each A i ((a, name) # as) w =
     (case ga_attachment A w i (at_id a) of
        (w1, Inr b) \<Rightarrow> (case fetch_each A i as w1 of (w2, out, n) \<Rightarrow> (w2, (utf8 name, b) # out, n))
      | (w1, Inl e) \<Rightarrow> (case fetch_each A i as w1 of (w2, out, n) \<Rightarrow> (w2, out, n + 1)))"

definition fetch_attachments ::
  "('w, 'n) sync_env \<Rightarrow> string \<Rightarrow> 'n jvalue \<Rightarrow> 'w \<Rightarrow> 'w \<times> (string \<times> bytes) list \<times> nat" where
  "fetch_attachments E i raw w =
     (let atts = attachments (se_mail E) raw;
          names = the_default [] (unique_attachment_names atts)
      in fetch_each (se_api E) i (zip atts names) w)"

definition tree_of :: "('w, 'n) sync_env \<Rightarrow> string list" where
  "tree_of E = mirror_tree (se_root E)"

text \<open>Fetch the attachments of a message and place it; the count of failed attachments goes on.\<close>

definition write_message ::
  "('w, 'n) sync_env \<Rightarrow> (string \<rightharpoonup> string) \<Rightarrow> string \<Rightarrow> 'n jvalue \<Rightarrow> (nat \<Rightarrow> 'w sync_step) \<Rightarrow> 'w sync_step" where
  "write_message E labels i raw next m =
     (case fetch_attachments E i raw (mi_world m) of (w, atts, failed) \<Rightarrow>
        sthen (on_disk (place_message (se_mail E) (se_json E) (tree_of E) raw labels atts))
          (next failed) (m\<lparr>mi_world := w\<rparr>))"

definition mark_done :: "string \<Rightarrow> 'w sync_step" where
  "mark_done i m = (m\<lparr>mi_done := mi_done m @ [i]\<rparr>, None)"

definition save :: "sync_state \<Rightarrow> 'w sync_step" where
  "save st m = (m\<lparr>mi_saved := Some st\<rparr>, None)"

definition raw_id :: "'n jvalue \<Rightarrow> string option" where
  "raw_id v = map_option utf8 (str_field ''id'' v)"

definition by_id :: "'n jvalue list \<Rightarrow> string \<rightharpoonup> 'n jvalue" where
  "by_id vs = map_of (rev (List.map_filter (\<lambda>v. map_option (\<lambda>i. (i, v)) (raw_id v)) vs))"

subsection \<open>The full sync\<close>

text \<open>Phase 2 carries the progress: the state and the number of messages since it was saved.\<close>

type_synonym progress = "sync_state \<times> nat"

fun place_window ::
  "('w, 'n) sync_env \<Rightarrow> (string \<rightharpoonup> string) \<Rightarrow> string set \<Rightarrow> (string \<rightharpoonup> 'n jvalue) \<Rightarrow> string list
    \<Rightarrow> progress \<Rightarrow> 'w mirror \<Rightarrow> 'w mirror \<times> (sync_failure, progress) res" where
  "place_window E labels done got [] pr m = (m, Inr pr)"
| "place_window E labels done got (i # is) (st, since) m =
     (if i \<in> done then place_window E labels done got is (st, since) m
      else (let st' = st\<lparr>sy_fetched := sy_fetched st + 1\<rparr> in
        case got i of
          None \<Rightarrow> place_window E labels done got is (st', since) m
        | Some raw \<Rightarrow>
            (case write_message E labels i raw
                    (\<lambda>failed. if failed = 0 then mark_done i else (\<lambda>m. (m, None))) m of
               (m1, Some e) \<Rightarrow> (m1, Inl e)
             | (m1, None) \<Rightarrow>
                 (if STATE_EVERY \<le> since + 1
                  then place_window E labels done got is (st', 0) (fst (save st' m1))
                  else place_window E labels done got is (st', since + 1) m1))))"

fun fetch_windows ::
  "('w, 'n) sync_env \<Rightarrow> (string \<rightharpoonup> string) \<Rightarrow> string set \<Rightarrow> string list list
    \<Rightarrow> progress \<Rightarrow> 'w mirror \<Rightarrow> 'w mirror \<times> (sync_failure, progress) res" where
  "fetch_windows E labels done [] pr m = (m, Inr pr)"
| "fetch_windows E labels done (win # wins) pr m =
     (let need = filter (\<lambda>i. i \<notin> done) win;
          go = (\<lambda>vs m. case place_window E labels done (by_id vs) win pr m of
                  (m', Inl e) \<Rightarrow> (m', Inl e)
                | (m', Inr pr') \<Rightarrow> fetch_windows E labels done wins pr' m')
      in if need = [] then go [] m
         else call (\<lambda>w. ga_batch (se_api E) w need ''full'') go m)"

definition remove_found :: "('w, 'n) sync_env \<Rightarrow> (string \<times> string list) list \<Rightarrow> string \<Rightarrow> 'w sync_step" where
  "remove_found E found i m =
     (m\<lparr>mi_disk := remove_message_files (tree_of E) (paths_of i found) (mi_disk m)\<rparr>, None)"

definition wanted_labels :: "(string \<rightharpoonup> string) \<Rightarrow> 'n jvalue \<Rightarrow> string set" where
  "wanted_labels labels v = set (message_labels labels v)"

text \<open>The label sweep: the ids whose label directories are no longer the labels they have.\<close>

fun drifted_in ::
  "string list \<Rightarrow> (string \<rightharpoonup> string) \<Rightarrow> (string \<times> string list) list \<Rightarrow> 'n jvalue list
    \<Rightarrow> (sync_failure, string list) res" where
  "drifted_in tree labels found [] = Inr []"
| "drifted_in tree labels found (v # vs) =
     (case raw_id v of
        None \<Rightarrow> drifted_in tree labels found vs
      | Some i \<Rightarrow>
          (if paths_of i found = [] then Inl SyncPanicked
           else map_ok (\<lambda>r. if wanted_labels labels v \<noteq> labels_on_disk tree (paths_of i found)
                            then i # r else r)
                  (drifted_in tree labels found vs)))"

fun sweep ::
  "('w, 'n) sync_env \<Rightarrow> (string \<rightharpoonup> string) \<Rightarrow> (string \<times> string list) list \<Rightarrow> string list list
    \<Rightarrow> 'w mirror \<Rightarrow> 'w mirror \<times> (sync_failure, string list) res" where
  "sweep E labels found [] m = (m, Inr [])"
| "sweep E labels found (win # wins) m =
     call (\<lambda>w. ga_batch (se_api E) w win ''labels'')
       (\<lambda>vs m. case drifted_in (tree_of E) labels found vs of
            Inl e \<Rightarrow> (m, Inl e)
          | Inr ds \<Rightarrow> (case sweep E labels found wins m of
                          (m', r) \<Rightarrow> (m', map_ok (\<lambda>r. ds @ r) r))) m"

definition replace_message ::
  "('w, 'n) sync_env \<Rightarrow> (string \<rightharpoonup> string) \<Rightarrow> (string \<times> string list) list \<Rightarrow> 'n jvalue \<Rightarrow> 'w sync_step" where
  "replace_message E labels found raw =
     (case raw_id raw of
        None \<Rightarrow> (\<lambda>m. (m, None))
      | Some i \<Rightarrow>
          sthen (remove_found E found i) (write_message E labels i raw (\<lambda>_ m. (m, None))))"

definition reconcile ::
  "('w, 'n) sync_env \<Rightarrow> (string \<rightharpoonup> string) \<Rightarrow> string list \<Rightarrow> nat \<Rightarrow> string set \<Rightarrow> 'w sync_step" where
  "reconcile E labels ids cap done m =
     (let tree = tree_of E;
          found = find_message_files (mi_disk m) tree (\<lambda>_. True);
          keys = se_order E (remdups (map fst found));
          gone = (if length ids < cap then filter (\<lambda>i. i \<notin> set ids) keys else []);
          candidates = filter (\<lambda>i. i \<in> done \<and> i \<in> set ids) keys
      in sthen (seach (remove_found E found) gone)
           (\<lambda>m. case sweep E labels found (windows candidates) m of
              (m1, Inl e) \<Rightarrow> (m1, Some e)
            | (m1, Inr drifted) \<Rightarrow>
                seach (\<lambda>win. call_step (\<lambda>w. ga_batch (se_api E) w win ''full'')
                    (\<lambda>vs. seach (replace_message E labels found) vs))
                  (windows drifted) m1) m)"

text \<open>The cursor is the newest message's; a failure to get it is only logged.\<close>

definition seed_cursor :: "('w, 'n) sync_env \<Rightarrow> string list \<Rightarrow> 'w mirror \<Rightarrow> 'w mirror \<times> string option" where
  "seed_cursor E ids m =
     (case ids of
        [] \<Rightarrow> (m, None)
      | newest # _ \<Rightarrow>
          (case ga_history_id (se_api E) (mi_world m) newest of
             (w, Inl _) \<Rightarrow> (m\<lparr>mi_world := w\<rparr>, None)
           | (w, Inr h) \<Rightarrow> (m\<lparr>mi_world := w\<rparr>, h)))"

definition USIZE_MAX :: nat where "USIZE_MAX = 2 ^ 64 - 1"

definition finish_sync ::
  "('w, 'n) sync_env \<Rightarrow> string list \<Rightarrow> sync_state \<Rightarrow> 'w mirror \<Rightarrow> 'w mirror \<times> (sync_failure, sync_state) res" where
  "finish_sync E ids st m =
     (case seed_cursor E ids m of (m', h) \<Rightarrow>
        (let st' = st\<lparr>sy_history := h, sy_completed := True\<rparr> in (fst (save st' m'), Inr st')))"

definition sync_gmail_mirror ::
  "('w, 'n) sync_env \<Rightarrow> 'w mirror \<Rightarrow> 'w mirror \<times> (sync_failure, sync_state) res" where
  "sync_gmail_mirror E m =
     (case on_disk (\<lambda>d. map_prod id (map_option SyncIo) (create_dir_all (tree_of E) d)) m of
        (m0, Some e) \<Rightarrow> (m0, Inl e)
      | (m0, None) \<Rightarrow>
          call (ga_labels (se_api E)) (\<lambda>lbs.
            call (\<lambda>w. ga_list_ids (se_api E) w (the_default USIZE_MAX (se_cap E))) (\<lambda>ids m.
              (let labels = label_map lbs;
                   done = set (mi_done m);
                   st = \<lparr>sy_total = length ids, sy_fetched = min (card done) (length ids),
                         sy_completed = False, sy_history = None\<rparr>
               in case fetch_windows E labels done (windows ids) (st, 0) (fst (save st m)) of
                    (m1, Inl e) \<Rightarrow> (m1, Inl e)
                  | (m1, Inr (st1, _)) \<Rightarrow>
                      (case reconcile E labels ids (the_default USIZE_MAX (se_cap E)) done m1 of
                         (m2, Some e) \<Rightarrow> (m2, Inl e)
                       | (m2, None) \<Rightarrow> finish_sync E ids st1 m2)))) m0)"

subsection \<open>The incremental sync\<close>

record sync_delta =
  sd_added :: nat
  sd_deleted :: nat
  sd_relabeled :: nat
  sd_full_resync :: bool

text \<open>The net effects of the journal, and the cursor to keep.\<close>

record net =
  nt_added :: "string list"
  nt_deleted :: "string list"
  nt_relabeled :: "string list"
  nt_latest :: string

definition collect_ids :: "string \<Rightarrow> 'n jvalue \<Rightarrow> string list" where
  "collect_ids key r = List.map_filter (\<lambda>e. Option.bind (field ''message'' e) raw_id) (arr_field key r)"

definition scan_history_page :: "'n jvalue \<Rightarrow> net \<Rightarrow> net" where
  "scan_history_page page nt =
     fold (\<lambda>r nt. nt\<lparr>nt_added := nt_added nt @ collect_ids ''messagesAdded'' r,
                      nt_deleted := nt_deleted nt @ collect_ids ''messagesDeleted'' r,
                      nt_relabeled := nt_relabeled nt @ collect_ids ''labelsAdded'' r
                        @ collect_ids ''labelsRemoved'' r\<rparr>)
       (arr_field ''history'' page) nt"

datatype journal = Expired | Journal net | OutOfPages

text \<open>The pages of the journal. It takes a number of pages that is enough for the journal.\<close>

fun read_journal ::
  "nat \<Rightarrow> ('w, 'n) sync_env \<Rightarrow> string \<Rightarrow> string option \<Rightarrow> net \<Rightarrow> 'w mirror
    \<Rightarrow> 'w mirror \<times> (sync_failure, journal) res" where
  "read_journal 0 E cursor token nt m = (m, Inr OutOfPages)"
| "read_journal (Suc pages) E cursor token nt m =
     call (\<lambda>w. ga_history (se_api E) w cursor token) (\<lambda>page m.
       case page of
         None \<Rightarrow> (m, Inr Expired)
       | Some page \<Rightarrow>
           (let nt1 = (case str_field ''historyId'' page of
                         Some h \<Rightarrow> nt\<lparr>nt_latest := utf8 h\<rparr> | None \<Rightarrow> nt);
                nt2 = scan_history_page page nt1
            in case str_field ''nextPageToken'' page of
                 Some t \<Rightarrow> read_journal pages E cursor (Some (utf8 t)) nt2 m
               | None \<Rightarrow> (m, Inr (Journal nt2)))) m"

text \<open>A deletion wins, and an addition subsumes its own label changes. The sets are without repeats.\<close>

definition net_effects :: "net \<Rightarrow> net" where
  "net_effects nt =
     nt\<lparr>nt_relabeled := remdups (filter (\<lambda>i. i \<notin> set (nt_deleted nt) \<and> i \<notin> set (nt_added nt)) (nt_relabeled nt)),
        nt_added := remdups (filter (\<lambda>i. i \<notin> set (nt_deleted nt)) (nt_added nt)),
        nt_deleted := remdups (nt_deleted nt)\<rparr>"

fun delete_located ::
  "('w, 'n) sync_env \<Rightarrow> (string \<times> string list) list \<Rightarrow> string list \<Rightarrow> sync_delta \<times> 'w mirror
    \<Rightarrow> sync_delta \<times> 'w mirror" where
  "delete_located E located [] s = s"
| "delete_located E located (i # is) (dl, m) =
     (if paths_of i located = [] then delete_located E located is (dl, m)
      else delete_located E located is
        (dl\<lparr>sd_deleted := sd_deleted dl + 1\<rparr>, fst (remove_found E located i m)))"

fun apply_fetched ::
  "('w, 'n) sync_env \<Rightarrow> (string \<rightharpoonup> string) \<Rightarrow> (string \<times> string list) list \<Rightarrow> string list
    \<Rightarrow> 'n jvalue list \<Rightarrow> sync_delta \<Rightarrow> 'w mirror \<Rightarrow> 'w mirror \<times> (sync_failure, sync_delta) res" where
  "apply_fetched E labels located added [] dl m = (m, Inr dl)"
| "apply_fetched E labels located added (raw # raws) dl m =
     (case raw_id raw of
        None \<Rightarrow> apply_fetched E labels located added raws dl m
      | Some i \<Rightarrow>
          (case sthen (remove_found E located i)
                  (write_message E labels i raw
                    (\<lambda>failed. if i \<in> set added \<and> failed = 0 then mark_done i else (\<lambda>m. (m, None)))) m of
             (m1, Some e) \<Rightarrow> (m1, Inl e)
           | (m1, None) \<Rightarrow>
               apply_fetched E labels located added raws
                 (if i \<in> set added then dl\<lparr>sd_added := sd_added dl + 1\<rparr>
                  else dl\<lparr>sd_relabeled := sd_relabeled dl + 1\<rparr>) m1))"

fun apply_windows ::
  "('w, 'n) sync_env \<Rightarrow> (string \<rightharpoonup> string) \<Rightarrow> (string \<times> string list) list \<Rightarrow> string list
    \<Rightarrow> string list list \<Rightarrow> sync_delta \<Rightarrow> 'w mirror \<Rightarrow> 'w mirror \<times> (sync_failure, sync_delta) res" where
  "apply_windows E labels located added [] dl m = (m, Inr dl)"
| "apply_windows E labels located added (win # wins) dl m =
     call (\<lambda>w. ga_batch (se_api E) w win ''full'') (\<lambda>raws m.
       case apply_fetched E labels located added raws dl m of
         (m', Inl e) \<Rightarrow> (m', Inl e)
       | (m', Inr dl') \<Rightarrow> apply_windows E labels located added wins dl' m') m"

definition no_delta :: sync_delta where
  "no_delta = \<lparr>sd_added = 0, sd_deleted = 0, sd_relabeled = 0, sd_full_resync = False\<rparr>"

definition full_resync :: "('w, 'n) sync_env \<Rightarrow> 'w mirror \<Rightarrow> 'w mirror \<times> (sync_failure, sync_delta) res" where
  "full_resync E m =
     (case sync_gmail_mirror E m of
        (m', Inl e) \<Rightarrow> (m', Inl e)
      | (m', Inr _) \<Rightarrow> (m', Inr (no_delta\<lparr>sd_full_resync := True\<rparr>)))"

definition sat_add :: "nat \<Rightarrow> nat \<Rightarrow> nat" where
  "sat_add a b = min (a + b) USIZE_MAX"

definition advance :: "sync_state \<Rightarrow> sync_delta \<Rightarrow> string \<Rightarrow> sync_state" where
  "advance st dl latest =
     \<lparr>sy_total = sat_add (sy_total st) (sd_added dl) - sd_deleted dl,
      sy_fetched = sat_add (sy_fetched st) (sd_added dl) - sd_deleted dl,
      sy_completed = True, sy_history = Some latest\<rparr>"

definition apply_journal ::
  "('w, 'n) sync_env \<Rightarrow> sync_state \<Rightarrow> net \<Rightarrow> 'w mirror \<Rightarrow> 'w mirror \<times> (sync_failure, sync_delta) res" where
  "apply_journal E prior raw_nt m =
     (let nt = net_effects raw_nt in
      case on_disk (\<lambda>d. map_prod id (map_option SyncIo) (create_dir_all (tree_of E) d)) m of
        (m0, Some e) \<Rightarrow> (m0, Inl e)
      | (m0, None) \<Rightarrow>
          (let interest = set (nt_deleted nt) \<union> set (nt_relabeled nt);
               located = find_message_files (mi_disk m0) (tree_of E) (\<lambda>i. i \<in> interest);
               (dl, m1) = delete_located E located (se_order E (nt_deleted nt)) (no_delta, m0);
               fetch = se_order E (nt_added nt @ nt_relabeled nt);
               close = (\<lambda>dl m. (fst (save (advance prior dl (nt_latest nt)) m), Inr dl))
           in if nt_added nt = [] \<and> nt_relabeled nt = [] then close dl m1
              else call (ga_labels (se_api E)) (\<lambda>lbs m.
                case apply_windows E (label_map lbs) located (nt_added nt) (windows fetch) dl m of
                  (m2, Inl e) \<Rightarrow> (m2, Inl e)
                | (m2, Inr dl') \<Rightarrow> close dl' m2) m1))"

definition sync_gmail_incremental ::
  "nat \<Rightarrow> ('w, 'n) sync_env \<Rightarrow> 'w mirror \<Rightarrow> 'w mirror \<times> (sync_failure, sync_delta) res" where
  "sync_gmail_incremental pages E m =
     (case mi_saved m of
        None \<Rightarrow> full_resync E m
      | Some prior \<Rightarrow>
          (case (if sy_completed prior then sy_history prior else None) of
             None \<Rightarrow> full_resync E m
           | Some cursor \<Rightarrow>
               (case read_journal pages E cursor None
                       \<lparr>nt_added = [], nt_deleted = [], nt_relabeled = [], nt_latest = cursor\<rparr> m of
                  (m1, Inl e) \<Rightarrow> (m1, Inl e)
                | (m1, Inr Expired) \<Rightarrow> full_resync E m1
                | (m1, Inr OutOfPages) \<Rightarrow> (m1, Inl SyncPanicked)
                | (m1, Inr (Journal nt)) \<Rightarrow> apply_journal E prior nt m1)))"

end
