(* ===== verification/Gmail_Resource.thy ===== *)
theory Gmail_Resource
  imports Gmail_Sync "HOL-Library.List_Lexorder" "HOL-Library.Char_ord"
begin

section \<open>The mailbox as a provider\<close>

text \<open>
  \<^verbatim>\<open>GmailResource\<close> of \<^verbatim>\<open>src/workspace/src/vfs/resource/gmail.rs\<close>: the mirror served as local files,
  with \<^verbatim>\<open>rm\<close> as a trash call and the commands that send mail. The state is the disk, the labels once
  fetched and the world of the API; the calls that change the mailbox, the JSON text and base64 are
  parameters.
\<close>

record 'w gmail_state =
  gs_disk :: disk
  gs_labels :: "(string \<rightharpoonup> string) option"
  gs_world :: 'w

record ('w, 'n) gmail_conf =
  gc_mail :: "'n mail_lib"
  gc_tree :: "string list option"
  gc_list_labels :: "'w \<Rightarrow> 'w \<times> (string, 'n jvalue list) res"
  gc_trash :: "'w \<Rightarrow> string \<Rightarrow> 'w \<times> (string, unit) res"
  gc_send_raw :: "'w \<Rightarrow> utext \<Rightarrow> utext option \<Rightarrow> 'w \<times> (string, 'n jvalue) res"
  gc_message_full :: "'w \<Rightarrow> utext \<Rightarrow> 'w \<times> (string, 'n jvalue) res"
  gc_from_slice :: "bytes \<Rightarrow> (string, 'n jvalue) res"
  gc_to_vec :: "'n jvalue \<Rightarrow> (string, bytes) res"
  gc_b64url :: "string \<Rightarrow> utext"

subsection \<open>Reading\<close>

text \<open>Without a mirror the mailbox is an empty directory.\<close>

definition on_local ::
  "('w, 'n) gmail_conf \<Rightarrow> 'a rres \<Rightarrow> (string list \<Rightarrow> disk \<Rightarrow> 'a rres \<times> disk)
    \<Rightarrow> 'w gmail_state \<Rightarrow> 'a rres \<times> 'w gmail_state" where
  "on_local C absent f s =
     (case gc_tree C of
        None \<Rightarrow> (absent, s)
      | Some tree \<Rightarrow> (case f tree (gs_disk s) of (r, d) \<Rightarrow> (r, s\<lparr>gs_disk := d\<rparr>)))"

definition gmail_read_bytes ::
  "('w, 'n) gmail_conf \<Rightarrow> 'w gmail_state \<Rightarrow> mount_path \<Rightarrow> range option \<Rightarrow> bytes rres \<times> 'w gmail_state" where
  "gmail_read_bytes C s path r = on_local C (Err RNotFound) (\<lambda>tree d. local_read_bytes tree d path r) s"

definition gmail_read_bytes_pinned ::
  "('w, 'n) gmail_conf \<Rightarrow> 'w gmail_state \<Rightarrow> mount_path \<Rightarrow> range option \<Rightarrow> file_stat
    \<Rightarrow> bytes rres \<times> 'w gmail_state" where
  "gmail_read_bytes_pinned C s path r st =
     on_local C (Err RNotFound) (\<lambda>tree d. r_read_bytes_pinned (local_resource tree) d path r st) s"

definition gmail_write_bytes ::
  "('w, 'n) gmail_conf \<Rightarrow> 'w gmail_state \<Rightarrow> mount_path \<Rightarrow> bytes \<Rightarrow> unit rres \<times> 'w gmail_state" where
  "gmail_write_bytes C s path data = (Err RUnsupported, s)"

definition gmail_readdir ::
  "('w, 'n) gmail_conf \<Rightarrow> 'w gmail_state \<Rightarrow> mount_path \<Rightarrow> dir_entry list rres \<times> 'w gmail_state" where
  "gmail_readdir C s path =
     on_local C (if mp_is_root path then Ok [] else Err RNotFound) (\<lambda>tree d. local_readdir tree d path) s"

definition gmail_stat ::
  "('w, 'n) gmail_conf \<Rightarrow> 'w gmail_state \<Rightarrow> mount_path \<Rightarrow> file_stat rres \<times> 'w gmail_state" where
  "gmail_stat C s path =
     on_local C (if mp_is_root path then Ok (default_stat\<lparr>fs_kind := FileKind_Dir\<rparr>) else Err RNotFound)
       (\<lambda>tree d. local_stat tree d path) s"

subsection \<open>Removing a message\<close>

definition gmail_label_map ::
  "('w, 'n) gmail_conf \<Rightarrow> 'w gmail_state \<Rightarrow> (string \<rightharpoonup> string) \<times> 'w gmail_state" where
  "gmail_label_map C s =
     (case gs_labels s of
        Some m \<Rightarrow> (m, s)
      | None \<Rightarrow>
          (case gc_list_labels C (gs_world s) of
             (w, Inr raw) \<Rightarrow> (label_map raw, s\<lparr>gs_world := w, gs_labels := Some (label_map raw)\<rparr>)
           | (w, Inl _) \<Rightarrow> (Map.empty, s\<lparr>gs_world := w, gs_labels := Some Map.empty\<rparr>)))"

text \<open>\<^verbatim>\<open>trim_end_matches\<close> with a text: the suffix is removed as often as it is there.\<close>

function trim_suffixes :: "string \<Rightarrow> string \<Rightarrow> string" where
  "trim_suffixes x s =
     (if x \<noteq> [] \<and> suffix x s then trim_suffixes x (take (length s - length x) s) else s)"
  by pat_completeness auto
termination trim_suffixes
proof (relation "measure (\<lambda>(x, s). length s)", goal_cases)
  case (2 x s)
  then have "0 < length x" "length x \<le> length s" by (auto dest: suffix_length_le)
  then show ?case by (simp del: length_greater_0_conv)
qed simp

declare trim_suffixes.simps [simp del]

definition text_array :: "'n jvalue \<Rightarrow> string \<Rightarrow> string list" where
  "text_array v k = List.map_filter (\<lambda>x. map_option utf8 (jv_str x)) (arr_field k v)"

definition rm_target :: "string list \<Rightarrow> mount_path \<Rightarrow> string list" where
  "rm_target tree path = path_join tree (trim_start_matches (as_str path) CHR ''/'')"

text \<open>The label ids that the message's own file names, before it is removed.\<close>

definition noted_labels ::
  "('w, 'n) gmail_conf \<Rightarrow> string list \<Rightarrow> mount_path \<Rightarrow> disk \<Rightarrow> string list" where
  "noted_labels C tree path d =
     (case map_of (dk_nodes d) (rm_target tree path) of
        Some (FFile b _) \<Rightarrow> (case gc_from_slice C b of Inl _ \<Rightarrow> [] | Inr v \<Rightarrow> text_array v ''labels'')
      | _ \<Rightarrow> [])"

definition remove_appearance :: "string list \<Rightarrow> string \<Rightarrow> string list \<Rightarrow> disk \<Rightarrow> disk" where
  "remove_appearance tree fname dir d =
     prune_empty tree dir
       (ignoring (\<lambda>d. sys_remove_dir_all d (dir @ [trim_suffixes GMAIL_SUFFIX fname]))
         (ignoring (\<lambda>d. sys_remove_file d (dir @ [fname])) d))"

definition appearance_dirs ::
  "string list \<Rightarrow> mount_path \<Rightarrow> string \<Rightarrow> string \<Rightarrow> string list \<Rightarrow> (string \<rightharpoonup> string) \<Rightarrow> string list list" where
  "appearance_dirs tree path y m ids labels =
     remdups_adj (sort
       (map (\<lambda>display. path_join (path_join (path_join tree display) y) m) (List.map_filter labels ids)
         @ [butlast (rm_target tree path)]))"

definition remove_mirror_entries ::
  "('w, 'n) gmail_conf \<Rightarrow> mount_path \<Rightarrow> string \<Rightarrow> 'w gmail_state \<Rightarrow> 'w gmail_state" where
  "remove_mirror_entries C path fname s =
     (case gc_tree C of
        None \<Rightarrow> s
      | Some tree \<Rightarrow>
          (case segments (as_str path) of
             [_, y, m, _] \<Rightarrow>
               (let ids = noted_labels C tree path (gs_disk s);
                    (labels, s1) = (if ids = [] then (Map.empty, s) else gmail_label_map C s)
                in s1\<lparr>gs_disk := fold (remove_appearance tree fname)
                     (appearance_dirs tree path y m ids labels) (gs_disk s1)\<rparr>)
           | _ \<Rightarrow> s))"

definition gmail_unlink ::
  "('w, 'n) gmail_conf \<Rightarrow> 'w gmail_state \<Rightarrow> mount_path \<Rightarrow> unit rres \<times> 'w gmail_state" where
  "gmail_unlink C s path =
     (case segments (as_str path) of
        [_, _, _, fname] \<Rightarrow>
          (if suffix GMAIL_SUFFIX fname then
             (case gc_trash C (gs_world s) (id_from_name (trim_suffixes GMAIL_SUFFIX fname)) of
                (w, Inl e) \<Rightarrow> (Err (RBackend e), s\<lparr>gs_world := w\<rparr>)
              | (w, Inr _) \<Rightarrow> (Ok (), remove_mirror_entries C path fname (s\<lparr>gs_world := w\<rparr>)))
           else (Err RUnsupported, s))
      | _ \<Rightarrow> (Err RUnsupported, s))"

subsection \<open>Commands\<close>

definition with_prefix :: "'n mail_lib \<Rightarrow> string \<Rightarrow> string \<Rightarrow> utext \<Rightarrow> utext" where
  "with_prefix M lower_prefix pre subject =
     (if uprefix lower_prefix (ml_lower M subject) then subject else chars pre @ subject)"

definition join_nonempty :: "utext list \<Rightarrow> utext" where
  "join_nonempty ts =
     (case filter (\<lambda>t. t \<noteq> []) ts of [] \<Rightarrow> [] | t # rest \<Rightarrow> t @ concat (map (\<lambda>x. chars '', '' @ x) rest))"

definition reply_headers :: "bool \<Rightarrow> 'n jvalue \<Rightarrow> (string \<times> utext) list" where
  "reply_headers to_all orig =
     (let cc = header orig ''Cc''; mid = header orig ''Message-ID''
      in (if to_all \<and> cc \<noteq> [] then [(''Cc'', cc)] else [])
         @ (if mid \<noteq> [] then [(''In-Reply-To'', mid), (''References'', mid)] else []))"

definition reply_to :: "bool \<Rightarrow> 'n jvalue \<Rightarrow> utext" where
  "reply_to to_all orig =
     (if to_all then join_nonempty [header orig ''From'', header orig ''To''] else header orig ''From'')"

definition forwarded_text :: "'n jvalue \<Rightarrow> utext" where
  "forwarded_text p =
     (let text = (\<lambda>k. the_default [] (str_field k p)); nl = [10]
      in chars ''---------- Forwarded message ----------'' @ nl
         @ chars ''From: '' @ the_default [] (Option.bind (field ''from'' p) (str_field ''email'')) @ nl
         @ chars ''Date: '' @ text ''date'' @ nl
         @ chars ''Subject: '' @ text ''subject'' @ nl @ nl @ text ''body_text'')"

text \<open>What a command sends: the mail and its thread, once the messages it needs are fetched.\<close>

definition fetch_full ::
  "('w, 'n) gmail_conf \<Rightarrow> utext \<Rightarrow> ('n jvalue \<Rightarrow> 'w gmail_state \<Rightarrow> 'a rres \<times> 'w gmail_state)
    \<Rightarrow> 'w gmail_state \<Rightarrow> 'a rres \<times> 'w gmail_state" where
  "fetch_full C i next s =
     (case gc_message_full C (gs_world s) i of
        (w, Inl e) \<Rightarrow> (Err (RBackend e), s\<lparr>gs_world := w\<rparr>)
      | (w, Inr v) \<Rightarrow> next v (s\<lparr>gs_world := w\<rparr>))"

definition send ::
  "('w, 'n) gmail_conf \<Rightarrow> string \<Rightarrow> utext option \<Rightarrow> 'w gmail_state \<Rightarrow> bytes rres \<times> 'w gmail_state" where
  "send C mime thread s =
     (case gc_send_raw C (gs_world s) (gc_b64url C mime) thread of
        (w, Inl e) \<Rightarrow> (Err (RBackend e), s\<lparr>gs_world := w\<rparr>)
      | (w, Inr v) \<Rightarrow> (map_err RBackend (gc_to_vec C v), s\<lparr>gs_world := w\<rparr>))"

definition reply ::
  "('w, 'n) gmail_conf \<Rightarrow> bool \<Rightarrow> utext \<Rightarrow> 'n jvalue \<Rightarrow> 'w gmail_state \<Rightarrow> bytes rres \<times> 'w gmail_state" where
  "reply C to_all body orig s =
     send C (build_mime (gc_mail C) (reply_to to_all orig) None
         (with_prefix (gc_mail C) ''re:'' ''Re: '' (header orig ''Subject'')) body (reply_headers to_all orig))
       (str_field ''threadId'' orig) s"

definition forward ::
  "('w, 'n) gmail_conf \<Rightarrow> utext \<Rightarrow> 'n jvalue \<Rightarrow> 'w gmail_state \<Rightarrow> bytes rres \<times> 'w gmail_state" where
  "forward C to raw s =
     (case process_message (gc_mail C) raw of
        None \<Rightarrow> (Err (RBackend ''names''), s)
      | Some p \<Rightarrow>
          send C (build_mime (gc_mail C) to None
              (with_prefix (gc_mail C) ''fwd:'' ''Fwd: '' (the_default [] (str_field ''subject'' p)))
              (forwarded_text p) [])
            None s)"

definition gmail_command ::
  "('w, 'n) gmail_conf \<Rightarrow> 'w gmail_state \<Rightarrow> string \<Rightarrow> bytes \<Rightarrow> bytes rres \<times> 'w gmail_state" where
  "gmail_command C s name body =
     (case gc_from_slice C body of
        Inl e \<Rightarrow> (Err (RBackend (''gmail '' @ name @ '': invalid JSON: '' @ e)), s)
      | Inr v \<Rightarrow>
          (let txt = (\<lambda>k. the_default [] (str_field k v)) in
           if name = ''send'' then
             (case str_field ''to'' v of
                None \<Rightarrow> (Err (RBackend ''send: missing to''), s)
              | Some to \<Rightarrow>
                  send C (build_mime (gc_mail C) to None (txt ''subject'') (txt ''body'') []) None s)
           else if name = ''reply'' \<or> name = ''reply-all'' then
             (case str_field ''message_id'' v of
                None \<Rightarrow> (Err (RBackend (name @ '': missing message_id'')), s)
              | Some mid \<Rightarrow> fetch_full C mid (reply C (name = ''reply-all'') (txt ''body'')) s)
           else if name = ''forward'' then
             (case str_field ''message_id'' v of
                None \<Rightarrow> (Err (RBackend ''forward: missing message_id''), s)
              | Some mid \<Rightarrow>
                  (case str_field ''to'' v of
                     None \<Rightarrow> (Err (RBackend ''forward: missing to''), s)
                   | Some to \<Rightarrow> fetch_full C mid (forward C to) s))
           else (Err (RBackend (''unknown gmail command: '' @ name)), s)))"

definition gmail_resource :: "('w, 'n) gmail_conf \<Rightarrow> 'w gmail_state resource" where
  "gmail_resource C =
     (resource_defaults (gmail_read_bytes C) (gmail_write_bytes C) (gmail_readdir C) (gmail_stat C))
     \<lparr>r_read_bytes_pinned := gmail_read_bytes_pinned C, r_unlink := gmail_unlink C,
      r_command := gmail_command C\<rparr>"

end
