(* ===== verification/Gmail_Mirror_Paths.thy ===== *)
theory Gmail_Mirror_Paths
  imports Gmail_Mirror
begin

section \<open>The shape of the mirror\<close>

text \<open>
  Where messages are in the tree, in terms of path names alone; that the walk finds exactly the
  message files; and the joins of a label's name.
\<close>

subsection \<open>Month directories below the tree\<close>

text \<open>The lengths of the prefixes of a relative path that are month directories.\<close>

definition months :: "string list \<Rightarrow> nat set" where
  "months r = {n. 2 \<le> n \<and> n \<le> length r \<and> digit_name 4 (r ! (n - 2)) \<and> digit_name 2 (r ! (n - 1))}"

lemma digit_name_both: "digit_name 4 s \<Longrightarrow> digit_name 2 s \<Longrightarrow> False"
  by (simp add: digit_name_def)

lemma months_Nil [simp]: "months [] = {}"
  by (simp add: months_def)

lemma months_take: "months (take k r) = {n \<in> months r. n \<le> k}"
  by (auto simp: months_def nth_append min_def)

lemma months_append_prefix: "n \<le> length r \<Longrightarrow> n \<in> months (r @ s) \<longleftrightarrow> n \<in> months r"
  by (auto simp: months_def nth_append)

lemma months_snoc: "months (r @ [x]) =
    months r \<union> (if r \<noteq> [] \<and> digit_name 4 (last r) \<and> digit_name 2 x then {Suc (length r)} else {})"
proof (rule set_eqI)
  fix n
  show "n \<in> months (r @ [x]) \<longleftrightarrow> n \<in> months r \<union>
      (if r \<noteq> [] \<and> digit_name 4 (last r) \<and> digit_name 2 x then {Suc (length r)} else {})"
  proof (cases "n \<le> length r")
    case True
    then show ?thesis by (simp add: months_append_prefix)
  next
    case False
    then have "n \<notin> months r" by (simp add: months_def)
    moreover have "n \<in> months (r @ [x]) \<longleftrightarrow> n = Suc (length r) \<and> r \<noteq> [] \<and> digit_name 4 (last r) \<and> digit_name 2 x"
      using False by (cases r rule: rev_cases) (auto simp: months_def nth_append)
    ultimately show ?thesis by auto
  qed
qed

text \<open>A mirror tree: its own name is no year and no month.\<close>

definition tree_root :: "string list \<Rightarrow> bool" where
  "tree_root tree = (tree \<noteq> [] \<and> \<not> digit_name 4 (last tree) \<and> \<not> digit_name 2 (last tree))"

lemma mirror_tree_root: "tree_root (mirror_tree root)"
  by (simp add: tree_root_def mirror_tree_def TREE_DIR_def digit_name_def ascii_digit_def)

lemma is_month_dir_below:
  assumes "tree_root tree"
  shows "is_month_dir (tree @ r) \<longleftrightarrow> length r \<in> months r"
proof (cases r rule: rev_cases)
  case Nil
  with assms show ?thesis by (simp add: is_month_dir_def tree_root_def)
next
  case (snoc s x)
  show ?thesis
  proof (cases s rule: rev_cases)
    case Nil
    with snoc assms show ?thesis by (simp add: is_month_dir_def tree_root_def months_def)
  next
    case (snoc s' y)
    have "last (butlast (tree @ s' @ [y, x])) = y" by (simp add: butlast_append)
    with snoc \<open>r = s @ [x]\<close> show ?thesis
      by (auto simp: is_month_dir_def months_def nth_append)
  qed
qed

text \<open>A message file's relative path: directly in a month, above which there is no other month.\<close>

definition message_path :: "string list \<Rightarrow> bool" where
  "message_path r =
     (r \<noteq> [] \<and> length r - 1 \<in> months r \<and> (\<forall>n \<in> months r. length r - 1 \<le> n) \<and>
      suffix GMAIL_SUFFIX (last r))"

definition path_id :: "string list \<Rightarrow> string" where
  "path_id p = id_from_name (the (strip_suffix (last p) GMAIL_SUFFIX))"

subsection \<open>The walk\<close>

definition visits :: "disk_nodes \<Rightarrow> (string list \<times> string list) set" where
  "visits ns = {(d, c). c \<in> set (dirs_in ns d)}"

definition below :: "disk_nodes \<Rightarrow> string list \<Rightarrow> nat" where
  "below ns d = card {k \<in> fst ` set ns. prefix d k}"

lemma dirs_in_iff:
  assumes "tree_ok ns"
  shows "c \<in> set (dirs_in ns d) \<longleftrightarrow> \<not> is_month_dir d \<and> c \<noteq> [] \<and> butlast c = d \<and> is_dir_at ns c"
  using tree_ok_distinct [OF assms]
  by (force simp: dirs_in_def children_def is_dir_at_Some)

lemma distinct_dirs_in: "tree_ok ns \<Longrightarrow> distinct (dirs_in ns d)"
  using tree_ok_distinct [of ns] by (auto simp: dirs_in_def children_def intro: distinct_map_filter)

lemma below_children:
  assumes ok: "tree_ok ns" and d: "is_dir_at ns d"
  shows "Suc (sum_list (map (below ns) (dirs_in ns d))) \<le> below ns d"
proof -
  let ?K = "\<lambda>c. {k \<in> fst ` set ns. prefix c k}"
  have dis: "?K a \<inter> ?K b = {}" if "a \<in> set (dirs_in ns d)" "b \<in> set (dirs_in ns d)" "a \<noteq> b" for a b
  proof -
    from that(1,2) have "a \<noteq> []" "b \<noteq> []" "butlast a = d" "butlast b = d" by (auto simp: dirs_in_iff [OF ok])
    then obtain x y where "a = d @ [x]" "b = d @ [y]" by (metis append_butlast_last_id)
    with that(3) show ?thesis by (auto simp: prefix_def)
  qed
  have "sum_list (map (below ns) (dirs_in ns d)) = (\<Sum>c \<in> set (dirs_in ns d). card (?K c))"
    using distinct_dirs_in [OF ok] by (simp add: sum_list_distinct_conv_sum_set below_def)
  also have "\<dots> = card (\<Union>c \<in> set (dirs_in ns d). ?K c)"
    using dis by (intro card_UN_disjoint [symmetric]) auto
  also have "\<dots> < card (?K d)"
  proof (rule psubset_card_mono)
    have "d \<in> ?K d" using d by (force simp: is_dir_at_Some dest: map_of_SomeD)
    moreover have "d \<notin> ?K c" "?K c \<subseteq> ?K d" if c: "c \<in> set (dirs_in ns d)" for c
    proof -
      from c have c: "c \<noteq> []" "butlast c = d" by (auto simp: dirs_in_iff [OF ok])
      then have "length d < length c" by (metis length_butlast diff_less length_greater_0_conv less_one)
      then show "d \<notin> ?K c" by (auto dest: prefix_length_le)
      from c show "?K c \<subseteq> ?K d" using prefixeq_butlast prefix_order.trans by blast
    qed
    ultimately show "(\<Union>c \<in> set (dirs_in ns d). ?K c) \<subset> ?K d" by blast
  qed simp
  finally show ?thesis by (simp add: below_def)
qed

lemma walk_finds:
  "tree_ok ns \<Longrightarrow> \<forall>d \<in> set stack. is_dir_at ns d \<Longrightarrow> sum_list (map (below ns) stack) \<le> fuel \<Longrightarrow>
    set (walk fuel ns stack) = {e. \<exists>d \<in> set stack. \<exists>d'. (d, d') \<in> (visits ns)\<^sup>* \<and> e \<in> set (found_in ns d')}"
proof (induction fuel ns stack rule: walk.induct)
  case (1 ns stack)
  then have "stack = []"
  proof (cases stack)
    case (Cons d ds)
    with 1 have "below ns d = 0" "is_dir_at ns d" by auto
    then show ?thesis by (force simp: below_def is_dir_at_Some card_eq_0_iff dest: map_of_SomeD)
  qed simp
  then show ?case by simp
next
  case (2 fuel ns)
  then show ?case by simp
next
  case (3 fuel ns d stack)
  have "Suc (sum_list (map (below ns) (dirs_in ns d))) \<le> below ns d"
    using below_children [OF 3(2)] 3(3) by simp
  with 3(4) have le: "sum_list (map (below ns) (rev (dirs_in ns d) @ stack)) \<le> fuel"
    by (simp add: sum_list_rev flip: rev_map)
  have dirs: "\<forall>d' \<in> set (rev (dirs_in ns d) @ stack). is_dir_at ns d'"
    using 3(3) by (auto simp: dirs_in_iff [OF 3(2)])
  have split: "(d, d') \<in> (visits ns)\<^sup>* \<longleftrightarrow> d' = d \<or> (\<exists>c \<in> set (dirs_in ns d). (c, d') \<in> (visits ns)\<^sup>*)" for d'
    by (auto simp: visits_def elim: converse_rtranclE intro: converse_rtrancl_into_rtrancl)
  show ?case
    by (auto simp: 3(1) [OF 3(2) dirs le] split)
qed

text \<open>The directories the walk visits are those with no month directory above them.\<close>

lemma visited_dirs:
  assumes ok: "tree_ok ns" and root: "tree_root tree" and dir: "is_dir_at ns tree"
  shows "(tree, d) \<in> (visits ns)\<^sup>* \<longleftrightarrow>
    (\<exists>r. d = tree @ r \<and> is_dir_at ns d \<and> (\<forall>n \<in> months r. length r \<le> n))"
proof
  assume "(tree, d) \<in> (visits ns)\<^sup>*"
  then show "\<exists>r. d = tree @ r \<and> is_dir_at ns d \<and> (\<forall>n \<in> months r. length r \<le> n)"
  proof (induction rule: rtrancl_induct)
    case base
    show ?case by (rule exI [of _ "[]"]) (simp add: dir)
  next
    case (step d c)
    then obtain r where r: "d = tree @ r" "\<forall>n \<in> months r. length r \<le> n" by auto
    from step(2) have c: "\<not> is_month_dir d" "c \<noteq> []" "butlast c = d" "is_dir_at ns c"
      by (auto simp: visits_def dirs_in_iff [OF ok])
    then obtain x where x: "c = tree @ (r @ [x])" using r(1) by (metis append.assoc append_butlast_last_id)
    have "length r \<notin> months r" using c(1) r(1) is_month_dir_below [OF root] by simp
    with r(2) have "Suc (length r) \<le> n" if "n \<in> months r" for n
      using that by (metis Suc_leI le_neq_implies_less)
    then have "\<forall>n \<in> months (r @ [x]). Suc (length r) \<le> n" by (auto simp: months_snoc)
    with x c(4) show ?case by (intro exI [of _ "r @ [x]"]) simp
  qed
next
  assume "\<exists>r. d = tree @ r \<and> is_dir_at ns d \<and> (\<forall>n \<in> months r. length r \<le> n)"
  then obtain r where "d = tree @ r" "is_dir_at ns d" "\<forall>n \<in> months r. length r \<le> n" by blast
  then show "(tree, d) \<in> (visits ns)\<^sup>*"
  proof (induction r arbitrary: d rule: rev_induct)
    case (snoc x r)
    have d: "d \<noteq> []" "butlast d = tree @ r" using snoc.prems(1) by (auto simp: butlast_append)
    have parent: "is_dir_at ns (tree @ r)"
      using snoc.prems(2) d tree_ok_parent [OF ok _ d(1)] by (auto simp: is_dir_at_Some [of ns d])
    have none: "n \<notin> months r" if "n \<le> length r" for n
    proof
      assume "n \<in> months r"
      then have "n \<in> months (r @ [x])" by (simp add: months_snoc)
      with snoc.prems(3) have "length (r @ [x]) \<le> n" by blast
      with that show False by simp
    qed
    then have "\<forall>n \<in> months r. length r \<le> n" by (auto simp: months_def)
    with snoc.IH parent have "(tree, tree @ r) \<in> (visits ns)\<^sup>*" by blast
    moreover have "\<not> is_month_dir (tree @ r)" using none is_month_dir_below [OF root] by simp
    then have "(tree @ r, d) \<in> visits ns"
      using d snoc.prems(2) by (simp add: visits_def dirs_in_iff [OF ok])
    ultimately show ?case by (rule rtrancl_into_rtrancl)
  qed simp
qed

lemma found_in_iff:
  assumes "tree_ok ns"
  shows "(i, p) \<in> set (found_in ns d) \<longleftrightarrow>
    is_month_dir d \<and> p \<noteq> [] \<and> butlast p = d \<and> (\<exists>b m. map_of ns p = Some (FFile b m)) \<and>
    suffix GMAIL_SUFFIX (last p) \<and> i = path_id p"
proof -
  have "(p, n) \<in> set ns \<longleftrightarrow> map_of ns p = Some n" for n
    using tree_ok_distinct [OF assms] by simp
  moreover have "\<not> node_is_dir n \<longleftrightarrow> (\<exists>b m. n = FFile b m)" for n by (cases n) auto
  ultimately show ?thesis
    by (auto simp: found_in_def children_def in_map_filter stem_of_def strip_suffix_def path_id_def
        split: if_splits) 
qed

theorem find_message_files_exact:
  assumes ok: "tree_ok (dk_nodes d)" and root: "tree_root tree" and dir: "is_dir_at (dk_nodes d) tree"
  shows "(i, p) \<in> set (find_message_files d tree wanted) \<longleftrightarrow>
    wanted i \<and> i = path_id p \<and>
    (\<exists>r b m. p = tree @ r \<and> message_path r \<and> map_of (dk_nodes d) p = Some (FFile b m))"
proof -
  let ?ns = "dk_nodes d"
  have "below ?ns tree \<le> card (fst ` set ?ns)" by (auto simp: below_def intro: card_mono)
  also have "\<dots> \<le> length ?ns" by (metis card_length length_map set_map)
  finally have fuel: "sum_list (map (below ?ns) [tree]) \<le> Suc (length ?ns)" by simp
  have "set (walk (Suc (length ?ns)) ?ns [tree]) =
      {e. \<exists>d'. (tree, d') \<in> (visits ?ns)\<^sup>* \<and> e \<in> set (found_in ?ns d')}"
    using walk_finds [OF ok _ fuel] dir by simp
  then have "(i, p) \<in> set (find_message_files d tree wanted) \<longleftrightarrow>
      wanted i \<and> (\<exists>d'. (tree, d') \<in> (visits ?ns)\<^sup>* \<and> (i, p) \<in> set (found_in ?ns d'))"
    using dir by (auto simp: find_message_files_def)
  also have "\<dots> \<longleftrightarrow> wanted i \<and> i = path_id p \<and>
    (\<exists>r b m. p = tree @ r \<and> message_path r \<and> map_of ?ns p = Some (FFile b m))" (is "_ \<longleftrightarrow> ?R")
  proof
    assume "wanted i \<and> (\<exists>d'. (tree, d') \<in> (visits ?ns)\<^sup>* \<and> (i, p) \<in> set (found_in ?ns d'))"
    then obtain r b m where r: "wanted i" "is_month_dir (tree @ r)" "p \<noteq> []" "butlast p = tree @ r"
        "map_of ?ns p = Some (FFile b m)" "suffix GMAIL_SUFFIX (last p)" "i = path_id p"
        "\<forall>n \<in> months r. length r \<le> n"
      by (auto simp: visited_dirs [OF ok root dir] found_in_iff [OF ok])
    then obtain x where p: "p = tree @ (r @ [x])" by (metis append.assoc append_butlast_last_id)
    have m: "length r \<in> months r" using r(2) is_month_dir_below [OF root] by simp
    then have "\<not> (digit_name 4 (last r) \<and> digit_name 2 x)"
      by (cases r rule: rev_cases) (auto simp: months_def dest: digit_name_both)
    with m r(6,8) p have "message_path (r @ [x])" by (auto simp: message_path_def months_snoc)
    with r p show ?R by blast
  next
    assume ?R
    then obtain r b m where r: "wanted i" "i = path_id p" "p = tree @ r" "message_path r"
        "map_of ?ns p = Some (FFile b m)" by blast
    then obtain s x where s: "r = s @ [x]" by (cases r rule: rev_cases) (auto simp: message_path_def)
    with r(4) have m: "length s \<in> months s" "\<forall>n \<in> months s. length s \<le> n" "suffix GMAIL_SUFFIX x"
      by (auto simp: message_path_def months_append_prefix) (auto simp: months_snoc)
    have b: "p \<noteq> []" "butlast p = tree @ s" "last p = x" using r(3) s by (auto simp: butlast_append)
    have "is_dir_at ?ns (tree @ s)" using tree_ok_parent [OF ok r(5) b(1)] b(2) by simp
    with m b r show "wanted i \<and> (\<exists>d'. (tree, d') \<in> (visits ?ns)\<^sup>* \<and> (i, p) \<in> set (found_in ?ns d'))"
      by (auto simp: visited_dirs [OF ok root dir] found_in_iff [OF ok] is_month_dir_below [OF root])
  qed
  finally show ?thesis .
qed

end
