(* ===== verification/Gmail_Mirror_Effects.thy ===== *)
theory Gmail_Mirror_Effects
  imports Gmail_Mirror_Paths
begin

section \<open>What placing and removing a message do to the mirror\<close>

text \<open>
  A tree in good order: directories down to the months, message files and attachment directories
  in a month, files in these. Placing and removing a message keep it so, and their effect on the
  message files is exactly the message's.
\<close>

subsection \<open>A tree in good order\<close>

definition month_depth :: "string list \<Rightarrow> nat option" where
  "month_depth r = (if months r = {} then None else Some (length r - Min (months r)))"

text \<open>What may be at a relative path: a directory or a file.\<close>

definition role :: "string list \<Rightarrow> bool \<Rightarrow> bool" where
  "role r isdir =
     (case month_depth r of
        None \<Rightarrow> isdir
      | Some k \<Rightarrow>
          (if k = 0 then isdir
           else if k = 1 then isdir = (\<not> suffix GMAIL_SUFFIX (last r))
           else k = 2 \<and> \<not> isdir))"

definition layout :: "string list \<Rightarrow> disk_nodes \<Rightarrow> bool" where
  "layout tree ns =
     (tree_ok ns \<and> is_dir_at ns tree \<and>
      (\<forall>r n. r \<noteq> [] \<longrightarrow> map_of ns (tree @ r) = Some n \<longrightarrow> role r (node_is_dir n)))"

definition month_rel :: "string list \<Rightarrow> bool" where
  "month_rel s = (length s \<in> months s \<and> (\<forall>n \<in> months s. length s \<le> n))"

lemma finite_months [simp]: "finite (months r)"
  by (rule finite_subset [of _ "{..length r}"]) (auto simp: months_def)

lemma months_above:
  assumes "month_rel s"
  shows "length s \<in> months (s @ x)" "\<And>n. n \<in> months (s @ x) \<Longrightarrow> length s \<le> n"
proof -
  show "length s \<in> months (s @ x)" using assms by (simp add: month_rel_def months_append_prefix)
  show "length s \<le> n" if "n \<in> months (s @ x)" for n
    using that assms months_append_prefix [of n s x] by (cases "n \<le> length s") (auto simp: month_rel_def)
qed

lemma depth_below_month: "month_rel s \<Longrightarrow> month_depth (s @ x) = Some (length x)"
proof -
  assume s: "month_rel s"
  then have "Min (months (s @ x)) = length s" using months_above [OF s] by (intro Min_eqI) auto
  with months_above(1) [OF s] show ?thesis by (auto simp: month_depth_def)
qed

lemma depth_above_month: "month_rel s \<Longrightarrow> strict_prefix r s \<Longrightarrow> month_depth r = None"
proof -
  assume s: "month_rel s" and r: "strict_prefix r s"
  then obtain x where x: "s = r @ x" "x \<noteq> []" by (metis strict_prefix_def prefix_def append_Nil2)
  have "n \<notin> months r" for n
  proof
    assume n: "n \<in> months r"
    then have "n \<le> length r" by (simp add: months_def)
    with n x(1) have "n \<in> months s" by (simp add: months_append_prefix)
    with s have "length s \<le> n" by (simp add: month_rel_def)
    moreover have "length s = length r + length x" using x(1) by simp
    ultimately have "length x = 0" using \<open>n \<le> length r\<close> by linarith
    with x(2) show False by simp
  qed
  then show ?thesis by (auto simp: month_depth_def)
qed

lemma roles:
  assumes s: "month_rel s"
  shows "role s isdir = isdir"
    and "role (s @ [f]) isdir = (isdir = (\<not> suffix GMAIL_SUFFIX f))"
    and "role (s @ [a, f]) isdir = (\<not> isdir)"
    and "prefix r s \<Longrightarrow> role r isdir = isdir"
proof -
  show own: "role s isdir = isdir" using depth_below_month [OF s, of "[]"] by (simp add: role_def)
  show "role (s @ [f]) isdir = (isdir = (\<not> suffix GMAIL_SUFFIX f))"
    "role (s @ [a, f]) isdir = (\<not> isdir)"
    using depth_below_month [OF s, of "[f]"] depth_below_month [OF s, of "[a, f]"]
    by (auto simp: role_def)
  show "role r isdir = isdir" if "prefix r s"
    using that own depth_above_month [OF s, of r] by (cases "r = s") (auto simp: role_def strict_prefix_def)
qed

lemma message_path_month:
  assumes s: "month_rel s"
  shows "message_path (s @ x) \<longleftrightarrow> (\<exists>f. x = [f] \<and> suffix GMAIL_SUFFIX f)"
proof
  assume m: "message_path (s @ x)"
  then have "length (s @ x) - 1 \<le> length s" using months_above(1) [OF s, of x] by (simp add: message_path_def)
  moreover have "length s \<le> length (s @ x) - 1"
    using m months_above(2) [OF s, of "length (s @ x) - 1" x] by (simp add: message_path_def)
  moreover have "0 < length s" using s by (auto simp: month_rel_def)
  ultimately have "length x = 1" by (simp only: length_append)
  then obtain f where "x = [f]" by (cases x) auto
  with m show "\<exists>f. x = [f] \<and> suffix GMAIL_SUFFIX f" by (simp add: message_path_def)
next
  assume "\<exists>f. x = [f] \<and> suffix GMAIL_SUFFIX f"
  then show "message_path (s @ x)"
    using months_above(1) [OF s, of x] months_above(2) [OF s, of _ x] by (auto simp: message_path_def)
qed

lemma message_path_split:
  assumes "message_path r"
  obtains s f where "r = s @ [f]" "month_rel s" "suffix GMAIL_SUFFIX f"
proof -
  obtain s f where r: "r = s @ [f]" using assms by (cases r rule: rev_cases) (auto simp: message_path_def)
  with assms have "length s \<in> months s" "\<forall>n \<in> months s. length s \<le> n"
    by (auto simp: message_path_def months_append_prefix) (auto simp: months_snoc)
  with r assms that show thesis by (auto simp: month_rel_def message_path_def)
qed

subsection \<open>Steps on the disk\<close>

definition file_bytes :: "disk \<Rightarrow> string list \<Rightarrow> bytes option" where
  "file_bytes d p = (case map_of (dk_nodes d) p of Some (FFile b _) \<Rightarrow> Some b | _ \<Rightarrow> None)"

lemma file_bytes_not_dir: "file_bytes d p = Some b \<Longrightarrow> \<not> is_dir_at (dk_nodes d) p"
  by (auto simp: file_bytes_def is_dir_at_def split: option.splits fnode.splits)

text \<open>A step that keeps the order and the directories, and changes only the files of a set.\<close>

definition kept_but :: "string list \<Rightarrow> string list set \<Rightarrow> disk \<Rightarrow> disk \<Rightarrow> bool" where
  "kept_but tree S d d' =
     (layout tree (dk_nodes d') \<and> (\<forall>k. is_dir_at (dk_nodes d) k \<longrightarrow> is_dir_at (dk_nodes d') k) \<and>
      (\<forall>k. k \<notin> S \<longrightarrow> file_bytes d' k = file_bytes d k))"

lemma kept_but_trans: "kept_but tree S d d' \<Longrightarrow> kept_but tree T d' d'' \<Longrightarrow> kept_but tree (S \<union> T) d d''"
  by (simp add: kept_but_def)

lemma kept_but_mono: "kept_but tree S d d' \<Longrightarrow> S \<subseteq> T \<Longrightarrow> kept_but tree T d d'"
  by (auto simp: kept_but_def)

lemma then_do_ok: "f d = (d1, None) \<Longrightarrow> then_do f g d = g d1"
  by (simp add: then_do_def)

lemma layout_update:
  assumes l: "layout tree ns" and p: "is_dir_at ns (tree @ butlast r)" "r \<noteq> []"
    and n: "role r (node_is_dir n)" "node_is_dir n \<or> \<not> is_dir_at ns (tree @ r)"
  shows "layout tree (AList.update (tree @ r) n ns)"
proof -
  have q: "tree @ r \<noteq> []" "butlast (tree @ r) = tree @ butlast r" using p(2) by (auto simp: butlast_append)
  have ok: "tree_ok (AList.update (tree @ r) n ns)"
    using l p n q by (cases n) (auto simp: layout_def intro: tree_ok_put_file tree_ok_put_dir)
  moreover have "is_dir_at (AList.update (tree @ r) n ns) tree"
    using l p(2) by (auto simp: layout_def is_dir_at_Some map_of_update)
  ultimately show ?thesis
    using l n(1) unfolding layout_def map_of_update by auto
qed

lemma layout_dirs: "layout tree ns \<Longrightarrow> is_dir_at ns (a @ b) \<Longrightarrow> is_dir_at ns a"
proof (induction b rule: rev_induct)
  case (snoc x b)
  then obtain n where "map_of ns (a @ b @ [x]) = Some n" by (auto simp: is_dir_at_Some)
  then have "is_dir_at ns (butlast (a @ b @ [x]))"
    using snoc.prems(1) by (intro tree_ok_parent) (auto simp: layout_def)
  with snoc show ?case by (simp add: butlast_append)
qed simp

text \<open>Directories may be made where only directories may be.\<close>

definition dir_path :: "string list \<Rightarrow> bool" where
  "dir_path r = (\<forall>s. prefix s r \<longrightarrow> s \<noteq> [] \<longrightarrow> role s True \<and> \<not> role s False)"

lemma create_missing_ok:
  assumes l: "layout tree (dk_nodes d)" and r: "dir_path r" "r \<noteq> []"
    and parent: "is_dir_at (dk_nodes d) (tree @ butlast r)"
  shows "\<exists>d'. create_missing (tree @ r) d = (d', None) \<and> kept_but tree {} d d' \<and>
    is_dir_at (dk_nodes d') (tree @ r)"
proof (cases "is_dir_at (dk_nodes d) (tree @ r)")
  case True
  with l show ?thesis by (auto simp: create_missing_def kept_but_def)
next
  case False
  from r have role: "role r True" "\<not> role r False" by (auto simp: dir_path_def)
  have none: "map_of (dk_nodes d) (tree @ r) = None"
  proof (cases "map_of (dk_nodes d) (tree @ r)")
    case (Some n)
    with l r(2) have "role r (node_is_dir n)" by (simp add: layout_def)
    with role False Some show ?thesis by (cases "node_is_dir n") (auto simp: is_dir_at_def)
  qed
  let ?ns = "AList.update (tree @ r) (FDir (fresh_meta (dk_now d))) (dk_nodes d)"
  have "create_missing (tree @ r) d = (d\<lparr>dk_nodes := ?ns\<rparr>, None)"
    using False none parent r(2) by (simp add: create_missing_def sys_create_dir_def butlast_append)
  moreover have "layout tree ?ns" using l parent r(2) role by (intro layout_update) auto
  ultimately show ?thesis
    using none by (auto simp: kept_but_def is_dir_at_Some map_of_update file_bytes_def)
qed

lemma do_each_append: "do_each f (xs @ ys) = then_do (do_each f xs) (do_each f ys)"
  by (induction xs) (auto simp: then_do_def fun_eq_iff split: prod.splits option.splits)

lemma do_each_one: "do_each f [a] = f a"
  by (simp add: then_do_def fun_eq_iff split: prod.splits option.splits)

lemma create_dir_all_snoc:
  "create_dir_all (p @ [x]) = then_do (create_dir_all p) (create_missing (p @ [x]))"
proof -
  have "map (\<lambda>i. take i (p @ [x])) [1..<Suc (length (p @ [x]))] =
      map (\<lambda>i. take i p) [1..<Suc (length p)] @ [p @ [x]]"
    by auto
  then show ?thesis
    unfolding create_dir_all_def by (simp only: do_each_append do_each_one)
qed

lemma create_dir_all_ok:
  assumes l: "layout tree (dk_nodes d)" and r: "dir_path r"
  shows "\<exists>d'. create_dir_all (tree @ r) d = (d', None) \<and> kept_but tree {} d d' \<and>
    is_dir_at (dk_nodes d') (tree @ r)"
  using r
proof (induction r rule: rev_induct)
  case Nil
  have "do_each create_missing (map (\<lambda>i. take i tree) [1..<Suc n]) d = (d, None)" if "n \<le> length tree" for n
    using that
  proof (induction n)
    case (Suc n)
    have "is_dir_at (dk_nodes d) (take (Suc n) tree)"
      using layout_dirs [OF l, of "take (Suc n) tree" "drop (Suc n) tree"] l by (simp add: layout_def)
    with Suc show ?case by (simp add: do_each_append then_do_def create_missing_def)
  qed simp
  with l show ?case by (auto simp: create_dir_all_def kept_but_def layout_def)
next
  case (snoc x r)
  from snoc.prems have "dir_path r" "dir_path (r @ [x])" by (auto simp: dir_path_def)
  with snoc.IH obtain d1 where d1: "create_dir_all (tree @ r) d = (d1, None)" "kept_but tree {} d d1"
      "is_dir_at (dk_nodes d1) (tree @ r)" by auto
  have "\<exists>d'. create_missing (tree @ r @ [x]) d1 = (d', None) \<and> kept_but tree {} d1 d' \<and>
      is_dir_at (dk_nodes d') (tree @ r @ [x])"
    using create_missing_ok [of tree d1 "r @ [x]"] d1 \<open>dir_path (r @ [x])\<close>
    by (auto simp: kept_but_def)
  then obtain d2 where d2: "create_missing (tree @ r @ [x]) d1 = (d2, None)" "kept_but tree {} d1 d2"
      "is_dir_at (dk_nodes d2) (tree @ r @ [x])" by blast
  have "create_dir_all (tree @ r @ [x]) = then_do (create_dir_all (tree @ r)) (create_missing (tree @ r @ [x]))"
    using create_dir_all_snoc [of "tree @ r" x] by simp
  with d1(1) d2 kept_but_trans [OF d1(2) d2(2)] show ?case by (auto simp: then_do_ok)
qed

lemma set_modified_update:
  "set_modified p t (d\<lparr>dk_nodes := AList.update p (FFile b m) ns\<rparr>) =
    d\<lparr>dk_nodes := (case t of None \<Rightarrow> AList.update p (FFile b m) ns
       | Some t \<Rightarrow> AList.update p (FFile b (m\<lparr>md_mtime := t\<rparr>)) (AList.update p (FFile b m) ns))\<rparr>"
  by (simp add: set_modified_def map_of_update split: option.splits)

lemma sys_write_new_step:
  assumes l: "layout tree (dk_nodes d)" and r: "r \<noteq> []" "role r False" "\<not> role r True"
    and parent: "is_dir_at (dk_nodes d) (tree @ butlast r)"
  shows "\<exists>m. sys_write_new d (tree @ r) b =
    Inr (d\<lparr>dk_nodes := AList.update (tree @ r) (FFile b m) (dk_nodes d)\<rparr>)"
proof (cases "map_of (dk_nodes d) (tree @ r)")
  case (Some n)
  with l r(1) have "role r (node_is_dir n)" by (simp add: layout_def)
  with r(2,3) obtain b' m where "n = FFile b' m" by (cases n) auto
  with Some show ?thesis by (auto simp: sys_write_new_def)
qed (use r(1) parent in \<open>auto simp: sys_write_new_def butlast_append\<close>)

lemma kept_but_put:
  assumes l: "layout tree (dk_nodes d)" and r: "r \<noteq> []" "role r False" "\<not> role r True"
    and parent: "is_dir_at (dk_nodes d) (tree @ butlast r)"
  shows "kept_but tree {tree @ r} d (d\<lparr>dk_nodes := AList.update (tree @ r) (FFile b m) (dk_nodes d)\<rparr>) \<and>
    file_bytes (d\<lparr>dk_nodes := AList.update (tree @ r) (FFile b m) (dk_nodes d)\<rparr>) (tree @ r) = Some b"
proof -
  have "\<not> is_dir_at (dk_nodes d) (tree @ r)"
    using l r by (auto simp: layout_def is_dir_at_Some)
  with layout_update [OF l parent r(1), of "FFile b m"] r(2) show ?thesis
    by (auto simp: kept_but_def is_dir_at_Some map_of_update file_bytes_def)
qed

lemma write_file_ok:
  assumes l: "layout tree (dk_nodes d)" and r: "r \<noteq> []" "role r False" "\<not> role r True"
    and parent: "is_dir_at (dk_nodes d) (tree @ butlast r)"
  shows "\<exists>d'. write_file (tree @ r) b t d = (d', None) \<and> kept_but tree {tree @ r} d d' \<and>
    file_bytes d' (tree @ r) = Some b"
proof -
  obtain m where w: "sys_write_new d (tree @ r) b =
      Inr (d\<lparr>dk_nodes := AList.update (tree @ r) (FFile b m) (dk_nodes d)\<rparr>)"
    using sys_write_new_step [OF assms] by blast
  let ?d = "d\<lparr>dk_nodes := AList.update (tree @ r) (FFile b m) (dk_nodes d)\<rparr>"
  note k = kept_but_put [OF assms, of b m]
  show ?thesis
  proof (cases t)
    case None
    with w k show ?thesis by (simp add: write_file_def set_modified_update)
  next
    case (Some t')
    have "layout tree (dk_nodes ?d)" "is_dir_at (dk_nodes ?d) (tree @ butlast r)"
      using k parent by (auto simp: kept_but_def)
    from kept_but_put [OF this(1) r this(2), of b "m\<lparr>md_mtime := t'\<rparr>"] kept_but_trans [OF conjunct1 [OF k]]
    show ?thesis using w Some by (fastforce simp: write_file_def set_modified_update)
  qed
qed

subsection \<open>Removals\<close>

lemma map_of_filter_keys: "map_of (filter (\<lambda>(k, _). P k) ns) k = (if P k then map_of ns k else None)"
  by (induction ns) auto

lemma removed_file:
  fixes p k :: "string list"
  assumes "tree_ok (dk_nodes d)"
  defines "d' \<equiv> ignoring (\<lambda>d. sys_remove_file d p) d"
  shows "tree_ok (dk_nodes d')" "file_bytes d' k = (if k = p then None else file_bytes d k)"
    "is_dir_at (dk_nodes d') k = is_dir_at (dk_nodes d) k"
proof -
  have "tree_ok (dk_nodes d') \<and> file_bytes d' k = (if k = p then None else file_bytes d k) \<and>
      is_dir_at (dk_nodes d') k = is_dir_at (dk_nodes d) k"
  proof (cases "map_of (dk_nodes d) p")
    case (Some n)
    show ?thesis
    proof (cases n)
      case (FFile b m)
      with Some have p: "map_of (dk_nodes d) p = Some (FFile b m)" by simp
      then have "p \<noteq> []" using assms(1) by (auto simp: tree_ok_def is_dir_at_Some)
      with p have "tree_ok (AList.delete p (dk_nodes d))"
        by (intro tree_ok_delete assms(1)) (auto dest: file_no_children [OF assms(1) p])
      with p show ?thesis
        by (auto simp: d'_def ignoring_def sys_remove_file_def file_bytes_def map_of_delete is_dir_at_Some)
    qed (use Some assms(1) in \<open>auto simp: d'_def ignoring_def sys_remove_file_def file_bytes_def\<close>)
  qed (use assms(1) in \<open>auto simp: d'_def ignoring_def sys_remove_file_def file_bytes_def\<close>)
  then show "tree_ok (dk_nodes d')" "file_bytes d' k = (if k = p then None else file_bytes d k)"
    "is_dir_at (dk_nodes d') k = is_dir_at (dk_nodes d) k" by blast+
qed

lemma nothing_below_absent:
  assumes ok: "tree_ok ns" and p: "\<not> is_dir_at ns p" and k: "strict_prefix p k"
  shows "map_of ns k = None"
proof (rule ccontr)
  assume "map_of ns k \<noteq> None"
  moreover from k obtain x xs where "k = p @ x # xs" by (metis append_Nil2 neq_Nil_conv prefix_def strict_prefix_def)
  ultimately show False using ancestor_has_child [OF ok] p by blast
qed

lemma tree_ok_remove_below:
  assumes ok: "tree_ok ns" and p: "p \<noteq> []"
  shows "tree_ok (filter (\<lambda>(k, _). \<not> prefix p k) ns)"
proof (rule tree_okI)
  show "distinct (map fst (filter (\<lambda>(k, _). \<not> prefix p k) ns))"
    using tree_ok_distinct [OF ok] by (rule distinct_map_filter)
  show "is_dir_at (filter (\<lambda>(k, _). \<not> prefix p k) ns) []"
    using ok p by (auto simp: tree_ok_def is_dir_at_Some map_of_filter_keys)
  fix k n assume "map_of (filter (\<lambda>(k, _). \<not> prefix p k) ns) k = Some n" "k \<noteq> []"
  then have k: "map_of ns k = Some n" "\<not> prefix p k" "k \<noteq> []"
    by (auto simp: map_of_filter_keys split: if_splits)
  then have "\<not> prefix p (butlast k)" using prefixeq_butlast prefix_order.trans by blast
  with tree_ok_parent [OF ok k(1,3)] show "is_dir_at (filter (\<lambda>(k, _). \<not> prefix p k) ns) (butlast k)"
    by (auto simp: is_dir_at_Some map_of_filter_keys)
qed

lemma removed_dir_all:
  fixes p k :: "string list"
  assumes ok: "tree_ok (dk_nodes d)" and p: "p \<noteq> []"
  defines "d' \<equiv> ignoring (\<lambda>d. sys_remove_dir_all d p) d"
  shows "tree_ok (dk_nodes d')" "file_bytes d' k = (if strict_prefix p k then None else file_bytes d k)"
    "\<not> prefix p k \<Longrightarrow> is_dir_at (dk_nodes d') k = is_dir_at (dk_nodes d) k"
proof -
  have "tree_ok (dk_nodes d') \<and> file_bytes d' k = (if strict_prefix p k then None else file_bytes d k) \<and>
      (\<not> prefix p k \<longrightarrow> is_dir_at (dk_nodes d') k = is_dir_at (dk_nodes d) k)"
  proof (cases "is_dir_at (dk_nodes d) p")
    case True
    then have "d' = d\<lparr>dk_nodes := filter (\<lambda>(k, _). \<not> prefix p k) (dk_nodes d)\<rparr>"
      using p by (simp add: d'_def ignoring_def sys_remove_dir_all_def)
    with True tree_ok_remove_below [OF ok p] show ?thesis
      by (auto simp: file_bytes_def map_of_filter_keys is_dir_at_Some strict_prefix_def split: fnode.splits)
  next
    case False
    then have "d' = d" by (simp add: d'_def ignoring_def sys_remove_dir_all_def)
    with ok nothing_below_absent [OF ok False] show ?thesis by (auto simp: file_bytes_def)
  qed
  then show "tree_ok (dk_nodes d')" "file_bytes d' k = (if strict_prefix p k then None else file_bytes d k)"
    "\<not> prefix p k \<Longrightarrow> is_dir_at (dk_nodes d') k = is_dir_at (dk_nodes d) k" by blast+
qed

lemma removed_dir:
  assumes ok: "tree_ok (dk_nodes d)" and r: "sys_remove_dir d p = Inr d'"
  shows "tree_ok (dk_nodes d')" "file_bytes d' = file_bytes d"
    "is_dir_at (dk_nodes d') k = (k \<noteq> p \<and> is_dir_at (dk_nodes d) k)"
proof -
  from r obtain m where p: "map_of (dk_nodes d) p = Some (FDir m)" "p \<noteq> []" "children (dk_nodes d) p = []"
    and d': "d' = d\<lparr>dk_nodes := AList.delete p (dk_nodes d)\<rparr>"
    by (auto simp: sys_remove_dir_def split: option.splits fnode.splits if_splits)
  show "tree_ok (dk_nodes d')"
    using p children_empty [OF ok, of p] by (auto simp: d' intro: tree_ok_delete [OF ok])
  show "file_bytes d' = file_bytes d" using p(1) by (auto simp: d' file_bytes_def map_of_delete fun_eq_iff)
  show "is_dir_at (dk_nodes d') k = (k \<noteq> p \<and> is_dir_at (dk_nodes d) k)"
    by (auto simp: d' is_dir_at_Some map_of_delete)
qed

text \<open>Pruning removes empty directories only, and none that is not on the way to the root.\<close>

lemma pruned:
  "tree_ok (dk_nodes d) \<Longrightarrow> tree_ok (dk_nodes (prune_empty root cur d)) \<and>
    file_bytes (prune_empty root cur d) = file_bytes d \<and>
    (\<forall>k. \<not> (strict_prefix root k \<and> prefix k cur) \<longrightarrow>
      is_dir_at (dk_nodes (prune_empty root cur d)) k = is_dir_at (dk_nodes d) k)"
proof (induction root cur d rule: prune_empty.induct)
  case (1 root cur d)
  show ?case
  proof (cases "cur = root \<or> \<not> prefix root cur")
    case True
    with 1(2) show ?thesis by (simp add: prune_empty.simps)
  next
    case False
    show ?thesis
    proof (cases "sys_remove_dir d cur")
      case (Inr d')
      note r = removed_dir [OF 1(2) Inr]
      have "prefix (butlast cur) cur" by (rule prefixeq_butlast)
      then have "strict_prefix root k \<and> prefix k cur" if "strict_prefix root k \<and> prefix k (butlast cur)" for k
        using that prefix_order.trans by blast
      with 1(1) [OF False Inr r(1)] r False Inr show ?thesis
        by (auto simp: prune_empty.simps [of root cur d] strict_prefix_def)
    qed (use False 1(2) in \<open>simp add: prune_empty.simps\<close>)
  qed
qed

end
