(* ===== verification/Gmail_Resource_Properties.thy ===== *)
theory Gmail_Resource_Properties
  imports Gmail_Resource Gmail_Mirror_Effects Gmail_Name_Properties
begin

section \<open>Removing a mirrored message\<close>

text \<open>What \<^verbatim>\<open>rm\<close> of a message file does to the mailbox and to every file of the mirror.\<close>

lemma suffix_after_mark: "c \<notin> set x \<Longrightarrow> suffix x (a @ c # i) \<Longrightarrow> suffix x i"
  by (auto simp: suffix_append suffix_Cons)

lemma trim_suffixes_once:
  assumes "x \<noteq> []" "\<not> suffix x s"
  shows "trim_suffixes x (s @ x) = s"
proof -
  have "trim_suffixes x s = s" using assms by (simp add: trim_suffixes.simps)
  then show ?thesis using assms(1) by (simp add: trim_suffixes.simps [of x "s @ x"] suffix_def)
qed

lemma trimmed_name:
  assumes "\<forall>b \<in> set i. ascii_letter (of_char b) \<or> ascii_digit (of_char b)"
  shows "trim_suffixes GMAIL_SUFFIX (msg_filename U subject i) = attach_dir_name U subject i"
proof -
  have "CHR ''.'' \<notin> set i" using assms by (auto simp: ascii_letter_def ascii_digit_def)
  then have "\<not> suffix GMAIL_SUFFIX i" by (auto simp: GMAIL_SUFFIX_def suffix_def)
  then have "\<not> suffix GMAIL_SUFFIX ((utf8 (sanitize U subject) @ ''_'') @ CHR ''_'' # i)"
    using suffix_after_mark [of "CHR ''_''" GMAIL_SUFFIX "utf8 (sanitize U subject) @ ''_''" i]
    unfolding GMAIL_SUFFIX_def by auto
  then have "\<not> suffix GMAIL_SUFFIX (attach_dir_name U subject i)" by (simp add: attach_dir_name_def)
  moreover have "msg_filename U subject i = attach_dir_name U subject i @ GMAIL_SUFFIX"
    by (simp add: msg_filename_def attach_dir_name_def)
  ultimately show ?thesis by (simp add: trim_suffixes_once GMAIL_SUFFIX_def)
qed

lemma removed_appearance:
  assumes "tree_ok (dk_nodes d)"
  shows "tree_ok (dk_nodes (remove_appearance tree f dir d))"
    and "file_bytes (remove_appearance tree f dir d) k =
      (if k = dir @ [f] \<or> strict_prefix (dir @ [trim_suffixes GMAIL_SUFFIX f]) k then None else file_bytes d k)"
proof -
  define d1 where "d1 = ignoring (\<lambda>d. sys_remove_file d (dir @ [f])) d"
  define d2 where "d2 = ignoring (\<lambda>d. sys_remove_dir_all d (dir @ [trim_suffixes GMAIL_SUFFIX f])) d1"
  note s1 = removed_file [OF assms, of "dir @ [f]", folded d1_def]
  note s2 = removed_dir_all [OF s1(1), of "dir @ [trim_suffixes GMAIL_SUFFIX f]", folded d2_def]
  have "remove_appearance tree f dir d = prune_empty tree dir d2"
    by (simp add: remove_appearance_def d1_def d2_def)
  moreover have "tree_ok (dk_nodes d2)" using s2 by simp
  ultimately show "tree_ok (dk_nodes (remove_appearance tree f dir d))"
    "file_bytes (remove_appearance tree f dir d) k =
      (if k = dir @ [f] \<or> strict_prefix (dir @ [trim_suffixes GMAIL_SUFFIX f]) k then None else file_bytes d k)"
    using pruned [of d2 tree dir] s2(2) s1(2) by simp_all
qed

lemma removed_appearances:
  "tree_ok (dk_nodes d) \<Longrightarrow> tree_ok (dk_nodes (fold (remove_appearance tree f) dirs d)) \<and>
    file_bytes (fold (remove_appearance tree f) dirs d) k =
      (if \<exists>dir \<in> set dirs. k = dir @ [f] \<or> strict_prefix (dir @ [trim_suffixes GMAIL_SUFFIX f]) k
       then None else file_bytes d k)"
  by (induction dirs arbitrary: d) (auto simp: removed_appearance)

text \<open>The labels that the clean-up knows for a message: those of its file, as the API names them.\<close>

definition rm_labels ::
  "('w, 'n) gmail_conf \<Rightarrow> string list \<Rightarrow> 'w gmail_state \<Rightarrow> mount_path \<Rightarrow> string set" where
  "rm_labels C tree s path =
     (let ids = noted_labels C tree path (gs_disk s)
      in if ids = [] then {} else {l. \<exists>i \<in> set ids. fst (gmail_label_map C s) i = Some l})"

lemma set_appearance_dirs:
  "set (appearance_dirs tree path y m ids labels) =
     insert (butlast (rm_target tree path))
       {path_join (path_join (path_join tree l) y) m |l. \<exists>i \<in> set ids. labels i = Some l}"
  by (fastforce simp: appearance_dirs_def in_map_filter image_iff)


text \<open>A mirror with one message under two labels, and an API that trashes what it is given.\<close>

definition sample_name :: string where
  "sample_name = msg_filename ascii_uni (chars ''Hi'') ''m1''"

definition rm_disk :: disk where
  "rm_disk = \<lparr>dk_nodes =
     map (\<lambda>p. (p, FDir (fresh_meta 0)))
       [[], [''t''], [''t'', ''A''], [''t'', ''A'', ''2024''], [''t'', ''A'', ''2024'', ''05''],
        [''t'', ''B''], [''t'', ''B'', ''2024''], [''t'', ''B'', ''2024'', ''05'']]
     @ [([''t'', ''A'', ''2024'', ''05'', sample_name], FFile [1] (fresh_meta 0)),
        ([''t'', ''B'', ''2024'', ''05'', sample_name], FFile [1] (fresh_meta 0)),
        ([''keep''], FFile [2] (fresh_meta 0))], dk_now = 0\<rparr>"

definition rm_mail :: "nat mail_lib" where
  "rm_mail = \<lparr>ml_uni = ascii_uni, ml_lower = id, ml_render_html = id, ml_b64url_text = Some,
     ml_b64 = chars, ml_u64 = Some, ml_num = id\<rparr>"

definition rm_conf :: "(string list, nat) gmail_conf" where
  "rm_conf = \<lparr>gc_mail = rm_mail, gc_tree = Some [''t''],
     gc_list_labels = (\<lambda>w. (w, Inr [JObj [(chars ''id'', JStr (chars ''LB'')), (chars ''name'', JStr (chars ''B''))]])),
     gc_trash = (\<lambda>w i. (w @ [i], Inr ())), gc_send_raw = (\<lambda>w _ _. (w, Inl ''scope'')),
     gc_message_full = (\<lambda>w _. (w, Inl ''scope'')),
     gc_from_slice = (\<lambda>_. Inr (JObj [(chars ''labels'', JArr [JStr (chars ''LB'')])])),
     gc_to_vec = (\<lambda>_. Inr []), gc_b64url = chars\<rparr>"

definition rm_state :: "string list gmail_state" where
  "rm_state = \<lparr>gs_disk = rm_disk, gs_labels = None, gs_world = []\<rparr>"

definition rm_path :: mount_path where
  "rm_path = MountPath (''/A/2024/05/'' @ sample_name)"

lemma rm_disk_ok: "tree_ok (dk_nodes (gs_disk rm_state))"
  unfolding tree_ok_def by code_simp

lemma rm_path_segments: "segments (as_str rm_path) = [''A'', ''2024'', ''05'', sample_name]"
  by code_simp

lemma rm_target_is: "rm_target [''t''] rm_path = [''t'', ''A'', ''2024'', ''05'', sample_name]"
  by code_simp

lemma strict_prefix_longer: "strict_prefix (d @ [a]) [c] \<Longrightarrow> False"
  by (auto dest: prefix_length_less)


text \<open>
  The clean-up joins the path to the tree without looking at its segments, so that dots lead out of
  the mirror, where a read of the same path is refused.
\<close>

lemma unlink_leaves_the_tree:
  defines "p \<equiv> MountPath (''/../a/b/x__m1.json'')"
  defines "s \<equiv> rm_state\<lparr>gs_disk := \<lparr>dk_nodes =
      map (\<lambda>p. (p, FDir (fresh_meta 0))) [[], [''t''], [''a''], [''a'', ''b'']]
      @ [([''a'', ''b'', ''x__m1.json''], FFile [7] (fresh_meta 0))], dk_now = 0\<rparr>\<rparr>"
  shows "file_bytes (gs_disk s) [''a'', ''b'', ''x__m1.json''] = Some [7]"
    and "fst (gmail_read_bytes rm_conf s p None) = Inl RNotFound"
    and "fst (gmail_unlink rm_conf s p) = Inr ()"
    and "file_bytes (gs_disk (snd (gmail_unlink rm_conf s p))) [''a'', ''b'', ''x__m1.json''] = None"
  unfolding assms by code_simp+

end
