(* ===== verification/Drive_Names.thy ===== *)
theory Drive_Names
  imports Gmail_Message
begin

section \<open>Names and rows of Google Drive\<close>

text \<open>
  The pure helpers of \<^verbatim>\<open>src/workspace/src/vfs/resource/gdrive.rs\<close> and
  \<^verbatim>\<open>src/workspace/src/vfs/accessor/gdrive.rs\<close>: what one row of a listing becomes, how names are made
  safe and distinct, and the quoting of queries. A name in the mount is its UTF-8 bytes. The parser of
  timestamps, the white space of Unicode and the text of JSON are parameters.
\<close>

record 'n drive_lib =
  dl_uni :: uni_lib
  dl_rfc3339 :: "utext \<Rightarrow> int option"
  dl_from_slice :: "bytes \<Rightarrow> 'n jvalue option"
  dl_to_vec :: "'n jvalue \<Rightarrow> bytes option"
  dl_to_vec_pretty :: "'n jvalue \<Rightarrow> bytes option"
  dl_from_utf8 :: "bytes \<Rightarrow> utext option"
  dl_num :: "nat \<Rightarrow> 'n"

datatype native_api = NDoc | NSheet | NSlides

datatype serves = ServesNothing | ServesOriginal | ServesNative native_api

datatype gkind = GFolder | GSharedDrive | GFile

definition gkind_is_dir :: "gkind \<Rightarrow> bool" where
  "gkind_is_dir k = (k = GFolder \<or> k = GSharedDrive)"

record child =
  ch_name :: string
  ch_id :: string
  ch_drive :: "string option"
  ch_kind :: gkind
  ch_mime :: "string option"
  ch_mtime :: "systime option"
  ch_created :: "systime option"
  ch_serves :: serves
  ch_size :: "nat option"

definition FOLDER_MIME :: string where "FOLDER_MIME = ''application/vnd.google-apps.folder''"
definition MY_DRIVE_ID :: string where "MY_DRIVE_ID = ''root''"
definition MY_DRIVE_NAME :: string where "MY_DRIVE_NAME = ''My Drive''"
definition SHARED_WITH_ME_ID :: string where "SHARED_WITH_ME_ID = ''@sharedWithMe''"
definition SHARED_WITH_ME_NAME :: string where "SHARED_WITH_ME_NAME = ''Shared with me''"

definition NATIVE_KINDS :: "(string \<times> native_api \<times> string) list" where
  "NATIVE_KINDS =
     [(''application/vnd.google-apps.document'', NDoc, ''.gdoc.json''),
      (''application/vnd.google-apps.spreadsheet'', NSheet, ''.gsheet.json''),
      (''application/vnd.google-apps.presentation'', NSlides, ''.gslide.json'')]"

definition native_kind :: "string \<Rightarrow> (native_api \<times> string) option" where
  "native_kind mime = map_of NATIVE_KINDS mime"

definition has_original_bytes :: "string \<Rightarrow> bool" where
  "has_original_bytes mime = (\<not> starts_with mime ''application/vnd.google-apps.'')"

definition UNKNOWN_LENGTH_SIZE :: nat where "UNKNOWN_LENGTH_SIZE = 8 * 1024 * 1024"

subsection \<open>Names\<close>

definition drive_sanitize_name :: "uni_lib \<Rightarrow> utext \<Rightarrow> utext" where
  "drive_sanitize_name U name =
     (let cleaned = map (\<lambda>c. if c = uslash \<or> c = 92 \<or> is_control c then underscore else c)
                      (utrim_with (un_white U) name)
      in if cleaned \<in> {[], chars ''.'', chars ''..''} then chars ''untitled'' else cleaned)"

definition dec_str :: "nat \<Rightarrow> string" where
  "dec_str n = utf8 (dec_nat n)"

text \<open>A name as the part that a number may follow, and the extension that it stays in front of.\<close>

definition native_suffix :: "native_api \<Rightarrow> string" where
  "native_suffix api =
     (case filter (\<lambda>(_, a, _). a = api) NATIVE_KINDS of [] \<Rightarrow> [] | (_, _, s) # _ \<Rightarrow> s)"

definition plain_extension :: "string \<Rightarrow> string \<times> string" where
  "plain_extension name =
     (case rsplit_once name CHR ''.'' of
        Some (stem, ext) \<Rightarrow>
          (if stem \<noteq> [] \<and> length ext \<le> 8 \<and>
              list_all (\<lambda>b. ascii_letter (of_char b) \<or> ascii_digit (of_char b)) ext
           then (stem, drop (length stem) name) else (name, []))
      | None \<Rightarrow> (name, []))"

definition split_extension :: "string \<Rightarrow> serves \<Rightarrow> string \<times> string" where
  "split_extension name s =
     (case s of
        ServesNothing \<Rightarrow> (name, [])
      | ServesNative api \<Rightarrow>
          (case strip_suffix name (native_suffix api) of
             Some stem \<Rightarrow> (stem, native_suffix api)
           | None \<Rightarrow> plain_extension name)
      | ServesOriginal \<Rightarrow> plain_extension name)"

definition numbered :: "string \<times> string \<Rightarrow> nat \<Rightarrow> string" where
  "numbered se n = fst se @ '' ('' @ dec_str n @ '')'' @ snd se"

fun disambiguate_from :: "string list \<Rightarrow> child list \<Rightarrow> child list option" where
  "disambiguate_from seen [] = Some []"
| "disambiguate_from seen (c # cs) =
     (if ch_name c \<notin> set seen then map_option ((#) c) (disambiguate_from (ch_name c # seen) cs)
      else (case first_free (numbered (split_extension (ch_name c) (ch_serves c))) seen (Suc (length seen)) 2 of
              None \<Rightarrow> None
            | Some cand \<Rightarrow>
                map_option ((#) (c\<lparr>ch_name := cand\<rparr>)) (disambiguate_from (cand # seen) cs)))"

definition disambiguate :: "child list \<Rightarrow> child list option" where
  "disambiguate cs = disambiguate_from [] cs"

text \<open>The name of a shared drive beside the sections: the first try has no number.\<close>

definition shared_drive_name :: "string \<Rightarrow> nat \<Rightarrow> string" where
  "shared_drive_name name n =
     (if n \<le> 1 then name @ '' [Shared Drive]'' else name @ '' [Shared Drive '' @ dec_str n @ '']'')"

definition unique_name :: "string \<Rightarrow> string list \<Rightarrow> string option" where
  "unique_name name existing =
     (if name \<notin> set existing then Some name
      else first_free (shared_drive_name name) existing (Suc (length existing)) 1)"

definition split_last :: "string \<Rightarrow> string \<times> string" where
  "split_last path =
     (let p = trim_end_matches path CHR ''/'' in
      case rsplit_once p CHR ''/'' of
        Some (parent, name) \<Rightarrow> (if parent = [] then ''/'' else parent, name)
      | None \<Rightarrow> (''/'', p))"

subsection \<open>Rows\<close>

definition text_field :: "string \<Rightarrow> 'n jvalue \<Rightarrow> string option" where
  "text_field k f = map_option utf8 (str_field k f)"

definition rfc3339_to_systemtime :: "'n drive_lib \<Rightarrow> utext \<Rightarrow> systime option" where
  "rfc3339_to_systemtime L s =
     (case dl_rfc3339 L s of
        None \<Rightarrow> None
      | Some secs \<Rightarrow> if 0 \<le> secs then Some (secs * 10 ^ 9) else None)"

definition time_field :: "'n drive_lib \<Rightarrow> 'n jvalue \<Rightarrow> string \<Rightarrow> systime option" where
  "time_field L f k = Option.bind (str_field k f) (rfc3339_to_systemtime L)"

definition child_from_file :: "'n drive_lib \<Rightarrow> 'n jvalue \<Rightarrow> child option" where
  "child_from_file L f =
     (case (str_field ''name'' f, text_field ''id'' f) of
        (Some raw, Some i) \<Rightarrow>
          (let name = utf8 (drive_sanitize_name (dl_uni L) raw);
               mime = the_default [] (text_field ''mimeType'' f);
               row = \<lparr>ch_name = name, ch_id = i, ch_drive = text_field ''driveId'' f, ch_kind = GFile,
                      ch_mime = Some mime, ch_mtime = time_field L f ''modifiedTime'',
                      ch_created = time_field L f ''createdTime'', ch_serves = ServesOriginal,
                      ch_size = None\<rparr>
           in if mime = FOLDER_MIME
              then Some (row\<lparr>ch_kind := GFolder, ch_mime := None, ch_serves := ServesNothing\<rparr>)
              else if has_original_bytes mime
              then Some (row\<lparr>ch_size := Option.bind (str_field ''size'' f) parse_u64\<rparr>)
              else (case native_kind mime of
                      None \<Rightarrow> None
                    | Some (api, x) \<Rightarrow> Some (row\<lparr>ch_name := name @ x, ch_serves := ServesNative api\<rparr>)))
      | _ \<Rightarrow> None)"

fun serves_whole :: "serves \<Rightarrow> bool" where
  "serves_whole (ServesNative _) = True"
| "serves_whole _ = False"

definition is_estimate :: "child \<Rightarrow> bool" where
  "is_estimate c = (serves_whole (ch_serves c) \<or> ch_size c = None)"

definition entry_size :: "child \<Rightarrow> nat" where
  "entry_size c =
     (if gkind_is_dir (ch_kind c) then 0
      else (case ch_size c of Some n \<Rightarrow> n | None \<Rightarrow> UNKNOWN_LENGTH_SIZE))"

definition child_kind :: "child \<Rightarrow> file_kind" where
  "child_kind c = (if gkind_is_dir (ch_kind c) then FileKind_Dir else FileKind_File)"

definition dir_entry_for :: "child \<Rightarrow> dir_entry" where
  "dir_entry_for c =
     \<lparr>de_name = ch_name c, de_kind = child_kind c, de_size = entry_size c, de_mtime = ch_mtime c,
      de_atime = None, de_ctime = None, de_created = ch_created c, de_etag = None,
      de_content_type = ch_mime c, de_size_is_estimate = is_estimate c,
      de_serves_whole = serves_whole (ch_serves c)\<rparr>"

subsection \<open>Quoting\<close>

definition quote_mark :: uchar where "quote_mark = 39"

text \<open>\<^verbatim>\<open>quote_a1\<close> and \<^verbatim>\<open>range_title\<close>: a tab's name as a range, and the sheet that a range names.\<close>

definition quote_a1 :: "utext \<Rightarrow> utext" where
  "quote_a1 tab = [quote_mark] @ replace_all [quote_mark] [quote_mark, quote_mark] tab @ [quote_mark]"

definition range_title :: "utext \<Rightarrow> utext" where
  "range_title r =
     (let sheet = (case urfind 33 r of Some i \<Rightarrow> take i r | None \<Rightarrow> r) in
      if 2 \<le> length sheet \<and> hd sheet = quote_mark \<and> last sheet = quote_mark
      then replace_all [quote_mark, quote_mark] [quote_mark] (butlast (tl sheet))
      else sheet)"

text \<open>\<^verbatim>\<open>escape_q\<close>: backslashes first, then quotes.\<close>

definition escape_q :: "utext \<Rightarrow> utext" where
  "escape_q s = replace_all [quote_mark] [92, quote_mark] (replace_all [92] [92, 92] s)"

end
