(* ===== verification/Google_Client.thy ===== *)
theory Google_Client
  imports Drive_Names
begin

section \<open>The clients of the Google services\<close>

text \<open>
  The request loops of \<^verbatim>\<open>src/workspace/src/vfs/accessor/gdrive.rs\<close> and \<^verbatim>\<open>accessor/gmail.rs\<close>: the
  access token with its refresh, the retries with their waits, paging, and what each call makes of
  its answer. The wire is a record of calls on a world; times are milliseconds. A call also gives the
  list of its attempts: the status answered (nothing when the request was lost) and the wait before
  the next attempt, if the loop waited.
\<close>

record request =
  rq_method :: string
  rq_url :: string
  rq_params :: "(string \<times> utext) list"
  rq_range :: "(nat \<times> nat) option"
  rq_content :: utext
  rq_token :: string

record http_response =
  hr_status :: nat
  hr_retry_after :: "utext option"
  hr_content_range :: "utext option"
  hr_body :: bytes

record ('w, 'n) http =
  ht_send :: "'w \<Rightarrow> request \<Rightarrow> 'w \<times> (string, http_response) res"
  ht_now :: "'w \<Rightarrow> nat"
  ht_sleep :: "nat \<Rightarrow> 'w \<Rightarrow> 'w"
  ht_jitter :: "'w \<Rightarrow> 'w \<times> nat"
  ht_text :: "bytes \<Rightarrow> utext"
  ht_json :: "utext \<Rightarrow> (string, 'n jvalue) res"
  ht_u64 :: "'n \<Rightarrow> nat option"
  ht_white :: "uchar \<Rightarrow> bool"
  ht_pretty :: "'n jvalue \<Rightarrow> bytes option"

datatype google_error = GTransport string | GStatus nat | GText string utext

record google_conf =
  gf_base :: string
  gf_token_url :: string
  gf_token_form :: utext

record 'w client =
  cl_world :: 'w
  cl_token :: "(string \<times> nat) option"

type_synonym attempts = "(nat option \<times> nat option) list"
type_synonym ('w, 'a) call = "'w client \<Rightarrow> 'w client \<times> (google_error, 'a) res"

subsection \<open>The access token\<close>

definition is_success :: "nat \<Rightarrow> bool" where
  "is_success s = (200 \<le> s \<and> s < 300)"

definition is_server_error :: "nat \<Rightarrow> bool" where
  "is_server_error s = (500 \<le> s \<and> s < 600)"

definition plain_request :: "string \<Rightarrow> string \<Rightarrow> utext \<Rightarrow> request" where
  "plain_request m url content =
     \<lparr>rq_method = m, rq_url = url, rq_params = [], rq_range = None, rq_content = content, rq_token = []\<rparr>"

text \<open>The exchange of the refresh token; its answer's life is an hour when it states none.\<close>

definition fetch_token :: "('w, 'n) http \<Rightarrow> google_conf \<Rightarrow> ('w, string) call" where
  "fetch_token H K c =
     (case ht_send H (cl_world c) (plain_request ''POST'' (gf_token_url K) (gf_token_form K)) of
        (w, Inl e) \<Rightarrow> (c\<lparr>cl_world := w\<rparr>, Err (GTransport e))
      | (w, Inr r) \<Rightarrow>
          (let c1 = c\<lparr>cl_world := w\<rparr>; body = ht_text H (hr_body r) in
           if \<not> is_success (hr_status r) then (c1, Err (GText ''google token exchange'' body))
           else (case ht_json H body of
                   Inl e \<Rightarrow> (c1, Err (GTransport e))
                 | Inr v \<Rightarrow>
                     (case text_field ''access_token'' v of
                        None \<Rightarrow> (c1, Err (GText ''no access_token in response'' []))
                      | Some t \<Rightarrow>
                          (let life = (case field ''expires_in'' v of
                                         Some (JNum n) \<Rightarrow> the_default 3600 (ht_u64 H n)
                                       | _ \<Rightarrow> 3600)
                           in (c1\<lparr>cl_token := Some (t, ht_now H w + 1000 * life)\<rparr>, Ok t))))))"

definition token :: "('w, 'n) http \<Rightarrow> google_conf \<Rightarrow> ('w, string) call" where
  "token H K c =
     (case cl_token c of
        Some (t, expiry) \<Rightarrow>
          (if ht_now H (cl_world c) + 60000 < expiry then (c, Ok t) else fetch_token H K c)
      | None \<Rightarrow> fetch_token H K c)"

subsection \<open>Retries\<close>

definition MAX_RETRIES :: nat where "MAX_RETRIES = 5"
definition MAX_BACKOFF :: nat where "MAX_BACKOFF = 16000"

definition backoff_delay :: "nat \<Rightarrow> nat \<Rightarrow> nat" where
  "backoff_delay n jitter = min (1000 * 2 ^ min n 16 + jitter) MAX_BACKOFF"

definition retry_after :: "('w, 'n) http \<Rightarrow> http_response \<Rightarrow> nat option" where
  "retry_after H r =
     map_option (\<lambda>secs. 1000 * secs)
       (Option.bind (hr_retry_after r) (\<lambda>raw. parse_u64 (utrim_with (ht_white H) raw)))"

text \<open>
  What an answer means: settled, or to be tried again (with the wait the server states, where that
  counts), and what it is when no try is left.
\<close>

datatype verdict =
    Settled "(google_error, http_response) res"
  | Again bool "(google_error, http_response) res"

definition gmail_verdict :: "bool \<Rightarrow> http_response \<Rightarrow> verdict" where
  "gmail_verdict retry_5xx r =
     (if hr_status r = 429 \<or> retry_5xx \<and> is_server_error (hr_status r) then Again True (Ok r)
      else Settled (Ok r))"

definition rate_limit_reasons :: "string list" where
  "rate_limit_reasons = [''rateLimitExceeded'', ''userRateLimitExceeded'', ''sharingRateLimitExceeded'']"

definition is_rate_limit :: "('w, 'n) http \<Rightarrow> utext \<Rightarrow> bool" where
  "is_rate_limit H body =
     (let reasons = (case ht_json H body of
                       Inl _ \<Rightarrow> []
                     | Inr v \<Rightarrow>
                         (case Option.bind (field ''error'' v) (field ''errors'') of
                            Some (JArr es) \<Rightarrow> List.map_filter (text_field ''reason'') es
                          | _ \<Rightarrow> []))
      in if reasons \<noteq> [] then list_ex (\<lambda>r. r \<in> set rate_limit_reasons) reasons
         else list_ex (\<lambda>r. occurs_in (chars r) body) rate_limit_reasons)"

definition drive_verdict :: "('w, 'n) http \<Rightarrow> http_response \<Rightarrow> verdict" where
  "drive_verdict H r =
     (if hr_status r = 403 then
        (let body = ht_text H (hr_body r); failure = Err (GText ''gdrive 403'' (take 300 body))
         in if is_rate_limit H body then Again False failure else Settled failure)
      else if hr_status r = 429 \<or> is_server_error (hr_status r) then Again True (Ok r)
      else Settled (Ok r))"

definition wait_for ::
  "('w, 'n) http \<Rightarrow> bool \<Rightarrow> nat \<Rightarrow> http_response \<Rightarrow> 'w client \<Rightarrow> 'w client \<times> nat" where
  "wait_for H stated n r c =
     (case (if stated then retry_after H r else None) of
        Some d \<Rightarrow> (c, min d MAX_BACKOFF)
      | None \<Rightarrow> (case ht_jitter H (cl_world c) of (w, j) \<Rightarrow> (c\<lparr>cl_world := w\<rparr>, backoff_delay n j)))"

definition logged :: "nat option \<times> nat option \<Rightarrow> attempts \<times> 'b \<Rightarrow> attempts \<times> 'b" where
  "logged a x = (a # fst x, snd x)"

function retry_loop ::
  "('w, 'n) http \<Rightarrow> google_conf \<Rightarrow> (http_response \<Rightarrow> verdict) \<Rightarrow> nat \<Rightarrow> (string \<Rightarrow> request)
    \<Rightarrow> bool \<Rightarrow> nat \<Rightarrow> string \<Rightarrow> 'w client
    \<Rightarrow> attempts \<times> 'w client \<times> (google_error, http_response) res" where
  "retry_loop H K judge budget build refreshed retries tok c =
     (case ht_send H (cl_world c) (build tok) of
        (w, Inl e) \<Rightarrow> ([(None, None)], c\<lparr>cl_world := w\<rparr>, Err (GTransport e))
      | (w, Inr r) \<Rightarrow>
          (if hr_status r = 401 \<and> \<not> refreshed then
             (case token H K (c\<lparr>cl_world := w, cl_token := None\<rparr>) of
                (c2, Inl e) \<Rightarrow> ([(Some 401, None)], c2, Err e)
              | (c2, Inr tok') \<Rightarrow>
                  logged (Some 401, None) (retry_loop H K judge budget build True retries tok' c2))
           else
             (case judge r of
                Settled x \<Rightarrow> ([(Some (hr_status r), None)], c\<lparr>cl_world := w\<rparr>, x)
              | Again stated x \<Rightarrow>
                  (if retries < budget then
                     (case wait_for H stated retries r (c\<lparr>cl_world := w\<rparr>) of (c2, d) \<Rightarrow>
                        logged (Some (hr_status r), Some d)
                          (retry_loop H K judge budget build refreshed (retries + 1) tok
                             (c2\<lparr>cl_world := ht_sleep H d (cl_world c2)\<rparr>)))
                   else ([(Some (hr_status r), None)], c\<lparr>cl_world := w\<rparr>, x)))))"
  by pat_completeness auto
termination retry_loop
  by (relation "measure (\<lambda>(H, K, judge, budget, build, refreshed, retries, tok, c).
      (if refreshed then 0 else 1) + (budget - retries))") auto

declare retry_loop.simps [simp del]

definition send_attempts ::
  "('w, 'n) http \<Rightarrow> google_conf \<Rightarrow> (http_response \<Rightarrow> verdict) \<Rightarrow> nat \<Rightarrow> (string \<Rightarrow> request) \<Rightarrow> 'w client
    \<Rightarrow> attempts \<times> 'w client \<times> (google_error, http_response) res" where
  "send_attempts H K judge budget build c =
     (case token H K c of
        (c1, Inl e) \<Rightarrow> ([], c1, Err e)
      | (c1, Inr tok) \<Rightarrow> retry_loop H K judge budget build False 0 tok c1)"

definition gmail_send_inner ::
  "('w, 'n) http \<Rightarrow> google_conf \<Rightarrow> bool \<Rightarrow> (string \<Rightarrow> request) \<Rightarrow> 'w client
    \<Rightarrow> attempts \<times> 'w client \<times> (google_error, http_response) res" where
  "gmail_send_inner H K retry_5xx build c =
     send_attempts H K (gmail_verdict retry_5xx) MAX_RETRIES build c"

definition drive_send_retrying ::
  "('w, 'n) http \<Rightarrow> google_conf \<Rightarrow> nat \<Rightarrow> (string \<Rightarrow> request) \<Rightarrow> 'w client
    \<Rightarrow> attempts \<times> 'w client \<times> (google_error, http_response) res" where
  "drive_send_retrying H K budget build c = send_attempts H K (drive_verdict H) budget build c"

text \<open>A call is the loop without its record of attempts, and what follows when it is answered.\<close>

definition answered ::
  "('w client \<Rightarrow> attempts \<times> 'w client \<times> (google_error, http_response) res)
    \<Rightarrow> (http_response \<Rightarrow> (google_error, 'a) res) \<Rightarrow> ('w, 'a) call" where
  "answered send f c = (case send c of (_, c', r) \<Rightarrow> (c', and_then r f))"

definition error_for_status :: "http_response \<Rightarrow> (google_error, http_response) res" where
  "error_for_status r = (if 400 \<le> hr_status r then Err (GStatus (hr_status r)) else Ok r)"

definition json_body :: "('w, 'n) http \<Rightarrow> http_response \<Rightarrow> (google_error, 'n jvalue) res" where
  "json_body H r = map_err GTransport (ht_json H (ht_text H (hr_body r)))"

definition get_request :: "string \<Rightarrow> (string \<times> utext) list \<Rightarrow> string \<Rightarrow> request" where
  "get_request url params tok = (plain_request ''GET'' url [])\<lparr>rq_params := params, rq_token := tok\<rparr>"

end
