(* ===== verification/Google_Calls.thy ===== *)
theory Google_Calls
  imports Google_Client Gmail_Sync
begin

section \<open>The calls to Drive and Gmail\<close>

text \<open>
  The methods of \<^verbatim>\<open>GdriveAccessor\<close> and \<^verbatim>\<open>GmailAccessor\<close> over the request loops: their requests, their
  paging, and the values they read out of the answers. The chunks of a batch, which run three at a
  time, are taken one after another; the order of a hash map's values is a parameter.
\<close>

definition cbind :: "('w, 'a) call \<Rightarrow> ('a \<Rightarrow> ('w, 'b) call) \<Rightarrow> ('w, 'b) call" where
  "cbind f g c = (case f c of (c', Inl e) \<Rightarrow> (c', Inl e) | (c', Inr a) \<Rightarrow> g a c')"

definition creturn :: "'a \<Rightarrow> ('w, 'a) call" where
  "creturn a c = (c, Ok a)"

definition cfail :: "google_error \<Rightarrow> ('w, 'a) call" where
  "cfail e c = (c, Err e)"

subsection \<open>Drive\<close>

definition MAX_PAGES :: nat where "MAX_PAGES = 50"
definition MAX_DOCUMENT_BYTES :: nat where "MAX_DOCUMENT_BYTES = 64 * 1024 * 1024"

definition FILE_FIELDS :: "string list" where
  "FILE_FIELDS =
     [''id'', ''name'', ''mimeType'', ''driveId'', ''size'', ''modifiedTime'', ''createdTime'',
      ''webViewLink'', ''owners(displayName,emailAddress)'']"

fun comma_join :: "string list \<Rightarrow> string" where
  "comma_join [] = []"
| "comma_join [s] = s"
| "comma_join (s # t # ss) = s @ '','' @ comma_join (t # ss)"

definition drive_get :: "('w, 'n) http \<Rightarrow> google_conf \<Rightarrow> string \<Rightarrow> (string \<times> utext) list \<Rightarrow> ('w, http_response) call" where
  "drive_get H K url params =
     answered (drive_send_retrying H K MAX_RETRIES (get_request url params)) error_for_status"

definition drive_get_json ::
  "('w, 'n) http \<Rightarrow> google_conf \<Rightarrow> string \<Rightarrow> (string \<times> utext) list \<Rightarrow> ('w, 'n jvalue) call" where
  "drive_get_json H K url params =
     answered (drive_send_retrying H K MAX_RETRIES (get_request url params))
       (\<lambda>r. and_then (error_for_status r) (json_body H))"

definition page_param :: "utext option \<Rightarrow> (string \<times> utext) list" where
  "page_param t = (case t of None \<Rightarrow> [] | Some t \<Rightarrow> [(''pageToken'', t)])"

definition list_params :: "utext \<Rightarrow> string option \<Rightarrow> (string \<times> utext) list" where
  "list_params q drive =
     [(''q'', q), (''fields'', chars (''nextPageToken,files('' @ comma_join FILE_FIELDS @ '')'')),
      (''pageSize'', chars ''1000''), (''orderBy'', chars ''modifiedTime desc'')]
     @ (case drive of
          None \<Rightarrow> []
        | Some d \<Rightarrow> [(''corpora'', chars ''drive''), (''driveId'', chars d),
                    (''includeItemsFromAllDrives'', chars ''true''), (''supportsAllDrives'', chars ''true'')])"

text \<open>The number counts the pages still allowed.\<close>

fun list_pages ::
  "nat \<Rightarrow> (utext option \<Rightarrow> ('w, 'n jvalue) call) \<Rightarrow> string \<Rightarrow> nat option \<Rightarrow> utext option
    \<Rightarrow> 'n jvalue list \<Rightarrow> ('w, 'n jvalue list) call" where
  "list_pages 0 get key limit tok files = creturn files"
| "list_pages (Suc pages) get key limit tok files =
     cbind (get tok) (\<lambda>v.
       let files' = files @ arr_field key v; nxt = str_field ''nextPageToken'' v in
       case limit of
         Some l \<Rightarrow>
           (if l \<le> length files' then creturn (take l files')
            else if nxt = None \<or> nxt = tok then creturn files'
            else list_pages pages get key limit nxt files')
       | None \<Rightarrow>
           (if nxt = None \<or> nxt = tok then creturn files'
            else list_pages pages get key limit nxt files'))"

definition list_files_q ::
  "('w, 'n) http \<Rightarrow> google_conf \<Rightarrow> utext \<Rightarrow> string option \<Rightarrow> nat \<Rightarrow> ('w, 'n jvalue list) call" where
  "list_files_q H K q drive limit =
     list_pages MAX_PAGES
       (\<lambda>tok. drive_get_json H K (gf_base K @ ''/files'') (list_params q drive @ page_param tok))
       ''files'' (Some limit) None []"

definition list_files ::
  "('w, 'n) http \<Rightarrow> google_conf \<Rightarrow> string \<Rightarrow> string option \<Rightarrow> nat \<Rightarrow> ('w, 'n jvalue list) call" where
  "list_files H K folder drive limit =
     list_files_q H K ([quote_mark] @ chars folder @ [quote_mark] @ chars '' in parents and trashed=false'')
       drive limit"

definition list_shared_with_me ::
  "('w, 'n) http \<Rightarrow> google_conf \<Rightarrow> nat \<Rightarrow> ('w, 'n jvalue list) call" where
  "list_shared_with_me H K limit =
     list_files_q H K (chars ''sharedWithMe=true and trashed=false'') None limit"

definition search_fulltext ::
  "('w, 'n) http \<Rightarrow> google_conf \<Rightarrow> utext \<Rightarrow> nat \<Rightarrow> ('w, 'n jvalue list) call" where
  "search_fulltext H K phrase limit =
     list_files_q H K
       (chars ''fullText contains '' @ [quote_mark] @ escape_q phrase @ [quote_mark]
         @ chars '' and trashed=false'')
       None limit"

definition list_shared_drives :: "('w, 'n) http \<Rightarrow> google_conf \<Rightarrow> ('w, 'n jvalue list) call" where
  "list_shared_drives H K =
     list_pages MAX_PAGES
       (\<lambda>tok. answered
          (drive_send_retrying H K 0 (get_request (gf_base K @ ''/drives'')
            ([(''fields'', chars ''nextPageToken,drives(id,name)''), (''pageSize'', chars ''100'')] @ page_param tok)))
          (\<lambda>r. and_then (error_for_status r) (json_body H)))
       ''drives'' None None []"

definition media_request :: "google_conf \<Rightarrow> string \<Rightarrow> (nat \<times> nat) option \<Rightarrow> string \<Rightarrow> request" where
  "media_request K i window tok =
     (get_request (gf_base K @ ''/files/'' @ i @ ''?alt=media&supportsAllDrives=true'') [] tok)
       \<lparr>rq_range := window\<rparr>"

text \<open>A byte range of HTTP is inclusive; an empty window is no request; past the end is the end.\<close>

definition download ::
  "('w, 'n) http \<Rightarrow> google_conf \<Rightarrow> string \<Rightarrow> range option \<Rightarrow> ('w, bytes) call" where
  "download H K i r =
     (case r of
        Some (a, b) \<Rightarrow>
          if b \<le> a then creturn []
          else answered (drive_send_retrying H K MAX_RETRIES (media_request K i (Some (a, b - 1))))
                 (\<lambda>p. if hr_status p = 416 then Ok [] else map_ok hr_body (error_for_status p))
      | None \<Rightarrow>
          answered (drive_send_retrying H K MAX_RETRIES (media_request K i None))
            (\<lambda>p. if hr_status p = 416 then Ok [] else map_ok hr_body (error_for_status p)))"

definition range_total :: "('w, 'n) http \<Rightarrow> http_response \<Rightarrow> (google_error, nat) res" where
  "range_total H p =
     (case Option.bind (hr_content_range p) (\<lambda>v. map_option (\<lambda>i. drop (Suc i) v) (urfind uslash v)) of
        None \<Rightarrow> Err (GText ''no Content-Range in a 206'' [])
      | Some t \<Rightarrow>
          (case parse_u64 (utrim_with (ht_white H) t) of
             None \<Rightarrow> Err (GText ''bad total'' t)
           | Some n \<Rightarrow> Ok n))"

definition probe_len :: "('w, 'n) http \<Rightarrow> google_conf \<Rightarrow> string \<Rightarrow> ('w, nat) call" where
  "probe_len H K i =
     answered (drive_send_retrying H K MAX_RETRIES (media_request K i (Some (0, 0))))
       (\<lambda>p. and_then (error_for_status p) (range_total H))"

definition body_within :: "nat \<Rightarrow> http_response \<Rightarrow> (google_error, bytes) res" where
  "body_within limit p =
     (if limit < length (hr_body p) then Err (GText ''over the byte limit'' []) else Ok (hr_body p))"

definition document_body :: "('w, 'n) http \<Rightarrow> http_response \<Rightarrow> (google_error, 'n jvalue) res" where
  "document_body H p =
     and_then (error_for_status p) (\<lambda>p.
       and_then (body_within MAX_DOCUMENT_BYTES p) (\<lambda>raw. map_err GTransport (ht_json H (ht_text H raw))))"

definition get_pretty :: "('w, 'n) http \<Rightarrow> google_conf \<Rightarrow> string \<Rightarrow> ('w, bytes) call" where
  "get_pretty H K url =
     answered (drive_send_retrying H K MAX_RETRIES (get_request url []))
       (\<lambda>p. and_then (document_body H p) (\<lambda>v.
          case ht_pretty H v of None \<Rightarrow> Err (GText ''json'' []) | Some b \<Rightarrow> Ok (b @ [10])))"

definition sheet_values_batch ::
  "('w, 'n) http \<Rightarrow> google_conf \<Rightarrow> string \<Rightarrow> utext list \<Rightarrow> ('w, 'n jvalue) call" where
  "sheet_values_batch H K url tabs =
     answered
       (drive_send_retrying H K MAX_RETRIES (get_request (url @ ''/values:batchGet'')
         ([(''majorDimension'', chars ''ROWS''), (''valueRenderOption'', chars ''FORMATTED_VALUE''),
           (''dateTimeRenderOption'', chars ''FORMATTED_STRING'')]
          @ map (\<lambda>t. (''ranges'', quote_a1 t)) tabs)))
       (document_body H)"

subsection \<open>Gmail\<close>

definition BATCH_CHUNK :: nat where "BATCH_CHUNK = 50"
definition MAX_BATCH_ROUNDS :: nat where "MAX_BATCH_ROUNDS = 3"

definition gmail_get ::
  "('w, 'n) http \<Rightarrow> google_conf \<Rightarrow> string \<Rightarrow> (string \<times> utext) list \<Rightarrow> (http_response \<Rightarrow> (google_error, 'a) res)
    \<Rightarrow> ('w, 'a) call" where
  "gmail_get H K url params = answered (gmail_send_inner H K True (get_request (gf_base K @ url) params))"

definition gmail_get_json :: "('w, 'n) http \<Rightarrow> google_conf \<Rightarrow> string \<Rightarrow> ('w, 'n jvalue) call" where
  "gmail_get_json H K url = gmail_get H K url [] (\<lambda>r. and_then (error_for_status r) (json_body H))"

definition list_labels :: "('w, 'n) http \<Rightarrow> google_conf \<Rightarrow> ('w, 'n jvalue list) call" where
  "list_labels H K = cbind (gmail_get_json H K ''/users/me/labels'') (\<lambda>v. creturn (arr_field ''labels'' v))"

text \<open>A page of ids: an empty body has nothing to parse. The loop is given pages enough for the mailbox.\<close>

definition text_or_json :: "('w, 'n) http \<Rightarrow> http_response \<Rightarrow> (google_error, 'n jvalue option) res" where
  "text_or_json H r =
     and_then (error_for_status r) (\<lambda>r.
       let t = ht_text H (hr_body r) in
       if utrim_with (ht_white H) t = [] then Ok None
       else map_ok Some (map_err GTransport (ht_json H t)))"

fun list_message_ids ::
  "nat \<Rightarrow> ('w, 'n) http \<Rightarrow> google_conf \<Rightarrow> string \<times> string \<Rightarrow> nat \<Rightarrow> utext option \<Rightarrow> string list
    \<Rightarrow> ('w, string list) call" where
  "list_message_ids 0 H K flt limit tok ids = cfail (GText ''out of pages'' [])"
| "list_message_ids (Suc pages) H K flt limit tok ids =
     cbind (gmail_get H K ''/users/me/messages''
              ([(''maxResults'', chars ''500''), (fst flt, chars (snd flt)),
                (''fields'', chars ''messages/id,nextPageToken'')] @ page_param tok) (text_or_json H)) (\<lambda>page.
       case page of
         None \<Rightarrow> creturn ids
       | Some v \<Rightarrow>
           (let ids' = ids @ List.map_filter raw_id (arr_field ''messages'' v) in
            if limit \<le> length ids' then creturn (take limit ids')
            else (case str_field ''nextPageToken'' v of
                    Some t \<Rightarrow> list_message_ids pages H K flt limit (Some t) ids'
                  | None \<Rightarrow> creturn ids')))"

definition list_history ::
  "('w, 'n) http \<Rightarrow> google_conf \<Rightarrow> string \<Rightarrow> string option \<Rightarrow> ('w, 'n jvalue option) call" where
  "list_history H K start tok =
     gmail_get H K ''/users/me/history''
       ([(''startHistoryId'', chars start), (''maxResults'', chars ''500'')] @ page_param (map_option chars tok))
       (\<lambda>r. if hr_status r = 404 then Ok None
            else map_ok (\<lambda>page. Some (the_default (JObj []) page)) (text_or_json H r))"

definition get_message_history_id ::
  "('w, 'n) http \<Rightarrow> google_conf \<Rightarrow> string \<Rightarrow> ('w, string option) call" where
  "get_message_history_id H K i =
     cbind (gmail_get_json H K (''/users/me/messages/'' @ i @ ''?format=minimal&fields=id,historyId''))
       (\<lambda>v. creturn (text_field ''historyId'' v))"

definition msg_query :: "string \<Rightarrow> string" where
  "msg_query fmt =
     (if fmt = ''minimal'' then ''format=minimal&fields=id,internalDate''
      else if fmt = ''labels'' then ''format=minimal&fields=id,labelIds''
      else ''format='' @ fmt)"

definition get_message_full :: "('w, 'n) http \<Rightarrow> google_conf \<Rightarrow> string \<Rightarrow> ('w, 'n jvalue) call" where
  "get_message_full H K i = gmail_get_json H K (''/users/me/messages/'' @ i @ ''?format=full'')"

text \<open>
  \<^verbatim>\<open>parse_batch_bodies\<close>: the scan for the brace that closes an object, aware of strings and escapes.
  It gives the text up to that brace and the rest.
\<close>

definition brace_step :: "nat \<Rightarrow> bool \<Rightarrow> bool \<Rightarrow> uchar \<Rightarrow> (nat \<times> bool \<times> bool) option" where
  "brace_step depth in_str esc c =
     (if in_str then
        (if esc then Some (depth, True, False)
         else if c = 92 then Some (depth, True, True)
         else if c = 34 then Some (depth, False, False)
         else Some (depth, True, False))
      else if c = 34 then Some (depth, True, esc)
      else if c = 123 then Some (depth + 1, False, esc)
      else if c = 125 then (if depth = 1 then None else Some (depth - 1, False, esc))
      else Some (depth, False, esc))"

fun close_brace :: "nat \<Rightarrow> bool \<Rightarrow> bool \<Rightarrow> utext \<Rightarrow> (utext \<times> utext) option" where
  "close_brace depth in_str esc [] = None"
| "close_brace depth in_str esc (c # t) =
     (case brace_step depth in_str esc c of
        None \<Rightarrow> Some ([c], t)
      | Some (d, s, e) \<Rightarrow> map_option (\<lambda>(a, b). (c # a, b)) (close_brace d s e t))"

lemma close_brace_split: "close_brace d s e t = Some (a, b) \<Longrightarrow> t = a @ b \<and> a \<noteq> []"
proof (induction t arbitrary: d s e a b)
  case (Cons c t)
  from Cons.prems show ?case by (auto dest!: Cons.IH split: option.splits)
qed simp

function batch_objects :: "utext \<Rightarrow> utext list" where
  "batch_objects t =
     (case dropWhile (\<lambda>c. c \<noteq> 123) t of
        [] \<Rightarrow> []
      | u \<Rightarrow>
          (case close_brace 0 False False u of
             None \<Rightarrow> []
           | Some (obj, rest) \<Rightarrow> obj # batch_objects rest))"
  by pat_completeness auto
termination batch_objects
proof (relation "measure length", goal_cases)
  case (2 t c u p obj rest)
  then have "c # u = obj @ rest" "obj \<noteq> []" using close_brace_split by fastforce+
  moreover have "length (dropWhile (\<lambda>c. c \<noteq> 123) t) \<le> length t" by (rule length_dropWhile_le)
  ultimately show ?case using 2 by (cases obj) auto
qed simp

declare batch_objects.simps [simp del]

definition parse_batch_bodies :: "(utext \<Rightarrow> (string, 'n jvalue) res) \<Rightarrow> utext \<Rightarrow> 'n jvalue list" where
  "parse_batch_bodies json t =
     List.map_filter
       (\<lambda>obj. case json obj of Inl _ \<Rightarrow> None | Inr v \<Rightarrow> if field ''id'' v \<noteq> None then Some v else None)
       (batch_objects t)"

definition crlf_text :: "string \<Rightarrow> utext" where
  "crlf_text s = chars s @ crlf"

definition batch_boundary :: string where "batch_boundary = ''agentk_gmail_batch_boundary''"

definition batch_body :: "string list \<Rightarrow> string \<Rightarrow> utext" where
  "batch_body ids fmt =
     concat (map (\<lambda>i. crlf_text (''--'' @ batch_boundary)
         @ crlf_text ''Content-Type: application/http'' @ crlf
         @ crlf_text (''GET /gmail/v1/users/me/messages/'' @ i @ ''?'' @ msg_query fmt) @ crlf) ids)
     @ crlf_text (''--'' @ batch_boundary @ ''--'')"

definition batch_chunk ::
  "('w, 'n) http \<Rightarrow> google_conf \<Rightarrow> string \<Rightarrow> string list \<Rightarrow> string \<Rightarrow> ('w, 'n jvalue list) call" where
  "batch_chunk H K origin ids fmt =
     answered
       (gmail_send_inner H K True
         (\<lambda>tok. (plain_request ''POST'' (origin @ ''/batch/gmail/v1'') (batch_body ids fmt))\<lparr>rq_token := tok\<rparr>))
       (\<lambda>r. let t = ht_text H (hr_body r) in
          if is_success (hr_status r) then Ok (parse_batch_bodies (ht_json H) t)
          else Err (GText ''gmail batch'' t))"

text \<open>A chunk that fails gives nothing; its ids stay missing.\<close>

fun batch_pass ::
  "(string list \<Rightarrow> ('w, 'n jvalue list) call) \<Rightarrow> string list list \<Rightarrow> 'w client \<Rightarrow> 'w client \<times> 'n jvalue list" where
  "batch_pass f [] c = (c, [])"
| "batch_pass f (ids # rest) c =
     (case f ids c of (c1, r) \<Rightarrow>
        (case batch_pass f rest c1 of (c2, vs) \<Rightarrow> (c2, (case r of Inl _ \<Rightarrow> [] | Inr v \<Rightarrow> v) @ vs)))"

definition keep_by_id :: "'n jvalue \<Rightarrow> (string \<times> 'n jvalue) list \<Rightarrow> (string \<times> 'n jvalue) list" where
  "keep_by_id v got = (case raw_id v of None \<Rightarrow> got | Some i \<Rightarrow> AList.update i v got)"

fun batch_rounds ::
  "nat \<Rightarrow> (string list \<Rightarrow> ('w, 'n jvalue list) call) \<Rightarrow> string list \<Rightarrow> (string \<times> 'n jvalue) list
    \<Rightarrow> 'w client \<Rightarrow> 'w client \<times> (string \<times> 'n jvalue) list" where
  "batch_rounds 0 f ids got c = (c, got)"
| "batch_rounds (Suc rounds) f ids got c =
     (let missing = filter (\<lambda>i. map_of got i = None) ids in
      if missing = [] then (c, got)
      else (case batch_pass f (chunks_of (length missing) BATCH_CHUNK missing) c of (c1, vs) \<Rightarrow>
              (let got' = fold keep_by_id vs got in
               if length got' = length got then (c1, got') else batch_rounds rounds f ids got' c1)))"

definition get_messages_batch ::
  "('w, 'n) http \<Rightarrow> google_conf \<Rightarrow> string \<Rightarrow> ('n jvalue list \<Rightarrow> 'n jvalue list) \<Rightarrow> string list \<Rightarrow> string
    \<Rightarrow> ('w, 'n jvalue list) call" where
  "get_messages_batch H K origin order ids fmt c =
     (case batch_rounds MAX_BATCH_ROUNDS (\<lambda>chunk. batch_chunk H K origin chunk fmt) ids [] c of
        (c', got) \<Rightarrow> (c', Ok (order (map snd got))))"

definition get_attachment ::
  "('w, 'n) http \<Rightarrow> google_conf \<Rightarrow> (utext \<Rightarrow> bytes) \<Rightarrow> string \<Rightarrow> utext \<Rightarrow> ('w, bytes) call" where
  "get_attachment H K decode i a =
     cbind (gmail_get_json H K (''/users/me/messages/'' @ i @ ''/attachments/'' @ utf8 a))
       (\<lambda>v. creturn (decode (the_default [] (str_field ''data'' v))))"

definition post_request :: "google_conf \<Rightarrow> string \<Rightarrow> utext \<Rightarrow> string \<Rightarrow> request" where
  "post_request K url content tok = (plain_request ''POST'' (gf_base K @ url) content)\<lparr>rq_token := tok\<rparr>"

definition trash :: "('w, 'n) http \<Rightarrow> google_conf \<Rightarrow> string \<Rightarrow> ('w, unit) call" where
  "trash H K i =
     answered (gmail_send_inner H K True (post_request K (''/users/me/messages/'' @ i @ ''/trash'') (chars ''{}'')))
       (\<lambda>r. map_ok (\<lambda>_. ()) (error_for_status r))"

definition send_raw_attempts ::
  "('w, 'n) http \<Rightarrow> google_conf \<Rightarrow> utext \<Rightarrow> 'w client \<Rightarrow> attempts \<times> 'w client \<times> (google_error, http_response) res" where
  "send_raw_attempts H K content = gmail_send_inner H K False (post_request K ''/users/me/messages/send'' content)"

definition send_raw :: "('w, 'n) http \<Rightarrow> google_conf \<Rightarrow> utext \<Rightarrow> ('w, 'n jvalue) call" where
  "send_raw H K content =
     answered (send_raw_attempts H K content)
       (\<lambda>r. let t = ht_text H (hr_body r) in
          if is_success (hr_status r) then Ok (case ht_json H t of Inl _ \<Rightarrow> JNull | Inr v \<Rightarrow> v)
          else Err (GText ''gmail send'' t))"

end
