(* ===== verification/Drive_Resource.thy ===== *)
theory Drive_Resource
  imports Google_Calls
begin

section \<open>Google Drive as a provider\<close>

text \<open>
  \<^verbatim>\<open>GdriveResource\<close> of \<^verbatim>\<open>src/workspace/src/vfs/resource/gdrive.rs\<close>: the listing cache, the resolution
  of a path through its parents' listings, the JSON of documents and the methods of the trait. The
  state is the caches and the world; what the resource asks of its accessor is a record of calls,
  which \<^theory_text>\<open>drive_accessor\<close> fills in with those of \<^theory_text>\<open>Google_Calls\<close>. Instants are milliseconds.
\<close>

datatype drive_error = DriveNotFound string | DriveOther string

record ('w, 'n) drive_api =
  da_now :: "'w \<Rightarrow> nat"
  da_shared_drives :: "'w \<Rightarrow> 'w \<times> (drive_error, 'n jvalue list) res"
  da_shared_with_me :: "'w \<Rightarrow> nat \<Rightarrow> 'w \<times> (drive_error, 'n jvalue list) res"
  da_list_files :: "'w \<Rightarrow> string \<Rightarrow> string option \<Rightarrow> nat \<Rightarrow> 'w \<times> (drive_error, 'n jvalue list) res"
  da_download :: "'w \<Rightarrow> string \<Rightarrow> range option \<Rightarrow> 'w \<times> (drive_error, bytes) res"
  da_document :: "'w \<Rightarrow> string \<Rightarrow> 'w \<times> (drive_error, bytes) res"
  da_presentation :: "'w \<Rightarrow> string \<Rightarrow> 'w \<times> (drive_error, bytes) res"
  da_spreadsheet :: "'w \<Rightarrow> string \<Rightarrow> 'w \<times> (drive_error, bytes) res"
  da_values_batch :: "'w \<Rightarrow> string \<Rightarrow> utext list \<Rightarrow> 'w \<times> (drive_error, 'n jvalue) res"
  da_probe :: "'w \<Rightarrow> string \<Rightarrow> 'w \<times> (drive_error, nat) res"
  da_search :: "'w \<Rightarrow> utext \<Rightarrow> nat \<Rightarrow> 'w \<times> (drive_error, 'n jvalue list) res"

record 'w drive_state =
  ds_world :: 'w
  ds_probed :: "(string \<times> nat) list"
  ds_cache :: "(string \<times> nat \<times> child list) list"

definition DIR_TTL :: nat where "DIR_TTL = 300000"
definition GRID_BYTES_BUDGET :: nat where "GRID_BYTES_BUDGET = 8 * 1024 * 1024"
definition MAX_TABS :: nat where "MAX_TABS = 64"
definition MAX_PROBED_LENGTHS :: nat where "MAX_PROBED_LENGTHS = 50000"
definition MAX_FOLDER_FILES :: nat where "MAX_FOLDER_FILES = 10000"
definition SEARCH_MAX_HITS :: nat where "SEARCH_MAX_HITS = 100"

fun not_found_or_backend :: "drive_error \<Rightarrow> resource_error" where
  "not_found_or_backend (DriveNotFound e) = RNotFound"
| "not_found_or_backend (DriveOther e) = RBackend e"

subsection \<open>Listings\<close>

definition section_child :: "string \<Rightarrow> string \<Rightarrow> gkind \<Rightarrow> string option \<Rightarrow> child" where
  "section_child name i k d =
     \<lparr>ch_name = name, ch_id = i, ch_drive = d, ch_kind = k, ch_mime = None, ch_mtime = None,
      ch_created = None, ch_serves = ServesNothing, ch_size = None\<rparr>"

definition fixed_sections :: "child list" where
  "fixed_sections =
     [section_child MY_DRIVE_NAME MY_DRIVE_ID GFolder None,
      section_child SHARED_WITH_ME_NAME SHARED_WITH_ME_ID GFolder None]"

fun add_shared_drives :: "'n drive_lib \<Rightarrow> child list \<Rightarrow> 'n jvalue list \<Rightarrow> child list option" where
  "add_shared_drives L cs [] = Some cs"
| "add_shared_drives L cs (d # ds) =
     (case (text_field ''id'' d, str_field ''name'' d) of
        (Some i, Some name) \<Rightarrow>
          (case unique_name (utf8 (drive_sanitize_name (dl_uni L) name)) (map ch_name cs) of
             None \<Rightarrow> None
           | Some n \<Rightarrow> add_shared_drives L (cs @ [section_child n i GSharedDrive (Some i)]) ds)
      | _ \<Rightarrow> add_shared_drives L cs ds)"

text \<open>The sections, and whether the shared drives could be listed.\<close>

definition root_sections ::
  "('w, 'n) drive_api \<Rightarrow> 'n drive_lib \<Rightarrow> 'w \<Rightarrow> 'w \<times> child list option \<times> bool" where
  "root_sections A L w =
     (case da_shared_drives A w of
        (w', Inl e) \<Rightarrow> (w', Some fixed_sections, False)
      | (w', Inr ds) \<Rightarrow> (w', add_shared_drives L fixed_sections ds, True))"

definition scoped :: "string option \<Rightarrow> child \<Rightarrow> child" where
  "scoped drive c =
     (case drive of
        None \<Rightarrow> c
      | Some d \<Rightarrow> c\<lparr>ch_drive := (case ch_drive c of Some x \<Rightarrow> Some x | None \<Rightarrow> Some d)\<rparr>)"

text \<open>A folder's rows: what the listing calls answer, made into children.\<close>

definition folder_rows ::
  "('w, 'n) drive_api \<Rightarrow> 'n drive_lib \<Rightarrow> string \<Rightarrow> string option \<Rightarrow> 'w \<Rightarrow> 'w \<times> child list rres" where
  "folder_rows A L i drive w =
     (case (if i = SHARED_WITH_ME_ID then da_shared_with_me A w MAX_FOLDER_FILES
            else da_list_files A w i drive MAX_FOLDER_FILES) of
        (w', Inl e) \<Rightarrow> (w', Err (not_found_or_backend e))
      | (w', Inr files) \<Rightarrow> (w', Ok (map (scoped drive) (List.map_filter (child_from_file L) files))))"

definition fresh :: "('w, 'n) drive_api \<Rightarrow> 'w \<Rightarrow> nat \<Rightarrow> bool" where
  "fresh A w at = (da_now A w - at < DIR_TTL)"

definition remember ::
  "('w, 'n) drive_api \<Rightarrow> string \<Rightarrow> child list \<Rightarrow> 'w drive_state \<Rightarrow> 'w drive_state" where
  "remember A folder cs s =
     s\<lparr>ds_cache := AList.update folder (da_now A (ds_world s), cs)
        (filter (\<lambda>(_, at, _). fresh A (ds_world s) at) (ds_cache s))\<rparr>"

definition find_child :: "(child \<Rightarrow> bool) \<Rightarrow> child list \<Rightarrow> child rres" where
  "find_child P cs = (case filter P cs of [] \<Rightarrow> Err RNotFound | c # _ \<Rightarrow> Ok c)"

text \<open>What follows a listing: make the names distinct, and keep it when it is complete.\<close>

definition finish_listing ::
  "('w, 'n) drive_api \<Rightarrow> string \<Rightarrow> bool \<Rightarrow> child list \<Rightarrow> 'w drive_state \<Rightarrow> child list rres \<times> 'w drive_state" where
  "finish_listing A folder complete cs s =
     (case disambiguate cs of
        None \<Rightarrow> (Err (RBackend ''names''), s)
      | Some cs' \<Rightarrow> (Ok cs', if complete then remember A folder cs' s else s))"

lemma split_last_shorter:
  assumes "folder \<noteq> ''/''"
  shows "fst (split_last folder) = ''/'' \<or> length (fst (split_last folder)) < length folder"
proof (cases "rsplit_once (trim_end_matches folder CHR ''/'') CHR ''/''")
  case (Some ab)
  obtain a b where ab: "ab = (a, b)" by fastforce
  with Some have t: "trim_end_matches folder CHR ''/'' = a @ CHR ''/'' # b" by (simp add: rsplit_once_Some)
  obtain n where "folder = trim_end_matches folder CHR ''/'' @ replicate n CHR ''/''"
    using trim_end_decomp [of folder "CHR ''/''"] by (elim exE)
  then have "length folder = length (trim_end_matches folder CHR ''/'') + n"
    by (metis length_append length_replicate)
  with t have "length a < length folder" by simp
  with Some ab show ?thesis by (simp add: split_last_def Let_def)
qed (simp add: split_last_def Let_def)

text \<open>
  \<^verbatim>\<open>list_dir\<close> with \<^verbatim>\<open>folder_id_of\<close> in it: the id of a folder is found in its parent's listing.
\<close>

function list_dir ::
  "('w, 'n) drive_api \<Rightarrow> 'n drive_lib \<Rightarrow> string \<Rightarrow> 'w drive_state \<Rightarrow> child list rres \<times> 'w drive_state"
  and list_dir_anew ::
  "('w, 'n) drive_api \<Rightarrow> 'n drive_lib \<Rightarrow> string \<Rightarrow> 'w drive_state \<Rightarrow> child list rres \<times> 'w drive_state"
where
  "list_dir A L folder s =
     (case map_of (ds_cache s) folder of
        Some (at, cs) \<Rightarrow>
          (if fresh A (ds_world s) at then (Ok cs, s) else list_dir_anew A L folder s)
      | None \<Rightarrow> list_dir_anew A L folder s)"
| "list_dir_anew A L folder s =
     (if folder = ''/'' then
        (case root_sections A L (ds_world s) of (w, cs, complete) \<Rightarrow>
           (case cs of
              None \<Rightarrow> (Err (RBackend ''names''), s\<lparr>ds_world := w\<rparr>)
            | Some cs \<Rightarrow> finish_listing A folder complete cs (s\<lparr>ds_world := w\<rparr>)))
      else
        (case list_dir A L (fst (split_last folder)) s of
           (Inl e, s1) \<Rightarrow> (Err e, s1)
         | (Inr siblings, s1) \<Rightarrow>
             (case find_child (\<lambda>c. ch_name c = snd (split_last folder) \<and> gkind_is_dir (ch_kind c)) siblings of
                Inl e \<Rightarrow> (Err e, s1)
              | Inr entry \<Rightarrow>
                  (case folder_rows A L (ch_id entry) (ch_drive entry) (ds_world s1) of
                     (w, Inl e) \<Rightarrow> (Err e, s1\<lparr>ds_world := w\<rparr>)
                   | (w, Inr cs) \<Rightarrow> finish_listing A folder True cs (s1\<lparr>ds_world := w\<rparr>)))))"
  by pat_completeness auto
termination
proof (relation "measure (\<lambda>x. case x of
      Inl (A, L, folder, s) \<Rightarrow> 2 * (if folder = ''/'' then 0 else Suc (length folder)) + 1
    | Inr (A, L, folder, s) \<Rightarrow> 2 * (if folder = ''/'' then 0 else Suc (length folder)))", goal_cases)
  case (4 A L folder s)
  then show ?case using split_last_shorter [of folder] by (auto split: if_splits)
qed auto

declare list_dir.simps [simp del] list_dir_anew.simps [simp del]

definition resolve ::
  "('w, 'n) drive_api \<Rightarrow> 'n drive_lib \<Rightarrow> string \<Rightarrow> 'w drive_state \<Rightarrow> child rres \<times> 'w drive_state" where
  "resolve A L path s =
     (case list_dir A L (fst (split_last path)) s of
        (Inl e, s1) \<Rightarrow> (Err e, s1)
      | (Inr cs, s1) \<Rightarrow> (find_child (\<lambda>c. ch_name c = snd (split_last path)) cs, s1))"

subsection \<open>Documents\<close>

definition pretty :: "'n drive_lib \<Rightarrow> 'n jvalue \<Rightarrow> (drive_error, bytes) res" where
  "pretty L v = (case dl_to_vec_pretty L v of None \<Rightarrow> Err (DriveOther ''json'') | Some b \<Rightarrow> Ok (b @ [10]))"

definition served_len :: "'n drive_lib \<Rightarrow> 'n jvalue \<Rightarrow> nat" where
  "served_len L v = (case dl_to_vec_pretty L v of None \<Rightarrow> 0 | Some b \<Rightarrow> length b)"

definition tab_title :: "'n jvalue \<Rightarrow> utext option" where
  "tab_title tab = Option.bind (field ''properties'' tab) (str_field ''title'')"

definition tab_titles :: "'n jvalue \<Rightarrow> utext list" where
  "tab_titles workbook = take MAX_TABS (List.map_filter tab_title (arr_field ''sheets'' workbook))"

definition insert_key :: "string \<Rightarrow> 'n jvalue \<Rightarrow> 'n jvalue \<Rightarrow> 'n jvalue" where
  "insert_key k x v = (case v of JObj fs \<Rightarrow> JObj (AList.update (chars k) x fs) | _ \<Rightarrow> v)"

definition values_by_title :: "'n jvalue \<Rightarrow> utext \<rightharpoonup> 'n jvalue" where
  "values_by_title batch =
     map_of (rev (List.map_filter
       (\<lambda>vr. map_option (\<lambda>r. (range_title r, the_default (JArr []) (field ''values'' vr))) (str_field ''range'' vr))
       (arr_field ''valueRanges'' batch)))"

definition omit :: "string \<Rightarrow> (string \<times> 'n jvalue) list \<Rightarrow> 'n jvalue \<Rightarrow> 'n jvalue" where
  "omit reason extra tab =
     insert_key ''valuesOmitted'' (jobj ((''reason'', JStr (chars reason)) # extra)) tab"

text \<open>One tab, with the budget that is left: the tab with its values or the reason it has none.\<close>

definition fold_tab ::
  "'n drive_lib \<Rightarrow> (utext \<rightharpoonup> 'n jvalue) \<Rightarrow> utext list \<Rightarrow> nat \<Rightarrow> 'n jvalue \<Rightarrow> 'n jvalue \<times> nat" where
  "fold_tab L by_title asked budget tab =
     (case tab_title tab of
        None \<Rightarrow> (omit ''this sheet has no title, so its cells cannot be addressed'' [] tab, budget)
      | Some title \<Rightarrow>
          (if title \<notin> set asked then
             (omit ''past the tab cap, so its values were never requested''
                [(''tabCap'', JNum (dl_num L MAX_TABS))] tab, budget)
           else (case by_title title of
                   None \<Rightarrow> (omit ''the values request returned nothing for this sheet'' [] tab, budget)
                 | Some values \<Rightarrow>
                     (let cost = served_len L values in
                      if budget < cost then
                        (omit ''over the size budget''
                           [(''bytes'', JNum (dl_num L cost)), (''budgetLeft'', JNum (dl_num L budget))] tab, budget)
                      else (insert_key ''values'' values tab, budget - cost)))))"

fun fold_tabs ::
  "'n drive_lib \<Rightarrow> (utext \<rightharpoonup> 'n jvalue) \<Rightarrow> utext list \<Rightarrow> nat \<Rightarrow> 'n jvalue list \<Rightarrow> 'n jvalue list" where
  "fold_tabs L by_title asked budget [] = []"
| "fold_tabs L by_title asked budget (tab # tabs) =
     (case fold_tab L by_title asked budget tab of
        (tab', left) \<Rightarrow> tab' # fold_tabs L by_title asked left tabs)"

definition fold_values :: "'n drive_lib \<Rightarrow> 'n jvalue \<Rightarrow> 'n jvalue \<Rightarrow> utext list \<Rightarrow> 'n jvalue" where
  "fold_values L workbook batch requested =
     (case field ''sheets'' workbook of
        Some (JArr tabs) \<Rightarrow>
          insert_key ''sheets''
            (JArr (fold_tabs L (values_by_title batch) requested GRID_BYTES_BUDGET tabs)) workbook
      | _ \<Rightarrow> workbook)"

definition spreadsheet_bytes ::
  "('w, 'n) drive_api \<Rightarrow> 'n drive_lib \<Rightarrow> string \<Rightarrow> 'w \<Rightarrow> 'w \<times> (drive_error, bytes) res" where
  "spreadsheet_bytes A L i w =
     (case da_spreadsheet A w i of
        (w1, Inl e) \<Rightarrow> (w1, Err e)
      | (w1, Inr raw) \<Rightarrow>
          (case dl_from_slice L raw of
             None \<Rightarrow> (w1, Err (DriveOther ''json''))
           | Some v \<Rightarrow>
               (let titles = tab_titles v in
                if titles = [] then (w1, pretty L v)
                else (case da_values_batch A w1 i titles of
                        (w2, Inl e) \<Rightarrow>
                          (w2, pretty L (insert_key ''valuesUnavailable''
                             (JStr (chars (case e of DriveNotFound t \<Rightarrow> t | DriveOther t \<Rightarrow> t))) v))
                      | (w2, Inr batch) \<Rightarrow> (w2, pretty L (fold_values L v batch titles))))))"

definition probed_len ::
  "('w, 'n) drive_api \<Rightarrow> string \<Rightarrow> 'w drive_state \<Rightarrow> nat option \<times> 'w drive_state" where
  "probed_len A i s =
     (case map_of (ds_probed s) i of
        Some n \<Rightarrow> (Some n, s)
      | None \<Rightarrow>
          (case da_probe A (ds_world s) i of
             (w, Inl e) \<Rightarrow> (None, s\<lparr>ds_world := w\<rparr>)
           | (w, Inr n) \<Rightarrow>
               (Some n, s\<lparr>ds_world := w, ds_probed := AList.update i n
                  (if MAX_PROBED_LENGTHS \<le> length (ds_probed s) then [] else ds_probed s)\<rparr>)))"

subsection \<open>The methods of the trait\<close>

definition with_world ::
  "'w drive_state \<Rightarrow> 'w \<times> (drive_error, bytes) res \<Rightarrow> (bytes \<Rightarrow> bytes) \<Rightarrow> bytes rres \<times> 'w drive_state" where
  "with_world s r f = (map_err not_found_or_backend (map_ok f (snd r)), s\<lparr>ds_world := fst r\<rparr>)"

text \<open>The window of a download: sliced when more came back than was asked for.\<close>

definition windowed :: "range option \<Rightarrow> bytes \<Rightarrow> bytes" where
  "windowed r b =
     (case r of Some (start, stop) \<Rightarrow> if stop - start < length b then slice b r else b | None \<Rightarrow> b)"

definition drive_read_bytes ::
  "('w, 'n) drive_api \<Rightarrow> 'n drive_lib \<Rightarrow> 'w drive_state \<Rightarrow> mount_path \<Rightarrow> range option \<Rightarrow> bytes rres \<times> 'w drive_state" where
  "drive_read_bytes A L s path r =
     (if mp_is_root path then (Err (RBackend ''is a directory: /''), s)
      else (case resolve A L (as_str path) s of
              (Inl e, s1) \<Rightarrow> (Err e, s1)
            | (Inr c, s1) \<Rightarrow>
                (if gkind_is_dir (ch_kind c) then (Err (RBackend (''is a directory: '' @ as_str path)), s1)
                 else (case ch_serves c of
                         ServesOriginal \<Rightarrow> with_world s1 (da_download A (ds_world s1) (ch_id c) r) (windowed r)
                       | ServesNative NSheet \<Rightarrow>
                           with_world s1 (spreadsheet_bytes A L (ch_id c) (ds_world s1)) (\<lambda>b. slice b r)
                       | ServesNative NDoc \<Rightarrow>
                           with_world s1 (da_document A (ds_world s1) (ch_id c)) (\<lambda>b. slice b r)
                       | ServesNative NSlides \<Rightarrow>
                           with_world s1 (da_presentation A (ds_world s1) (ch_id c)) (\<lambda>b. slice b r)
                       | ServesNothing \<Rightarrow> (Err RNotFound, s1)))))"

definition drive_write_bytes :: "'w drive_state \<Rightarrow> mount_path \<Rightarrow> bytes \<Rightarrow> unit rres \<times> 'w drive_state" where
  "drive_write_bytes s path data = (Err RUnsupported, s)"

definition drive_readdir ::
  "('w, 'n) drive_api \<Rightarrow> 'n drive_lib \<Rightarrow> 'w drive_state \<Rightarrow> mount_path \<Rightarrow> dir_entry list rres \<times> 'w drive_state" where
  "drive_readdir A L s path =
     (case list_dir A L (as_str path) s of (r, s1) \<Rightarrow> (map_ok (map dir_entry_for) r, s1))"

definition drive_stat ::
  "('w, 'n) drive_api \<Rightarrow> 'n drive_lib \<Rightarrow> 'w drive_state \<Rightarrow> mount_path \<Rightarrow> file_stat rres \<times> 'w drive_state" where
  "drive_stat A L s path =
     (if mp_is_root path then (Ok (default_stat\<lparr>fs_kind := FileKind_Dir\<rparr>), s)
      else (case resolve A L (as_str path) s of
              (Inl e, s1) \<Rightarrow> (Err e, s1)
            | (Inr c, s1) \<Rightarrow>
                (case (if ch_serves c = ServesOriginal \<and> ch_size c = None then probed_len A (ch_id c) s1
                       else (None, s1)) of
                   (len, s2) \<Rightarrow>
                     (Ok (default_stat\<lparr>fs_kind := child_kind c, fs_size := the_default (entry_size c) len,
                        fs_mtime := ch_mtime c, fs_created := ch_created c, fs_content_type := ch_mime c,
                        fs_size_is_estimate := (len = None \<and> is_estimate c),
                        fs_serves_whole := serves_whole (ch_serves c)\<rparr>), s2))))"

definition opt_json :: "'n jvalue option \<Rightarrow> 'n jvalue" where
  "opt_json v = the_default JNull v"

definition unlisted_note :: string where
  "unlisted_note = ''this type has no readable form, so it is not in the tree: no path to read, open it in Drive by id''"

definition hit_line :: "'n drive_lib \<Rightarrow> 'n jvalue \<Rightarrow> 'n jvalue" where
  "hit_line L f =
     (let c = child_from_file L f;
          text = (\<lambda>k. map_option JStr (str_field k f));
          line = [(''name'', opt_json (case c of Some c \<Rightarrow> Some (JStr (chars (ch_name c))) | None \<Rightarrow> text ''name'')),
                  (''id'', opt_json (case c of Some c \<Rightarrow> Some (JStr (chars (ch_id c))) | None \<Rightarrow> text ''id'')),
                  (''mimeType'', opt_json (field ''mimeType'' f)), (''size'', opt_json (field ''size'' f)),
                  (''modifiedTime'', opt_json (field ''modifiedTime'' f))]
      in jobj (if c = None then line @ [(''unlisted'', JStr (chars unlisted_note))] else line))"

definition drive_command ::
  "('w, 'n) drive_api \<Rightarrow> 'n drive_lib \<Rightarrow> 'w drive_state \<Rightarrow> string \<Rightarrow> bytes \<Rightarrow> bytes rres \<times> 'w drive_state" where
  "drive_command A L s name body =
     (if name \<noteq> ''search'' then (Err RUnsupported, s)
      else (case dl_from_utf8 L body of
              None \<Rightarrow> (Err (RBackend ''search: body not utf-8''), s)
            | Some t \<Rightarrow>
                (let phrase = utrim_with (un_white (dl_uni L)) t in
                 if phrase = [] then (Err (RBackend ''search: empty phrase''), s)
                 else (case da_search A (ds_world s) phrase SEARCH_MAX_HITS of
                         (w, Inl e) \<Rightarrow> (Err (not_found_or_backend e), s\<lparr>ds_world := w\<rparr>)
                       | (w, Inr hits) \<Rightarrow>
                           (map_ok concat
                              (traverse (\<lambda>f. case dl_to_vec L (hit_line L f) of
                                   None \<Rightarrow> Err (RBackend ''json'') | Some b \<Rightarrow> Ok (b @ [10])) hits),
                            s\<lparr>ds_world := w\<rparr>)))))"

definition drive_resource :: "('w, 'n) drive_api \<Rightarrow> 'n drive_lib \<Rightarrow> 'w drive_state resource" where
  "drive_resource A L =
     (resource_defaults (drive_read_bytes A L) drive_write_bytes (drive_readdir A L) (drive_stat A L))
     \<lparr>r_command := drive_command A L, r_reports_content_type := True, r_resolve_size_on_stat := False\<rparr>"

text \<open>The accessor, as the calls of \<^theory_text>\<open>Google_Calls\<close>: a 404 is told apart from the other errors.
  The addresses of the documents' own services and the text of a status are parameters.\<close>

record google_urls =
  gu_docs :: string
  gu_sheets :: string
  gu_slides :: string
  gu_status_text :: "nat \<Rightarrow> string"

fun drive_error_of :: "google_urls \<Rightarrow> google_error \<Rightarrow> drive_error" where
  "drive_error_of U (GStatus n) =
     (if n = 404 then DriveNotFound (gu_status_text U n) else DriveOther (gu_status_text U n))"
| "drive_error_of U (GTransport e) = DriveOther e"
| "drive_error_of U (GText e t) = DriveOther e"

definition seen_as :: "google_urls \<Rightarrow> ('w, 'a) call \<Rightarrow> 'w client \<Rightarrow> 'w client \<times> (drive_error, 'a) res" where
  "seen_as U f c = map_prod id (map_err (drive_error_of U)) (f c)"

definition drive_accessor ::
  "('w, 'n) http \<Rightarrow> google_conf \<Rightarrow> google_urls \<Rightarrow> ('w client, 'n) drive_api" where
  "drive_accessor H K U =
     \<lparr>da_now = (\<lambda>c. ht_now H (cl_world c)),
      da_shared_drives = seen_as U (list_shared_drives H K),
      da_shared_with_me = (\<lambda>c n. seen_as U (list_shared_with_me H K n) c),
      da_list_files = (\<lambda>c i d n. seen_as U (list_files H K i d n) c),
      da_download = (\<lambda>c i r. seen_as U (download H K i r) c),
      da_document = (\<lambda>c i. seen_as U (get_pretty H K (gu_docs U @ ''/documents/'' @ i)) c),
      da_presentation = (\<lambda>c i. seen_as U (get_pretty H K (gu_slides U @ ''/presentations/'' @ i)) c),
      da_spreadsheet = (\<lambda>c i. seen_as U (get_pretty H K (gu_sheets U @ ''/spreadsheets/'' @ i)) c),
      da_values_batch = (\<lambda>c i ts. seen_as U (sheet_values_batch H K (gu_sheets U @ ''/spreadsheets/'' @ i) ts) c),
      da_probe = (\<lambda>c i. seen_as U (probe_len H K i) c),
      da_search = (\<lambda>c p n. seen_as U (search_fulltext H K p n) c)\<rparr>"

end
