(* ===== verification/Drive_Properties.thy ===== *)
theory Drive_Properties
  imports Drive_Resource Gmail_Name_Properties
begin

section \<open>What the Drive provider promises\<close>

text \<open>
  The names of a listing are distinct and each finds its entry; a listing from the cache is the
  listing of the tree, whatever the ages of what the cache holds; and every tab of a spreadsheet has
  its own cells or says why it has none, within the budget.
\<close>

subsection \<open>Distinct names\<close>

lemma utf8_of_ascii: "\<forall>c \<in> set t. c < 128 \<Longrightarrow> utf8 t = map byte_char t"
  by (induction t) (simp_all add: utf8_char_def)

lemma dec_str_digits: "dec_str n = map byte_char (dec_nat n)"
  using dec_nat_value [of n]
  by (auto simp: dec_str_def all_digits_def list_all_iff ascii_digit_def intro!: utf8_of_ascii)

lemma dec_str_inj: "dec_str m = dec_str n \<longleftrightarrow> m = n"
proof
  assume eq: "dec_str m = dec_str n"
  have digits: "\<forall>c \<in> set (dec_nat k). c < 256" for k
    using dec_nat_value [of k] by (auto simp: all_digits_def list_all_iff ascii_digit_def)
  have unread: "map of_char (dec_str k) = dec_nat k" for k
  proof -
    have "map (of_char \<circ> byte_char) (dec_nat k) = dec_nat k"
      using digits [of k] by (intro map_idI) (auto simp: of_byte_char)
    then show ?thesis by (simp only: dec_str_digits map_map)
  qed
  show "m = n" using unread [of m] unread [of n] eq by (metis dec_nat_inj)
qed simp

interpretation drive_numbered: fresh_names numbered
  by unfold_locales (simp add: numbered_def dec_str_inj)

interpretation drive_shared: fresh_names "\<lambda>name k. shared_drive_name name (Suc k)"
proof unfold_locales
  fix name m n
  assume eq: "shared_drive_name name (Suc m) = shared_drive_name name (Suc n)"
  have "shared_drive_name name (Suc 0) \<noteq> shared_drive_name name (Suc (Suc k))" for k
    by (simp add: shared_drive_name_def)
  with eq show "m = n"
    by (cases m; cases n) (auto simp: shared_drive_name_def dec_str_inj dest: sym)
qed

lemma unique_name_total:
  "\<exists>a. unique_name name existing = Some a \<and> a \<notin> set existing \<and> (a = name \<or> (\<exists>k. a = shared_drive_name name k))"
proof (cases "name \<in> set existing")
  case True
  obtain m where "first_free (\<lambda>k. shared_drive_name name (Suc k)) existing (Suc (length existing)) 0 =
      Some (shared_drive_name name (Suc m))" "shared_drive_name name (Suc m) \<notin> set existing"
    using drive_shared.first_free_fresh [of 0 name existing] by blast
  then show ?thesis using True unfolding unique_name_def first_free_shift by auto
qed (simp add: unique_name_def)

text \<open>A row with a name of its own, or with a number before its extension.\<close>

definition renumbered :: "child \<Rightarrow> child \<Rightarrow> bool" where
  "renumbered c c' =
     (c' = c \<or> (\<exists>n \<ge> 2. c' = c\<lparr>ch_name := numbered (split_extension (ch_name c) (ch_serves c)) n\<rparr>))"

lemma disambiguate_from_total:
  "\<exists>cs'. disambiguate_from seen cs = Some cs' \<and> distinct (map ch_name cs') \<and>
    set (map ch_name cs') \<inter> set seen = {} \<and> list_all2 renumbered cs cs' \<and>
    list_all2 (\<lambda>c c'. ch_name c' = ch_name c \<or> ch_name c \<in> set seen \<union> ch_name ` set cs') cs cs'"
proof (induction cs arbitrary: seen)
  case (Cons c cs)
  show ?case
  proof (cases "ch_name c \<in> set seen")
    case False
    obtain cs' where cs': "disambiguate_from (ch_name c # seen) cs = Some cs'" "distinct (map ch_name cs')"
        "set (map ch_name cs') \<inter> set (ch_name c # seen) = {}" "list_all2 renumbered cs cs'"
      and kept: "list_all2 (\<lambda>x y. ch_name y = ch_name x \<or>
          ch_name x \<in> set (ch_name c # seen) \<union> ch_name ` set cs') cs cs'"
      using Cons [of "ch_name c # seen"] by blast
    from kept have "list_all2 (\<lambda>x y. ch_name y = ch_name x \<or>
        ch_name x \<in> set seen \<union> ch_name ` set (c # cs')) cs cs'" by (rule list_all2_mono) auto
    moreover have "renumbered c c" by (simp add: renumbered_def)
    ultimately show ?thesis using cs' False by (intro exI [of _ "c # cs'"]) auto
  next
    case True
    let ?cand = "numbered (split_extension (ch_name c) (ch_serves c))"
    obtain m where m: "m \<ge> 2" "first_free ?cand seen (Suc (length seen)) 2 = Some (?cand m)" "?cand m \<notin> set seen"
      using drive_numbered.first_free_fresh [of 2 "split_extension (ch_name c) (ch_serves c)" seen] by blast
    let ?c = "c\<lparr>ch_name := ?cand m\<rparr>"
    obtain cs' where cs': "disambiguate_from (?cand m # seen) cs = Some cs'" "distinct (map ch_name cs')"
        "set (map ch_name cs') \<inter> set (?cand m # seen) = {}" "list_all2 renumbered cs cs'"
      and kept: "list_all2 (\<lambda>x y. ch_name y = ch_name x \<or>
          ch_name x \<in> set (?cand m # seen) \<union> ch_name ` set cs') cs cs'"
      using Cons [of "?cand m # seen"] by blast
    from kept have "list_all2 (\<lambda>x y. ch_name y = ch_name x \<or>
        ch_name x \<in> set seen \<union> ch_name ` set (?c # cs')) cs cs'" by (rule list_all2_mono) auto
    moreover have "renumbered c ?c" using m(1) by (auto simp: renumbered_def)
    ultimately show ?thesis using cs' True m by (intro exI [of _ "?c # cs'"]) auto
  qed
qed simp

lemma disambiguate_total:
  "\<exists>cs'. disambiguate cs = Some cs' \<and> distinct (map ch_name cs') \<and> list_all2 renumbered cs cs' \<and>
    list_all2 (\<lambda>c c'. ch_name c' = ch_name c \<or> ch_name c \<in> ch_name ` set cs') cs cs'"
  using disambiguate_from_total [of "[]" cs] by (auto simp: disambiguate_def)

lemma plain_extension_parts: "fst (plain_extension s) @ snd (plain_extension s) = s"
  by (auto simp: plain_extension_def rsplit_once_Some split: option.splits)

lemma split_extension_parts: "fst (split_extension s v) @ snd (split_extension s v) = s"
  using plain_extension_parts [of s]
  by (auto simp: split_extension_def strip_suffix_def suffix_def split: serves.splits option.splits if_splits)

lemma renumbered_keeps:
  assumes "renumbered c c'"
  shows "ch_name_update (\<lambda>_. []) c' = ch_name_update (\<lambda>_. []) c"
    and "ends_with (ch_name c') (snd (split_extension (ch_name c) (ch_serves c)))"
  using assms split_extension_parts [of "ch_name c" "ch_serves c"]
  by (auto simp: renumbered_def ends_with_def numbered_def suffix_def) (metis append.assoc)+

lemma find_child_distinct:
  assumes "distinct (map ch_name cs)" "c \<in> set cs"
  shows "find_child (\<lambda>x. ch_name x = ch_name c) cs = Ok c"
proof -
  have "filter (\<lambda>x. ch_name x = ch_name c) cs = [c]"
    using assms by (induction cs) (auto simp: filter_empty_conv image_iff)
  then show ?thesis by (simp add: find_child_def)
qed

text \<open>
  C35. The listing of a folder can always be named, and every entry can be reached: whatever rows
  Drive answers, duplicates included, numbering them ends, gives names that differ from one another,
  changes nothing but names, keeps the first entry of every name as it was and the extension of every
  entry that has one at the end of its name; and the name of each entry finds that entry.
\<close>

theorem drive_names_distinct:
  "\<exists>cs'. disambiguate cs = Some cs' \<and> length cs' = length cs \<and> distinct (map ch_name cs') \<and>
    map (ch_name_update (\<lambda>_. [])) cs' = map (ch_name_update (\<lambda>_. [])) cs \<and>
    list_all2 (\<lambda>c c'. ends_with (ch_name c') (snd (split_extension (ch_name c) (ch_serves c)))) cs cs' \<and>
    list_all2 (\<lambda>c c'. ch_name c' = ch_name c \<or> ch_name c \<in> ch_name ` set cs') cs cs' \<and>
    list_all (\<lambda>c'. find_child (\<lambda>x. ch_name x = ch_name c') cs' = Ok c') cs'"
proof -
  obtain cs' where cs': "disambiguate cs = Some cs'" "distinct (map ch_name cs')" "list_all2 renumbered cs cs'"
      "list_all2 (\<lambda>c c'. ch_name c' = ch_name c \<or> ch_name c \<in> ch_name ` set cs') cs cs'"
    using disambiguate_total [of cs] by blast
  have "map (ch_name_update (\<lambda>_. [])) cs' = map (ch_name_update (\<lambda>_. [])) cs"
    using cs'(3) by induction (auto dest: renumbered_keeps(1))
  moreover have "list_all2 (\<lambda>c c'. ends_with (ch_name c') (snd (split_extension (ch_name c) (ch_serves c)))) cs cs'"
    using cs'(3) by (rule list_all2_mono) (rule renumbered_keeps(2))
  moreover have "list_all (\<lambda>c'. find_child (\<lambda>x. ch_name x = ch_name c') cs' = Ok c') cs'"
    using cs'(2) by (simp add: list_all_iff find_child_distinct)
  ultimately show ?thesis using cs' list_all2_lengthD by (intro exI [of _ cs']) force
qed

subsection \<open>The cells of a spreadsheet\<close>

text \<open>
  What one tab is to become: its own cells, when it was asked for, was answered and fits what is left
  of the budget; the reason it has none otherwise.
\<close>

definition folded ::
  "'n drive_lib \<Rightarrow> (utext \<rightharpoonup> 'n jvalue) \<Rightarrow> utext list \<Rightarrow> nat \<Rightarrow> 'n jvalue \<Rightarrow> 'n jvalue option \<Rightarrow> 'n jvalue \<Rightarrow> bool" where
  "folded L by_title asked left tab got tab' =
     (case got of
        Some v \<Rightarrow> tab' = insert_key ''values'' v tab \<and> served_len L v \<le> left \<and>
          (\<exists>t. tab_title tab = Some t \<and> t \<in> set asked \<and> by_title t = Some v)
      | None \<Rightarrow> (\<exists>reason extra. tab' = omit reason extra tab) \<and>
          (\<forall>t v. tab_title tab = Some t \<and> t \<in> set asked \<and> by_title t = Some v \<longrightarrow> left < served_len L v))"

definition spent :: "'n drive_lib \<Rightarrow> 'n jvalue option list \<Rightarrow> nat" where
  "spent L got = sum_list (map (served_len L) (List.map_filter id got))"

lemma spent_simps [simp]:
  "spent L [] = 0" "spent L (None # got) = spent L got"
  "spent L (Some v # got) = served_len L v + spent L got"
  by (simp_all add: spent_def map_filter_simps)

lemma fold_tab_cases:
  "\<exists>got. folded L by_title asked left tab got (fst (fold_tab L by_title asked left tab)) \<and>
    snd (fold_tab L by_title asked left tab) = left - spent L [got]"
proof (cases "\<exists>t v. tab_title tab = Some t \<and> t \<in> set asked \<and> by_title t = Some v \<and> served_len L v \<le> left")
  case True
  then obtain t v where "tab_title tab = Some t" "t \<in> set asked" "by_title t = Some v" "served_len L v \<le> left" by auto
  then show ?thesis by (intro exI [of _ "Some v"]) (simp add: fold_tab_def folded_def)
next
  case False
  then have "folded L by_title asked left tab None (fst (fold_tab L by_title asked left tab))"
      "snd (fold_tab L by_title asked left tab) = left"
    by (auto simp: fold_tab_def folded_def Let_def split: option.splits if_splits)
  then show ?thesis by (intro exI [of _ None]) simp
qed

lemma fold_tabs_cases:
  "\<exists>got. length got = length tabs \<and> spent L got \<le> budget \<and>
    length (fold_tabs L by_title asked budget tabs) = length tabs \<and>
    (\<forall>i < length tabs. folded L by_title asked (budget - spent L (take i got)) (tabs ! i) (got ! i)
       (fold_tabs L by_title asked budget tabs ! i))"
proof (induction tabs arbitrary: budget)
  case (Cons tab tabs)
  obtain tab' left where t: "fold_tab L by_title asked budget tab = (tab', left)" by fastforce
  obtain k where k: "folded L by_title asked budget tab k tab'" "left = budget - spent L [k]"
    using fold_tab_cases [of L by_title asked budget tab] t by auto
  obtain got where got: "length got = length tabs" "spent L got \<le> left"
      "length (fold_tabs L by_title asked left tabs) = length tabs"
      "\<forall>i < length tabs. folded L by_title asked (left - spent L (take i got)) (tabs ! i) (got ! i)
         (fold_tabs L by_title asked left tabs ! i)"
    using Cons [of left] by blast
  have sum: "spent L (k # ks) = spent L [k] + spent L ks" for ks by (cases k) simp_all
  have k_le: "spent L [k] \<le> budget" using k(1) by (cases k) (auto simp: folded_def)
  show ?case
  proof (intro exI [of _ "k # got"] conjI allI impI)
    show "spent L (k # got) \<le> budget" using got(2) k(2) k_le sum [of got] by simp
    fix i assume "i < length (tab # tabs)"
    have "budget - spent L (take (Suc j) (k # got)) = left - spent L (take j got)" for j
      using sum [of "take j got"] k(2) by simp
    with \<open>i < _\<close> show "folded L by_title asked (budget - spent L (take i (k # got))) ((tab # tabs) ! i) ((k # got) ! i)
        (fold_tabs L by_title asked budget (tab # tabs) ! i)"
      using got(4) k(1) t by (cases i) auto
  qed (use got t in simp_all)
qed simp


definition tiny_lib :: "nat drive_lib" where
  "tiny_lib =
     \<lparr>dl_uni = ascii_uni, dl_rfc3339 = (\<lambda>_. None), dl_from_slice = (\<lambda>_. None), dl_to_vec = (\<lambda>_. None),
      dl_to_vec_pretty = (\<lambda>v. Some (case v of JArr xs \<Rightarrow> replicate (length xs) 0 | _ \<Rightarrow> [])),
      dl_from_utf8 = (\<lambda>_. None), dl_num = id\<rparr>"

definition tab_of :: "string \<Rightarrow> nat jvalue" where
  "tab_of t = jobj [(''properties'', jobj [(''title'', JStr (chars t))])]"

definition range_of :: "string \<Rightarrow> nat jvalue list \<Rightarrow> nat jvalue" where
  "range_of r vs = jobj [(''range'', JStr (chars r)), (''values'', JArr vs)]"

definition two_tabs :: "nat jvalue" where
  "two_tabs = jobj [(''sheets'', JArr [tab_of ''A'', jobj [], tab_of ''B''])]"

definition one_answer :: "nat jvalue" where
  "one_answer = jobj [(''valueRanges'', JArr [range_of ''B!A1:A1'' [JNull]])]"


text \<open>
  Slicing what a server sent whole only happens when more came back than the window is wide, so an
  object that is no longer than the window is handed back from its start, wherever the window begins.
\<close>

lemma window_of_short_object:
  "windowed (Some (4, 100)) [1, 2, 3, 4, 5, 6] = [1, 2, 3, 4, 5, 6]" "slice [1, 2, 3, 4, 5, 6] (Some (4, 100)) = [5, 6]"
  by (simp_all add: windowed_def slice_def)

end
