(* ===== verification/Drive_Tree.thy ===== *)
theory Drive_Tree
  imports Drive_Properties
begin

section \<open>Google Drive as a tree\<close>

text \<open>
  What the mount of a Drive that does not change should show, said without a cache, a clock or path
  strings: the listing of a folder given by its names, innermost first. The provider's \<^verbatim>\<open>list_dir\<close>
  implements it from every state whose cache holds nothing but such listings.
\<close>

record 'n drive_answers =
  an_shared_drives :: "(drive_error, 'n jvalue list) res"
  an_shared_with_me :: "(drive_error, 'n jvalue list) res"
  an_files :: "string \<Rightarrow> string option \<Rightarrow> (drive_error, 'n jvalue list) res"

definition steady :: "('w, 'n) drive_api \<Rightarrow> 'n drive_answers \<Rightarrow> bool" where
  "steady A D = (\<forall>w. snd (da_shared_drives A w) = an_shared_drives D \<and>
     snd (da_shared_with_me A w MAX_FOLDER_FILES) = an_shared_with_me D \<and>
     (\<forall>i d. snd (da_list_files A w i d MAX_FOLDER_FILES) = an_files D i d))"

definition named :: "child list \<Rightarrow> child list rres" where
  "named cs = (case disambiguate cs of None \<Rightarrow> Err (RBackend ''names'') | Some cs' \<Rightarrow> Ok cs')"

definition tree_root :: "'n drive_lib \<Rightarrow> 'n drive_answers \<Rightarrow> child list rres" where
  "tree_root L D =
     (case an_shared_drives D of
        Inl e \<Rightarrow> named fixed_sections
      | Inr ds \<Rightarrow> (case add_shared_drives L fixed_sections ds of
                    None \<Rightarrow> Err (RBackend ''names'') | Some cs \<Rightarrow> named cs))"

definition tree_rows :: "'n drive_lib \<Rightarrow> 'n drive_answers \<Rightarrow> child \<Rightarrow> child list rres" where
  "tree_rows L D e =
     (case (if ch_id e = SHARED_WITH_ME_ID then an_shared_with_me D else an_files D (ch_id e) (ch_drive e)) of
        Inl err \<Rightarrow> Err (not_found_or_backend err)
      | Inr files \<Rightarrow> named (map (scoped (ch_drive e)) (List.map_filter (child_from_file L) files)))"

fun tree_listing :: "'n drive_lib \<Rightarrow> 'n drive_answers \<Rightarrow> string list \<Rightarrow> child list rres" where
  "tree_listing L D [] = tree_root L D"
| "tree_listing L D (seg # up) =
     and_then (tree_listing L D up) (\<lambda>siblings.
       and_then (find_child (\<lambda>c. ch_name c = seg \<and> gkind_is_dir (ch_kind c)) siblings) (tree_rows L D))"

fun drive_path :: "string list \<Rightarrow> string" where
  "drive_path [] = ''/''"
| "drive_path (seg # up) = child_key (drive_path up) seg"

lemma drive_path_ok: "list_all name_ok segs \<Longrightarrow> path_ok (drive_path segs)"
proof (induction segs)
  case (Cons seg segs)
  then show ?case using child_key_ok [of "drive_path segs" seg] by simp
qed (simp add: path_ok_def)

lemma drive_path_nonempty: "drive_path segs \<noteq> []"
  by (cases segs) (auto simp: child_key_def)

lemma drive_path_root: "list_all name_ok segs \<Longrightarrow> drive_path segs = ''/'' \<longleftrightarrow> segs = []"
  by (cases segs) (auto simp: child_key_not_root)

lemma drive_path_inj:
  "list_all name_ok xs \<Longrightarrow> list_all name_ok ys \<Longrightarrow> drive_path xs = drive_path ys \<longleftrightarrow> xs = ys"
proof (induction xs arbitrary: ys)
  case Nil
  then show ?case using drive_path_root [of ys] by auto
next
  case (Cons x xs)
  then show ?case
    by (cases ys) (auto simp: child_key_inject drive_path_nonempty child_key_not_root)
qed

lemma split_last_child_key:
  assumes "path_ok d" "name_ok n"
  shows "split_last (child_key d n) = (d, n)"
proof -
  have "last (child_key d n) \<noteq> CHR ''/''"
    using name_ok_last [OF assms(2)] assms(2) by (auto simp: child_key_def name_ok_def)
  then have "trim_end_matches (child_key d n) CHR ''/'' = child_key d n" by (intro trim_end_id) simp
  then show ?thesis using rsplit_child_key [OF assms(2), of d] path_ok_nonempty [OF assms(1)]
    by (auto simp: split_last_def)
qed

text \<open>A cache that holds nothing but listings of the tree, of whatever age.\<close>

definition truthful :: "'n drive_lib \<Rightarrow> 'n drive_answers \<Rightarrow> 'w drive_state \<Rightarrow> bool" where
  "truthful L D s = (\<forall>folder at cs. (folder, at, cs) \<in> set (ds_cache s) \<longrightarrow>
     (\<exists>segs. list_all name_ok segs \<and> folder = drive_path segs \<and> tree_listing L D segs = Ok cs))"

lemma truthful_world [simp]: "truthful L D (s\<lparr>ds_world := w\<rparr>) = truthful L D s"
  by (simp add: truthful_def)

lemma truthful_probed [simp]: "truthful L D (s\<lparr>ds_world := w, ds_probed := p\<rparr>) = truthful L D s"
  by (simp add: truthful_def)

lemma update_subset: "x \<in> set (AList.update k v al) \<Longrightarrow> x = (k, v) \<or> x \<in> set al"
  by (induction al) (auto split: if_splits)

lemma truthful_remember:
  assumes "truthful L D s" "list_all name_ok segs" "tree_listing L D segs = Ok cs"
  shows "truthful L D (remember A (drive_path segs) cs s)"
  unfolding truthful_def remember_def using assms
  by (auto simp: truthful_def dest!: update_subset)

lemma truthful_finish:
  assumes "truthful L D s" "list_all name_ok segs" "tree_listing L D segs = named cs"
  shows "fst (finish_listing A (drive_path segs) complete cs s) = tree_listing L D segs \<and>
    truthful L D (snd (finish_listing A (drive_path segs) complete cs s))"
proof (cases "disambiguate cs")
  case (Some cs')
  with assms(3) have "tree_listing L D segs = Ok cs'" by (simp add: named_def)
  with Some assms truthful_remember [of L D s segs cs' A] show ?thesis by (simp add: finish_listing_def)
qed (use assms in \<open>simp add: finish_listing_def named_def\<close>)

lemma list_dir_cached:
  assumes "truthful L D s" "list_all name_ok segs"
    and "fst (list_dir_anew A L (drive_path segs) s) = tree_listing L D segs \<and>
      truthful L D (snd (list_dir_anew A L (drive_path segs) s))"
  shows "fst (list_dir A L (drive_path segs) s) = tree_listing L D segs \<and>
    truthful L D (snd (list_dir A L (drive_path segs) s))"
proof (cases "map_of (ds_cache s) (drive_path segs)")
  case None
  with assms(3) show ?thesis by (simp add: list_dir.simps)
next
  case (Some e)
  obtain at cs where e: "e = (at, cs)" by fastforce
  from Some e have "(drive_path segs, at, cs) \<in> set (ds_cache s)" by (auto dest: map_of_SomeD)
  with assms(1) obtain segs' where "list_all name_ok segs'" "drive_path segs = drive_path segs'"
      "tree_listing L D segs' = Ok cs" unfolding truthful_def by blast
  then have "tree_listing L D segs = Ok cs" using drive_path_inj assms(2) by metis
  with Some e assms show ?thesis by (simp add: list_dir.simps)
qed

lemma list_dir_tree:
  assumes A: "steady A D"
  shows "truthful L D s \<Longrightarrow> list_all name_ok segs \<Longrightarrow>
    fst (list_dir A L (drive_path segs) s) = tree_listing L D segs \<and>
    truthful L D (snd (list_dir A L (drive_path segs) s))"
proof (induction segs arbitrary: s)
  case Nil
  show ?case
  proof (rule list_dir_cached [OF Nil])
    obtain w a where w: "da_shared_drives A (ds_world s) = (w, a)" by fastforce
    with A have a: "a = an_shared_drives D" unfolding steady_def by (metis snd_conv)
    show "fst (list_dir_anew A L (drive_path []) s) = tree_listing L D [] \<and>
        truthful L D (snd (list_dir_anew A L (drive_path []) s))"
    proof (cases a)
      case (Inl e)
      then have "tree_listing L D [] = named fixed_sections" by (simp add: tree_root_def a [symmetric])
      with truthful_finish [of L D "s\<lparr>ds_world := w\<rparr>" "[]" fixed_sections A False] Nil w Inl
      show ?thesis by (simp add: list_dir_anew.simps root_sections_def)
    next
      case (Inr ds)
      show ?thesis
      proof (cases "add_shared_drives L fixed_sections ds")
        case None
        with Inr w Nil show ?thesis
          by (simp add: list_dir_anew.simps root_sections_def tree_root_def a [symmetric])
      next
        case (Some cs)
        with Inr have "tree_listing L D [] = named cs" by (simp add: tree_root_def a [symmetric])
        with truthful_finish [of L D "s\<lparr>ds_world := w\<rparr>" "[]" cs A True] Nil w Inr Some
        show ?thesis by (simp add: list_dir_anew.simps root_sections_def)
      qed
    qed
  qed
next
  case (Cons seg up)
  let ?path = "drive_path (seg # up)"
  have ok: "name_ok seg" "list_all name_ok up" using Cons.prems by auto
  have path: "?path \<noteq> ''/''" "split_last ?path = (drive_path up, seg)"
    using ok split_last_child_key [OF drive_path_ok] by (auto simp: child_key_not_root)
  obtain r s1 where up: "list_dir A L (drive_path up) s = (r, s1)" by fastforce
  with Cons.IH [OF Cons.prems(1) ok(2)] have r: "r = tree_listing L D up" and s1: "truthful L D s1" by auto
  show ?case
  proof (rule list_dir_cached [OF Cons.prems])
    show "fst (list_dir_anew A L ?path s) = tree_listing L D (seg # up) \<and>
        truthful L D (snd (list_dir_anew A L ?path s))"
    proof (cases r)
      case (Inl e)
      then have "tree_listing L D up = Err e" using r by simp
      with Inl s1 up path show ?thesis by (subst (1 2) list_dir_anew.simps) simp
    next
      case (Inr sib)
      show ?thesis
      proof (cases "find_child (\<lambda>c. ch_name c = seg \<and> gkind_is_dir (ch_kind c)) sib")
        case (Inl e)
        then have "tree_listing L D (seg # up) = Err e" using Inr by (simp flip: r)
        with Inl Inr s1 up path show ?thesis by (subst (1 2) list_dir_anew.simps) simp
      next
        case (Inr entry)
        note found = \<open>r = Inr sib\<close> Inr
        then have t: "tree_listing L D (seg # up) = tree_rows L D entry" by (simp flip: r)
        let ?a = "if ch_id entry = SHARED_WITH_ME_ID then da_shared_with_me A (ds_world s1) MAX_FOLDER_FILES
           else da_list_files A (ds_world s1) (ch_id entry) (ch_drive entry) MAX_FOLDER_FILES"
        obtain w a where w: "?a = (w, a)" by fastforce
        then have a: "a = (if ch_id entry = SHARED_WITH_ME_ID then an_shared_with_me D
            else an_files D (ch_id entry) (ch_drive entry))"
          using A unfolding steady_def by (metis snd_conv)
        have t: "tree_listing L D (seg # up) = (case a of Inl err \<Rightarrow> Err (not_found_or_backend err)
            | Inr files \<Rightarrow> named (map (scoped (ch_drive entry)) (List.map_filter (child_from_file L) files)))"
          unfolding t a tree_rows_def ..
        show ?thesis
        proof (cases a)
          case (Inl e)
          then have "folder_rows A L (ch_id entry) (ch_drive entry) (ds_world s1) = (w, Err (not_found_or_backend e))"
            using w by (simp add: folder_rows_def)
          moreover have "tree_listing L D (seg # up) = Err (not_found_or_backend e)"
            unfolding t Inl by simp
          ultimately show ?thesis using found up path s1
            by (subst (1 2) list_dir_anew.simps) simp
        next
          case (Inr files)
          let ?rows = "map (scoped (ch_drive entry)) (List.map_filter (child_from_file L) files)"
          have rows: "folder_rows A L (ch_id entry) (ch_drive entry) (ds_world s1) = (w, Ok ?rows)"
            using w Inr by (simp add: folder_rows_def)
          have "tree_listing L D (seg # up) = named ?rows" unfolding t Inr by simp
          then have "fst (finish_listing A ?path True ?rows (s1\<lparr>ds_world := w\<rparr>)) = tree_listing L D (seg # up) \<and>
              truthful L D (snd (finish_listing A ?path True ?rows (s1\<lparr>ds_world := w\<rparr>)))"
            using s1 Cons.prems(2) by (intro truthful_finish) auto
          then show ?thesis using found up path rows by (subst (1 2) list_dir_anew.simps) simp
        qed
      qed
    qed
  qed
qed

lemma resolve_tree:
  assumes "steady A D" "truthful L D s" "list_all name_ok segs" "name_ok n"
  shows "fst (resolve A L (child_key (drive_path segs) n) s) =
      and_then (tree_listing L D segs) (find_child (\<lambda>c. ch_name c = n)) \<and>
    truthful L D (snd (resolve A L (child_key (drive_path segs) n) s))"
proof -
  have "split_last (child_key (drive_path segs) n) = (drive_path segs, n)"
    using split_last_child_key drive_path_ok assms by blast
  moreover obtain s1 where "list_dir A L (drive_path segs) s = (tree_listing L D segs, s1)" "truthful L D s1"
    using list_dir_tree [OF assms(1-3)] by (metis surjective_pairing)
  ultimately show ?thesis by (cases "tree_listing L D segs") (simp_all add: resolve_def)
qed

lemma truthful_probed_len: "truthful L D (snd (probed_len A i s)) = truthful L D s"
  by (auto simp: probed_len_def truthful_def split: option.splits prod.splits sum.splits)

lemma stat_state:
  assumes "resolve A L (as_str p) s = (r, s1)" "truthful L D s" "truthful L D s1"
  shows "truthful L D (snd (drive_stat A L s p))"
  using assms truthful_probed_len [of L D A _ s1]
  by (auto simp: drive_stat_def split: prod.splits sum.splits if_splits) (metis snd_conv)+

lemma read_state:
  assumes "resolve A L (as_str p) s = (r, s1)" "truthful L D s" "truthful L D s1"
  shows "truthful L D (snd (drive_read_bytes A L s p rg))"
  using assms
  by (auto simp: drive_read_bytes_def with_world_def split: sum.splits if_splits serves.splits native_api.splits)

text \<open>
  C36. The cache of listings is transparent. While Drive answers the same, the listing of a folder is
  the listing of that folder in the tree, failures included, from every state whose cache holds
  listings of the tree, and looking a name up finds the row of the tree; and a listing, a stat and a
  read all leave such a state. So neither the age of a listing, nor which parents happen to be
  cached, nor the order of the calls changes what the mount shows.
\<close>

theorem drive_cache_transparent:
  assumes steady: "steady A D" and state: "truthful L D s"
    and names: "list_all name_ok segs" "name_ok n" and path: "as_str p = drive_path segs"
  shows "fst (drive_readdir A L s p) = map_ok (map dir_entry_for) (tree_listing L D segs) \<and>
    fst (resolve A L (as_str (mp_child p n)) s) =
      and_then (tree_listing L D segs) (find_child (\<lambda>c. ch_name c = n)) \<and>
    truthful L D (snd (drive_readdir A L s p)) \<and>
    truthful L D (snd (drive_stat A L s (mp_child p n))) \<and>
    truthful L D (snd (drive_read_bytes A L s (mp_child p n) r))"
proof -
  have child: "as_str (mp_child p n) = child_key (drive_path segs) n"
    using child_as_str [of p n] names path drive_path_ok by simp
  note found = resolve_tree [OF steady state names]
  obtain x s1 where r: "resolve A L (as_str (mp_child p n)) s = (x, s1)" by fastforce
  with found child have "truthful L D s1" by simp
  with stat_state [OF r state] read_state [OF r state] list_dir_tree [OF steady state names(1)] found child
  show ?thesis by (auto simp: drive_readdir_def path split: prod.splits)
qed

text \<open>A Drive with two files of one name, asked through calls that do not change the world.\<close>

definition drive_row :: "string \<Rightarrow> string \<Rightarrow> nat jvalue" where
  "drive_row name i =
     jobj [(''name'', JStr (chars name)), (''id'', JStr (chars i)), (''mimeType'', JStr (chars ''text/plain''))]"

definition still_answers :: "nat drive_answers" where
  "still_answers =
     \<lparr>an_shared_drives = Ok [], an_shared_with_me = Ok [],
      an_files = (\<lambda>i d. Ok (if i = MY_DRIVE_ID then [drive_row ''a.txt'' ''1'', drive_row ''a.txt'' ''2''] else []))\<rparr>"

definition still_api :: "nat \<Rightarrow> (unit, nat) drive_api" where
  "still_api now =
     \<lparr>da_now = (\<lambda>_. now), da_shared_drives = (\<lambda>w. (w, an_shared_drives still_answers)),
      da_shared_with_me = (\<lambda>w n. (w, an_shared_with_me still_answers)),
      da_list_files = (\<lambda>w i d n. (w, an_files still_answers i d)),
      da_download = (\<lambda>w i r. (w, Ok [1, 2])), da_document = (\<lambda>w i. (w, Ok [])),
      da_presentation = (\<lambda>w i. (w, Ok [])), da_spreadsheet = (\<lambda>w i. (w, Ok [])),
      da_values_batch = (\<lambda>w i ts. (w, Ok JNull)), da_probe = (\<lambda>w i. (w, Ok 2)),
      da_search = (\<lambda>w t n. (w, Ok []))\<rparr>"

definition plain_lib :: "nat drive_lib" where
  "plain_lib =
     \<lparr>dl_uni = ascii_uni, dl_rfc3339 = (\<lambda>_. None), dl_from_slice = (\<lambda>_. None), dl_to_vec = (\<lambda>_. None),
      dl_to_vec_pretty = (\<lambda>_. None), dl_from_utf8 = (\<lambda>_. None), dl_num = id\<rparr>"

definition cold_drive :: "unit drive_state" where
  "cold_drive = \<lparr>ds_world = (), ds_probed = [], ds_cache = []\<rparr>"

lemma still_steady: "steady (still_api now) still_answers"
  by (simp add: steady_def still_api_def)

lemma cold_truthful: "truthful L D cold_drive"
  by (simp add: truthful_def cold_drive_def)

lemma still_tree:
  "map_ok (map (\<lambda>c. (ch_name c, ch_id c))) (tree_listing plain_lib still_answers [''My Drive'']) =
    Ok [(''a.txt'', ''1''), (''a (2).txt'', ''2'')]"
  by code_simp

lemma dir_entry_name [simp]: "de_name (dir_entry_for c) = ch_name c"
  by (simp add: dir_entry_for_def)

theorem drive_cache_transparent_witness:
  "map_ok (map de_name) (fst (drive_readdir (still_api 7) plain_lib cold_drive (MountPath ''/My Drive''))) =
    Ok [''a.txt'', ''a (2).txt'']"
proof -
  have "fst (drive_readdir (still_api 7) plain_lib cold_drive (MountPath ''/My Drive'')) =
      map_ok (map dir_entry_for) (tree_listing plain_lib still_answers [''My Drive''])"
    using drive_cache_transparent [OF still_steady cold_truthful, of "[''My Drive'']" "''a.txt''"]
    by (simp add: name_ok_def child_key_def)
  then show ?thesis using still_tree
    by (cases "tree_listing plain_lib still_answers [''My Drive'']") (auto simp: comp_def map_eq_Cons_conv)
qed

subsection \<open>Every entry is found\<close>

definition scalar_row :: "'n jvalue \<Rightarrow> bool" where
  "scalar_row f = (\<forall>name. str_field ''name'' f = Some name \<longrightarrow> (\<forall>c \<in> set name. c < 1114112))"

definition scalar_answers :: "'n drive_answers \<Rightarrow> bool" where
  "scalar_answers D =
     ((\<forall>ds. an_shared_drives D = Ok ds \<longrightarrow> list_all scalar_row ds) \<and>
      (\<forall>fs. an_shared_with_me D = Ok fs \<longrightarrow> list_all scalar_row fs) \<and>
      (\<forall>i d fs. an_files D i d = Ok fs \<longrightarrow> list_all scalar_row fs))"

lemma utf8_name_ok:
  assumes "t \<noteq> []" "uslash \<notin> set t" "\<forall>c \<in> set t. c < 1114112"
  shows "name_ok (utf8 t)"
proof -
  have "CHR ''/'' \<notin> set (utf8 t)"
  proof
    assume "CHR ''/'' \<in> set (utf8 t)"
    moreover have "\<forall>c \<in> set t. c < 2097152" using assms(3) by fastforce
    ultimately have "of_char (CHR ''/'') \<in> set t" by (intro utf8_ascii) auto
    with assms(2) show False by (simp add: uslash_def)
  qed
  moreover have "utf8 t \<noteq> []" using assms(1) by (cases t) (auto simp: utf8_char_def)
  ultimately show ?thesis by (simp add: name_ok_def)
qed

lemma drive_sanitize_name_ok:
  assumes "\<forall>c \<in> set name. c < 1114112"
  shows "name_ok (utf8 (drive_sanitize_name U name))"
proof (rule utf8_name_ok)
  show "drive_sanitize_name U name \<noteq> []" by (auto simp: drive_sanitize_name_def Let_def chars_def)
  show "uslash \<notin> set (drive_sanitize_name U name)"
    by (auto simp: drive_sanitize_name_def Let_def chars_def uslash_def underscore_def split: if_splits)
  show "\<forall>c \<in> set (drive_sanitize_name U name). c < 1114112"
    using assms utrim_with_subset [of "un_white U" name]
    by (auto simp: drive_sanitize_name_def Let_def chars_def underscore_def split: if_splits)
qed

lemma dec_str_no_slash: "CHR ''/'' \<notin> set (dec_str n)"
proof
  assume "CHR ''/'' \<in> set (dec_str n)"
  then obtain c where c: "c \<in> set (dec_nat n)" "byte_char c = CHR ''/''" by (force simp: dec_str_digits)
  then have "c \<in> {48..57}" using dec_nat_value [of n] by (auto simp: all_digits_def list_all_iff ascii_digit_def)
  then have "of_char (byte_char c) = c" by (simp add: of_byte_char)
  with c \<open>c \<in> {48..57}\<close> show False by simp
qed

lemma renumbered_name_ok:
  assumes "renumbered c c'" "name_ok (ch_name c)"
  shows "name_ok (ch_name c')"
proof -
  have "set (fst (split_extension (ch_name c) (ch_serves c))) \<union> set (snd (split_extension (ch_name c) (ch_serves c)))
      = set (ch_name c)"
    using split_extension_parts [of "ch_name c" "ch_serves c"] by (metis set_append)
  then show ?thesis using assms dec_str_no_slash
    by (auto simp: renumbered_def name_ok_def numbered_def)
qed

lemma named_ok:
  assumes "list_all (\<lambda>c. name_ok (ch_name c)) cs" "named cs = Ok cs'"
  shows "list_all (\<lambda>c. name_ok (ch_name c)) cs' \<and> distinct (map ch_name cs')"
proof -
  have "distinct (map ch_name cs')" "list_all2 renumbered cs cs'"
    using disambiguate_total [of cs] assms(2) by (auto simp: named_def)
  then show ?thesis using assms(1) by (auto simp: list_all_length list_all2_conv_all_nth renumbered_name_ok)
qed

lemma child_name_ok:
  assumes "scalar_row f" "child_from_file L f = Some c"
  shows "name_ok (ch_name c)"
proof -
  have ext: "name_ok (n @ x)" if "name_ok n" "native_kind m = Some (api, x)" for n x m api
    using that by (auto simp: name_ok_def native_kind_def NATIVE_KINDS_def split: if_splits)
  show ?thesis using assms
    by (auto simp: child_from_file_def scalar_row_def Let_def drive_sanitize_name_ok ext
        split: option.splits if_splits)
qed

lemma add_shared_drives_ok:
  "list_all scalar_row ds \<Longrightarrow> list_all (\<lambda>c. name_ok (ch_name c)) cs \<Longrightarrow>
    \<exists>cs'. add_shared_drives L cs ds = Some cs' \<and> list_all (\<lambda>c. name_ok (ch_name c)) cs'"
proof (induction L cs ds rule: add_shared_drives.induct)
  case (2 L cs d ds)
  show ?case
  proof (cases "text_field ''id'' d = None \<or> str_field ''name'' d = None")
    case True
    with 2 show ?thesis by (auto split: option.splits)
  next
    case False
    then obtain i name where d: "text_field ''id'' d = Some i" "str_field ''name'' d = Some name" by auto
    let ?name = "utf8 (drive_sanitize_name (dl_uni L) name)"
    from d 2(4) have safe: "name_ok ?name" by (auto simp: scalar_row_def intro!: drive_sanitize_name_ok)
    obtain n where n: "unique_name ?name (map ch_name cs) = Some n"
        "n = ?name \<or> (\<exists>k. n = shared_drive_name ?name k)"
      using unique_name_total [of ?name "map ch_name cs"] by blast
    have "name_ok (shared_drive_name ?name k)" for k
      using safe dec_str_no_slash [of k] by (cases "k \<le> 1") (auto simp: shared_drive_name_def name_ok_def)
    with n(2) safe have "name_ok n" by auto
    then show ?thesis using 2(3) [OF refl d n(1)] 2(4,5) d n(1) by (auto simp: section_child_def)
  qed
qed auto

lemma scoped_name [simp]: "ch_name (scoped d c) = ch_name c"
  by (simp add: scoped_def split: option.split)

lemma tree_rows_ok:
  assumes "scalar_answers D" "tree_rows L D e = Ok cs"
  shows "list_all (\<lambda>c. name_ok (ch_name c)) cs \<and> distinct (map ch_name cs)"
proof -
  obtain fs where "list_all scalar_row fs"
      and cs: "named (map (scoped (ch_drive e)) (List.map_filter (child_from_file L) fs)) = Ok cs"
    using assms unfolding tree_rows_def scalar_answers_def
    by (cases "ch_id e = SHARED_WITH_ME_ID") (auto split: sum.splits, blast)
  then have "list_all (\<lambda>c. name_ok (ch_name c)) (map (scoped (ch_drive e)) (List.map_filter (child_from_file L) fs))"
    by (auto simp: list_all_iff in_map_filter dest!: child_name_ok [rotated])
  then show ?thesis using cs by (rule named_ok)
qed

lemma fixed_sections_ok: "list_all (\<lambda>c. name_ok (ch_name c)) fixed_sections"
  by (simp add: fixed_sections_def section_child_def name_ok_def MY_DRIVE_NAME_def SHARED_WITH_ME_NAME_def)

lemma tree_listing_ok:
  assumes D: "scalar_answers D"
  shows "tree_listing L D segs = Ok cs \<Longrightarrow>
    list_all (\<lambda>c. name_ok (ch_name c)) cs \<and> distinct (map ch_name cs)"
proof (cases segs)
  case Nil
  assume "tree_listing L D segs = Ok cs"
  with Nil have root: "tree_root L D = Ok cs" by simp
  show ?thesis
  proof (cases "an_shared_drives D")
    case (Inl e)
    with root named_ok [OF fixed_sections_ok] show ?thesis by (simp add: tree_root_def)
  next
    case (Inr ds)
    with D obtain rows where "add_shared_drives L fixed_sections ds = Some rows"
        and ok: "list_all (\<lambda>c. name_ok (ch_name c)) rows"
      using add_shared_drives_ok [OF _ fixed_sections_ok, of ds L] by (auto simp: scalar_answers_def)
    with root Inr have "named rows = Ok cs" by (simp add: tree_root_def)
    with ok show ?thesis by (rule named_ok)
  qed
next
  case (Cons seg up)
  assume "tree_listing L D segs = Ok cs"
  with Cons obtain e where "tree_rows L D e = Ok cs" by (auto simp: and_then_Inr)
  with D show ?thesis by (rule tree_rows_ok)
qed

text \<open>
  C37. What a listing shows can be stated. After the listing of a folder of a Drive that does not
  change, every entry in it is found under its own path, with the kind, the times, the type and the
  way of serving that the listing gave it; and its size is the one listed, unless the listing said it
  was an estimate and the stat says that it has measured the file. The root's sections are entries too.
\<close>

theorem drive_entries_found:
  assumes steady: "steady A D" and scalar: "scalar_answers D" and state: "truthful L D s"
    and names: "list_all name_ok segs" and path: "as_str p = drive_path segs"
    and listed: "drive_readdir A L s p = (Ok es, s')" and entry: "e \<in> set es"
  shows "\<exists>st. fst (drive_stat A L s' (mp_child p (de_name e))) = Ok st \<and> fs_kind st = de_kind e \<and>
    fs_mtime st = de_mtime e \<and> fs_created st = de_created e \<and> fs_content_type st = de_content_type e \<and>
    fs_serves_whole st = de_serves_whole e \<and>
    (fs_size st = de_size e \<and> fs_size_is_estimate st = de_size_is_estimate e \<or>
     de_size_is_estimate e \<and> \<not> de_serves_whole e \<and> \<not> fs_size_is_estimate st)"
proof -
  obtain cs where cs: "tree_listing L D segs = Ok cs" and es: "es = map dir_entry_for cs"
      and s': "truthful L D s'"
    using list_dir_tree [OF steady state names] listed
    by (auto simp: drive_readdir_def path map_ok_Inr split: prod.splits)
  from entry es obtain c where c: "c \<in> set cs" "e = dir_entry_for c" by auto
  have ok: "name_ok (ch_name c)" "distinct (map ch_name cs)"
    using tree_listing_ok [OF scalar cs] c(1) by (auto simp: list_all_iff)
  have child: "as_str (mp_child p (ch_name c)) = child_key (drive_path segs) (ch_name c)"
    using child_as_str [of p "ch_name c"] ok(1) names path drive_path_ok by simp
  obtain s1 where found: "resolve A L (as_str (mp_child p (ch_name c))) s' = (Ok c, s1)"
    using resolve_tree [OF steady s' names ok(1)] cs find_child_distinct [OF ok(2) c(1)] child
    by (metis and_then.simps(2) surjective_pairing)
  have "\<not> mp_is_root (mp_child p (ch_name c))"
    using child child_key_not_root [OF ok(1)] by (simp add: mp_is_root_def)
  with found c(2) show ?thesis
    by (cases "fst (probed_len A (ch_id c) s1)")
      (auto simp: drive_stat_def dir_entry_for_def is_estimate_def child_kind_def entry_size_def
        split: prod.splits)
qed

theorem drive_entries_found_witness:
  "\<exists>es s' st. drive_readdir (still_api 7) plain_lib cold_drive (MountPath ''/My Drive'') = (Ok es, s') \<and>
    length es = 2 \<and> fst (drive_stat (still_api 7) plain_lib s' (mp_child (MountPath ''/My Drive'') (de_name (es ! 1)))) = Ok st \<and>
    fs_kind st = de_kind (es ! 1)"
proof -
  have scalar: "scalar_answers still_answers"
    by (simp add: scalar_answers_def still_answers_def scalar_row_def drive_row_def str_field_def jobj_def chars_def)
  obtain cs where tree: "tree_listing plain_lib still_answers [''My Drive''] = Ok cs" "length cs = 2"
    using still_tree by (cases "tree_listing plain_lib still_answers [''My Drive'']")
      (auto simp del: tree_listing.simps dest: arg_cong [of _ _ length])
  obtain r s' where r: "list_dir (still_api 7) plain_lib ''/My Drive'' cold_drive = (r, s')" by fastforce
  with tree list_dir_tree [OF still_steady cold_truthful, of "[''My Drive'']" 7 plain_lib]
  have cs: "list_dir (still_api 7) plain_lib ''/My Drive'' cold_drive = (Ok cs, s')" "length cs = 2"
    by (simp_all add: name_ok_def child_key_def del: tree_listing.simps)
  then have listed: "drive_readdir (still_api 7) plain_lib cold_drive (MountPath ''/My Drive'') =
      (Ok (map dir_entry_for cs), s')" by (simp add: drive_readdir_def)
  have "\<exists>st. fst (drive_stat (still_api 7) plain_lib s' (mp_child (MountPath ''/My Drive'')
        (de_name (map dir_entry_for cs ! 1)))) = Ok st \<and> fs_kind st = de_kind (map dir_entry_for cs ! 1)"
    using drive_entries_found [OF still_steady scalar cold_truthful _ _ listed, of "[''My Drive'']" "map dir_entry_for cs ! 1"] cs(2)
    by (auto simp: name_ok_def child_key_def)
  with listed cs(2) show ?thesis by (metis length_map)
qed

end
