(* ===== verification/Doc_Query.thy ===== *)
theory Doc_Query
  imports Gmail_Names
begin

section \<open>Queries on a document\<close>

text \<open>
  \<^verbatim>\<open>src/agent-k/src/knowledge_base/document.rs\<close>: the query language of \<^verbatim>\<open>find_in_document\<close>, its
  evaluation line by line, the fallback for bare words, the occurrences and their pages, and the
  reading of a byte range. The identifier of the document, which an answer repeats, is left out. A text is its list of code points; byte offsets count its UTF-8 form. Lower
  case, the white space of Unicode and regular expressions are parameters. Nothing (\<^verbatim>\<open>None\<close>) stands for
  a panic where a function can have one.
\<close>

record 'r find_lib =
  fl_lower :: "utext \<Rightarrow> utext"
  fl_white :: "uchar \<Rightarrow> bool"
  fl_regex :: "utext \<Rightarrow> 'r option"
  fl_is_match :: "'r \<Rightarrow> utext \<Rightarrow> bool"
  fl_find :: "'r \<Rightarrow> utext \<Rightarrow> (nat \<times> nat) option"

subsection \<open>Byte offsets\<close>

fun floor_char_boundary :: "utext \<Rightarrow> nat \<Rightarrow> nat" where
  "floor_char_boundary [] pos = 0"
| "floor_char_boundary (c # t) pos =
     (if pos < utf8_width c then 0 else utf8_width c + floor_char_boundary t (pos - utf8_width c))"

fun ceil_char_boundary :: "utext \<Rightarrow> nat \<Rightarrow> nat" where
  "ceil_char_boundary [] pos = 0"
| "ceil_char_boundary (c # t) pos =
     (if pos = 0 then 0 else utf8_width c + ceil_char_boundary t (pos - utf8_width c))"

text \<open>\<^verbatim>\<open>&s[n..]\<close> and \<^verbatim>\<open>&s[a..b]\<close>.\<close>

fun byte_drop :: "nat \<Rightarrow> utext \<Rightarrow> utext option" where
  "byte_drop 0 t = Some t"
| "byte_drop (Suc n) [] = None"
| "byte_drop (Suc n) (c # t) = (if utf8_width c \<le> Suc n then byte_drop (Suc n - utf8_width c) t else None)"

definition byte_slice :: "utext \<Rightarrow> nat \<Rightarrow> nat \<Rightarrow> utext option" where
  "byte_slice s a b = (if a \<le> b then Option.bind (byte_drop a s) (byte_take (b - a)) else None)"

definition read_in_document :: "utext \<Rightarrow> nat \<Rightarrow> nat \<Rightarrow> utext option" where
  "read_in_document content offset len =
     (let start = floor_char_boundary content (min offset (utf8_length content));
          stop = ceil_char_boundary content (min (start + len) (utf8_length content))
      in byte_slice content start stop)"

subsection \<open>Tokens\<close>

datatype qtoken =
    QLParen | QRParen | QPlus | QMinus | QAnd | QOr | QNot
  | QPhrase utext | QRegex utext | QWord utext

definition classify_word :: "utext \<Rightarrow> qtoken" where
  "classify_word w =
     (if w = chars ''AND'' then QAnd else if w = chars ''OR'' then QOr
      else if w = chars ''NOT'' then QNot else QWord w)"

text \<open>
  Bytes taken for characters: \<^verbatim>\<open>bytes[i] as char\<close> of a character's UTF-8 form.
\<close>

definition latin1 :: "uchar \<Rightarrow> utext" where
  "latin1 c = map of_char (utf8_char c)"

text \<open>\<^verbatim>\<open>read_quoted\<close> after the opening quote: the literal and what follows the closing quote.\<close>

fun read_quoted :: "utext \<Rightarrow> utext \<times> utext" where
  "read_quoted [] = ([], [])"
| "read_quoted [c] = (if c = 34 then ([], []) else (latin1 c, []))"
| "read_quoted (c # d # t) =
     (if c = 92 then map_prod ((@) (latin1 d)) id (read_quoted t)
      else if c = 34 then ([], d # t)
      else map_prod ((@) (latin1 c)) id (read_quoted (d # t)))"

fun read_word :: "(uchar \<Rightarrow> bool) \<Rightarrow> utext \<Rightarrow> utext \<times> utext" where
  "read_word white [] = ([], [])"
| "read_word white (c # t) =
     (if white c \<or> c = 40 \<or> c = 41 \<or> c = 34 then ([], c # t)
      else map_prod ((#) c) id (read_word white t))"

text \<open>\<^verbatim>\<open>find_unescaped\<close> of a slash: what is before it and what is after.\<close>

fun split_unescaped :: "bool \<Rightarrow> utext \<Rightarrow> (utext \<times> utext) option" where
  "split_unescaped esc [] = None"
| "split_unescaped esc (c # t) =
     (if \<not> esc \<and> c = 47 then Some ([], t)
      else map_option (map_prod ((#) c) id) (split_unescaped (\<not> esc \<and> c = 92) t))"

fun unescape_slash :: "bool \<Rightarrow> utext \<Rightarrow> utext" where
  "unescape_slash esc [] = (if esc then [92] else [])"
| "unescape_slash esc (c # t) =
     (if esc then (if c = 47 then [] else [92]) @ c # unescape_slash False t
      else if c = 92 then unescape_slash True t
      else c # unescape_slash False t)"

lemma read_quoted_shorter: "length (snd (read_quoted t)) \<le> length t"
  by (induction t rule: read_quoted.induct) auto

lemma read_word_shorter: "length (snd (read_word white t)) + length (fst (read_word white t)) = length t"
  by (induction white t rule: read_word.induct) auto

lemma split_unescaped_shorter: "split_unescaped esc t = Some (a, b) \<Longrightarrow> length b < length t"
  by (induction t arbitrary: esc a) (fastforce split: if_splits)+

text \<open>
  The loop over bytes. A step of one byte into a character of several bytes goes on only while its
  other bytes, as characters, are white; any other byte there is the start of a slice inside the
  character, which panics.
\<close>

function tokenize_query :: "(uchar \<Rightarrow> bool) \<Rightarrow> utext \<Rightarrow> qtoken list option" where
  "tokenize_query white [] = Some []"
| "tokenize_query white (c # t) =
     (let step = (if list_all white (tl (latin1 c)) then tokenize_query white t else None);
          word = (case read_word white (c # t) of
                    ([], _) \<Rightarrow> step
                  | (w, rest) \<Rightarrow> map_option ((#) (classify_word w)) (tokenize_query white rest))
      in if white (hd (latin1 c)) then step
         else if c = 40 then map_option ((#) QLParen) (tokenize_query white t)
         else if c = 41 then map_option ((#) QRParen) (tokenize_query white t)
         else if c = 43 then map_option ((#) QPlus) (tokenize_query white t)
         else if c = 45 then map_option ((#) QMinus) (tokenize_query white t)
         else if c = 34 then
           (case read_quoted t of (lit, rest) \<Rightarrow> map_option ((#) (QPhrase lit)) (tokenize_query white rest))
         else if c = 47 then
           (case split_unescaped False t of
              Some (pat, rest) \<Rightarrow>
                map_option ((#) (QRegex (unescape_slash False pat))) (tokenize_query white rest)
            | None \<Rightarrow> word)
         else word)"
  by pat_completeness auto
termination
proof (relation "measure (\<lambda>(white, t). length t)", goal_cases)
  case (3 white c t x w rest v)
  then show ?case using read_word_shorter [of white "c # t"] by (cases "read_word white (c # t)") auto
next
  case (8 white c t x w lit rest)
  then show ?case using read_quoted_shorter [of t] by (cases "read_quoted t") auto
qed (auto dest: split_unescaped_shorter)


declare tokenize_query.simps [simp del]

subsection \<open>Parsing\<close>

datatype qexpr =
    QLit nat utext
  | QRe nat utext
  | QConj "qexpr list"
  | QDisj "qexpr list"
  | QNeg qexpr

type_synonym qparse = "(qexpr option \<times> qtoken list \<times> nat) option"

definition joined :: "(qexpr list \<Rightarrow> qexpr) \<Rightarrow> qexpr list \<Rightarrow> qexpr option" where
  "joined f es = (case es of [] \<Rightarrow> None | [e] \<Rightarrow> Some e | _ \<Rightarrow> Some (f es))"

definition opt_list :: "'a option \<Rightarrow> 'a list" where
  "opt_list x = (case x of None \<Rightarrow> [] | Some a \<Rightarrow> [a])"

text \<open>
  Recursive descent over the tokens left, with the next identifier of a term; the number bounds the
  depth of the calls. \<^verbatim>\<open>parse_alts\<close> and the list of \<^verbatim>\<open>parse_and\<close> are the loops.
\<close>

definition skip_rparen :: "qtoken list \<Rightarrow> qtoken list" where
  "skip_rparen ts = (if ts \<noteq> [] \<and> hd ts = QRParen then tl ts else ts)"

fun term_of :: "qtoken \<Rightarrow> nat \<Rightarrow> qexpr option" where
  "term_of (QPhrase s) n = Some (QLit n s)"
| "term_of (QRegex s) n = Some (QRe n s)"
| "term_of (QWord s) n = Some (QLit n s)"
| "term_of _ n = None"

function parse_or :: "nat \<Rightarrow> qtoken list \<Rightarrow> nat \<Rightarrow> qparse"
  and parse_alts :: "nat \<Rightarrow> qexpr list \<Rightarrow> qtoken list \<Rightarrow> nat \<Rightarrow> qparse"
  and parse_and :: "nat \<Rightarrow> qexpr list \<Rightarrow> qtoken list \<Rightarrow> nat \<Rightarrow> qparse"
  and parse_unary :: "nat \<Rightarrow> qtoken list \<Rightarrow> nat \<Rightarrow> qparse"
  and parse_atom :: "nat \<Rightarrow> qtoken list \<Rightarrow> nat \<Rightarrow> qparse"
where
  "parse_or 0 ts n = None"
| "parse_or (Suc f) ts n =
     (case parse_and f [] ts n of
        None \<Rightarrow> None
      | Some (e, ts1, n1) \<Rightarrow> parse_alts f (opt_list e) ts1 n1)"
| "parse_alts 0 alts ts n = None"
| "parse_alts (Suc f) alts ts n =
     (if ts \<noteq> [] \<and> hd ts = QOr then
        (case parse_and f [] (tl ts) n of
           None \<Rightarrow> None
         | Some (e, ts2, n2) \<Rightarrow> parse_alts f (alts @ opt_list e) ts2 n2)
      else Some (joined QDisj alts, ts, n))"
| "parse_and 0 got ts n = None"
| "parse_and (Suc f) got ts n =
     (if ts = [] \<or> hd ts = QRParen \<or> hd ts = QOr then Some (joined QConj got, ts, n)
      else if hd ts = QAnd then parse_and f got (tl ts) n
      else (case parse_unary f ts n of
              None \<Rightarrow> None
            | Some (e, ts2, n2) \<Rightarrow>
                (case e of
                   Some e \<Rightarrow> parse_and f (got @ [e]) ts2 n2
                 | None \<Rightarrow> parse_and f got (tl ts2) n2)))"
| "parse_unary 0 ts n = None"
| "parse_unary (Suc f) ts n =
     (if ts = [] then Some (None, ts, n)
      else if hd ts = QPlus then parse_atom f (tl ts) n
      else if hd ts = QMinus \<or> hd ts = QNot then
        map_option (\<lambda>(e, ts2, n2). (map_option QNeg e, ts2, n2)) (parse_atom f (tl ts) n)
      else parse_atom f ts n)"
| "parse_atom 0 ts n = None"
| "parse_atom (Suc f) ts n =
     (if ts = [] then Some (None, ts, n)
      else if hd ts = QLParen then
        map_option (\<lambda>(e, ts2, n2). (e, skip_rparen ts2, n2)) (parse_or f (tl ts) n)
      else Some (term_of (hd ts) n, tl ts, if term_of (hd ts) n = None then n else n + 1))"
  by pat_completeness auto
termination
  by (relation "measure (\<lambda>x. case x of
        Inl (Inl (f, _)) \<Rightarrow> f | Inl (Inr (f, _)) \<Rightarrow> f
      | Inr (Inl (f, _)) \<Rightarrow> f | Inr (Inr (Inl (f, _))) \<Rightarrow> f | Inr (Inr (Inr (f, _))) \<Rightarrow> f)") auto

definition parse_fuel :: "qtoken list \<Rightarrow> nat" where
  "parse_fuel ts = 4 * length ts + 4"

text \<open>\<^verbatim>\<open>str::split_whitespace\<close>.\<close>

function split_whitespace :: "(uchar \<Rightarrow> bool) \<Rightarrow> utext \<Rightarrow> utext list" where
  "split_whitespace white t =
     (case dropWhile white t of
        [] \<Rightarrow> []
      | c # u \<Rightarrow> (c # takeWhile (\<lambda>x. \<not> white x) u) # split_whitespace white (dropWhile (\<lambda>x. \<not> white x) u))"
  by pat_completeness auto
termination
proof (relation "measure (\<lambda>(white, t). length t)", goal_cases)
  case (2 white t c u)
  then have "length (c # u) \<le> length t" by (metis length_dropWhile_le)
  moreover have "length (dropWhile (\<lambda>x. \<not> white x) u) \<le> length u" by (rule length_dropWhile_le)
  ultimately show ?case by simp
qed simp

declare split_whitespace.simps [simp del]

definition extract_bare_keywords :: "'r find_lib \<Rightarrow> utext \<Rightarrow> utext list option" where
  "extract_bare_keywords R input =
     (if input = [] then None
      else if list_ex (\<lambda>c. c \<in> {34, 43, 45, 40, 41, 47}) input then None
      else (let ws = split_whitespace (fl_white R) input in
            if list_ex (\<lambda>w. classify_word w \<noteq> QWord w) ws then None
            else if ws = [] then None else Some (map (fl_lower R) ws)))"

definition parse_query :: "'r find_lib \<Rightarrow> utext \<Rightarrow> (qexpr option \<times> utext list option) option" where
  "parse_query R input =
     (let trimmed = utrim_with (fl_white R) input; bare = extract_bare_keywords R trimmed in
      case tokenize_query (fl_white R) trimmed of
        None \<Rightarrow> None
      | Some ts \<Rightarrow> map_option (\<lambda>(e, _). (e, bare)) (parse_or (parse_fuel ts) ts 0))"

subsection \<open>Evaluation\<close>

record 'r compiled =
  cp_lits :: "utext option list"
  cp_regexes :: "'r option list"

definition ensure :: "nat \<Rightarrow> 'a option list \<Rightarrow> 'a option list" where
  "ensure i xs = xs @ replicate (Suc i - length xs) None"

fun compile :: "'r find_lib \<Rightarrow> qexpr \<Rightarrow> 'r compiled \<Rightarrow> 'r compiled"
  and compile_all :: "'r find_lib \<Rightarrow> qexpr list \<Rightarrow> 'r compiled \<Rightarrow> 'r compiled" where
  "compile R (QLit i d) C =
     \<lparr>cp_lits = (ensure i (cp_lits C))[i := Some (fl_lower R d)], cp_regexes = ensure i (cp_regexes C)\<rparr>"
| "compile R (QRe i d) C =
     \<lparr>cp_lits = ensure i (cp_lits C),
      cp_regexes = (ensure i (cp_regexes C))[i := fl_regex R (chars ''(?i)'' @ d)]\<rparr>"
| "compile R (QConj es) C = compile_all R es C"
| "compile R (QDisj es) C = compile_all R es C"
| "compile R (QNeg e) C = compile R e C"
| "compile_all R [] C = C"
| "compile_all R (e # es) C = compile_all R es (compile R e C)"

text \<open>\<^verbatim>\<open>xs.get(i).and_then(|x| x.as_ref())\<close>.\<close>

definition slot :: "nat \<Rightarrow> 'a option list \<Rightarrow> 'a option" where
  "slot i xs = (if i < length xs then xs ! i else None)"

definition term_matches :: "'r find_lib \<Rightarrow> 'r compiled \<Rightarrow> nat \<Rightarrow> utext \<Rightarrow> utext \<Rightarrow> bool" where
  "term_matches R C i line lower =
     ((case slot i (cp_lits C) of Some lit \<Rightarrow> lit \<noteq> [] \<and> occurs_in lit lower | None \<Rightarrow> False) \<or>
      (case slot i (cp_regexes C) of Some re \<Rightarrow> fl_is_match R re line | None \<Rightarrow> False))"

fun is_neg :: "qexpr \<Rightarrow> bool" where
  "is_neg (QNeg _) = True"
| "is_neg _ = False"

fun eval_expr :: "'r find_lib \<Rightarrow> 'r compiled \<Rightarrow> utext \<Rightarrow> utext \<Rightarrow> qexpr \<Rightarrow> bool" where
  "eval_expr R C line lower (QLit i _) = term_matches R C i line lower"
| "eval_expr R C line lower (QRe i _) = term_matches R C i line lower"
| "eval_expr R C line lower (QConj es) =
     (list_ex (\<lambda>e. \<not> is_neg e) es \<and> list_all (eval_expr R C line lower) es)"
| "eval_expr R C line lower (QDisj es) = list_ex (eval_expr R C line lower) es"
| "eval_expr R C line lower (QNeg e) = (\<not> eval_expr R C line lower e)"

datatype relaxation = RelaxAll | RelaxHalf | RelaxAny

definition count_hits :: "'r find_lib \<Rightarrow> 'r compiled \<Rightarrow> nat \<Rightarrow> utext \<times> utext \<Rightarrow> nat" where
  "count_hits R C n l = length (filter (\<lambda>kid. term_matches R C kid (fst l) (snd l)) [0..<n])"

definition lines_with :: "'r find_lib \<Rightarrow> 'r compiled \<Rightarrow> nat \<Rightarrow> (utext \<times> utext) list \<Rightarrow> nat \<Rightarrow> nat list" where
  "lines_with R C n ls threshold = filter (\<lambda>i. threshold \<le> count_hits R C n (ls ! i)) [0..<length ls]"

definition select_with_fallback ::
  "'r find_lib \<Rightarrow> utext list \<Rightarrow> 'r compiled \<Rightarrow> (utext \<times> utext) list \<Rightarrow> nat list \<times> relaxation option" where
  "select_with_fallback R keywords C ls =
     (let n = length keywords; half = (n + 1) div 2; all = lines_with R C n ls n;
          halves = lines_with R C n ls half; any = lines_with R C n ls 1
      in if n = 0 then ([], None)
         else if all \<noteq> [] then (all, if 1 < n then Some RelaxAll else None)
         else if half < n \<and> halves \<noteq> [] then (halves, Some RelaxHalf)
         else if any = [] then ([], None) else (any, Some RelaxAny))"

subsection \<open>Occurrences\<close>

text \<open>\<^verbatim>\<open>compute_line_spans\<close>: the lines with the byte where each starts.\<close>

fun line_spans :: "nat \<Rightarrow> utext \<Rightarrow> utext \<Rightarrow> (nat \<times> utext) list" where
  "line_spans start line [] = [(start, line)]"
| "line_spans start line (c # t) =
     (if c = 10 then (start, line) # line_spans (start + utf8_length line + 1) [] t
      else line_spans start (line @ [c]) t)"

definition find_lit :: "utext \<Rightarrow> utext \<Rightarrow> (nat \<times> nat) option" where
  "find_lit lit lower =
     map_option (\<lambda>k. let pos = utf8_length (take k lower) in (pos, pos + utf8_length lit)) (ufind_text lit lower)"

definition earlier ::
  "(utext \<times> nat \<times> nat) option \<Rightarrow> (utext \<times> nat \<times> nat) option \<Rightarrow> (utext \<times> nat \<times> nat) option" where
  "earlier best cand =
     (case cand of
        None \<Rightarrow> best
      | Some c \<Rightarrow> (case best of Some b \<Rightarrow> if fst (snd b) \<le> fst (snd c) then best else cand | None \<Rightarrow> cand))"

fun first_anchor :: "'r find_lib \<Rightarrow> 'r compiled \<Rightarrow> utext \<Rightarrow> utext \<Rightarrow> qexpr \<Rightarrow> (utext \<times> nat \<times> nat) option"
  and first_anchors ::
    "'r find_lib \<Rightarrow> 'r compiled \<Rightarrow> utext \<Rightarrow> utext \<Rightarrow> (utext \<times> nat \<times> nat) option \<Rightarrow> qexpr list
      \<Rightarrow> (utext \<times> nat \<times> nat) option" where
  "first_anchor R C line lower (QLit i d) =
     (case slot i (cp_lits C) of
        None \<Rightarrow> None
      | Some lit \<Rightarrow> if lit = [] then None else map_option (\<lambda>p. (d, p)) (find_lit lit lower))"
| "first_anchor R C line lower (QRe i d) =
     (case slot i (cp_regexes C) of
        None \<Rightarrow> None | Some re \<Rightarrow> map_option (\<lambda>p. (d, p)) (fl_find R re line))"
| "first_anchor R C line lower (QConj es) = first_anchors R C line lower None es"
| "first_anchor R C line lower (QDisj es) = first_anchors R C line lower None es"
| "first_anchor R C line lower (QNeg e) = None"
| "first_anchors R C line lower best [] = best"
| "first_anchors R C line lower best (e # es) =
     first_anchors R C line lower (earlier best (first_anchor R C line lower e)) es"

record occurrence =
  oc_keyword :: utext
  oc_start :: nat
  oc_end :: nat

definition occurrence_on ::
  "'r find_lib \<Rightarrow> 'r compiled \<Rightarrow> qexpr \<Rightarrow> nat \<times> utext \<Rightarrow> occurrence option" where
  "occurrence_on R C e l =
     map_option (\<lambda>(kw, s, t). \<lparr>oc_keyword = kw, oc_start = fst l + s, oc_end = fst l + t\<rparr>)
       (first_anchor R C (snd l) (fl_lower R (snd l)) e)"

definition collect_occurrences ::
  "'r find_lib \<Rightarrow> 'r compiled \<Rightarrow> qexpr \<Rightarrow> (nat \<times> utext) list \<Rightarrow> nat list \<Rightarrow> occurrence list" where
  "collect_occurrences R C e spans matched =
     sort_key oc_start (List.map_filter (\<lambda>i. occurrence_on R C e (spans ! i)) matched)"

subsection \<open>Pages\<close>

record find_match =
  fm_keyword :: utext
  fm_start :: nat
  fm_end :: nat
  fm_context :: utext

record find_result =
  fr_next :: "nat option"
  fr_relaxation :: "relaxation option"
  fr_matches :: "find_match list"

definition MAX_OUTPUT_CHARS :: nat where "MAX_OUTPUT_CHARS = 8000"

definition match_of :: "utext \<Rightarrow> nat \<Rightarrow> occurrence \<Rightarrow> find_match option" where
  "match_of content context_bytes oc =
     (let a = floor_char_boundary content (oc_start oc - context_bytes);
          b = ceil_char_boundary content (min (oc_end oc + context_bytes) (utf8_length content))
      in map_option (\<lambda>ctx. \<lparr>fm_keyword = oc_keyword oc, fm_start = oc_start oc, fm_end = oc_end oc, fm_context = ctx\<rparr>)
           (byte_slice content a b))"

text \<open>The loop, from the cursor on: how many matches may still come, and the bytes given out so far.\<close>

fun emit_matches :: "utext \<Rightarrow> nat \<Rightarrow> nat \<Rightarrow> nat \<Rightarrow> occurrence list \<Rightarrow> find_match list option" where
  "emit_matches content context_bytes k out [] = Some []"
| "emit_matches content context_bytes k out (oc # ocs) =
     (if k = 0 \<or> MAX_OUTPUT_CHARS \<le> out then Some []
      else (case match_of content context_bytes oc of
              None \<Rightarrow> None
            | Some m \<Rightarrow>
                map_option ((#) m)
                  (emit_matches content context_bytes (k - 1) (out + utf8_length (fm_context m)) ocs)))"

definition empty_result :: find_result where
  "empty_result = \<lparr>fr_next = None, fr_relaxation = None, fr_matches = []\<rparr>"

text \<open>The occurrences of a query, in order, and how it was relaxed.\<close>

definition query_occurrences ::
  "'r find_lib \<Rightarrow> utext \<Rightarrow> qexpr \<Rightarrow> utext list option \<Rightarrow> occurrence list \<times> relaxation option" where
  "query_occurrences R content e bare =
     (let spans = line_spans 0 [] content;
          ls = map (\<lambda>(_, l). (l, fl_lower R l)) spans;
          C = compile R e \<lparr>cp_lits = [], cp_regexes = []\<rparr>;
          (matched, relax) =
            (case bare of
               Some keywords \<Rightarrow> select_with_fallback R keywords C ls
             | None \<Rightarrow> (filter (\<lambda>i. eval_expr R C (fst (ls ! i)) (snd (ls ! i)) e) [0..<length ls], None))
      in (collect_occurrences R C e spans matched, relax))"

definition find_page ::
  "utext \<Rightarrow> occurrence list \<Rightarrow> relaxation option \<Rightarrow> nat \<Rightarrow> nat \<Rightarrow> nat \<Rightarrow> find_result option" where
  "find_page content ocs relax cursor k context_bytes =
     map_option (\<lambda>ms. \<lparr>fr_next = (if cursor + length ms < length ocs then Some (cursor + length ms) else None),
         fr_relaxation = relax, fr_matches = ms\<rparr>)
       (emit_matches content context_bytes k 0 (drop cursor ocs))"

definition find_in_document ::
  "'r find_lib \<Rightarrow> utext \<Rightarrow> utext \<Rightarrow> nat \<Rightarrow> nat \<Rightarrow> nat \<Rightarrow> find_result option" where
  "find_in_document R content pattern cursor k context_bytes =
     (if utrim_with (fl_white R) pattern = [] then Some empty_result
      else (case parse_query R pattern of
              None \<Rightarrow> None
            | Some (None, _) \<Rightarrow> Some empty_result
            | Some (Some e, bare) \<Rightarrow>
                (case query_occurrences R content e bare of
                   (ocs, relax) \<Rightarrow> find_page content ocs relax cursor k context_bytes)))"

text \<open>\<^verbatim>\<open>Display for Document\<close>: the content shown, cut at fifty bytes.\<close>

definition shown_content :: "utext option \<Rightarrow> utext option" where
  "shown_content content =
     (case content of
        None \<Rightarrow> Some (chars ''<no content>'')
      | Some c \<Rightarrow>
          map_option (\<lambda>raw. concat (map (\<lambda>x. if x = 10 then [92, 110] else [x]) raw))
            (if 50 < utf8_length c then map_option (\<lambda>p. p @ chars ''...'') (byte_slice c 0 50) else Some c))"

end
