(* ===== verification/Doc_Query_Properties.thy ===== *)
theory Doc_Query_Properties
  imports Doc_Query Gmail_Name_Properties
begin

section \<open>What a query on a document finds\<close>

text \<open>
  Byte windows are cut at characters, so no page of an answer panics; every query parses; following
  the cursor gives every occurrence once, in order; and bare words mean what the tool says of them.
\<close>

subsection \<open>Windows\<close>

lemma byte_drop_take: "i \<le> length t \<Longrightarrow> byte_drop (utf8_length (take i t)) t = Some (drop i t)"
proof (induction t arbitrary: i)
  case (Cons c t)
  show ?case
  proof (cases i)
    case (Suc j)
    obtain w where w: "utf8_width c = Suc w" using utf8_width_pos(1) [of c] by (cases "utf8_width c") auto
    with Suc Cons show ?thesis by simp
  qed simp
qed simp

lemma byte_take_take: "j \<le> length t \<Longrightarrow> byte_take (utf8_length (take j t)) t = Some (take j t)"
proof (induction t arbitrary: j)
  case (Cons c t)
  show ?case
  proof (cases j)
    case (Suc k)
    obtain w where w: "utf8_width c = Suc w" using utf8_width_pos(1) [of c] by (cases "utf8_width c") auto
    with Suc Cons show ?thesis by simp
  qed simp
qed simp

lemma utf8_length_mono: "i \<le> j \<Longrightarrow> utf8_length (take i t) \<le> utf8_length (take j t)"
  by (metis le_add1 le_add_diff_inverse take_add utf8_length_simps(3))

lemma utf8_length_strict:
  assumes "i < j" "j \<le> length t"
  shows "utf8_length (take i t) < utf8_length (take j t)"
proof -
  have "take j t = take i t @ t ! i # drop (Suc i) (take j t)"
    using assms by (metis append_take_drop_id Cons_nth_drop_Suc length_take min_absorb2 nth_take take_take
        min.strict_order_iff order_less_imp_le)
  moreover have "0 < utf8_width (t ! i)" using utf8_width_pos(1) [of "t ! i"] by simp
  ultimately show ?thesis by (metis add_gr_0 less_add_same_cancel1 utf8_length_simps(2,3))
qed

lemma byte_slice_take:
  assumes "i \<le> length t" "j \<le> length t" "utf8_length (take i t) \<le> utf8_length (take j t)"
  shows "byte_slice t (utf8_length (take i t)) (utf8_length (take j t)) = Some (drop i (take j t))"
proof -
  have ij: "i \<le> j" using assms utf8_length_strict [of j i t] by (meson leD leI)
  then have "take j t = take i t @ take (j - i) (drop i t)" by (metis le_add_diff_inverse take_add)
  then have "utf8_length (take j t) - utf8_length (take i t) = utf8_length (take (j - i) (drop i t))" by simp
  moreover have "drop i (take j t) = take (j - i) (drop i t)" by (simp add: drop_take)
  ultimately show ?thesis using assms byte_drop_take [of i t] byte_take_take [of "j - i" "drop i t"]
    by (simp add: byte_slice_def)
qed

lemma floor_index:
  "\<exists>i \<le> length t. floor_char_boundary t pos = utf8_length (take i t) \<and> utf8_length (take i t) \<le> pos"
proof (induction t arbitrary: pos)
  case (Cons c t)
  show ?case
  proof (cases "pos < utf8_width c")
    case False
    obtain i where "i \<le> length t" "floor_char_boundary t (pos - utf8_width c) = utf8_length (take i t)"
        "utf8_length (take i t) \<le> pos - utf8_width c" using Cons by blast
    with False show ?thesis by (intro exI [of _ "Suc i"]) auto
  qed (auto intro: exI [of _ 0])
qed simp

lemma ceil_index:
  "\<exists>j \<le> length t. ceil_char_boundary t pos = utf8_length (take j t) \<and> min pos (utf8_length t) \<le> utf8_length (take j t)"
proof (induction t arbitrary: pos)
  case (Cons c t)
  show ?case
  proof (cases "pos = 0")
    case False
    obtain j where "j \<le> length t" "ceil_char_boundary t (pos - utf8_width c) = utf8_length (take j t)"
        "min (pos - utf8_width c) (utf8_length t) \<le> utf8_length (take j t)" using Cons by blast
    with False show ?thesis by (intro exI [of _ "Suc j"]) auto
  qed (auto intro: exI [of _ 0])
qed simp

text \<open>A window whose start is not past its end is cut without a panic, and covers what lies between.\<close>

lemma window_cut:
  assumes "x \<le> y"
  shows "\<exists>i j. i \<le> j \<and> j \<le> length t \<and> utf8_length (take i t) \<le> x \<and>
    min y (utf8_length t) \<le> utf8_length (take j t) \<and>
    byte_slice t (floor_char_boundary t x) (ceil_char_boundary t (min y (utf8_length t))) = Some (drop i (take j t))"
proof -
  obtain i where i: "i \<le> length t" "floor_char_boundary t x = utf8_length (take i t)" "utf8_length (take i t) \<le> x"
    using floor_index by blast
  obtain j where j: "j \<le> length t" "ceil_char_boundary t (min y (utf8_length t)) = utf8_length (take j t)"
      "min (min y (utf8_length t)) (utf8_length t) \<le> utf8_length (take j t)" using ceil_index by blast
  have "utf8_length (take i t) \<le> utf8_length t" using utf8_length_mono [of i "length t" t] i(1) by simp
  with i j assms have le: "utf8_length (take i t) \<le> utf8_length (take j t)" by linarith
  with i j have "i \<le> j" using utf8_length_strict [of j i t] by (meson leD leI)
  with i j le byte_slice_take [of i t j] show ?thesis by auto
qed

lemma read_total:
  "\<exists>i j. i \<le> j \<and> j \<le> length content \<and> utf8_length (take i content) \<le> offset \<and>
    read_in_document content offset len = Some (drop i (take j content))"
proof -
  let ?o = "min offset (utf8_length content)"
  obtain i where i: "i \<le> length content" "floor_char_boundary content ?o = utf8_length (take i content)"
      "utf8_length (take i content) \<le> ?o" using floor_index by blast
  let ?e = "min (utf8_length (take i content) + len) (utf8_length content)"
  obtain j where j: "j \<le> length content" "ceil_char_boundary content ?e = utf8_length (take j content)"
      "min ?e (utf8_length content) \<le> utf8_length (take j content)" using ceil_index by blast
  have "utf8_length (take i content) \<le> utf8_length (take j content)" using i j by linarith
  moreover from this have "i \<le> j" using utf8_length_strict [of j i content] i j by (meson leD leI)
  ultimately show ?thesis using i j byte_slice_take [of i content j]
    by (intro exI [of _ i] exI [of _ j]) (auto simp: read_in_document_def Let_def)
qed

subsection \<open>Pages\<close>

definition regex_ok :: "'r find_lib \<Rightarrow> bool" where
  "regex_ok R = (\<forall>re line a b. fl_find R re line = Some (a, b) \<longrightarrow> a \<le> b)"

lemma regex_okD: "regex_ok R \<Longrightarrow> fl_find R re line = Some (a, b) \<Longrightarrow> a \<le> b"
  unfolding regex_ok_def by blast

lemma earlier_cases: "earlier b c = b \<or> earlier b c = c"
  by (auto simp: earlier_def split: option.splits)

lemma anchor_ordered:
  "regex_ok R \<Longrightarrow> first_anchor R C line lower e = Some (kw, a, b) \<Longrightarrow> a \<le> b"
  "regex_ok R \<Longrightarrow> (\<forall>kw a b. best = Some (kw, a, b) \<longrightarrow> a \<le> b) \<Longrightarrow>
    first_anchors R C line lower best es = Some (kw, a, b) \<Longrightarrow> a \<le> b"
proof (induction R C line lower e and R C line lower best es arbitrary: kw a b and kw a b
    rule: first_anchor_first_anchors.induct)
  case (2 R C line lower i d)
  then show ?case by (auto split: option.splits dest: regex_okD)
next
  case (7 R C line lower best e es)
  then show ?case using earlier_cases [of best "first_anchor R C line lower e"] by (metis first_anchors.simps(2))
qed (auto simp: find_lit_def Let_def split: option.splits if_splits)

lemma occurrence_ordered: "regex_ok R \<Longrightarrow> occurrence_on R C e l = Some oc \<Longrightarrow> oc_start oc \<le> oc_end oc"
  by (auto simp: occurrence_on_def dest: anchor_ordered(1))

lemma collect_ordered:
  assumes "regex_ok R"
  shows "\<forall>oc \<in> set (collect_occurrences R C e spans matched). oc_start oc \<le> oc_end oc"
    and "sorted (map oc_start (collect_occurrences R C e spans matched))"
  by (auto simp: collect_occurrences_def in_map_filter intro: occurrence_ordered [OF assms])

text \<open>The match of an occurrence, and the loop that makes a page of them.\<close>

definition reports :: "find_match \<Rightarrow> occurrence \<Rightarrow> bool" where
  "reports m oc = (fm_keyword m = oc_keyword oc \<and> fm_start m = oc_start oc \<and> fm_end m = oc_end oc)"

lemma match_total:
  assumes "oc_start oc \<le> oc_end oc"
  shows "\<exists>m. match_of content ctx oc = Some m \<and> reports m oc"
proof -
  have "oc_start oc - ctx \<le> oc_end oc + ctx" using assms by simp
  from window_cut [OF this, of content] obtain w where
    "byte_slice content (floor_char_boundary content (oc_start oc - ctx))
       (ceil_char_boundary content (min (oc_end oc + ctx) (utf8_length content))) = Some w" by blast
  then show ?thesis by (simp add: match_of_def reports_def)
qed

lemma emit_prefix:
  "\<forall>oc \<in> set ocs. oc_start oc \<le> oc_end oc \<Longrightarrow>
    \<exists>ms n. emit_matches content ctx k out ocs = Some ms \<and> n \<le> length ocs \<and> list_all2 reports ms (take n ocs) \<and>
      (ocs \<noteq> [] \<and> 0 < k \<and> out < MAX_OUTPUT_CHARS \<longrightarrow> 0 < n) \<and> n \<le> k"
proof (induction ocs arbitrary: k out)
  case (Cons oc ocs)
  obtain m where m: "match_of content ctx oc = Some m" "reports m oc" using match_total Cons.prems by force
  show ?case
  proof (cases "k = 0 \<or> MAX_OUTPUT_CHARS \<le> out")
    case False
    obtain ms n where ih: "emit_matches content ctx (k - 1) (out + utf8_length (fm_context m)) ocs = Some ms"
        "n \<le> length ocs" "list_all2 reports ms (take n ocs)" "n \<le> k - 1"
      using Cons.IH [of "k - 1" "out + utf8_length (fm_context m)"] Cons.prems by auto
    with m False show ?thesis by (intro exI [of _ "m # ms"] exI [of _ "Suc n"]) auto
  qed (auto intro: exI [of _ 0])
qed simp

text \<open>A caller that passes \<^verbatim>\<open>next_cursor\<close> back until there is none.\<close>

fun follow :: "nat \<Rightarrow> (nat \<Rightarrow> find_result option) \<Rightarrow> nat \<Rightarrow> find_match list option" where
  "follow 0 ask cursor = None"
| "follow (Suc fuel) ask cursor =
     (case ask cursor of
        None \<Rightarrow> None
      | Some r \<Rightarrow>
          (case fr_next r of
             None \<Rightarrow> Some (fr_matches r)
           | Some c \<Rightarrow> map_option ((@) (fr_matches r)) (follow fuel ask c)))"

lemma follow_all:
  assumes ocs: "\<forall>oc \<in> set ocs. oc_start oc \<le> oc_end oc" and k: "0 < k"
  shows "cursor \<le> length ocs \<Longrightarrow> length ocs - cursor < fuel \<Longrightarrow>
    \<exists>ms. follow fuel (\<lambda>c. find_page content ocs relax c k ctx) cursor = Some ms \<and> list_all2 reports ms (drop cursor ocs)"
proof (induction fuel arbitrary: cursor)
  case (Suc fuel)
  have "\<forall>oc \<in> set (drop cursor ocs). oc_start oc \<le> oc_end oc" using ocs by (auto dest: in_set_dropD)
  then obtain ms n where p: "emit_matches content ctx k 0 (drop cursor ocs) = Some ms" "n \<le> length (drop cursor ocs)"
      "list_all2 reports ms (take n (drop cursor ocs))" and pos: "drop cursor ocs \<noteq> [] \<longrightarrow> 0 < n"
    using emit_prefix [of "drop cursor ocs" content ctx k 0] k by (auto simp: MAX_OUTPUT_CHARS_def)
  have n: "length ms = n" using p(2,3) by (auto dest: list_all2_lengthD)
  show ?case
  proof (cases "cursor + n < length ocs")
    case False
    then have "n = length (drop cursor ocs)" using p(2) by simp
    with p n False show ?thesis by (simp add: find_page_def)
  next
    case True
    with pos have "0 < n" by auto
    then have "length ocs - (cursor + n) < fuel" using True Suc.prems by linarith
    with True obtain rest where rest:
        "follow fuel (\<lambda>c. find_page content ocs relax c k ctx) (cursor + n) = Some rest"
        "list_all2 reports rest (drop (cursor + n) ocs)"
      using Suc.IH [of "cursor + n"] by auto
    have "drop cursor ocs = take n (drop cursor ocs) @ drop (cursor + n) ocs"
      by (metis add.commute append_take_drop_id drop_drop)
    with p(3) rest(2) have "list_all2 reports (ms @ rest) (drop cursor ocs)" by (metis list_all2_appendI)
    with True p n rest show ?thesis by (simp add: find_page_def)
  qed
qed simp


definition plain_find :: "unit find_lib" where
  "plain_find =
     \<lparr>fl_lower = id, fl_white = (\<lambda>c. c \<in> {9, 10, 11, 12, 13, 32, 133, 160, 12288}), fl_regex = (\<lambda>_. None),
      fl_is_match = (\<lambda>_ _. False), fl_find = (\<lambda>_ _. None)\<rparr>"


definition spaced_find :: "unit find_lib" where
  "spaced_find = plain_find\<lparr>fl_white := (\<lambda>c. c = 32)\<rparr>"

lemma b_trimmed: "utrim_with (fl_white spaced_find) [98] = [98]"
  by (simp add: utrim_with_def spaced_find_def)

lemma b_parsed: "parse_query spaced_find [98] = Some (Some (QLit 0 [98]), Some [[98]])"
proof -
  have "tokenize_query (fl_white spaced_find) [98] = Some [QWord [98]]"
    by (simp add: tokenize_query.simps latin1_def utf8_char_def byte_char_def classify_word_def chars_def spaced_find_def)
  moreover have "extract_bare_keywords spaced_find [98] = Some [[98]]"
    by (simp add: extract_bare_keywords_def split_whitespace.simps classify_word_def chars_def
        spaced_find_def plain_find_def)
  moreover have "parse_or (parse_fuel [QWord [98]]) [QWord [98]] 0 = Some (Some (QLit 0 [98]), [], 1)"
    by (simp add: parse_fuel_def eval_nat_numeral opt_list_def joined_def)
  ultimately show ?thesis by (simp add: parse_query_def b_trimmed Let_def)
qed

lemma b_occurrences:
  "map oc_start (fst (query_occurrences spaced_find [97, 32, 98, 10, 98] (QLit 0 [98]) (Some [[98]]))) = [2, 4]"
proof -
  have "line_spans 0 [] [97, 32, 98, 10, 98] = [(0, [97, 32, 98]), (4, [98])]"
    by (simp add: utf8_length_def utf8_width_def)
  then show ?thesis
    by (simp add: query_occurrences_def select_with_fallback_def lines_with_def count_hits_def term_matches_def slot_def
        ensure_def spaced_find_def plain_find_def collect_occurrences_def map_filter_simps occurrence_on_def find_lit_def
        utf8_length_def utf8_width_def Let_def)
qed


text \<open>Where the code goes wrong.\<close>

text \<open>A white character of several bytes between two words is a panic: the ideographic space.\<close>

lemma ideographic_space_panics:
  "find_in_document plain_find (chars ''a'') (chars ''a'' @ [12288] @ chars ''b'') 0 10 256 = None"
proof -
  have t: "utrim_with (fl_white plain_find) [97, 12288, 98] = [97, 12288, 98]"
    by (simp add: utrim_with_def plain_find_def)
  have "tokenize_query (fl_white plain_find) [97, 12288, 98] = None"
    by (simp add: tokenize_query.simps latin1_def utf8_char_def byte_char_def plain_find_def)
  with t show ?thesis by (simp add: find_in_document_def parse_query_def chars_def)
qed

text \<open>A phrase is read byte by byte, so that a character beyond ASCII becomes several others.\<close>

lemma phrase_of_bytes:
  "tokenize_query (fl_white plain_find) [34, 54620, 34] = Some [QPhrase [237, 149, 156]]"
  by (simp add: tokenize_query.simps latin1_def utf8_char_def byte_char_def plain_find_def)

text \<open>The offset of a match is taken in the lower case of the line, where the Kelvin sign is shorter.\<close>

lemma offset_in_lower_case:
  "find_lit [97] [107, 97] = Some (1, 2)" "utf8_length (take 1 [8490, 97]) = 3"
  by (simp_all add: find_lit_def utf8_length_def utf8_width_def)

text \<open>Showing a document cuts its content inside a character.\<close>

lemma cut_inside: "byte_take (Suc n) (replicate n 97 @ 54620 # t) = None"
proof (induction n)
  case (Suc n)
  then show ?case by (simp add: utf8_width_def)
qed (simp add: utf8_width_def)

lemma shown_content_panics: "shown_content (Some (replicate 49 97 @ [54620, 97])) = None"
proof -
  have "utf8_length (replicate 49 97 @ [54620, 97]) = 53"
    by (simp add: utf8_length_def utf8_width_def sum_list_replicate)
  moreover have "byte_take 50 (replicate 49 97 @ 54620 # [97]) = None" using cut_inside [of 49 "[97]"] by simp
  ultimately show ?thesis by (simp add: shown_content_def byte_slice_def)
qed

subsection \<open>Parsing\<close>

lemma term_of_shorter: "ts \<noteq> [] \<Longrightarrow> length (tl ts) < length ts"
  by (cases ts) auto

lemma skip_rparen_shorter: "length (skip_rparen ts) \<le> length ts"
  by (simp add: skip_rparen_def)

text \<open>Each function needs four calls a token, and a constant of its own; a term is at least one token.\<close>

lemma parse_total:
  "4 * length ts + 4 \<le> f \<Longrightarrow> \<exists>e ts' n'. parse_or f ts n = Some (e, ts', n') \<and> length ts' \<le> length ts"
  "4 * length ts + 1 \<le> f \<Longrightarrow> \<exists>e ts' n'. parse_alts f alts ts n = Some (e, ts', n') \<and> length ts' \<le> length ts"
  "4 * length ts + 3 \<le> f \<Longrightarrow> \<exists>e ts' n'. parse_and f got ts n = Some (e, ts', n') \<and> length ts' \<le> length ts"
  "4 * length ts + 2 \<le> f \<Longrightarrow> \<exists>e ts' n'. parse_unary f ts n = Some (e, ts', n') \<and> length ts' \<le> length ts \<and>
     (ts \<noteq> [] \<longrightarrow> length ts' < length ts)"
  "4 * length ts + 1 \<le> f \<Longrightarrow> \<exists>e ts' n'. parse_atom f ts n = Some (e, ts', n') \<and> length ts' \<le> length ts \<and>
     (ts \<noteq> [] \<longrightarrow> length ts' < length ts)"
proof (induction f arbitrary: ts alts got n)
  case (Suc f)
  note or = Suc.IH(1) and alts = Suc.IH(2) and conj = Suc.IH(3) and unary = Suc.IH(4) and atom = Suc.IH(5)
  {
    case 1
    then obtain e ts1 n1 where a: "parse_and f [] ts n = Some (e, ts1, n1)" "length ts1 \<le> length ts"
      using conj [of ts "[]" n] by auto
    moreover obtain e2 ts2 n2 where "parse_alts f (opt_list e) ts1 n1 = Some (e2, ts2, n2)" "length ts2 \<le> length ts1"
      using alts [of ts1 "opt_list e" n1] 1 a(2) by auto
    ultimately show ?case by simp
  next
    case 2
    show ?case
    proof (cases "ts \<noteq> [] \<and> hd ts = QOr")
      case True
      then have len: "length (tl ts) < length ts" by (cases ts) auto
      with 2 obtain e ts1 n1 where a: "parse_and f [] (tl ts) n = Some (e, ts1, n1)" "length ts1 \<le> length (tl ts)"
        using conj [of "tl ts" "[]" n] by auto
      moreover obtain e2 ts2 n2 where "parse_alts f (alts @ opt_list e) ts1 n1 = Some (e2, ts2, n2)" "length ts2 \<le> length ts1"
        using alts [of ts1 "alts @ opt_list e" n1] 2 a(2) len by auto
      ultimately show ?thesis using True len by simp
    qed auto
  next
    case 3
    show ?case
    proof (cases "ts = [] \<or> hd ts = QRParen \<or> hd ts = QOr")
      case False
      then have len: "length (tl ts) < length ts" by (cases ts) auto
      show ?thesis
      proof (cases "hd ts = QAnd")
        case True
        obtain e2 ts2 n2 where "parse_and f got (tl ts) n = Some (e2, ts2, n2)" "length ts2 \<le> length (tl ts)"
          using conj [of "tl ts" got n] 3 len by auto
        then show ?thesis using True False len by simp
      next
        case no: False
        with 3 False obtain e ts1 n1 where u: "parse_unary f ts n = Some (e, ts1, n1)" "length ts1 < length ts"
          using unary [of ts n] by auto
        show ?thesis
        proof (cases e)
          case None
          have "length (tl ts1) \<le> length ts1" by simp
          with 3 u(2) have "4 * length (tl ts1) + 3 \<le> f" by linarith
          from conj [OF this, of got n1] obtain e2 ts2 n2 where
            "parse_and f got (tl ts1) n1 = Some (e2, ts2, n2)" "length ts2 \<le> length (tl ts1)" by blast
          then show ?thesis using None u False no by simp
        next
          case (Some x)
          obtain e2 ts2 n2 where "parse_and f (got @ [x]) ts1 n1 = Some (e2, ts2, n2)" "length ts2 \<le> length ts1"
            using conj [of ts1 "got @ [x]" n1] 3 u(2) by auto
          then show ?thesis using Some u False no by simp
        qed
      qed
    qed auto
  next
    case 4
    show ?case
    proof (cases "ts = []")
      case False
      then have len: "length (tl ts) < length ts" by (cases ts) auto
      have "4 * length (tl ts) + 1 \<le> f" using 4 len by linarith
      from atom [OF this, of n] obtain e1 ts1 n1 where
        "parse_atom f (tl ts) n = Some (e1, ts1, n1)" "length ts1 \<le> length (tl ts)" by blast
      moreover from this(2) len have "length ts1 < length ts" by (rule le_less_trans)
      moreover obtain e2 ts2 n2 where "parse_atom f ts n = Some (e2, ts2, n2)" "length ts2 < length ts"
        using atom [of ts n] 4 False by auto
      ultimately show ?thesis using False len by simp
    qed simp
  next
    case 5
    show ?case
    proof (cases "ts \<noteq> [] \<and> hd ts = QLParen")
      case True
      then have len: "length (tl ts) < length ts" by (cases ts) auto
      with 5 obtain e ts2 n2 where or: "parse_or f (tl ts) n = Some (e, ts2, n2)" "length ts2 \<le> length (tl ts)"
        using or [of "tl ts" n] by auto
      with len have "length (skip_rparen ts2) < length ts" using skip_rparen_shorter [of ts2] by linarith
      with or True show ?thesis by simp
    qed (auto simp: term_of_shorter)
  }
qed simp_all

text \<open>Every query parses: what is left over never runs out of depth.\<close>

lemma parse_query_total:
  "tokenize_query (fl_white R) (utrim_with (fl_white R) input) \<noteq> None \<Longrightarrow> parse_query R input \<noteq> None"
  using parse_total(1) by (fastforce simp: parse_query_def parse_fuel_def)

subsection \<open>Bare words\<close>

lemma latin1_ascii: "c < 128 \<Longrightarrow> latin1 c = [c]"
  by (simp add: latin1_def utf8_char_def of_byte_char)

lemma latin1_lead: "128 \<le> c \<Longrightarrow> 192 \<le> hd (latin1 c) \<and> hd (latin1 c) < 256"
proof -
  assume c: "128 \<le> c"
  have "192 + c div 64 < 256" if "c < 2048" using that by simp
  moreover have "224 + c div 4096 < 256" if "c < 65536" using that by simp
  moreover have "240 + c div 262144 mod 8 < 256" using mod_less_divisor [of 8 "c div 262144"] by simp
  ultimately show ?thesis using c by (simp add: latin1_def utf8_char_def of_byte_char)
qed

definition special :: "uchar \<Rightarrow> bool" where
  "special c = (c \<in> {34, 43, 45, 40, 41, 47})"

lemma read_word_plain:
  "\<forall>c \<in> set t. \<not> special c \<Longrightarrow> read_word white t = (takeWhile (\<lambda>c. \<not> white c) t, dropWhile (\<lambda>c. \<not> white c) t)"
  by (induction t) (auto simp: special_def)

definition plain_text :: "(uchar \<Rightarrow> bool) \<Rightarrow> utext \<Rightarrow> bool" where
  "plain_text white t = (\<forall>c \<in> set t. \<not> special c \<and> (white c \<longrightarrow> c < 128))"

lemma tokenize_white:
  "plain_text white t \<Longrightarrow> tokenize_query white t = tokenize_query white (dropWhile white t)"
  by (induction t) (auto simp: plain_text_def tokenize_query.simps latin1_ascii)

lemma tokenize_word:
  assumes "plain_text white (c # t)" "\<not> white c" "\<forall>b. 192 \<le> b \<and> b < 256 \<longrightarrow> \<not> white b"
  shows "tokenize_query white (c # t) =
    map_option ((#) (classify_word (c # takeWhile (\<lambda>c. \<not> white c) t))) (tokenize_query white (dropWhile (\<lambda>c. \<not> white c) t))"
proof -
  have "\<not> white (hd (latin1 c))"
  proof (cases "c < 128")
    case True
    with assms(2) show ?thesis by (simp add: latin1_ascii)
  next
    case False
    with latin1_lead [of c] assms(3) show ?thesis by auto
  qed
  moreover have "read_word white (c # t) = (c # takeWhile (\<lambda>c. \<not> white c) t, dropWhile (\<lambda>c. \<not> white c) t)"
    using read_word_plain [of "c # t" white] assms(1,2) by (simp add: plain_text_def)
  moreover have "c \<notin> {34, 43, 45, 40, 41, 47}" using assms(1) by (simp add: plain_text_def special_def)
  ultimately show ?thesis by (subst tokenize_query.simps) (simp add: Let_def)
qed

lemma tokenize_plain:
  assumes unicode: "\<forall>b. 192 \<le> b \<and> b < 256 \<longrightarrow> \<not> white b"
  shows "plain_text white t \<Longrightarrow> tokenize_query white t = Some (map classify_word (split_whitespace white t))"
proof (induction "length t" arbitrary: t rule: less_induct)
  case less
  show ?case
  proof (cases "dropWhile white t")
    case Nil
    have "split_whitespace white t = []" by (subst split_whitespace.simps) (simp only: Nil list.case)
    moreover have "tokenize_query white t = Some []"
      using tokenize_white [OF less.prems] unfolding Nil by (simp add: tokenize_query.simps)
    ultimately show ?thesis by simp
  next
    case (Cons c u)
    then have c: "\<not> white c" by (metis dropWhile_eq_Cons_conv)
    have sub: "set (c # u) \<subseteq> set t" using Cons by (metis set_dropWhileD subsetI)
    then have p: "plain_text white (c # u)" using less.prems by (auto simp: plain_text_def)
    let ?rest = "dropWhile (\<lambda>c. \<not> white c) u"
    have "length ?rest < length t"
      using length_dropWhile_le [of "\<lambda>c. \<not> white c" u] length_dropWhile_le [of white t] Cons by simp
    moreover have "plain_text white ?rest" using p by (auto simp: plain_text_def dest: set_dropWhileD)
    ultimately have "tokenize_query white ?rest = Some (map classify_word (split_whitespace white ?rest))"
      by (rule less.hyps)
    with tokenize_white [OF less.prems] tokenize_word [OF p c unicode] Cons show ?thesis
      by (simp add: split_whitespace.simps [of white t])
  qed
qed

lemma parse_words:
  "4 * length ws + 3 \<le> f \<Longrightarrow>
    parse_and f got (map QWord ws) n =
      Some (joined QConj (got @ map2 QLit [n..<n + length ws] ws), [], n + length ws)"
proof (induction ws arbitrary: f got n)
  case Nil
  then obtain g where "f = Suc g" by (cases f) auto
  then show ?case by simp
next
  case (Cons w ws)
  then obtain g h where g: "f = Suc g" "g = Suc h" by (cases f; cases "f - 1") auto
  then obtain i where i: "h = Suc i" using Cons.prems by (cases h) auto
  have "[n..<n + length (w # ws)] = n # [Suc n..<Suc n + length ws]" by (simp add: upt_rec)
  moreover have "4 * length ws + 3 \<le> g" using Cons.prems g by simp
  ultimately show ?case using Cons.IH [of g "got @ [QLit n w]" "Suc n"] g i by simp
qed

lemma parse_words_or:
  "ws \<noteq> [] \<Longrightarrow> parse_or (parse_fuel (map QWord ws)) (map QWord ws) 0 =
    Some (joined QConj (map2 QLit [0..<length ws] ws), [], length ws)"
proof -
  assume ws: "ws \<noteq> []"
  have f: "parse_fuel (map QWord ws) = Suc (Suc (4 * length ws + 2))" by (simp add: parse_fuel_def)
  have "map2 QLit [0..<length ws] ws \<noteq> []" using ws by (cases ws) (auto simp: upt_rec)
  then obtain e where e: "joined QConj (map2 QLit [0..<length ws] ws) = Some e"
    by (cases "map2 QLit [0..<length ws] ws" rule: remdups_adj.cases) (auto simp: joined_def)
  then show ?thesis using parse_words [of ws "Suc (4 * length ws + 2)" "[]" 0]
    unfolding f by (simp add: opt_list_def joined_def)
qed

lemma compile_words:
  "length (cp_lits C) = k \<Longrightarrow> length (cp_regexes C) = k \<Longrightarrow>
    compile_all R (map2 QLit [k..<k + length ws] ws) C =
      \<lparr>cp_lits = cp_lits C @ map (Some \<circ> fl_lower R) ws, cp_regexes = cp_regexes C @ replicate (length ws) None\<rparr>"
proof (induction ws arbitrary: C k)
  case (Cons w ws)
  let ?C = "compile R (QLit k w) C"
  have "[k..<k + length (w # ws)] = k # [Suc k..<Suc k + length ws]" by (simp add: upt_rec)
  moreover have "cp_lits ?C = cp_lits C @ [Some (fl_lower R w)]" "cp_regexes ?C = cp_regexes C @ [None]"
    using Cons.prems by (simp_all add: ensure_def list_update_append)
  ultimately show ?case using Cons.IH [of ?C "Suc k"] Cons.prems by simp
qed simp

lemma compile_joined:
  "ws \<noteq> [] \<Longrightarrow> joined QConj (map2 QLit [0..<length ws] ws) = Some e \<Longrightarrow>
    compile R e \<lparr>cp_lits = [], cp_regexes = []\<rparr> =
      \<lparr>cp_lits = map (Some \<circ> fl_lower R) ws, cp_regexes = replicate (length ws) None\<rparr>"
proof -
  assume "ws \<noteq> []" and e: "joined QConj (map2 QLit [0..<length ws] ws) = Some e"
  have "compile R e C = compile_all R (map2 QLit [0..<length ws] ws) C" for C
    using e by (cases "map2 QLit [0..<length ws] ws" rule: remdups_adj.cases) (auto simp: joined_def)
  then show ?thesis using compile_words [of "\<lparr>cp_lits = [], cp_regexes = []\<rparr>" 0 R ws] by simp
qed


lemma find_text_occurs: "ufind_text p t = None \<longleftrightarrow> \<not> occurs_in p t"
  by (induction p t rule: ufind_text.induct) auto

text \<open>How many of the words a line holds, in any case.\<close>

definition holds_word :: "'r find_lib \<Rightarrow> utext \<Rightarrow> utext \<Rightarrow> bool" where
  "holds_word R l w = (fl_lower R w \<noteq> [] \<and> occurs_in (fl_lower R w) (fl_lower R l))"

definition word_hits :: "'r find_lib \<Rightarrow> utext list \<Rightarrow> utext \<Rightarrow> nat" where
  "word_hits R ws l = length (filter (holds_word R l) ws)"

definition word_bank :: "'r find_lib \<Rightarrow> utext list \<Rightarrow> 'r compiled" where
  "word_bank R ws = \<lparr>cp_lits = map (Some \<circ> fl_lower R) ws, cp_regexes = replicate (length ws) None\<rparr>"

lemma term_matches_word:
  "k < length ws \<Longrightarrow> term_matches R (word_bank R ws) k l (fl_lower R l) = holds_word R l (ws ! k)"
  by (simp add: term_matches_def word_bank_def slot_def holds_word_def)

lemma count_hits_words: "count_hits R (word_bank R ws) (length ws) (l, fl_lower R l) = word_hits R ws l"
proof -
  have "filter (\<lambda>k. term_matches R (word_bank R ws) k l (fl_lower R l)) [0..<length ws] =
      filter (holds_word R l \<circ> (!) ws) [0..<length ws]"
    by (rule filter_cong) (auto simp: term_matches_word)
  moreover have "filter (holds_word R l) ws = map ((!) ws) (filter (holds_word R l \<circ> (!) ws) [0..<length ws])"
    by (metis filter_map map_nth)
  ultimately show ?thesis by (simp add: count_hits_def word_hits_def)
qed

lemma earlier_least:
  "earlier b c = r \<Longrightarrow> x \<in> {b, c} \<Longrightarrow> x = Some (kw, a, z) \<Longrightarrow> \<exists>kw' a' z'. r = Some (kw', a', z') \<and> a' \<le> a"
  by (cases b; cases c) (auto simp: earlier_def split: if_splits)

lemma first_anchors_least:
  "first_anchors R C l lo best es \<in> insert best (first_anchor R C l lo ` set es)"
  "x \<in> insert best (first_anchor R C l lo ` set es) \<Longrightarrow> x = Some (kw, a, z) \<Longrightarrow>
    \<exists>kw' a' z'. first_anchors R C l lo best es = Some (kw', a', z') \<and> a' \<le> a"
proof (induction es arbitrary: best x kw a z)
  case Nil
  { case 1 then show ?case by simp }
  { case 2 then show ?case by auto }
next
  case (Cons e es)
  { case 1
    let ?b = "earlier best (first_anchor R C l lo e)"
    have "first_anchors R C l lo best (e # es) \<in> insert ?b (first_anchor R C l lo ` set es)"
      by (subst first_anchors.simps) (rule Cons.IH(1))
    then show ?case using earlier_cases [of best "first_anchor R C l lo e"] unfolding list.set image_insert by (metis insert_iff) }
  { case 2
    let ?b = "earlier best (first_anchor R C l lo e)"
    show ?case
    proof (cases "x \<in> {best, first_anchor R C l lo e}")
      case True
      then obtain kw1 a1 z1 where b: "?b = Some (kw1, a1, z1)" "a1 \<le> a" using earlier_least [OF refl True 2(2)] by blast
      then obtain kw2 a2 z2 where "first_anchors R C l lo ?b es = Some (kw2, a2, z2)" "a2 \<le> a1"
        using Cons.IH(2) [of ?b ?b] by blast
      with b show ?thesis by auto
    next
      case False
      with 2(1) have "x \<in> insert ?b (first_anchor R C l lo ` set es)" by simp
      with Cons.IH(2) [OF this 2(2)] show ?thesis by simp
    qed }
qed

lemma anchor_word:
  "k < length ws \<Longrightarrow> first_anchor R (word_bank R ws) l lo (QLit k w) =
    (if fl_lower R (ws ! k) = [] then None else map_option (Pair w) (find_lit (fl_lower R (ws ! k)) lo))"
  by (simp add: word_bank_def slot_def)

lemma word_terms: "set (map2 QLit [0..<length ws] ws) = (\<lambda>k. QLit k (ws ! k)) ` {..<length ws}"
  by (auto simp: set_zip image_iff) (metis add_0 nth_upt diff_zero)

text \<open>
  The occurrence of a line is at the first place where one of the words is, whichever word that is.
\<close>

definition first_word_at :: "'r find_lib \<Rightarrow> utext list \<Rightarrow> nat \<times> utext \<Rightarrow> occurrence \<Rightarrow> bool" where
  "first_word_at R ws sp oc =
     (\<exists>w \<in> set ws. \<exists>a z. fl_lower R w \<noteq> [] \<and> find_lit (fl_lower R w) (fl_lower R (snd sp)) = Some (a, z) \<and>
        oc = \<lparr>oc_keyword = w, oc_start = fst sp + a, oc_end = fst sp + z\<rparr> \<and>
        (\<forall>v \<in> set ws. \<forall>b y. fl_lower R v \<noteq> [] \<and> find_lit (fl_lower R v) (fl_lower R (snd sp)) = Some (b, y) \<longrightarrow> a \<le> b))"

lemma occurrence_words:
  assumes e: "joined QConj (map2 QLit [0..<length ws] ws) = Some e" and hit: "0 < word_hits R ws (snd sp)"
  shows "\<exists>oc. occurrence_on R (word_bank R ws) e sp = Some oc \<and> first_word_at R ws sp oc"
proof -
  let ?es = "map2 QLit [0..<length ws] ws" and ?lo = "fl_lower R (snd sp)" and ?C = "word_bank R ws"
  let ?at = "\<lambda>w. if fl_lower R w = [] then None else map_option (Pair w) (find_lit (fl_lower R w) ?lo)"
  have anchors: "first_anchor R ?C (snd sp) ?lo ` set ?es = ?at ` set ws"
  proof -
    have "first_anchor R ?C (snd sp) ?lo (QLit k (ws ! k)) = ?at (ws ! k)" if "k < length ws" for k
      by (rule anchor_word [OF that])
    then have "first_anchor R ?C (snd sp) ?lo ` set ?es = (\<lambda>k. ?at (ws ! k)) ` {..<length ws}"
      unfolding word_terms image_image by (intro image_cong) auto
    also have "\<dots> = ?at ` set ws" by (auto simp: set_conv_nth)
    finally show ?thesis .
  qed
  have fa: "first_anchor R ?C (snd sp) ?lo e = first_anchors R ?C (snd sp) ?lo None ?es"
    using e by (cases ?es rule: remdups_adj.cases) (auto simp: joined_def earlier_def split: option.splits)
  obtain w where w: "w \<in> set ws" "holds_word R (snd sp) w"
    using hit by (auto simp: word_hits_def filter_empty_conv)
  then have "find_lit (fl_lower R w) ?lo \<noteq> None"
    using find_text_occurs [of "fl_lower R w" ?lo] by (auto simp: holds_word_def find_lit_def)
  then obtain p where p: "find_lit (fl_lower R w) ?lo = Some p" by blast
  have "?at w = Some (w, fst p, snd p)" using w p by (simp add: holds_word_def)
  then obtain kw a z where r: "first_anchors R ?C (snd sp) ?lo None ?es = Some (kw, a, z)"
    using first_anchors_least(2) [of "?at w" None R ?C "snd sp" ?lo ?es] w(1) unfolding anchors by blast
  then have "Some (kw, a, z) \<in> ?at ` set ws"
    using first_anchors_least(1) [of R ?C "snd sp" ?lo None ?es] unfolding anchors by auto
  then have kw: "kw \<in> set ws" "fl_lower R kw \<noteq> []" "find_lit (fl_lower R kw) ?lo = Some (a, z)"
    by (auto split: if_splits dest!: sym [of "Some (kw, a, z)"])
  have "a \<le> b" if "v \<in> set ws" "fl_lower R v \<noteq> []" "find_lit (fl_lower R v) ?lo = Some (b, y)" for v b y
  proof -
    have "?at v = Some (v, b, y)" using that by simp
    moreover have "?at v \<in> insert None (?at ` set ws)" using that(1) by (rule insertI2 [OF imageI])
    ultimately obtain kw' a' z' where "first_anchors R ?C (snd sp) ?lo None ?es = Some (kw', a', z')" "a' \<le> b"
      using first_anchors_least(2) [of "?at v" None R ?C "snd sp" ?lo ?es] unfolding anchors by blast
    with r show ?thesis by simp
  qed
  with kw have "first_word_at R ws sp \<lparr>oc_keyword = kw, oc_start = fst sp + a, oc_end = fst sp + z\<rparr>"
    unfolding first_word_at_def by blast
  with r fa show ?thesis by (simp add: occurrence_on_def)
qed


text \<open>The words asked for, then half of them, then any: the number that some line reaches.\<close>

definition hits_wanted :: "'r find_lib \<Rightarrow> utext list \<Rightarrow> utext list \<Rightarrow> nat" where
  "hits_wanted R ws ls =
     (if list_ex (\<lambda>l. length ws \<le> word_hits R ws l) ls then length ws
      else if list_ex (\<lambda>l. (length ws + 1) div 2 \<le> word_hits R ws l) ls then (length ws + 1) div 2
      else 1)"

lemma lines_with_words:
  "lines_with R (word_bank R ws) (length ws) (map (\<lambda>(_, l). (l, fl_lower R l)) spans) t =
    filter (\<lambda>i. t \<le> word_hits R ws (snd (spans ! i))) [0..<length spans]"
  unfolding lines_with_def by (rule filter_cong) (auto simp: count_hits_words case_prod_beta)

lemma some_line: "filter (\<lambda>i. P (snd (spans ! i))) [0..<length spans] \<noteq> [] \<longleftrightarrow> list_ex P (map snd spans)"
  by (auto simp: filter_empty_conv list_ex_iff set_conv_nth)

lemma chosen_nth: "map ((!) xs) (filter (\<lambda>i. P (xs ! i)) [0..<length xs]) = filter P xs"
  by (metis (mono_tags, lifting) comp_apply filter_cong filter_map map_nth)

lemma select_words:
  assumes "ws \<noteq> []"
  shows "select_with_fallback R (map (fl_lower R) ws) (word_bank R ws) (map (\<lambda>(_, l). (l, fl_lower R l)) spans) =
    (let t = hits_wanted R ws (map snd spans); chosen = filter (\<lambda>i. t \<le> word_hits R ws (snd (spans ! i))) [0..<length spans]
     in (chosen,
         if chosen = [] then None else if t = length ws then (if 1 < length ws then Some RelaxAll else None)
         else if t = (length ws + 1) div 2 then Some RelaxHalf else Some RelaxAny))"
proof -
  let ?L = "\<lambda>t. filter (\<lambda>i. t \<le> word_hits R ws (snd (spans ! i))) [0..<length spans]"
  have L: "?L t \<noteq> [] \<longleftrightarrow> list_ex (\<lambda>l. t \<le> word_hits R ws l) (map snd spans)" for t by (rule some_line)
  have n: "0 < length ws" using assms by simp
  then have h: "0 < (length ws + 1) div 2" "(length ws + 1) div 2 < length ws \<or> (length ws + 1) div 2 = length ws" by linarith+
  consider (all) "?L (length ws) \<noteq> []"
    | (half) "?L (length ws) = []" "?L ((length ws + 1) div 2) \<noteq> []"
    | (any) "?L (length ws) = []" "?L ((length ws + 1) div 2) = []" by blast
  then show ?thesis
  proof cases
    case all
    with L have "hits_wanted R ws (map snd spans) = length ws" by (simp add: hits_wanted_def)
    with all n show ?thesis unfolding select_with_fallback_def length_map lines_with_words Let_def by simp
  next
    case half
    with L have "hits_wanted R ws (map snd spans) = (length ws + 1) div 2" by (auto simp: hits_wanted_def)
    moreover have "(length ws + 1) div 2 < length ws" using half h by auto
    ultimately show ?thesis using half n unfolding select_with_fallback_def length_map lines_with_words Let_def by simp
  next
    case any
    with L have "hits_wanted R ws (map snd spans) = 1" by (auto simp: hits_wanted_def)
    moreover have "?L 1 \<noteq> [] \<Longrightarrow> 1 \<noteq> length ws \<and> 1 \<noteq> (length ws + 1) div 2" using any by metis
    ultimately show ?thesis using any n unfolding select_with_fallback_def length_map lines_with_words Let_def by auto
  qed
qed




text \<open>Three words, of which no line holds all: the line with two of them is the answer.\<close>

lemma three_words_trimmed: "utrim_with (fl_white spaced_find) (chars ''b c d'') = [98, 32, 99, 32, 100]"
  by (simp add: utrim_with_def spaced_find_def chars_def)

lemma three_words_plain: "plain_text (fl_white spaced_find) (utrim_with (fl_white spaced_find) (chars ''b c d''))"
  unfolding three_words_trimmed by (simp add: plain_text_def special_def)

lemma three_words_split:
  "split_whitespace (fl_white spaced_find) (utrim_with (fl_white spaced_find) (chars ''b c d'')) = [[98], [99], [100]]"
  unfolding three_words_trimmed by (simp add: split_whitespace.simps spaced_find_def)

lemma three_words_classified: "\<forall>w \<in> set [[98], [99], [100]]. classify_word w = QWord w"
  by (simp add: classify_word_def chars_def)

lemma three_words_lines: "line_spans 0 [] [98, 10, 97, 99, 98] = [(0, [98]), (2, [97, 99, 98])]"
  by (simp add: utf8_length_def utf8_width_def)

lemma spaced_lower: "fl_lower spaced_find = id"
  by (simp add: spaced_find_def plain_find_def)

lemma three_words_hits:
  "word_hits spaced_find [[98], [99], [100]] [98] = 1" "word_hits spaced_find [[98], [99], [100]] [97, 99, 98] = 2"
  by (simp_all add: word_hits_def holds_word_def spaced_find_def plain_find_def)


end
