(* ===== verification/Spec2Isabelle.thy ===== *)
theory Spec2Isabelle
  imports Tunnel Automation_Ticker Calc_Properties Message_Delivery Session_Properties
    Reflect_Properties Gmail_Calendar Gmail_Name_Properties Gmail_Resource_Properties
    Google_Properties Drive_Tree Doc_Query_Properties
begin

text \<open>
  A verification library for agent-k: a server that runs language-model agents on a user's
  workspaces. All paths below are under \<^verbatim>\<open>src/\<close>.

  \<^bold>\<open>The program.\<close> A workspace is a tree of files made of mounts: a local directory and remote
  providers (Google Drive, Gmail, Notion, S3), each behind one trait \<^verbatim>\<open>Resource\<close> and, when it is
  remote, behind a cache (\<^verbatim>\<open>workspace/src/vfs\<close>). \<^verbatim>\<open>WorkspaceFs\<close> routes a path to its mount; a
  tunnel serves the same tree to the sandbox an agent runs in, over FUSE messages on a socket. The
  backend (\<^verbatim>\<open>backend/src\<close>) keeps users, workspaces, sessions and their messages in SQLite. A prompt
  to a session starts a run: a task polls the agent library, stores each message the agent
  produces and publishes events that HTTP clients follow as a stream. Automations are prompts with
  triggers (cron, webhook, manual): a ticker fires the due triggers into queued runs and workers
  claim and execute them, under leases, with bounded retries. The agents
  (\<^verbatim>\<open>agent-k/src\<close>, \<^verbatim>\<open>reflect-agent/src\<close>) are built from the agent library (ailoy, not in the
  repository) and tools of their own, of which the calculator is the one with an algorithm in it.

  \<^bold>\<open>The theories, in the order of the code.\<close>

  \<^item> \<^theory_text>\<open>Prelude\<close>: results (\<open>Inl\<close> is \<^verbatim>\<open>Err\<close>, \<open>Inr\<close> is \<^verbatim>\<open>Ok\<close>), bytes, integer widths, the string
    operations of Rust's library, and the collections of rewrite rules. A Rust \<^verbatim>\<open>str\<close> is its
    UTF-8 bytes, and a HOL \<open>char\<close> is a byte.
  \<^item> \<^theory_text>\<open>Mount_Path\<close> (\<^verbatim>\<open>workspace/src/vfs/path.rs\<close>) and \<^theory_text>\<open>Resource_Api\<close> (\<^verbatim>\<open>vfs/resource/base.rs\<close>,
    \<^verbatim>\<open>vfs/error.rs\<close>): the mount-relative path; the trait as a record of methods that pass the
    provider's state; the interface \<open>file_store\<close>, a store of plain files, as a locale.
  \<^item> \<^theory_text>\<open>Index_Cache\<close>, \<^theory_text>\<open>Content_Cache\<close>, \<^theory_text>\<open>Cached_Resource\<close> (\<^verbatim>\<open>vfs/cache.rs\<close>): the metadata index
    with its expiry, the content cache with its versions, budget and eviction, and the provider
    that wraps another with both. \<open>listing_index\<close> and \<open>content_store\<close> are the interfaces by which
    \<^theory_text>\<open>Cached_Resource\<close> uses them. The properties: a listing is served back until it expires; eviction is
    least-recently-used and bounded; what a cached read returns is the content of the version the
    provider last reported; a mutation leaves nothing stale behind.
  \<^item> \<^theory_text>\<open>Local_Resource\<close> (\<^verbatim>\<open>vfs/resource/local.rs\<close>): the disk is a map from absolute paths to nodes
    and the \<^verbatim>\<open>std::fs\<close> calls are modelled with their POSIX errors. It implements \<open>file_store\<close>.
    The properties: containment in the mount's root, renames, and a rename that loses a file.
  \<^item> \<^theory_text>\<open>Workspace_Fs\<close> (\<^verbatim>\<open>fs.rs\<close>, \<^verbatim>\<open>hook.rs\<close>, \<^verbatim>\<open>vfs/mount.rs\<close>, \<^verbatim>\<open>vfs/sandbox/fwdfs.rs\<close>): the mount
    table and its routing, open files with their buffers and cursors, every operation of
    \<^verbatim>\<open>WorkspaceFs\<close>, the change events, and the surface the tunnel calls.
  \<^item> \<^theory_text>\<open>Tunnel\<close> (\<^verbatim>\<open>vfs/sandbox/tunnel.rs\<close>): the token handshake with its byte budget, the
    framing of FUSE messages in both directions, the inode table under concurrent lookups (its
    locks are the atomic steps), and the replies of the read path.
  \<^item> \<^theory_text>\<open>Model_Catalog\<close> (\<^verbatim>\<open>backend/src/model/llm.rs\<close>): which model a session runs on.
  \<^item> \<^theory_text>\<open>Backend_Types\<close> (\<^verbatim>\<open>backend/src/state/mod.rs\<close>, errors) and \<^theory_text>\<open>Cron_Schedule\<close>
    (\<^verbatim>\<open>backend/src/cron.rs\<close>): schedules over a cron engine that is a parameter with the law that it
    finds the least next instant.
  \<^item> \<^theory_text>\<open>Automation_Store\<close> (\<^verbatim>\<open>backend/src/state/automation.rs\<close>): the tables as lists of rows
    with the schema's constraints, and every query and transaction on them.
    \<^theory_text>\<open>Automation_Invariants\<close>, \<^theory_text>\<open>Automation_Lifecycle\<close>, \<^theory_text>\<open>Automation_Behaviour\<close> and
    \<^theory_text>\<open>Automation_Recovery\<close> take the committed transactions as the steps of a transition system:
    the integrity of the tables, the state machine of a run, claiming, disabling, firing, retrying
    and reaping.
  \<^item> \<^theory_text>\<open>Automation_Worker\<close>, \<^theory_text>\<open>Automation_Runtime\<close>, \<^theory_text>\<open>Automation_Ticker\<close>
    (\<^verbatim>\<open>backend/src/worker.rs\<close>): any number of workers, their heartbeats, the reaper and the ticker
    interleaved at their transactions; the sequential pass of a worker refines that system; the
    bound on attempts; the ticker fires each due trigger once.
  \<^item> \<^theory_text>\<open>Calc_Tokens\<close>, \<^theory_text>\<open>Calc_Parse\<close>, \<^theory_text>\<open>Calc_Grammar\<close>, \<^theory_text>\<open>Calc_Properties\<close>
    (\<^verbatim>\<open>agent-k/src/agents/speedwagon/tool/calculate.rs\<close>): the tokenizer, the recursive-descent
    evaluator, a grammar of arithmetic as an inductive relation, and the equivalence of the two.
  \<^item> \<^theory_text>\<open>Chat_Store\<close> (\<^verbatim>\<open>backend/src/event.rs\<close> and the messages of
    \<^verbatim>\<open>backend/src/state/session.rs\<close>), \<^theory_text>\<open>Message_Stream\<close> and \<^theory_text>\<open>Message_Delivery\<close>
    (\<^verbatim>\<open>backend/src/router/message.rs\<close>): the broadcast channel with lagging and closing receivers,
    the message table, and the stream of a client, interleaved with all that writes and publishes.
    The property: each message once and in order.
  \<^item> \<^theory_text>\<open>Agent_Stream\<close> (\<^verbatim>\<open>backend/src/agent_stream.rs\<close>), \<^theory_text>\<open>Session_Run\<close>, \<^theory_text>\<open>Session_Trace\<close> and
    \<^theory_text>\<open>Session_Properties\<close> (the runs of \<^verbatim>\<open>backend/src/state/session.rs\<close>): the task of a run over
    any sequence of things its stream yields, the events it publishes and the rows it stores.
  \<^item> \<^theory_text>\<open>Verify_Citations\<close>, \<^theory_text>\<open>Verify_Report\<close>, \<^theory_text>\<open>Verify_Properties\<close>
    (\<^verbatim>\<open>reflect-agent/src/verify.rs\<close>): the checks made on an answer before it is given: loops, failed
    tools, times and citations that no tool output holds. The regular expression of the citations is
    written out as a matcher. \<^theory_text>\<open>Reflect_Gate\<close>, \<^theory_text>\<open>Reflect_Properties\<close> (\<^verbatim>\<open>reflect-agent/src/reflect.rs\<close>,
    \<^verbatim>\<open>agent.rs\<close>): the judges, their verdicts, and the run that they may send back.
  \<^item> \<^theory_text>\<open>Gmail_Names\<close>, \<^theory_text>\<open>Gmail_Calendar\<close>, \<^theory_text>\<open>Gmail_Name_Properties\<close>, \<^theory_text>\<open>Gmail_Message\<close>
    (\<^verbatim>\<open>workspace/src/vfs/resource/gmail.rs\<close>): the names of messages and attachments, the civil
    calendar, and what is made of a message. \<^theory_text>\<open>Gmail_Mirror\<close>, \<^theory_text>\<open>Gmail_Mirror_Paths\<close>,
    \<^theory_text>\<open>Gmail_Mirror_Effects\<close>, \<^theory_text>\<open>Gmail_Sync\<close> (\<^verbatim>\<open>resource/gmail_sync.rs\<close>): the mirror of a mailbox
    on a disk, and its full and incremental sync. \<^theory_text>\<open>Gmail_Resource\<close>,
    \<^theory_text>\<open>Gmail_Resource_Properties\<close>: the provider over that mirror, with its trash call and the commands
    that send.
  \<^item> \<^theory_text>\<open>Google_Client\<close>, \<^theory_text>\<open>Google_Calls\<close>, \<^theory_text>\<open>Google_Properties\<close> (\<^verbatim>\<open>vfs/accessor/gmail.rs\<close>,
    \<^verbatim>\<open>accessor/gdrive.rs\<close>): tokens, retries with their waits, paging and batches, over any wire.
  \<^item> \<^theory_text>\<open>Drive_Names\<close>, \<^theory_text>\<open>Drive_Resource\<close>, \<^theory_text>\<open>Drive_Properties\<close>, \<^theory_text>\<open>Drive_Tree\<close>
    (\<^verbatim>\<open>resource/gdrive.rs\<close>): the tree of a Google Drive, whose names are made distinct, the cache of
    its listings, spreadsheets folded into JSON, and an abstract tree that the cached operations
    refine. The numbering of names is an instance of the locale \<open>fresh_names\<close> of \<^theory_text>\<open>Prelude\<close>.
  \<^item> \<^theory_text>\<open>Doc_Query\<close>, \<^theory_text>\<open>Doc_Query_Properties\<close> (\<^verbatim>\<open>agent-k/src/knowledge_base/document.rs\<close>): the query
    language on a document, its pages, and the fallback for bare words.

  \<^bold>\<open>How state and effects are modelled.\<close> A struct is a record and a method on it a function that
  returns the updated record; a trait object is a record of functions. Concurrent tasks are steps
  of an inductive relation, cut where the code awaits or releases a lock, and a transaction of the
  database is one step. Unsigned integers are naturals with the width's bound, saturation or
  wrap-around written out where it can be reached, and words in the framing and the calculator.

  \<^bold>\<open>Loops and fuel.\<close> The eviction loop, the copying and paging loops, the grammar's recursion and
  the cron preview terminate by measures. \<^verbatim>\<open>read_loop\<close> takes fuel, one unit for a byte wanted, and
  the theorems show that it is enough. The attempt query follows the chain of retries with fuel for
  each row of the table, which \<^theory_text>\<open>Automation_Recovery\<close> shows is enough in
  every store in good order. The parser of document queries
  takes four units for a token, which \<^theory_text>\<open>Doc_Query_Properties\<close> shows is enough, and a client that follows
  the cursor one call for an occurrence and one more. The listings and the journal of Gmail, whose
  paging has no cap in the code, are given as many pages as the caller wishes. The sequences of
  steps of the concurrent systems are finite but arbitrary.

  \<^bold>\<open>Parameters.\<close> Fresh identifiers, the clock, random tokens and hashes, the operations and the
  text form of \<^verbatim>\<open>f64\<close>, the Unicode tables, the cron engine and the time zones, what an agent yields
  and how its deltas are assembled (ailoy), and a remote provider behind its trait are arguments;
  what the code relies on is a named hypothesis of the theorem, discharged in its witness by a
  concrete function. The broadcast channel follows tokio's documented behaviour, the disk POSIX.

  \<^bold>\<open>Not modelled.\<close> Sockets, HTTP shapes, JSON text and SQL text; the providers
  for Notion and S3; the creation of sandboxes; authentication, whose core is in libraries (JWT,
  Argon2); the search index and the embedding of the knowledge base, which are libraries too;
  \<^verbatim>\<open>docling-sys\<close>, a binding; \<^verbatim>\<open>backend-v1\<close>, the server that \<^verbatim>\<open>backend\<close> supersedes; the front end
  in \<^verbatim>\<open>app\<close> and the test cases. The manifest lists each with its reason.
\<close>

end
